(* ===== verification/Cpp_Prelude.thy ===== *)
theory Cpp_Prelude
  imports Main "HOL-Library.AList" "HOL-Library.Char_ord" "HOL-Library.List_Lexorder"
begin

text \<open>
  What every component of the server shares: the exceptions the C++ code throws and the result
  type that carries them, the operations of \<^verbatim>\<open>std::string\<close> the code calls (a string is the
  list of its bytes), decimal rendering, and the two standard maps. \<^verbatim>\<open>std::map\<close> is iterated in key
  order by the code, so it is an association list kept sorted; a \<^verbatim>\<open>std::unordered_map\<close> whose size
  or entries matter is an association list with distinct keys. The locale \<open>keyed_map\<close> states
  what the code relies on of both, and both are interpretations of it.
\<close>

named_theorems str_simps \<open>facts on the string operations\<close>
named_theorems map_simps \<open>facts on the two map representations\<close>

section \<open>Exceptions and results\<close>

text \<open>One constructor per class the code throws; the argument is what \<^verbatim>\<open>what()\<close> returns.\<close>

datatype cpp_exn =
    Runtime_error string
  | Invalid_argument string
  | Out_of_range string
  | Length_error string
  | Logic_error string
  | Overflow_error string
  | Db_exception string
  | Json_exception string
  | Resource_error nat string

fun what :: "cpp_exn \<Rightarrow> string" where
  "what (Runtime_error m) = m"
| "what (Invalid_argument m) = m"
| "what (Out_of_range m) = m"
| "what (Length_error m) = m"
| "what (Logic_error m) = m"
| "what (Overflow_error m) = m"
| "what (Db_exception m) = m"
| "what (Json_exception m) = m"
| "what (Resource_error _ m) = m"

type_synonym 'a result = "cpp_exn + 'a"

abbreviation throw :: "cpp_exn \<Rightarrow> 'a result" where
  "throw e \<equiv> Inl e"

abbreviation return :: "'a \<Rightarrow> 'a result" where
  "return x \<equiv> Inr x"

definition bind_result :: "'a result \<Rightarrow> ('a \<Rightarrow> 'b result) \<Rightarrow> 'b result" where
  "bind_result r f = (case r of Inl e \<Rightarrow> Inl e | Inr x \<Rightarrow> f x)"

lemma bind_result_simps [simp]:
  "bind_result (Inl e) f = Inl e"
  "bind_result (Inr x) f = f x"
  by (simp_all add: bind_result_def)

text \<open>A computation that may also be undefined behaviour in the source: \<open>None\<close> is undefined.\<close>

type_synonym 'a checked = "'a result option"

definition bind_checked :: "'a checked \<Rightarrow> ('a \<Rightarrow> 'b checked) \<Rightarrow> 'b checked" where
  "bind_checked r f = (case r of None \<Rightarrow> None | Some (Inl e) \<Rightarrow> Some (Inl e) | Some (Inr x) \<Rightarrow> f x)"

lemma bind_checked_simps [simp]:
  "bind_checked None f = None"
  "bind_checked (Some (Inl e)) f = Some (Inl e)"
  "bind_checked (Some (Inr x)) f = f x"
  by (simp_all add: bind_checked_def)

lemma bind_result_Inr:
  "bind_result r f = Inr y \<longleftrightarrow> (\<exists>x. r = Inr x \<and> f x = Inr y)"
  by (cases r) auto

lemma bind_checked_Inr:
  "bind_checked r f = Some (Inr y) \<longleftrightarrow> (\<exists>x. r = Some (Inr x) \<and> f x = Some (Inr y))"
  by (auto simp: bind_checked_def split: option.splits sum.splits)

lemma bind_checked_None:
  "bind_checked r f = None \<longleftrightarrow> r = None \<or> (\<exists>x. r = Some (Inr x) \<and> f x = None)"
  by (auto simp: bind_checked_def split: option.splits sum.splits)

section \<open>Bytes and characters\<close>

text \<open>The value of a byte of a string, as an \<^verbatim>\<open>unsigned char\<close>.\<close>

abbreviation byte_of :: "char \<Rightarrow> nat" where
  "byte_of c \<equiv> of_char c"

abbreviation CR :: char where "CR \<equiv> CHR 0x0D"
abbreviation LF :: char where "LF \<equiv> CHR 0x0A"
abbreviation TAB :: char where "TAB \<equiv> CHR 0x09"
abbreviation SP :: char where "SP \<equiv> CHR '' ''"

abbreviation crlf :: string where "crlf \<equiv> [CR, LF]"

lemma byte_of_less: "byte_of c < 256"
  by (metis of_char_mod_256 mod_less_divisor zero_less_numeral)

definition is_digit :: "char \<Rightarrow> bool" where
  "is_digit c \<longleftrightarrow> 48 \<le> byte_of c \<and> byte_of c \<le> 57"

definition is_upper :: "char \<Rightarrow> bool" where
  "is_upper c \<longleftrightarrow> 65 \<le> byte_of c \<and> byte_of c \<le> 90"

definition is_lower :: "char \<Rightarrow> bool" where
  "is_lower c \<longleftrightarrow> 97 \<le> byte_of c \<and> byte_of c \<le> 122"

text \<open>The loop \<^verbatim>\<open>if (ch >= 'A' && ch <= 'Z') ch += 'a' - 'A'\<close> that several functions run.\<close>

definition to_lower :: "char \<Rightarrow> char" where
  "to_lower c = (if is_upper c then char_of (byte_of c + 32) else c)"

abbreviation lower :: "string \<Rightarrow> string" where
  "lower \<equiv> map to_lower"

lemma byte_of_to_lower:
  "byte_of (to_lower c) = (if is_upper c then byte_of c + 32 else byte_of c)"
  by (simp add: to_lower_def is_upper_def)

lemma to_lower_not_upper [simp]: "\<not> is_upper (to_lower c)"
  using byte_of_to_lower [of c] by (auto simp: is_upper_def split: if_splits)

lemma to_lower_idem [simp]: "to_lower (to_lower c) = to_lower c"
  by (simp add: to_lower_def [of "to_lower c"])

lemma lower_lower [simp]: "lower (lower s) = lower s"
  by simp

section \<open>Operations of std::string\<close>

text \<open>
  \<^verbatim>\<open>std::find(begin, end, c)\<close> as a distance from \<^verbatim>\<open>begin\<close>: the length of the range when the
  character does not occur.
\<close>

definition std_find :: "char \<Rightarrow> string \<Rightarrow> nat" where
  "std_find c s = length (takeWhile (\<lambda>x. x \<noteq> c) s)"

text \<open>\<^verbatim>\<open>s.find(c)\<close>: \<open>None\<close> is \<^verbatim>\<open>npos\<close>.\<close>

definition find_char :: "char \<Rightarrow> string \<Rightarrow> nat option" where
  "find_char c s = (if std_find c s < length s then Some (std_find c s) else None)"

text \<open>\<^verbatim>\<open>s.find(t)\<close>: the least position at which \<open>t\<close> occurs.\<close>

fun find_str :: "string \<Rightarrow> string \<Rightarrow> nat option" where
  "find_str t [] = (if t = [] then Some 0 else None)"
| "find_str t (c # s) =
     (if take (length t) (c # s) = t then Some 0 else map_option Suc (find_str t s))"

text \<open>\<^verbatim>\<open>s.substr(pos, n)\<close> for a position inside the string.\<close>

definition substr :: "nat \<Rightarrow> nat \<Rightarrow> string \<Rightarrow> string" where
  "substr pos n s = take n (drop pos s)"

text \<open>Dropping the given characters at both ends (\<^verbatim>\<open>find_first_not_of\<close>, \<^verbatim>\<open>find_last_not_of\<close>).\<close>

definition trim_chars :: "char list \<Rightarrow> string \<Rightarrow> string" where
  "trim_chars cs s =
     rev (dropWhile (\<lambda>c. c \<in> set cs) (rev (dropWhile (\<lambda>c. c \<in> set cs) s)))"

text \<open>\<^verbatim>\<open>std::to_string\<close> of an unsigned value.\<close>

fun to_string :: "nat \<Rightarrow> string" where
  "to_string n = (if n < 10 then [char_of (48 + n)]
                  else to_string (n div 10) @ [char_of (48 + n mod 10)])"

declare to_string.simps [simp del]

text \<open>\<^verbatim>\<open>std::to_string\<close> of a signed value.\<close>

definition to_string_int :: "int \<Rightarrow> string" where
  "to_string_int i = (if i < 0 then CHR ''-'' # to_string (nat (- i)) else to_string (nat i))"

definition digit_val :: "char \<Rightarrow> nat" where
  "digit_val c = byte_of c - 48"

text \<open>The value of a string of decimal digits, most significant first.\<close>

definition decimal :: "string \<Rightarrow> nat" where
  "decimal s = foldl (\<lambda>n c. n * 10 + digit_val c) 0 s"

lemma decimal_Nil [simp]: "decimal [] = 0"
  by (simp add: decimal_def)

lemma decimal_snoc [simp]: "decimal (s @ [c]) = decimal s * 10 + digit_val c"
  by (simp add: decimal_def)

lemma digit_char [simp]: "n < 10 \<Longrightarrow> is_digit (char_of (48 + n :: nat))"
  by (simp add: is_digit_def)

lemma digit_val_char [simp]: "n < 10 \<Longrightarrow> digit_val (char_of (48 + n :: nat)) = n"
  by (simp add: digit_val_def)

lemma to_string_digits: "list_all is_digit (to_string n)"
proof (induction n rule: to_string.induct)
  case (1 n)
  then show ?case
    by (cases "n < 10") (simp_all add: to_string.simps [of n])
qed

lemma to_string_nonempty [simp]: "to_string n \<noteq> []"
  by (subst to_string.simps) simp

lemma decimal_to_string [simp]: "decimal (to_string n) = n"
proof (induction n rule: to_string.induct)
  case (1 n)
  show ?case
  proof (cases "n < 10")
    case True
    then have "decimal (to_string n) = decimal ([] @ [char_of (48 + n)])"
      by (simp add: to_string.simps [of n])
    with True show ?thesis by (simp only: decimal_snoc) simp
  next
    case False
    with 1 show ?thesis by (simp add: to_string.simps [of n])
  qed
qed

lemma to_string_inject [simp]: "to_string m = to_string n \<longleftrightarrow> m = n"
  by (metis decimal_to_string)

subsection \<open>Searching\<close>

lemma std_find_le: "std_find c s \<le> length s"
  by (simp add: std_find_def length_takeWhile_le)

lemma std_find_less: "std_find c s < length s \<longleftrightarrow> c \<in> set s"
  by (induction s) (auto simp: std_find_def)

lemma std_find_nth: "c \<in> set s \<Longrightarrow> s ! std_find c s = c"
  by (induction s) (auto simp: std_find_def)

lemma std_find_eq_takeWhile: "take (std_find c s) s = takeWhile (\<lambda>x. x \<noteq> c) s"
  by (metis std_find_def takeWhile_eq_take)

lemma not_in_take_std_find: "c \<notin> set (take (std_find c s) s)"
  unfolding std_find_eq_takeWhile by (auto dest: set_takeWhileD)

lemma std_find_append:
  "std_find c (s @ t) = (if c \<in> set s then std_find c s else length s + std_find c t)"
  by (auto simp: std_find_def takeWhile_append)

lemma std_find_notin: "c \<notin> set s \<Longrightarrow> std_find c s = length s"
  using std_find_less [of c s] std_find_le [of c s] by simp

lemma split_at_char:
  "c \<in> set s \<Longrightarrow> s = take (std_find c s) s @ c # drop (Suc (std_find c s)) s"
  using std_find_less std_find_nth id_take_nth_drop by metis

lemma find_char_Some:
  "find_char c s = Some i \<longleftrightarrow> c \<in> set s \<and> i = std_find c s"
  by (auto simp: find_char_def std_find_less)

lemma find_char_None: "find_char c s = None \<longleftrightarrow> c \<notin> set s"
  by (simp add: find_char_def std_find_less)

lemmas [str_simps] = std_find_append find_char_Some find_char_None std_find_notin

lemma find_str_Some_take:
  "find_str t s = Some i \<Longrightarrow> i + length t \<le> length s \<and> take (length t) (drop i s) = t"
proof (induction s arbitrary: i)
  case Nil
  then show ?case by (auto split: if_splits)
next
  case (Cons c s)
  show ?case
  proof (cases "take (length t) (c # s) = t")
    case True
    with Cons.prems have "i = 0" by simp
    moreover have "length t \<le> length (c # s)"
      using True by (metis length_take min.cobounded1)
    ultimately show ?thesis using True by simp
  next
    case False
    with Cons.prems obtain j where "find_str t s = Some j" "i = Suc j" by auto
    with Cons.IH [of j] show ?thesis by simp
  qed
qed

lemma find_str_first:
  "find_str t s = Some i \<Longrightarrow> j < i \<Longrightarrow> take (length t) (drop j s) \<noteq> t"
proof (induction s arbitrary: i j)
  case Nil
  then show ?case by (auto split: if_splits)
next
  case (Cons c s)
  show ?case
  proof (cases "take (length t) (c # s) = t")
    case True
    with Cons.prems show ?thesis by simp
  next
    case False
    with Cons.prems(1) obtain k where k: "find_str t s = Some k" "i = Suc k" by auto
    with False Cons.IH [OF k(1)] Cons.prems(2) show ?thesis by (cases j) auto
  qed
qed

lemma find_str_None: "find_str t s = None \<Longrightarrow> take (length t) (drop j s) \<noteq> t"
proof (induction s arbitrary: j)
  case Nil
  then show ?case by (auto split: if_splits)
next
  case (Cons c s)
  then show ?case by (cases j) (auto split: if_splits)
qed

lemma find_str_present: "find_str t (u @ t @ w) \<noteq> None"
  using find_str_None [of t "u @ t @ w" "length u"] by auto

section \<open>Maps\<close>

text \<open>
  The contract of a map as the code uses it: \<^verbatim>\<open>m[k] = v\<close>, \<^verbatim>\<open>m.erase(k)\<close>, \<^verbatim>\<open>m.find(k)\<close> and \<^verbatim>\<open>m.size()\<close>,
  over a representation invariant.
\<close>

locale keyed_map =
  fixes put :: "'k \<Rightarrow> 'v \<Rightarrow> 'm \<Rightarrow> 'm"
    and del :: "'k \<Rightarrow> 'm \<Rightarrow> 'm"
    and get :: "'m \<Rightarrow> 'k \<Rightarrow> 'v option"
    and count :: "'m \<Rightarrow> nat"
    and ok :: "'m \<Rightarrow> bool"
  assumes get_put: "ok m \<Longrightarrow> get (put k v m) = (get m)(k \<mapsto> v)"
    and get_del: "ok m \<Longrightarrow> get (del k m) = (get m)(k := None)"
    and ok_put: "ok m \<Longrightarrow> ok (put k v m)"
    and ok_del: "ok m \<Longrightarrow> ok (del k m)"
    and count_dom: "ok m \<Longrightarrow> count m = card (dom (get m))"
    and finite_dom: "ok m \<Longrightarrow> finite (dom (get m))"
begin

definition puts :: "('k \<times> 'v) list \<Rightarrow> 'm \<Rightarrow> 'm" where
  "puts kvs m = foldl (\<lambda>m (k, v). put k v m) m kvs"

lemma ok_puts: "ok m \<Longrightarrow> ok (puts kvs m)"
  unfolding puts_def by (induction kvs arbitrary: m) (auto simp: ok_put)

text \<open>A sequence of assignments keeps the last one for each key.\<close>

lemma get_puts: "ok m \<Longrightarrow> get (puts kvs m) = get m ++ map_of (rev kvs)"
  unfolding puts_def
proof (induction kvs arbitrary: m)
  case Nil
  then show ?case by simp
next
  case (Cons kv kvs)
  obtain k v where kv: "kv = (k, v)" by (cases kv)
  with Cons show ?case by (auto simp: ok_put get_put map_add_def fun_eq_iff split: option.splits)
qed

lemma count_put:
  "ok m \<Longrightarrow> count (put k v m) = (if get m k = None then Suc (count m) else count m)"
  using finite_dom [of m] by (auto simp: count_dom ok_put get_put insert_absorb domIff)

lemma count_del:
  "ok m \<Longrightarrow> count (del k m) = (if get m k = None then count m else count m - 1)"
  using finite_dom [of m] by (auto simp: count_dom ok_del get_del domIff)

end

subsection \<open>std::map\<close>

text \<open>Entries in the order of their keys; strings are ordered as \<^verbatim>\<open>std::string::compare\<close> does.\<close>

type_synonym ('k, 'v) smap = "('k \<times> 'v) list"

fun smap_put :: "'k::linorder \<Rightarrow> 'v \<Rightarrow> ('k, 'v) smap \<Rightarrow> ('k, 'v) smap" where
  "smap_put k v [] = [(k, v)]"
| "smap_put k v ((k', v') # m) =
     (if k < k' then (k, v) # (k', v') # m
      else if k = k' then (k, v) # m
      else (k', v') # smap_put k v m)"

definition smap_del :: "'k::linorder \<Rightarrow> ('k, 'v) smap \<Rightarrow> ('k, 'v) smap" where
  "smap_del k m = filter (\<lambda>e. fst e \<noteq> k) m"

definition smap_ok :: "('k::linorder, 'v) smap \<Rightarrow> bool" where
  "smap_ok m \<longleftrightarrow> sorted_wrt (<) (map fst m)"

lemma set_smap_put: "fst ` set (smap_put k v m) = insert k (fst ` set m)"
  by (induction k v m rule: smap_put.induct) auto

lemma smap_ok_Nil [simp]: "smap_ok []"
  by (simp add: smap_ok_def)

lemma smap_ok_Cons: "smap_ok (e # m) \<longleftrightarrow> (\<forall>x\<in>set m. fst e < fst x) \<and> smap_ok m"
  by (auto simp: smap_ok_def)

lemma smap_ok_put: "smap_ok m \<Longrightarrow> smap_ok (smap_put k v m)"
proof (induction k v m rule: smap_put.induct)
  case (2 k v k' v' m)
  then have IH: "\<not> k < k' \<Longrightarrow> k \<noteq> k' \<Longrightarrow> smap_ok (smap_put k v m)"
    by (simp add: smap_ok_Cons)
  have "fst x = k \<or> fst x \<in> fst ` set m" if "x \<in> set (smap_put k v m)" for x
    using that set_smap_put [of k v m] by blast
  with 2 IH show ?case by (force simp: smap_ok_Cons)
qed (simp add: smap_ok_def)

lemma smap_distinct: "smap_ok m \<Longrightarrow> distinct (map fst m)"
  by (simp add: smap_ok_def strict_sorted_iff)

lemma map_of_smap_put: "smap_ok m \<Longrightarrow> map_of (smap_put k v m) = (map_of m)(k \<mapsto> v)"
proof (induction k v m rule: smap_put.induct)
  case (2 k v k' v' m)
  then show ?case by (auto simp: smap_ok_Cons fun_eq_iff)
qed simp

lemma map_of_smap_del: "map_of (smap_del k m) = (map_of m)(k := None)"
  by (induction m) (auto simp: smap_del_def fun_eq_iff)

lemma smap_ok_del: "smap_ok m \<Longrightarrow> smap_ok (smap_del k m)"
  by (induction m) (auto simp: smap_del_def smap_ok_Cons)

interpretation smap: keyed_map smap_put smap_del map_of length smap_ok
proof
  fix m :: "('a::linorder, 'b) smap"
  assume "smap_ok m"
  then show "length m = card (dom (map_of m))"
    by (metis dom_map_of_conv_image_fst length_map distinct_card smap_distinct set_map)
qed (auto simp: map_of_smap_put map_of_smap_del smap_ok_put smap_ok_del finite_dom_map_of)

subsection \<open>std::unordered_map\<close>

text \<open>Distinct keys, in no particular order.\<close>

type_synonym ('k, 'v) umap = "('k \<times> 'v) list"

definition umap_ok :: "('k, 'v) umap \<Rightarrow> bool" where
  "umap_ok m \<longleftrightarrow> distinct (map fst m)"

lemma umap_ok_Nil [simp]: "umap_ok []"
  by (simp add: umap_ok_def)

lemma umap_ok_filter: "umap_ok m \<Longrightarrow> umap_ok (filter P m)"
  by (simp add: umap_ok_def distinct_map_filter)

lemma map_of_filter_umap:
  "umap_ok m \<Longrightarrow>
     map_of (filter (\<lambda>e. P (fst e) (snd e)) m) k =
       (case map_of m k of None \<Rightarrow> None | Some v \<Rightarrow> if P k v then Some v else None)"
proof (induction m)
  case Nil
  then show ?case by simp
next
  case (Cons e m)
  obtain k' v' where e: "e = (k', v')" by (cases e)
  from Cons.prems e have ok: "umap_ok m" and fresh: "k' \<notin> fst ` set m"
    by (auto simp: umap_ok_def)
  have "map_of m k' = None" using fresh by (simp add: map_of_eq_None_iff)
  moreover have "map_of (filter (\<lambda>e. P (fst e) (snd e)) m) k' = None"
    using fresh by (auto simp: map_of_eq_None_iff)
  ultimately show ?case using Cons.IH [OF ok] e by auto
qed

interpretation umap: keyed_map AList.update AList.delete map_of length umap_ok
proof
  fix m :: "('a, 'b) umap"
  assume "umap_ok m"
  then show "length m = card (dom (map_of m))"
    unfolding umap_ok_def
    by (metis dom_map_of_conv_image_fst length_map distinct_card set_map)
qed (auto simp: umap_ok_def update_conv' delete_conv' distinct_update distinct_delete finite_dom_map_of)

lemmas [map_simps] = map_of_smap_put map_of_smap_del smap_ok_put smap_ok_del
  umap.get_put umap.get_del umap.ok_put umap.ok_del umap_ok_filter map_of_filter_umap

end
