(* ===== verification/Http_Request.thy ===== *)
theory Http_Request
  imports Cpp_Prelude "HOL-Library.Word"
begin

text \<open>
  \<^verbatim>\<open>HttpServer/include/http/HttpRequest.h\<close> and \<^verbatim>\<open>HttpServer/src/http/HttpRequest.cpp\<close>: the request
  object the parser fills and the handlers read. A byte range \<^verbatim>\<open>[start, end)\<close> of the source is the
  string of its bytes. The invariant \<open>request_ok\<close> says what the rest of the server relies
  on: header names are non-empty lower-case tokens, header values hold no control character, each
  name has one entry.
\<close>

section \<open>Data\<close>

datatype http_method = kInvalid | kGet | kPost | kHead | kPut | kDelete | kOptions

type_synonym timestamp = int

record http_request =
  req_method :: http_method
  req_version :: string
  req_path :: string
  req_pathParameters :: "(string, string) umap"
  req_queryParameters :: "(string, string) umap"
  req_receiveTime :: timestamp
  req_headers :: "(string, string) smap"
  req_content :: string
  req_contentLength :: "64 word"
  req_connection :: "nat option"

text \<open>
  A default-constructed request. The default \<^verbatim>\<open>muduo::Timestamp\<close> is the epoch, and a default
  \<^verbatim>\<open>weak_ptr\<close> locks to null.
\<close>

definition new_request :: http_request where
  "new_request =
     \<lparr>req_method = kInvalid, req_version = ''Unknown'', req_path = [], req_pathParameters = [],
      req_queryParameters = [], req_receiveTime = 0, req_headers = [], req_content = [],
      req_contentLength = 0, req_connection = None\<rparr>"

section \<open>Operations\<close>

definition setReceiveTime :: "timestamp \<Rightarrow> http_request \<Rightarrow> http_request" where
  "setReceiveTime t r = r\<lparr>req_receiveTime := t\<rparr>"

text \<open>
  \<^verbatim>\<open>setMethod\<close> starts with \<^verbatim>\<open>assert(method_ == kInvalid)\<close>: \<open>None\<close> is the abort of a failed
  assertion. Otherwise the result is what it returns and the updated request.
\<close>

definition method_of :: "string \<Rightarrow> http_method" where
  "method_of m =
     (if m = ''GET'' then kGet
      else if m = ''POST'' then kPost
      else if m = ''PUT'' then kPut
      else if m = ''DELETE'' then kDelete
      else if m = ''OPTIONS'' then kOptions
      else kInvalid)"

definition setMethod :: "string \<Rightarrow> http_request \<Rightarrow> (bool \<times> http_request) option" where
  "setMethod m r =
     (if req_method r = kInvalid
      then Some (method_of m \<noteq> kInvalid, r\<lparr>req_method := method_of m\<rparr>)
      else None)"

definition setPath :: "string \<Rightarrow> http_request \<Rightarrow> http_request" where
  "setPath p r = r\<lparr>req_path := p\<rparr>"

definition setVersion :: "string \<Rightarrow> http_request \<Rightarrow> http_request" where
  "setVersion v r = r\<lparr>req_version := v\<rparr>"

definition setPathParameters :: "string \<Rightarrow> string \<Rightarrow> http_request \<Rightarrow> http_request" where
  "setPathParameters k v r = r\<lparr>req_pathParameters := AList.update k v (req_pathParameters r)\<rparr>"

definition getPathParameters :: "http_request \<Rightarrow> string \<Rightarrow> string" where
  "getPathParameters r k = (case map_of (req_pathParameters r) k of Some v \<Rightarrow> v | None \<Rightarrow> [])"

definition getQueryParameters :: "http_request \<Rightarrow> string \<Rightarrow> string" where
  "getQueryParameters r k = (case map_of (req_queryParameters r) k of Some v \<Rightarrow> v | None \<Rightarrow> [])"

text \<open>
  One \<^verbatim>\<open>key=value\<close> pair: the text before the first \<^verbatim>\<open>=\<close> and the text after it; a pair without
  \<^verbatim>\<open>=\<close> is skipped.
\<close>

definition add_query_pair :: "string \<Rightarrow> (string, string) umap \<Rightarrow> (string, string) umap" where
  "add_query_pair pair ps =
     (case find_char CHR ''='' pair of
        Some equalPos \<Rightarrow> AList.update (take equalPos pair) (drop (equalPos + 1) pair) ps
      | None \<Rightarrow> ps)"

text \<open>The loop over \<^verbatim>\<open>&\<close>; the string is the part of \<^verbatim>\<open>argumentStr\<close> from \<^verbatim>\<open>prev\<close> on.\<close>

function query_loop :: "string \<Rightarrow> (string, string) umap \<Rightarrow> (string, string) umap" where
  "query_loop s ps =
     (case find_char CHR ''&'' s of
        Some pos \<Rightarrow> query_loop (drop (pos + 1) s) (add_query_pair (take pos s) ps)
      | None \<Rightarrow> add_query_pair s ps)"
  by pat_completeness auto
termination
  by (relation "measure (\<lambda>(s, ps). length s)")
    (auto simp: find_char_Some std_find_less [symmetric] split: if_splits)

declare query_loop.simps [simp del]

definition setQueryParameters :: "string \<Rightarrow> http_request \<Rightarrow> http_request" where
  "setQueryParameters s r = r\<lparr>req_queryParameters := query_loop s (req_queryParameters r)\<rparr>"

text \<open>The characters of an HTTP token.\<close>

definition token_char :: "char \<Rightarrow> bool" where
  "token_char c \<longleftrightarrow> is_digit c \<or> is_upper c \<or> is_lower c \<or>
     c \<in> set [CHR ''!'', CHR 0x23, CHR ''$'', CHR ''%'', CHR ''&'', CHR 0x27, CHR ''*'',
              CHR ''+'', CHR ''-'', CHR ''.'', CHR ''^'', CHR ''_'', CHR 0x60, CHR ''|'',
              CHR ''~'']"

definition value_char :: "char \<Rightarrow> bool" where
  "value_char c \<longleftrightarrow> \<not> ((byte_of c < 0x20 \<and> c \<noteq> TAB) \<or> byte_of c = 0x7f)"

text \<open>
  \<^verbatim>\<open>addHeader(start, colon, end)\<close> on the bytes of the line and the position of the colon;
  \<open>None\<close> is the return value \<^verbatim>\<open>false\<close>, which leaves the request as it was.
\<close>

definition addHeader :: "string \<Rightarrow> nat \<Rightarrow> http_request \<Rightarrow> http_request option" where
  "addHeader line colon r =
     (if take colon line = [] \<or> \<not> list_all token_char (take colon line) then None
      else
        let key = lower (take colon line);
            value = trim_chars [SP, TAB] (drop (colon + 1) line);
            previous = map_of (req_headers r) key
        in if \<not> list_all value_char value then None
           else if key = ''content-length'' \<and> previous \<noteq> None \<and> previous \<noteq> Some value then None
           else if key = ''connection'' \<and> previous \<noteq> None
             then Some (r\<lparr>req_headers := smap_put key (the previous @ '','' @ value) (req_headers r)\<rparr>)
           else Some (r\<lparr>req_headers := smap_put key value (req_headers r)\<rparr>))"

definition getHeader :: "http_request \<Rightarrow> string \<Rightarrow> string" where
  "getHeader r field =
     (case map_of (req_headers r) (lower field) of None \<Rightarrow> [] | Some v \<Rightarrow> v)"

definition setBody :: "string \<Rightarrow> http_request \<Rightarrow> http_request" where
  "setBody b r = r\<lparr>req_content := b\<rparr>"

definition setContentLength :: "64 word \<Rightarrow> http_request \<Rightarrow> http_request" where
  "setContentLength n r = r\<lparr>req_contentLength := n\<rparr>"

definition setConnection :: "nat \<Rightarrow> http_request \<Rightarrow> http_request" where
  "setConnection c r = r\<lparr>req_connection := Some c\<rparr>"

text \<open>\<^verbatim>\<open>a.swap(b)\<close>, field by field as the code does it; the pair is (\<^verbatim>\<open>*this\<close>, \<^verbatim>\<open>that\<close>) afterwards.\<close>

definition swap_request :: "http_request \<Rightarrow> http_request \<Rightarrow> http_request \<times> http_request" where
  "swap_request a b =
    (a\<lparr>req_method := req_method b, req_path := req_path b,
       req_pathParameters := req_pathParameters b,
       req_queryParameters := req_queryParameters b, req_version := req_version b,
       req_headers := req_headers b, req_receiveTime := req_receiveTime b,
       req_content := req_content b, req_contentLength := req_contentLength b,
       req_connection := req_connection b\<rparr>,
     b\<lparr>req_method := req_method a, req_path := req_path a,
       req_pathParameters := req_pathParameters a,
       req_queryParameters := req_queryParameters a, req_version := req_version a,
       req_headers := req_headers a, req_receiveTime := req_receiveTime a,
       req_content := req_content a, req_contentLength := req_contentLength a,
       req_connection := req_connection a\<rparr>)"

section \<open>Invariant\<close>

definition header_name_ok :: "string \<Rightarrow> bool" where
  "header_name_ok k \<longleftrightarrow> k \<noteq> [] \<and> list_all token_char k \<and> list_all (\<lambda>c. \<not> is_upper c) k"

definition header_ok :: "string \<times> string \<Rightarrow> bool" where
  "header_ok h \<longleftrightarrow> header_name_ok (fst h) \<and> list_all value_char (snd h)"

definition request_ok :: "http_request \<Rightarrow> bool" where
  "request_ok r \<longleftrightarrow> smap_ok (req_headers r) \<and> list_all header_ok (req_headers r) \<and>
     umap_ok (req_queryParameters r) \<and> umap_ok (req_pathParameters r)"

lemma request_ok_new [simp]: "request_ok new_request"
  by (simp add: request_ok_def new_request_def)

lemma swap_request_swaps: "swap_request a b = (b, a)"
  by (cases a, cases b) (simp add: swap_request_def)

lemma to_lower_token: "token_char c \<Longrightarrow> token_char (to_lower c)"
proof (cases "is_upper c")
  case True
  then have "is_lower (to_lower c)"
    using byte_of_to_lower [of c] by (auto simp: is_lower_def is_upper_def)
  then show ?thesis by (simp add: token_char_def)
qed (simp add: to_lower_def)

lemma header_name_ok_lower:
  "s \<noteq> [] \<Longrightarrow> list_all token_char s \<Longrightarrow> header_name_ok (lower s)"
  by (auto simp: header_name_ok_def list_all_iff to_lower_token)

lemma lower_header_name: "header_name_ok k \<Longrightarrow> lower k = k"
  by (auto simp: header_name_ok_def list_all_iff to_lower_def intro: map_idI)

lemma smap_put_all:
  "list_all P m \<Longrightarrow> P (k, v) \<Longrightarrow> list_all P (smap_put k v m)"
  by (induction k v m rule: smap_put.induct) auto

lemma value_char_comma [simp]: "value_char CHR '',''"
  by (simp add: value_char_def)

lemma map_of_list_all: "list_all P m \<Longrightarrow> map_of m k = Some v \<Longrightarrow> P (k, v)"
  by (auto simp: list_all_iff dest: map_of_SomeD)

text \<open>What a successful \<open>addHeader\<close> did.\<close>

lemma addHeader_Some:
  assumes "addHeader line colon r = Some r'"
  obtains key raw v where
    "key = lower (take colon line)" "raw = trim_chars [SP, TAB] (drop (colon + 1) line)"
    "header_name_ok key" "list_all value_char raw"
    "key = ''content-length'' \<Longrightarrow> map_of (req_headers r) key \<in> {None, Some raw}"
    "v = (case map_of (req_headers r) key of
            Some p \<Rightarrow> if key = ''connection'' then p @ '','' @ raw else raw
          | None \<Rightarrow> raw)"
    "r' = r\<lparr>req_headers := smap_put key v (req_headers r)\<rparr>"
proof -
  let ?key = "lower (take colon line)" and ?raw = "trim_chars [SP, TAB] (drop (colon + 1) line)"
  from assms have "take colon line \<noteq> []" "list_all token_char (take colon line)"
    by (auto simp: addHeader_def split: if_splits)
  then have "header_name_ok ?key" by (rule header_name_ok_lower)
  with assms show thesis
    by (intro that [OF refl refl _ _ _ refl])
      (auto simp: addHeader_def Let_def split: if_splits option.splits)
qed

lemma addHeader_ok:
  assumes "addHeader line colon r = Some r'" and ok: "request_ok r"
  shows "request_ok r'"
proof -
  obtain key raw v where h: "header_name_ok key" "list_all value_char raw"
    "v = (case map_of (req_headers r) key of
            Some p \<Rightarrow> if key = ''connection'' then p @ '','' @ raw else raw
          | None \<Rightarrow> raw)"
    and r': "r' = r\<lparr>req_headers := smap_put key v (req_headers r)\<rparr>"
    using addHeader_Some [OF assms(1)] by metis
  have "list_all value_char v"
    using h ok map_of_list_all [of header_ok "req_headers r" key]
    by (auto simp: request_ok_def header_ok_def split: option.splits)
  with h(1) have "header_ok (key, v)" by (simp add: header_ok_def)
  with ok r' show ?thesis
    by (auto simp: request_ok_def smap_ok_put intro: smap_put_all)
qed

lemma addHeader_keeps:
  assumes "addHeader line colon r = Some r'"
  shows "r' = r\<lparr>req_headers := req_headers r'\<rparr>"
proof -
  obtain hs where "r' = r\<lparr>req_headers := hs\<rparr>"
    using addHeader_Some [OF assms] by metis
  then show ?thesis by simp
qed

lemma add_query_pair_ok: "umap_ok ps \<Longrightarrow> umap_ok (add_query_pair p ps)"
  by (auto simp: add_query_pair_def umap.ok_put split: option.splits)

lemma query_loop_ok: "umap_ok ps \<Longrightarrow> umap_ok (query_loop s ps)"
proof (induction s ps rule: query_loop.induct)
  case (1 s ps)
  show ?case
  proof (cases "find_char CHR ''&'' s")
    case None
    with 1 show ?thesis by (simp add: query_loop.simps [of s] add_query_pair_ok)
  next
    case (Some pos)
    with 1 show ?thesis by (simp add: query_loop.simps [of s] add_query_pair_ok)
  qed
qed

lemma request_ok_updates [simp]:
  "request_ok (setReceiveTime t r) = request_ok r"
  "request_ok (setPath p r) = request_ok r"
  "request_ok (setVersion v r) = request_ok r"
  "request_ok (setBody b r) = request_ok r"
  "request_ok (setContentLength n r) = request_ok r"
  "request_ok (setConnection c r) = request_ok r"
  "request_ok r \<Longrightarrow> request_ok (setQueryParameters s r)"
  "request_ok r \<Longrightarrow> request_ok (setPathParameters k v r)"
  by (simp_all add: request_ok_def setReceiveTime_def setPath_def setVersion_def setBody_def
      setContentLength_def setConnection_def setQueryParameters_def setPathParameters_def
      query_loop_ok umap.ok_put)

lemma setMethod_ok: "setMethod m r = Some (b, r') \<Longrightarrow> request_ok r \<Longrightarrow> request_ok r'"
  by (auto simp: setMethod_def request_ok_def split: if_splits)

section \<open>Properties\<close>

subsection \<open>Query strings\<close>

text \<open>How a client renders a non-empty list of parameters.\<close>

fun render_query :: "(string \<times> string) list \<Rightarrow> string" where
  "render_query [] = []"
| "render_query [(k, v)] = k @ ''='' @ v"
| "render_query ((k, v) # kvs) = k @ ''='' @ v @ ''&'' @ render_query kvs"

definition query_pair_ok :: "string \<times> string \<Rightarrow> bool" where
  "query_pair_ok kv \<longleftrightarrow> CHR ''&'' \<notin> set (fst kv) \<and> CHR ''='' \<notin> set (fst kv) \<and> CHR ''&'' \<notin> set (snd kv)"

lemma add_query_pair_render:
  "CHR ''='' \<notin> set k \<Longrightarrow> add_query_pair (k @ CHR ''='' # v) ps = AList.update k v ps"
  by (simp add: add_query_pair_def find_char_def std_find_append std_find_def [of _ "_ # _"])

lemma query_loop_last: "CHR ''&'' \<notin> set s \<Longrightarrow> query_loop s ps = add_query_pair s ps"
  by (simp add: query_loop.simps [of s] find_char_None [THEN iffD2])

lemma query_loop_step:
  "CHR ''&'' \<notin> set s \<Longrightarrow>
     query_loop (s @ CHR ''&'' # rest) ps = query_loop rest (add_query_pair s ps)"
  by (simp add: query_loop.simps [of "s @ _"] find_char_def std_find_append
      std_find_def [of _ "_ # _"])

lemma query_loop_render:
  "kvs \<noteq> [] \<Longrightarrow> list_all query_pair_ok kvs \<Longrightarrow> query_loop (render_query kvs) ps = umap.puts kvs ps"
proof (induction kvs arbitrary: ps rule: render_query.induct)
  case (2 k v)
  then show ?case
    by (simp add: query_loop_last query_pair_ok_def add_query_pair_render umap.puts_def)
next
  case (3 k v kv kvs)
  have "query_loop (render_query ((k, v) # kv # kvs)) ps
      = query_loop ((k @ CHR ''='' # v) @ CHR ''&'' # render_query (kv # kvs)) ps"
    by simp
  also have "\<dots> = query_loop (render_query (kv # kvs)) (AList.update k v ps)"
    using 3 by (subst query_loop_step) (auto simp: query_pair_ok_def add_query_pair_render)
  finally show ?case using 3 by (simp add: umap.puts_def)
qed simp

text \<open>
  Parsing a rendered query string gives back its parameters: for keys and values without the
  separators, every parameter of the rendered list is found under its key, the last value winning
  for a repeated key, and parameters with other keys are the ones the request had before.
\<close>

theorem query_string_round_trip:
  assumes "request_ok r" and "kvs \<noteq> []" and "list_all query_pair_ok kvs"
  shows "map_of (req_queryParameters (setQueryParameters (render_query kvs) r)) =
           map_of (req_queryParameters r) ++ map_of (rev kvs)"
  using assms umap.get_puts [of "req_queryParameters r" kvs]
  by (simp add: setQueryParameters_def query_loop_render request_ok_def)

theorem query_string_round_trip_witness:
  "getQueryParameters
     (setQueryParameters (render_query [(''a'', ''1''), (''b'', ''x=y''), (''a'', ''2'')]) new_request) ''a''
     = ''2''"
  using query_string_round_trip [of new_request "[(''a'', ''1''), (''b'', ''x=y''), (''a'', ''2'')]"]
  by (simp add: getQueryParameters_def query_pair_ok_def new_request_def request_ok_def)

subsection \<open>Headers\<close>

text \<open>
  After a header line is accepted, looking its name up in any letter case gives the value with
  surrounding blanks removed (appended to the earlier ones for \<^verbatim>\<open>Connection\<close>), and every other
  header keeps its value.
\<close>

theorem addHeader_getHeader:
  assumes "addHeader line colon r = Some r'" and "request_ok r"
  shows "getHeader r' field =
    (if lower field = lower (take colon line)
     then (if lower field = ''connection'' \<and> map_of (req_headers r) ''connection'' \<noteq> None
           then getHeader r field @ '',''
           else []) @ trim_chars [SP, TAB] (drop (colon + 1) line)
     else getHeader r field)"
proof -
  obtain key raw v where kr: "key = lower (take colon line)"
      "raw = trim_chars [SP, TAB] (drop (colon + 1) line)"
    and v: "v = (case map_of (req_headers r) key of
            Some p \<Rightarrow> if key = ''connection'' then p @ '','' @ raw else raw
          | None \<Rightarrow> raw)"
    and r': "r' = r\<lparr>req_headers := smap_put key v (req_headers r)\<rparr>"
    using addHeader_Some [OF assms(1)] by metis
  have "map_of (req_headers r') = (map_of (req_headers r))(key \<mapsto> v)"
    using assms(2) r' by (simp add: map_of_smap_put request_ok_def)
  then show ?thesis
    using v unfolding kr [symmetric] getHeader_def
    by (auto split: option.splits)
qed

theorem addHeader_getHeader_witness:
  "addHeader ''X-Id: 7 '' 4 new_request = Some (new_request\<lparr>req_headers := [(''x-id'', ''7'')]\<rparr>) \<and>
   getHeader (new_request\<lparr>req_headers := [(''x-id'', ''7'')]\<rparr>) ''x-ID'' = ''7''"
proof -
  have add: "addHeader ''X-Id: 7 '' 4 new_request = Some (new_request\<lparr>req_headers := [(''x-id'', ''7'')]\<rparr>)"
    by code_simp
  moreover have "getHeader (new_request\<lparr>req_headers := [(''x-id'', ''7'')]\<rparr>) ''x-ID'' = ''7''"
    by (rule trans [OF addHeader_getHeader [OF add request_ok_new]]) code_simp
  ultimately show ?thesis ..
qed

end
