(* ===== verification/Http_Context.thy ===== *)
theory Http_Context
  imports Http_Request
begin

text \<open>
  \<^verbatim>\<open>HttpServer/include/http/HttpContext.h\<close> and \<^verbatim>\<open>HttpServer/src/http/HttpContext.cpp\<close>: the incremental
  request parser a connection owns. A \<^verbatim>\<open>muduo::net::Buffer\<close> is the string of its readable bytes and a
  pointer into it is an offset from \<^verbatim>\<open>peek()\<close>; the library's search \<^verbatim>\<open>findCRLF\<close> is a parameter, and the
  locale \<open>muduo_buffer\<close> holds what its documentation promises (the first CRLF among the readable
  bytes, null if there is none).

  \<^verbatim>\<open>parseRequest\<close> is a loop over \<open>parse_iter\<close>, one iteration of the source's \<^verbatim>\<open>while\<close>. It
  is a partial function: \<open>None\<close> is a call that never returns. The theorems show that it
  returns for every context the server passes to it, what it returns does not depend on how the bytes
  were cut into messages, and a finished request satisfies the framing rules.
\<close>

section \<open>Data\<close>

datatype parse_state = kExpectRequestLine | kExpectHeaders | kExpectBody | kGotAll

record http_context =
  ctx_state :: parse_state
  ctx_request :: http_request
  ctx_processingStopped :: bool

definition new_context :: http_context where
  "new_context = \<lparr>ctx_state = kExpectRequestLine, ctx_request = new_request,
                  ctx_processingStopped = False\<rparr>"

definition gotAll :: "http_context \<Rightarrow> bool" where
  "gotAll c \<longleftrightarrow> ctx_state c = kGotAll"

definition reset_context :: "http_context \<Rightarrow> http_context" where
  "reset_context c =
     (let dummyData = new_request
      in c\<lparr>ctx_state := kExpectRequestLine, ctx_request := fst (swap_request (ctx_request c) dummyData)\<rparr>)"

definition stopProcessing :: "http_context \<Rightarrow> http_context" where
  "stopProcessing c = c\<lparr>ctx_processingStopped := True\<rparr>"

section \<open>The request line\<close>

text \<open>
  \<^verbatim>\<open>processRequestLine(begin, end)\<close> on the bytes of the line: what it returns and the request it
  leaves; \<open>None\<close> is the assertion failure of \<open>setMethod\<close>.
\<close>

definition parse_version :: "string \<Rightarrow> http_request \<Rightarrow> bool \<times> http_request" where
  "parse_version v r =
     (if length v = 8 \<and> take 7 v = ''HTTP/1.''
      then (if last v = CHR ''1'' then (True, setVersion ''HTTP/1.1'' r)
            else if last v = CHR ''0'' then (True, setVersion ''HTTP/1.0'' r)
            else (False, r))
      else (False, r))"

definition parse_target :: "string \<Rightarrow> http_request \<Rightarrow> http_request" where
  "parse_target target r =
     (let argumentStart = std_find CHR ''?'' target
      in if argumentStart \<noteq> length target
         then setQueryParameters (drop (argumentStart + 1) target)
                (setPath (take argumentStart target) r)
         else setPath target r)"

definition processRequestLine :: "string \<Rightarrow> http_request \<Rightarrow> (bool \<times> http_request) option" where
  "processRequestLine line r =
     (let space = std_find SP line
      in if space = length line then Some (False, r)
         else case setMethod (take space line) r of
             None \<Rightarrow> None
           | Some (False, r1) \<Rightarrow> Some (False, r1)
           | Some (True, r1) \<Rightarrow>
               let rest = drop (space + 1) line; space2 = std_find SP rest
               in if space2 = length rest then Some (False, r1)
                  else Some (parse_version (drop (space2 + 1) rest)
                                           (parse_target (take space2 rest) r1)))"

section \<open>The end of the headers\<close>

text \<open>\<^verbatim>\<open>maxBodyLength\<close>, and the loop that reads \<^verbatim>\<open>Content-Length\<close> in 64-bit arithmetic.\<close>

definition maxBodyLength :: "64 word" where
  "maxBodyLength = 10 * 1024 * 1024"

fun content_length_loop :: "string \<Rightarrow> 64 word \<Rightarrow> 64 word option" where
  "content_length_loop [] len = Some len"
| "content_length_loop (ch # chs) len =
     (if byte_of ch < 48 \<or> byte_of ch > 57 then None
      else let digit = of_nat (byte_of ch - 48)
           in if len > (maxBodyLength - digit) div 10 then None
              else content_length_loop chs (len * 10 + digit))"

text \<open>What one iteration of the loop in \<^verbatim>\<open>parseRequest\<close> does: return, go on, or abort.\<close>

datatype parse_step =
    Stop bool http_context string
  | Again http_context string
  | Abort

text \<open>The empty line after the headers; \<^verbatim>\<open>buf\<close> still starts with that line's CRLF.\<close>

definition end_of_headers :: "http_context \<Rightarrow> string \<Rightarrow> parse_step" where
  "end_of_headers c buf =
     (let r = ctx_request c
      in if map_of (req_headers r) ''transfer-encoding'' \<noteq> None then Stop False c buf
         else case map_of (req_headers r) ''content-length'' of
             Some v \<Rightarrow>
               (if v = [] then Stop False c buf
                else case content_length_loop v 0 of
                    None \<Rightarrow> Stop False c buf
                  | Some len \<Rightarrow>
                      let c' = c\<lparr>ctx_request := setContentLength len r\<rparr>
                      in if len > 0
                         then Again (c'\<lparr>ctx_state := kExpectBody\<rparr>) (drop 2 buf)
                         else Stop True (c'\<lparr>ctx_state := kGotAll\<rparr>) (drop 2 buf))
           | None \<Rightarrow>
               (if req_method r = kPost \<or> req_method r = kPut then Stop False c buf
                else Stop True (c\<lparr>ctx_state := kGotAll\<rparr>) (drop 2 buf)))"

section \<open>The parser\<close>

fun parse_iter ::
  "(string \<Rightarrow> nat option) \<Rightarrow> timestamp \<Rightarrow> http_context \<Rightarrow> string \<Rightarrow> parse_step" where
  "parse_iter findCRLF t c buf =
     (case ctx_state c of
        kExpectRequestLine \<Rightarrow>
          (case findCRLF buf of
             Some n \<Rightarrow>
               (case processRequestLine (take n buf) (ctx_request c) of
                  None \<Rightarrow> Abort
                | Some (True, r) \<Rightarrow>
                    Again (c\<lparr>ctx_request := setReceiveTime t r, ctx_state := kExpectHeaders\<rparr>)
                          (drop (n + 2) buf)
                | Some (False, r) \<Rightarrow> Stop False (c\<lparr>ctx_request := r\<rparr>) buf)
           | None \<Rightarrow> Stop True c buf)
      | kExpectHeaders \<Rightarrow>
          (case findCRLF buf of
             Some n \<Rightarrow>
               (let line = take n buf; colon = std_find CHR '':'' line
                in if colon < n
                   then (case addHeader line colon (ctx_request c) of
                           None \<Rightarrow> Stop False c buf
                         | Some r \<Rightarrow> Again (c\<lparr>ctx_request := r\<rparr>) (drop (n + 2) buf))
                   else if n = 0 then end_of_headers c buf
                   else Stop False c (drop (n + 2) buf))
           | None \<Rightarrow> Stop True c buf)
      | kExpectBody \<Rightarrow>
          (let len = unat (req_contentLength (ctx_request c))
           in if length buf < len then Stop True c buf
              else Stop True (c\<lparr>ctx_request := setBody (take len buf) (ctx_request c),
                               ctx_state := kGotAll\<rparr>)
                        (drop len buf))
      | kGotAll \<Rightarrow> Again c buf)"

declare parse_iter.simps [simp del]

datatype parse_result = Returned bool http_context string | Aborted

partial_function (option) parseRequest ::
  "(string \<Rightarrow> nat option) \<Rightarrow> timestamp \<Rightarrow> http_context \<Rightarrow> string \<Rightarrow> parse_result option" where
  "parseRequest findCRLF t c buf =
     (case parse_iter findCRLF t c buf of
        Stop ok c' buf' \<Rightarrow> Some (Returned ok c' buf')
      | Again c' buf' \<Rightarrow> parseRequest findCRLF t c' buf'
      | Abort \<Rightarrow> Some Aborted)"

declare parseRequest.simps [code]

section \<open>What the parser relies on of the buffer\<close>

locale muduo_buffer =
  fixes findCRLF :: "string \<Rightarrow> nat option"
  assumes found: "findCRLF s = Some n \<Longrightarrow> take 2 (drop n s) = crlf"
    and first: "findCRLF s = Some n \<Longrightarrow> m < n \<Longrightarrow> take 2 (drop m s) \<noteq> crlf"
    and absent: "findCRLF s = None \<Longrightarrow> take 2 (drop m s) \<noteq> crlf"
begin

lemma found_length: "findCRLF s = Some n \<Longrightarrow> n + 2 \<le> length s"
  using found [of s n, THEN arg_cong [where f = length]] by simp

lemma found_append: "findCRLF s = Some n \<Longrightarrow> findCRLF (s @ t) = Some n"
proof -
  assume n: "findCRLF s = Some n"
  note len = found_length [OF n]
  have here: "take 2 (drop n (s @ t)) = crlf"
    using found [OF n] len by simp
  have before: "take 2 (drop m (s @ t)) \<noteq> crlf" if "m < n" for m
    using first [OF n that] that len by simp
  obtain k where k: "findCRLF (s @ t) = Some k"
    using absent here by (metis option.exhaust)
  have "\<not> k < n" using before [of k] found [OF k] by blast
  moreover have "\<not> n < k" using first [OF k] here by blast
  ultimately show ?thesis using k by simp
qed

end

text \<open>The buffer the repository's own tests run the parser with: \<^verbatim>\<open>std::string::find\<close>.\<close>

definition stub_findCRLF :: "string \<Rightarrow> nat option" where
  "stub_findCRLF s = find_str crlf s"

interpretation stub_buffer: muduo_buffer stub_findCRLF
  by unfold_locales
    (auto simp: stub_findCRLF_def numeral_2_eq_2
      dest: find_str_Some_take [of crlf] find_str_first [of crlf] find_str_None [of crlf])

section \<open>Content-Length\<close>

abbreviation max_body :: nat where "max_body \<equiv> 10485760"

definition decimal_from :: "nat \<Rightarrow> string \<Rightarrow> nat" where
  "decimal_from n s = foldl (\<lambda>n c. n * 10 + digit_val c) n s"

lemma decimal_from_simps [simp]:
  "decimal_from n [] = n"
  "decimal_from n (c # s) = decimal_from (n * 10 + digit_val c) s"
  by (simp_all add: decimal_from_def)

lemma decimal_from_0: "decimal_from 0 s = decimal s"
  by (simp add: decimal_from_def decimal_def)

lemma decimal_from_ge: "n \<le> decimal_from n s"
proof (induction s arbitrary: n)
  case (Cons c s)
  from Cons [of "n * 10 + digit_val c"] show ?case by simp
qed simp

lemma unat_budget:
  assumes "d < 10"
  shows "unat ((maxBodyLength - of_nat d) div 10) = (max_body - d) div 10"
proof -
  have "unat (maxBodyLength - of_nat d :: 64 word) = max_body - d"
    using assms by (subst unat_sub) (simp_all add: maxBodyLength_def word_le_nat_alt unat_of_nat)
  then show ?thesis by (simp add: unat_div)
qed

lemma content_length_step:
  assumes "d < 10" and "unat len \<le> max_body"
  shows "(len > (maxBodyLength - of_nat d) div 10) = (unat len * 10 + d > max_body)"
    and "unat len * 10 + d \<le> max_body \<Longrightarrow> unat (len * 10 + of_nat d :: 64 word) = unat len * 10 + d"
proof -
  have "(len > (maxBodyLength - of_nat d) div 10) = (unat len > (max_body - d) div 10)"
    using unat_budget [OF assms(1)] by (simp add: word_less_nat_alt)
  also have "\<dots> = (unat len * 10 + d > max_body)"
    using assms(1) by linarith
  finally show "(len > (maxBodyLength - of_nat d) div 10) = (unat len * 10 + d > max_body)" .
  show "unat (len * 10 + of_nat d :: 64 word) = unat len * 10 + d"
    if "unat len * 10 + d \<le> max_body"
  proof -
    have "len * 10 + of_nat d = (of_nat (unat len * 10 + d) :: 64 word)" by simp
    moreover have "unat (of_nat (unat len * 10 + d) :: 64 word) = unat len * 10 + d"
      using that by (subst unat_of_nat) simp
    ultimately show ?thesis by (simp only:)
  qed
qed

lemma content_length_loop_eq:
  "unat len \<le> max_body \<Longrightarrow>
     content_length_loop s len =
       (if list_all is_digit s \<and> decimal_from (unat len) s \<le> max_body
        then Some (of_nat (decimal_from (unat len) s)) else None)"
proof (induction s arbitrary: len)
  case Nil
  then show ?case by simp
next
  case (Cons c s)
  show ?case
  proof (cases "is_digit c")
    case False
    then show ?thesis by (auto simp: is_digit_def)
  next
    case True
    define d where "d = digit_val c"
    have d: "d < 10" "byte_of c - 48 = d" and c: "\<not> byte_of c < 48" "\<not> 57 < byte_of c"
      using True by (auto simp: d_def digit_val_def is_digit_def)
    note step = content_length_step [OF d(1) Cons.prems]
    show ?thesis
    proof (cases "unat len * 10 + d \<le> max_body")
      case True
      with Cons.IH [of "len * 10 + of_nat d"] step d c \<open>is_digit c\<close>
      show ?thesis by (simp add: d_def [symmetric])
    next
      case False
      moreover have "decimal_from (unat len * 10 + d) s \<ge> unat len * 10 + d"
        by (rule decimal_from_ge)
      ultimately show ?thesis using step d c by (simp add: d_def [symmetric])
    qed
  qed
qed

text \<open>
  The Content-Length loop is exact: it accepts a string just when it consists of decimal digits
  whose value is at most ten mebibytes, and then it returns that value; the 64-bit
  multiplication and addition never wrap around.
\<close>

theorem content_length_loop_exact:
  "content_length_loop s 0 =
     (if list_all is_digit s \<and> decimal s \<le> 10 * 1024 * 1024
      then Some (of_nat (decimal s)) else None)"
  using content_length_loop_eq [of 0 s] by (simp add: decimal_from_0)

lemma content_length_Some:
  assumes "content_length_loop s 0 = Some n"
  shows "list_all is_digit s" "decimal s = unat n" "unat n \<le> max_body"
  using assms content_length_loop_eq [of 0 s]
  by (auto simp: decimal_from_0 unat_of_nat split: if_splits)

section \<open>The context's invariant\<close>

definition request_line_ok :: "http_request \<Rightarrow> bool" where
  "request_line_ok r \<longleftrightarrow> req_method r \<in> {kGet, kPost, kPut, kDelete, kOptions} \<and>
     req_version r \<in> {''HTTP/1.1'', ''HTTP/1.0''}"

text \<open>
  The framing rules of an accepted request: no transfer coding; a \<^verbatim>\<open>Content-Length\<close> is a decimal
  number of at most ten mebibytes, the stored one; without it the length is zero and the method is
  neither \<^verbatim>\<open>POST\<close> nor \<^verbatim>\<open>PUT\<close>.
\<close>

definition framed :: "http_request \<Rightarrow> bool" where
  "framed r \<longleftrightarrow> map_of (req_headers r) ''transfer-encoding'' = None \<and>
     (case map_of (req_headers r) ''content-length'' of
        Some v \<Rightarrow> v \<noteq> [] \<and> list_all is_digit v \<and> decimal v = unat (req_contentLength r) \<and>
                  unat (req_contentLength r) \<le> 10 * 1024 * 1024
      | None \<Rightarrow> req_contentLength r = 0 \<and> req_method r \<notin> {kPost, kPut})"

definition context_ok :: "http_context \<Rightarrow> bool" where
  "context_ok c \<longleftrightarrow> request_ok (ctx_request c) \<and>
     (case ctx_state c of
        kExpectRequestLine \<Rightarrow> ctx_request c = new_request
      | kExpectHeaders \<Rightarrow> request_line_ok (ctx_request c) \<and> req_content (ctx_request c) = [] \<and>
          req_contentLength (ctx_request c) = 0
      | kExpectBody \<Rightarrow> request_line_ok (ctx_request c) \<and> framed (ctx_request c) \<and>
          req_contentLength (ctx_request c) > 0
      | kGotAll \<Rightarrow> request_line_ok (ctx_request c) \<and> framed (ctx_request c) \<and>
          length (req_content (ctx_request c)) = unat (req_contentLength (ctx_request c)))"

lemma context_ok_new [simp]: "context_ok new_context"
  by (simp add: context_ok_def new_context_def)

lemma reset_context_eq:
  "reset_context c = c\<lparr>ctx_state := kExpectRequestLine, ctx_request := new_request\<rparr>"
  by (simp add: reset_context_def swap_request_swaps)

lemma context_ok_reset [simp]: "context_ok (reset_context c)"
  by (simp add: context_ok_def reset_context_eq)

lemma context_ok_stop [simp]: "context_ok (stopProcessing c) = context_ok c"
  by (simp add: context_ok_def stopProcessing_def split: parse_state.split)

subsection \<open>One iteration\<close>

lemma parse_target_fields [simp]:
  "req_method (parse_target s r) = req_method r"
  "req_headers (parse_target s r) = req_headers r"
  "req_content (parse_target s r) = req_content r"
  "req_contentLength (parse_target s r) = req_contentLength r"
  "request_ok r \<Longrightarrow> request_ok (parse_target s r)"
  by (simp_all add: parse_target_def Let_def)
    (simp_all add: setQueryParameters_def setPath_def)

lemma parse_version_True:
  "parse_version v r = (True, r') \<Longrightarrow>
     (v = ''HTTP/1.1'' \<or> v = ''HTTP/1.0'') \<and> r' = setVersion v r"
proof -
  assume h: "parse_version v r = (True, r')"
  then have len: "length v = 8" and seven: "take 7 v = ''HTTP/1.''"
    by (auto simp: parse_version_def split: if_splits)
  have "butlast v = take 7 v" using len by (simp add: butlast_conv_take)
  moreover have "v \<noteq> []" using len by auto
  ultimately have "v = ''HTTP/1.'' @ [last v]"
    using seven append_butlast_last_id by metis
  with h show ?thesis by (auto simp: parse_version_def split: if_splits)
qed

lemma processRequestLine_new:
  assumes "req_method r = kInvalid"
  shows "processRequestLine line r \<noteq> None"
  using assms
  by (auto simp: processRequestLine_def setMethod_def Let_def split: bool.splits)

lemma processRequestLine_True:
  assumes "processRequestLine line r = Some (True, r')"
  obtains m target v r1 where "line = m @ SP # target @ SP # v" "SP \<notin> set m" "SP \<notin> set target"
    "setMethod m r = Some (True, r1)" "v = ''HTTP/1.1'' \<or> v = ''HTTP/1.0''"
    "r' = setVersion v (parse_target target r1)"
proof -
  let ?n = "std_find SP line"
  let ?rest = "drop (?n + 1) line"
  let ?k = "std_find SP ?rest"
  from assms have n: "?n < length line" "?k < length ?rest"
    using std_find_le [of SP line] std_find_le [of SP ?rest]
    by (auto simp: processRequestLine_def Let_def split: if_splits option.splits bool.splits)
  then have line: "line = take ?n line @ SP # ?rest"
    using split_at_char [of SP line] std_find_less [of SP line] by simp
  from n(2) have rest: "?rest = take ?k ?rest @ SP # drop (?k + 1) ?rest"
    using split_at_char [of SP ?rest] std_find_less [of SP ?rest] by simp
  from assms n obtain r1 where m: "setMethod (take ?n line) r = Some (True, r1)"
    and v: "parse_version (drop (?k + 1) ?rest) (parse_target (take ?k ?rest) r1) = (True, r')"
    by (auto simp: processRequestLine_def Let_def split: if_splits option.splits bool.splits)
  show thesis
    using that [OF _ _ _ m, of "take ?k ?rest" "drop (?k + 1) ?rest"]
      parse_version_True [OF v] line rest not_in_take_std_find by metis
qed

lemma setMethod_True:
  "setMethod m r = Some (True, r1) \<Longrightarrow>
     req_method r = kInvalid \<and> method_of m \<noteq> kInvalid \<and> r1 = r\<lparr>req_method := method_of m\<rparr>"
  by (auto simp: setMethod_def split: if_splits)

lemma method_of_range: "method_of m \<in> {kInvalid, kGet, kPost, kPut, kDelete, kOptions}"
  by (simp add: method_of_def)

lemma processRequestLine_ok:
  assumes "processRequestLine line new_request = Some (True, r)"
  shows "request_ok r" "request_line_ok r" "req_content r = []" "req_contentLength r = 0"
    "req_headers r = []"
proof -
  obtain m target v r1 where h: "setMethod m new_request = Some (True, r1)"
    "v = ''HTTP/1.1'' \<or> v = ''HTTP/1.0''" "r = setVersion v (parse_target target r1)"
    using processRequestLine_True [OF assms] by metis
  have r1: "r1 = new_request\<lparr>req_method := method_of m\<rparr>" and inv: "method_of m \<noteq> kInvalid"
    using setMethod_True [OF h(1)] by auto
  have "request_ok r1" using r1 request_ok_new by (simp add: request_ok_def)
  with h(3) show "request_ok r" by simp
  show "request_line_ok r"
    using h r1 inv method_of_range [of m] by (auto simp: request_line_ok_def setVersion_def)
  show "req_content r = []" "req_contentLength r = 0" "req_headers r = []"
    using h r1 by (simp_all add: setVersion_def new_request_def)
qed

lemma addHeader_fields:
  assumes "addHeader line colon r = Some r'"
  shows "req_method r' = req_method r" "req_version r' = req_version r"
    "req_content r' = req_content r" "req_contentLength r' = req_contentLength r"
proof -
  obtain hs where "r' = r\<lparr>req_headers := hs\<rparr>" using addHeader_keeps [OF assms] by blast
  then show "req_method r' = req_method r" "req_version r' = req_version r"
    "req_content r' = req_content r" "req_contentLength r' = req_contentLength r"
    by simp_all
qed

lemma request_line_ok_updates [simp]:
  "request_line_ok (setContentLength n r) = request_line_ok r"
  "request_line_ok (setBody b r) = request_line_ok r"
  "framed (setBody b r) = framed r"
  "req_contentLength (setBody b r) = req_contentLength r"
  "req_content (setBody b r) = b"
  "req_content (setContentLength n r) = req_content r"
  "req_contentLength (setContentLength n r) = n"
  by (simp_all add: request_line_ok_def framed_def setContentLength_def setBody_def
      split: option.split)

lemma framed_by_length:
  assumes "map_of (req_headers r) ''transfer-encoding'' = None"
    and "map_of (req_headers r) ''content-length'' = Some v" and "v \<noteq> []"
    and "content_length_loop v 0 = Some n"
  shows "framed (setContentLength n r)"
  using assms content_length_Some [OF assms(4)] by (simp add: framed_def setContentLength_def)

lemma framed_without_length:
  assumes "map_of (req_headers r) ''transfer-encoding'' = None"
    and "map_of (req_headers r) ''content-length'' = None"
    and "req_method r \<noteq> kPost" and "req_method r \<noteq> kPut" and "req_contentLength r = 0"
  shows "framed r"
  using assms by (simp add: framed_def)

lemma end_of_headers_framed:
  assumes "context_ok c" and "ctx_state c = kExpectHeaders"
  shows "end_of_headers c buf = Again c' buf' \<Longrightarrow>
           context_ok c' \<and> ctx_state c' = kExpectBody \<and> buf' = drop 2 buf"
    and "end_of_headers c buf = Stop True c' buf' \<Longrightarrow>
           context_ok c' \<and> ctx_state c' = kGotAll \<and> buf' = drop 2 buf"
    and "end_of_headers c buf = Stop False c' buf' \<Longrightarrow> c' = c \<and> buf' = buf"
    and "end_of_headers c buf \<noteq> Abort"
proof -
  show "context_ok c' \<and> ctx_state c' = kExpectBody \<and> buf' = drop 2 buf"
    if "end_of_headers c buf = Again c' buf'"
    using that assms
    by (auto simp: end_of_headers_def context_ok_def Let_def framed_by_length
        split: if_splits option.splits)
  show "context_ok c' \<and> ctx_state c' = kGotAll \<and> buf' = drop 2 buf"
    if "end_of_headers c buf = Stop True c' buf'"
    using that assms
    by (auto simp: end_of_headers_def context_ok_def Let_def word_gt_0
        framed_by_length framed_without_length split: if_splits option.splits)
  show "c' = c \<and> buf' = buf" if "end_of_headers c buf = Stop False c' buf'"
    using that by (auto simp: end_of_headers_def Let_def split: if_splits option.splits)
  show "end_of_headers c buf \<noteq> Abort"
    by (auto simp: end_of_headers_def Let_def split: option.splits)
qed

lemma header_line_ok:
  assumes "context_ok c" and "ctx_state c = kExpectHeaders"
    and "addHeader line colon (ctx_request c) = Some r"
  shows "context_ok (c\<lparr>ctx_request := r\<rparr>)"
  using assms addHeader_ok [OF assms(3)] addHeader_fields [OF assms(3)]
  by (simp add: context_ok_def request_line_ok_def)

lemma parse_iter_ok:
  assumes "context_ok c" and "ctx_state c \<noteq> kGotAll"
  shows "parse_iter f t c buf = Again c' buf' \<Longrightarrow> context_ok c' \<and> ctx_state c' \<noteq> kGotAll"
    and "parse_iter f t c buf = Stop True c' buf' \<Longrightarrow> context_ok c'"
    and "parse_iter f t c buf \<noteq> Abort"
proof -
  show "context_ok c' \<and> ctx_state c' \<noteq> kGotAll" if step: "parse_iter f t c buf = Again c' buf'"
  proof (cases "ctx_state c")
    case kExpectRequestLine
    with assms have new: "ctx_request c = new_request" by (simp add: context_ok_def)
    from kExpectRequestLine step obtain n r where
      "processRequestLine (take n buf) new_request = Some (True, r)"
      and c': "c' = c\<lparr>ctx_request := setReceiveTime t r, ctx_state := kExpectHeaders\<rparr>"
      unfolding new [symmetric]
      by (auto simp: parse_iter.simps split: option.splits bool.splits)
    from processRequestLine_ok [OF this(1)] c' show ?thesis
      by (simp add: context_ok_def request_line_ok_def) (simp add: setReceiveTime_def)
  next
    case kExpectHeaders
    with step assms show ?thesis
      by (auto simp: parse_iter.simps Let_def split: option.splits if_splits
          dest: header_line_ok end_of_headers_framed(1))
  next
    case kExpectBody
    with step show ?thesis by (auto simp: parse_iter.simps Let_def split: if_splits)
  qed (use assms in simp)
  show "context_ok c'" if step: "parse_iter f t c buf = Stop True c' buf'"
  proof (cases "ctx_state c")
    case kExpectRequestLine
    with step assms show ?thesis
      by (auto simp: parse_iter.simps split: option.splits bool.splits)
  next
    case kExpectHeaders
    with step assms show ?thesis
      by (auto simp: parse_iter.simps Let_def split: option.splits if_splits
          dest: end_of_headers_framed(2))
  next
    case kExpectBody
    with step assms show ?thesis
      by (auto simp: parse_iter.simps Let_def context_ok_def split: if_splits)
  qed (use assms in simp)
  show "parse_iter f t c buf \<noteq> Abort"
  proof (cases "ctx_state c")
    case kExpectRequestLine
    with assms have "req_method (ctx_request c) = kInvalid"
      by (simp add: context_ok_def new_request_def)
    note line = processRequestLine_new [OF this]
    show ?thesis
    proof (cases "f buf")
      case (Some n)
      with line [of "take n buf"] kExpectRequestLine show ?thesis
        by (auto simp: parse_iter.simps split: bool.splits)
    qed (use kExpectRequestLine in \<open>simp add: parse_iter.simps\<close>)
  next
    case kExpectHeaders
    with assms end_of_headers_framed(4) [of c buf] show ?thesis
      by (simp add: parse_iter.simps Let_def split: option.split)
  qed (use assms in \<open>simp_all add: parse_iter.simps Let_def\<close>)
qed

context muduo_buffer
begin

text \<open>A step that goes on has read a line, so the buffer is shorter.\<close>

lemma parse_iter_shorter:
  assumes "ctx_state c \<noteq> kGotAll" and "parse_iter findCRLF t c buf = Again c' buf'"
  shows "length buf' < length buf"
proof -
  have "\<exists>n. findCRLF buf = Some n \<and> buf' = drop (n + 2) buf"
    using assms
    by (cases "ctx_state c")
      (auto simp: parse_iter.simps end_of_headers_def Let_def numeral_2_eq_2 std_find_def
        split: option.splits bool.splits if_splits)
  then show ?thesis using found_length by fastforce
qed

lemma parseRequest_returns:
  "context_ok c \<Longrightarrow> ctx_state c \<noteq> kGotAll \<Longrightarrow>
     \<exists>ok c' buf'. parseRequest findCRLF t c buf = Some (Returned ok c' buf') \<and>
       (ok \<longrightarrow> context_ok c')"
proof (induction "length buf" arbitrary: c buf rule: less_induct)
  case less
  note ok = parse_iter_ok [OF less.prems, of findCRLF t buf]
  show ?case
  proof (cases "parse_iter findCRLF t c buf")
    case (Stop b c' buf')
    with ok(2) show ?thesis by (cases b) (auto simp: parseRequest.simps [of _ _ c])
  next
    case (Again c' buf')
    with ok(1) have "context_ok c'" "ctx_state c' \<noteq> kGotAll" by auto
    with less.hyps [OF parse_iter_shorter [OF less.prems(2) Again]] Again show ?thesis
      by (simp add: parseRequest.simps [of _ _ c])
  next
    case Abort
    with ok(3) show ?thesis by simp
  qed
qed

end

section \<open>Cutting the byte stream\<close>

context muduo_buffer
begin

text \<open>Bytes after those an iteration looked at stay in the buffer and change nothing.\<close>

lemma parse_iter_append:
  assumes "ctx_state c \<noteq> kGotAll"
  shows "parse_iter findCRLF t c buf = Again c' buf' \<Longrightarrow>
           parse_iter findCRLF t c (buf @ rest) = Again c' (buf' @ rest)"
    and "parse_iter findCRLF t c buf = Stop False c' buf' \<Longrightarrow>
           parse_iter findCRLF t c (buf @ rest) = Stop False c' (buf' @ rest)"
    and "parse_iter findCRLF t c buf = Stop True c' buf' \<Longrightarrow> gotAll c' \<Longrightarrow>
           parse_iter findCRLF t c (buf @ rest) = Stop True c' (buf' @ rest)"
    and "parse_iter findCRLF t c buf = Stop True c' buf' \<Longrightarrow> \<not> gotAll c' \<Longrightarrow> c' = c \<and> buf' = buf"
proof -
  have crlf: "findCRLF (buf @ rest) = Some n \<and> n + 2 \<le> length buf" if "findCRLF buf = Some n" for n
    using found_append [OF that] found_length [OF that] by simp
  have eoh: "end_of_headers c (buf @ rest) =
      (case end_of_headers c buf of
         Stop b c' buf' \<Rightarrow> Stop b c' (buf' @ rest) | Again c' buf' \<Rightarrow> Again c' (buf' @ rest)
       | Abort \<Rightarrow> Abort)" if "2 \<le> length buf"
    using that by (simp add: end_of_headers_def Let_def split: option.split)
  show "parse_iter findCRLF t c (buf @ rest) = Again c' (buf' @ rest)"
    if step: "parse_iter findCRLF t c buf = Again c' buf'"
  proof (cases "findCRLF buf")
    case None
    with step assms show ?thesis
      by (cases "ctx_state c") (simp_all add: parse_iter.simps Let_def split: if_splits)
  next
    case (Some n)
    with step assms crlf [OF Some] eoh show ?thesis
      by (cases "ctx_state c")
        (auto simp: parse_iter.simps Let_def split: option.splits bool.splits if_splits)
  qed
  show "parse_iter findCRLF t c (buf @ rest) = Stop False c' (buf' @ rest)"
    if step: "parse_iter findCRLF t c buf = Stop False c' buf'"
  proof (cases "findCRLF buf")
    case None
    with step assms show ?thesis
      by (cases "ctx_state c") (simp_all add: parse_iter.simps Let_def split: if_splits)
  next
    case (Some n)
    with step assms crlf [OF Some] eoh show ?thesis
      by (cases "ctx_state c")
        (auto simp: parse_iter.simps Let_def split: option.splits bool.splits if_splits)
  qed
  show "parse_iter findCRLF t c (buf @ rest) = Stop True c' (buf' @ rest)"
    if step: "parse_iter findCRLF t c buf = Stop True c' buf'" and "gotAll c'"
  proof (cases "ctx_state c = kExpectBody")
    case True
    with step assms \<open>gotAll c'\<close> show ?thesis
      by (auto simp: parse_iter.simps Let_def gotAll_def split: if_splits)
  next
    case False
    with step assms \<open>gotAll c'\<close> obtain n where n: "findCRLF buf = Some n"
      by (cases "ctx_state c"; cases "findCRLF buf") (auto simp: parse_iter.simps gotAll_def)
    with step assms False crlf [OF n] eoh show ?thesis
      by (cases "ctx_state c")
        (auto simp: parse_iter.simps Let_def split: option.splits bool.splits if_splits)
  qed
  show "c' = c \<and> buf' = buf"
    if "parse_iter findCRLF t c buf = Stop True c' buf'" and "\<not> gotAll c'"
    using that assms
    by (cases "ctx_state c")
      (auto simp: parse_iter.simps end_of_headers_def gotAll_def Let_def
        split: option.splits bool.splits if_splits)
qed

lemma parseRequest_append:
  assumes "context_ok c" and "ctx_state c \<noteq> kGotAll"
    and "parseRequest findCRLF t c buf = Some (Returned ok c' buf')"
  shows "parseRequest findCRLF t c (buf @ rest) =
    (if ok \<and> \<not> gotAll c' then parseRequest findCRLF t c' (buf' @ rest)
     else Some (Returned ok c' (buf' @ rest)))"
  using assms
proof (induction "length buf" arbitrary: c buf rule: less_induct)
  case less
  note app = parse_iter_append [OF less.prems(2), of t buf]
  show ?case
  proof (cases "parse_iter findCRLF t c buf")
    case (Stop b c1 buf1)
    with less.prems(3) have r: "b = ok" "c1 = c'" "buf1 = buf'"
      by (simp_all add: parseRequest.simps [of _ _ c])
    show ?thesis
    proof (cases "ok \<and> \<not> gotAll c'")
      case True
      with Stop r app(4) [of c1 buf1] show ?thesis by auto
    next
      case False
      with Stop r app(2,3) [of c1 buf1 rest] show ?thesis
        by (cases ok) (auto simp: parseRequest.simps [of _ _ c])
    qed
  next
    case (Again c1 buf1)
    with parse_iter_ok [OF less.prems(1,2), of findCRLF t buf]
    have "context_ok c1" "ctx_state c1 \<noteq> kGotAll" by auto
    with less.hyps [OF parse_iter_shorter [OF less.prems(2) Again]] less.prems(3) Again
      app(1) [OF Again, of rest]
    show ?thesis by (simp add: parseRequest.simps [of _ _ c])
  next
    case Abort
    with parse_iter_ok(3) [OF less.prems(1,2)] show ?thesis by simp
  qed
qed

end

section \<open>What was read\<close>

context muduo_buffer
begin

lemma parse_iter_consumes:
  assumes "ctx_state c \<noteq> kGotAll"
  shows "parse_iter findCRLF t c buf = Again c' buf' \<Longrightarrow> \<exists>head. buf = head @ buf'"
    and "parse_iter findCRLF t c buf = Stop True c' buf' \<Longrightarrow> gotAll c' \<Longrightarrow>
           req_content (ctx_request c) = [] \<or> ctx_state c = kExpectBody \<Longrightarrow>
           \<exists>head. buf = head @ req_content (ctx_request c') @ buf'"
proof -
  show "\<exists>head. buf = head @ buf'" if "parse_iter findCRLF t c buf = Again c' buf'"
  proof -
    have "\<exists>n. buf' = drop n buf"
      using that assms
      by (cases "ctx_state c")
        (auto simp: parse_iter.simps end_of_headers_def Let_def
          split: option.splits bool.splits if_splits)
    then show ?thesis by (metis append_take_drop_id)
  qed
  show "\<exists>head. buf = head @ req_content (ctx_request c') @ buf'"
    if step: "parse_iter findCRLF t c buf = Stop True c' buf'" "gotAll c'"
      and content: "req_content (ctx_request c) = [] \<or> ctx_state c = kExpectBody"
  proof (cases "ctx_state c = kExpectBody")
    case True
    with step have "buf = req_content (ctx_request c') @ buf'"
      by (auto simp: parse_iter.simps Let_def gotAll_def split: if_splits)
    then show ?thesis by (metis append_Nil)
  next
    case False
    with step assms content have "req_content (ctx_request c') = [] \<and> (\<exists>n. buf' = drop n buf)"
      by (cases "ctx_state c")
        (auto simp: parse_iter.simps end_of_headers_def gotAll_def Let_def setContentLength_def
          split: option.splits bool.splits if_splits)
    then show ?thesis by (metis append_Nil append_take_drop_id)
  qed
qed

lemma parseRequest_consumes:
  assumes "context_ok c" and "ctx_state c \<noteq> kGotAll" and "gotAll c'"
    and "parseRequest findCRLF t c buf = Some (Returned True c' buf')"
  shows "\<exists>head. buf = head @ req_content (ctx_request c') @ buf'"
  using assms(1,2,4)
proof (induction "length buf" arbitrary: c buf rule: less_induct)
  case less
  show ?case
  proof (cases "parse_iter findCRLF t c buf")
    case (Stop b c1 buf1)
    with less.prems(3) have r: "parse_iter findCRLF t c buf = Stop True c' buf'"
      by (simp add: parseRequest.simps [of _ _ c])
    have "req_content (ctx_request c) = [] \<or> ctx_state c = kExpectBody"
      using less.prems(1,2)
      by (cases "ctx_state c") (auto simp: context_ok_def new_request_def)
    with parse_iter_consumes(2) [OF less.prems(2) r assms(3)] show ?thesis by simp
  next
    case (Again c1 buf1)
    with parse_iter_ok(1) [OF less.prems(1,2) Again]
    have ok: "context_ok c1" "ctx_state c1 \<noteq> kGotAll" by auto
    from Again less.prems(3) have "parseRequest findCRLF t c1 buf1 = Some (Returned True c' buf')"
      by (simp add: parseRequest.simps [of _ _ c])
    from less.hyps [OF parse_iter_shorter [OF less.prems(2) Again] ok this]
      parse_iter_consumes(1) [OF less.prems(2) Again]
    show ?thesis by (metis append_assoc)
  next
    case Abort
    with parse_iter_ok(3) [OF less.prems(1,2)] show ?thesis by simp
  qed
qed

end

section \<open>Progress\<close>

lemma end_of_headers_stopped:
  "end_of_headers c buf = Again c' buf' \<Longrightarrow> ctx_processingStopped c' = ctx_processingStopped c"
  "end_of_headers c buf = Stop ok c' buf' \<Longrightarrow> ctx_processingStopped c' = ctx_processingStopped c"
  by (auto simp: end_of_headers_def Let_def split: option.splits if_splits)

lemma parse_iter_stopped:
  "parse_iter f t c buf = Again c' buf' \<Longrightarrow> ctx_processingStopped c' = ctx_processingStopped c"
  "parse_iter f t c buf = Stop ok c' buf' \<Longrightarrow> ctx_processingStopped c' = ctx_processingStopped c"
  by (cases "ctx_state c";
      auto simp: parse_iter.simps Let_def dest: end_of_headers_stopped
        split: option.splits if_splits bool.splits)+

context muduo_buffer
begin

lemma parse_iter_done_shorter:
  assumes "context_ok c" and "ctx_state c \<noteq> kGotAll" and "gotAll c'"
    and "parse_iter findCRLF t c buf = Stop True c' buf'"
  shows "length buf' < length buf"
proof (cases "ctx_state c = kExpectBody")
  case True
  with assms(1) have "unat (req_contentLength (ctx_request c)) > 0"
    by (simp add: context_ok_def unat_gt_0 word_gt_0)
  with True assms(3,4) show ?thesis
    by (auto simp: parse_iter.simps Let_def gotAll_def split: if_splits)
next
  case False
  with assms(2-) have "\<exists>n. findCRLF buf = Some n \<and> buf' = drop 2 buf"
    by (cases "ctx_state c")
      (auto simp: parse_iter.simps end_of_headers_def Let_def gotAll_def
        split: option.splits bool.splits if_splits)
  then show ?thesis using found_length by fastforce
qed

text \<open>A complete request takes at least one byte; the stop flag is left alone.\<close>

lemma parseRequest_progress:
  assumes "context_ok c" and "ctx_state c \<noteq> kGotAll"
    and "parseRequest findCRLF t c buf = Some (Returned ok c' buf')"
  shows "ctx_processingStopped c' = ctx_processingStopped c \<and> length buf' \<le> length buf \<and>
    (ok \<and> gotAll c' \<longrightarrow> length buf' < length buf)"
  using assms
proof (induction "length buf" arbitrary: c buf rule: less_induct)
  case less
  show ?case
  proof (cases "parse_iter findCRLF t c buf")
    case (Stop b c1 buf1)
    with less.prems(3) have r: "parse_iter findCRLF t c buf = Stop ok c' buf'"
      by (simp add: parseRequest.simps [of _ _ c])
    moreover have "length buf' \<le> length buf"
      using r less.prems(2)
      by (cases "ctx_state c")
        (auto simp: parse_iter.simps end_of_headers_def Let_def
          split: option.splits bool.splits if_splits)
    ultimately show ?thesis
      using parse_iter_stopped(2) [OF r] parse_iter_done_shorter [OF less.prems(1,2)] by auto
  next
    case (Again c1 buf1)
    note shorter = parse_iter_shorter [OF less.prems(2) Again]
    from parse_iter_ok(1) [OF less.prems(1,2) Again] have "context_ok c1" "ctx_state c1 \<noteq> kGotAll"
      by auto
    moreover from Again less.prems(3) have "parseRequest findCRLF t c1 buf1 = Some (Returned ok c' buf')"
      by (simp add: parseRequest.simps [of _ _ c])
    ultimately show ?thesis
      using less.hyps [OF shorter] shorter parse_iter_stopped(1) [OF Again] by fastforce
  next
    case Abort
    with parse_iter_ok(3) [OF less.prems(1,2)] show ?thesis by simp
  qed
qed

end

section \<open>Properties\<close>

lemma parseRequest_gotAll_raw:
  assumes "parseRequest f t c buf = Some r"
  shows "\<not> gotAll c"
proof (rule parseRequest.raw_induct [where P = "\<lambda>f t c buf r. \<not> gotAll c", OF _ assms])
  fix p f t c buf r
  assume IH: "\<And>f t c buf r. p f t c buf = Some r \<Longrightarrow> \<not> gotAll c"
    and eq: "(case parse_iter f t c buf of
        Stop ok c' buf' \<Rightarrow> Some (Returned ok c' buf')
      | Again c' buf' \<Rightarrow> p f t c' buf'
      | Abort \<Rightarrow> Some Aborted) = Some r"
  show "\<not> gotAll c"
  proof
    assume all: "gotAll c"
    then have "parse_iter f t c buf = Again c buf" by (simp add: gotAll_def parse_iter.simps)
    with eq have "p f t c buf = Some r" by simp
    from IH [OF this] all show False ..
  qed
qed

text \<open>
  A completed context must be reset before it is parsed again: on a context that already holds a
  complete request, \<^verbatim>\<open>parseRequest\<close> never returns, since no branch of its loop applies.
\<close>

theorem parseRequest_gotAll_diverges: "gotAll c \<Longrightarrow> parseRequest f t c buf = None"
  using parseRequest_gotAll_raw by (metis not_Some_eq)

theorem parseRequest_gotAll_diverges_witness:
  "gotAll (new_context\<lparr>ctx_state := kGotAll\<rparr>) \<and>
   parseRequest stub_findCRLF 0 (new_context\<lparr>ctx_state := kGotAll\<rparr>) ''GET'' = None"
  using parseRequest_gotAll_diverges [of "new_context\<lparr>ctx_state := kGotAll\<rparr>" stub_findCRLF 0 "''GET''"]
  by (simp add: gotAll_def)

text \<open>
  C10. On every context the server can pass to it (well-formed and without a complete request)
  \<^verbatim>\<open>parseRequest\<close> returns, whatever the buffer holds: it neither runs forever nor fails the assertion
  in \<^verbatim>\<open>setMethod\<close>; and when it returns true the context is well-formed again.
\<close>

theorem parseRequest_total:
  assumes "muduo_buffer f" and "context_ok c" and "\<not> gotAll c"
  shows "\<exists>ok c' buf'. parseRequest f t c buf = Some (Returned ok c' buf') \<and> (ok \<longrightarrow> context_ok c')"
  using muduo_buffer.parseRequest_returns [OF assms(1,2)] assms(3) by (simp add: gotAll_def)

theorem parseRequest_total_witness:
  "\<exists>ok c' buf'. parseRequest stub_findCRLF 0 new_context ''GET / HTTP'' = Some (Returned ok c' buf') \<and>
     (ok \<longrightarrow> context_ok c')"
  by (rule parseRequest_total [OF stub_buffer.muduo_buffer_axioms context_ok_new])
    (simp add: new_context_def gotAll_def)

text \<open>
  Parsing does not depend on how the bytes arrive. If a parse of the bytes received so far
  asks for more, parsing again with further bytes appended to what it left in the buffer gives
  the same as parsing all the bytes at once; if it completed a request or rejected the
  input, further bytes change neither the request nor the verdict and stay in the buffer.
\<close>

theorem parseRequest_incremental:
  assumes "muduo_buffer f" and "context_ok c" and "\<not> gotAll c"
    and "parseRequest f t c buf = Some (Returned ok c' buf')"
  shows "parseRequest f t c (buf @ rest) =
    (if ok \<and> \<not> gotAll c' then parseRequest f t c' (buf' @ rest)
     else Some (Returned ok c' (buf' @ rest)))"
  using muduo_buffer.parseRequest_append [OF assms(1,2) _ assms(4)] assms(3)
  by (simp add: gotAll_def)

text \<open>A request line whose headers have not arrived yet.\<close>

definition half_request :: http_context where
  "half_request = new_context\<lparr>ctx_state := kExpectHeaders,
     ctx_request := new_request\<lparr>req_method := kGet, req_version := ''HTTP/1.1'', req_path := ''/a''\<rparr>\<rparr>"

lemma half_request_parse:
  "parseRequest stub_findCRLF 0 new_context (''GET /a HTTP/1.1'' @ crlf @ ''Host'') =
     Some (Returned True half_request ''Host'')"
  by code_simp

theorem parseRequest_incremental_witness:
  "parseRequest stub_findCRLF 0 new_context ((''GET /a HTTP/1.1'' @ crlf @ ''Host'') @ '': x'' @ crlf @ crlf) =
     parseRequest stub_findCRLF 0 half_request (''Host'' @ '': x'' @ crlf @ crlf)"
proof -
  have "\<not> gotAll new_context" "\<not> gotAll half_request"
    by (simp_all add: new_context_def half_request_def gotAll_def)
  with parseRequest_incremental [OF stub_buffer.muduo_buffer_axioms context_ok_new _ half_request_parse]
  show ?thesis by simp
qed

text \<open>
  C13. A request the parser completes obeys the framing rules: its method and version are ones the
  server supports, it names no transfer coding, its body is exactly as long as its
  \<^verbatim>\<open>Content-Length\<close> says (zero without one), at most ten mebibytes, and that body is the part of
  the buffer right before the bytes left for the next request.
\<close>

theorem parseRequest_framing:
  assumes "muduo_buffer f" and "context_ok c" and "\<not> gotAll c"
    and "parseRequest f t c buf = Some (Returned True c' buf')" and "gotAll c'"
  shows "request_line_ok (ctx_request c') \<and> framed (ctx_request c') \<and>
    length (req_content (ctx_request c')) = unat (req_contentLength (ctx_request c')) \<and>
    length (req_content (ctx_request c')) \<le> 10 * 1024 * 1024 \<and>
    (\<exists>head. buf = head @ req_content (ctx_request c') @ buf')"
proof -
  from muduo_buffer.parseRequest_returns [OF assms(1,2), of t buf] assms(3,4)
  have "context_ok c'" by (auto simp: gotAll_def)
  with assms(5) have "request_line_ok (ctx_request c')" "framed (ctx_request c')"
    "length (req_content (ctx_request c')) = unat (req_contentLength (ctx_request c'))"
    by (simp_all add: context_ok_def gotAll_def)
  moreover from this(2) have "unat (req_contentLength (ctx_request c')) \<le> 10 * 1024 * 1024"
    by (auto simp: framed_def split: option.splits)
  ultimately show ?thesis
    using muduo_buffer.parseRequest_consumes [OF assms(1,2) _ assms(5,4)] assms(3)
    by (simp add: gotAll_def)
qed

text \<open>A complete request with a body of two bytes, and the byte after it.\<close>

definition full_request :: http_context where
  "full_request = new_context\<lparr>ctx_state := kGotAll,
     ctx_request := new_request\<lparr>req_method := kPost, req_version := ''HTTP/1.0'', req_path := ''/p'',
       req_headers := [(''content-length'', ''2'')], req_contentLength := 2, req_content := ''ok''\<rparr>\<rparr>"

lemma full_request_parse:
  "parseRequest stub_findCRLF 0 new_context
     (''POST /p HTTP/1.0'' @ crlf @ ''Content-Length: 2'' @ crlf @ crlf @ ''okG'') =
     Some (Returned True full_request ''G'')"
  by code_simp

theorem parseRequest_framing_witness:
  "framed (ctx_request full_request) \<and>
   length (req_content (ctx_request full_request)) = unat (req_contentLength (ctx_request full_request))"
proof -
  have "\<not> gotAll new_context" "gotAll full_request"
    by (simp_all add: new_context_def full_request_def gotAll_def)
  with parseRequest_framing [OF stub_buffer.muduo_buffer_axioms context_ok_new _ full_request_parse]
  show ?thesis by simp
qed

end
