(* ===== verification/Http_Response.thy ===== *)
theory Http_Response
  imports Cpp_Prelude
begin

text \<open>
  \<^verbatim>\<open>HttpServer/include/http/HttpResponse.h\<close> and \<^verbatim>\<open>HttpServer/src/http/HttpResponse.cpp\<close>: the response a
  handler fills in and its serialisation. A status code is the value of the enumeration (the code
  compares it with numbers outside the enumeration too), the headers are a \<^verbatim>\<open>std::map\<close>, hence sorted.

  The reader \<open>read_head\<close> splits a message into its lines up to the empty one; the theorems say
  what such a reader finds in the bytes \<^verbatim>\<open>appendToBuffer\<close> writes.
\<close>

section \<open>Data\<close>

abbreviation k200Ok :: nat where "k200Ok \<equiv> 200"
abbreviation k204NoContent :: nat where "k204NoContent \<equiv> 204"
abbreviation k301MovedPermanently :: nat where "k301MovedPermanently \<equiv> 301"
abbreviation k400BadRequest :: nat where "k400BadRequest \<equiv> 400"
abbreviation k401Unauthorized :: nat where "k401Unauthorized \<equiv> 401"
abbreviation k403Forbidden :: nat where "k403Forbidden \<equiv> 403"
abbreviation k404NotFound :: nat where "k404NotFound \<equiv> 404"
abbreviation k409Conflict :: nat where "k409Conflict \<equiv> 409"
abbreviation k413PayloadTooLarge :: nat where "k413PayloadTooLarge \<equiv> 413"
abbreviation k500InternalServerError :: nat where "k500InternalServerError \<equiv> 500"
abbreviation k503ServiceUnavailable :: nat where "k503ServiceUnavailable \<equiv> 503"

record http_response =
  resp_version :: string
  resp_statusCode :: nat
  resp_statusMessage :: string
  resp_closeConnection :: bool
  resp_headers :: "(string, string) smap"
  resp_body :: string
  resp_logRoute :: string
  resp_isFile :: bool
  resp_streaming :: bool

definition new_response :: "bool \<Rightarrow> http_response" where
  "new_response close = \<lparr>resp_version = ''HTTP/1.1'', resp_statusCode = k500InternalServerError,
     resp_statusMessage = ''Internal Server Error'', resp_closeConnection = close,
     resp_headers = [], resp_body = [], resp_logRoute = ''callback'', resp_isFile = False,
     resp_streaming = False\<rparr>"

section \<open>Operations\<close>

definition resp_setVersion :: "string \<Rightarrow> http_response \<Rightarrow> http_response" where
  "resp_setVersion version r = r\<lparr>resp_version := version\<rparr>"

definition status_text :: "nat \<Rightarrow> string option" where
  "status_text code =
     (if code = k200Ok then Some ''OK''
      else if code = k204NoContent then Some ''No Content''
      else if code = k301MovedPermanently then Some ''Moved Permanently''
      else if code = k400BadRequest then Some ''Bad Request''
      else if code = k401Unauthorized then Some ''Unauthorized''
      else if code = k403Forbidden then Some ''Forbidden''
      else if code = k404NotFound then Some ''Not Found''
      else if code = k409Conflict then Some ''Conflict''
      else if code = k413PayloadTooLarge then Some ''Payload Too Large''
      else if code = k500InternalServerError then Some ''Internal Server Error''
      else if code = k503ServiceUnavailable then Some ''Service Unavailable''
      else None)"

definition setStatusCode :: "nat \<Rightarrow> http_response \<Rightarrow> http_response" where
  "setStatusCode code r =
     (case status_text code of
        Some m \<Rightarrow> r\<lparr>resp_statusCode := code, resp_statusMessage := m\<rparr>
      | None \<Rightarrow> r\<lparr>resp_statusCode := k500InternalServerError,
                  resp_statusMessage := ''Internal Server Error''\<rparr>)"

definition setStatusMessage :: "string \<Rightarrow> http_response \<Rightarrow> http_response" where
  "setStatusMessage message r = r\<lparr>resp_statusMessage := message\<rparr>"

definition setCloseConnection :: "bool \<Rightarrow> http_response \<Rightarrow> http_response" where
  "setCloseConnection on r = r\<lparr>resp_closeConnection := on\<rparr>"

definition resp_addHeader :: "string \<Rightarrow> string \<Rightarrow> http_response \<Rightarrow> http_response" where
  "resp_addHeader key value r = r\<lparr>resp_headers := smap_put key value (resp_headers r)\<rparr>"

definition setContentType :: "string \<Rightarrow> http_response \<Rightarrow> http_response" where
  "setContentType contentType = resp_addHeader ''Content-Type'' contentType"

definition resp_setContentLength :: "nat \<Rightarrow> http_response \<Rightarrow> http_response" where
  "resp_setContentLength len = resp_addHeader ''Content-Length'' (to_string len)"

definition resp_setBody :: "string \<Rightarrow> http_response \<Rightarrow> http_response" where
  "resp_setBody body r = r\<lparr>resp_body := body\<rparr>"

definition setStreaming :: "bool \<Rightarrow> http_response \<Rightarrow> http_response" where
  "setStreaming v r = r\<lparr>resp_streaming := v\<rparr>"

definition setupSSEHeaders :: "http_response \<Rightarrow> http_response" where
  "setupSSEHeaders r =
     (let r1 = setContentType ''text/event-stream'' r;
          r2 = resp_addHeader ''Cache-Control'' ''no-cache'' r1;
          r3 = resp_addHeader ''Connection'' ''keep-alive'' r2;
          r4 = setCloseConnection False r3
      in setStreaming True r4)"

definition setStatusLine :: "string \<Rightarrow> nat \<Rightarrow> string \<Rightarrow> http_response \<Rightarrow> http_response" where
  "setStatusLine version statusCode statusMessage r =
     r\<lparr>resp_version := version, resp_statusCode := statusCode, resp_statusMessage := statusMessage\<rparr>"

definition setLogRoute :: "string \<Rightarrow> http_response \<Rightarrow> http_response" where
  "setLogRoute route r = r\<lparr>resp_logRoute := route\<rparr>"

section \<open>Serialisation\<close>

definition noBody :: "http_response \<Rightarrow> bool" where
  "noBody r \<longleftrightarrow> (resp_statusCode r \<ge> 100 \<and> resp_statusCode r < 200) \<or>
     resp_statusCode r = k204NoContent \<or> resp_statusCode r = 304"

definition skip_header :: "http_response \<Rightarrow> string \<Rightarrow> bool" where
  "skip_header r name =
     (let key = lower name
      in key = ''connection'' \<or>
         ((\<not> resp_streaming r \<or> noBody r) \<and> (key = ''content-length'' \<or> key = ''transfer-encoding'')))"

fun append_headers :: "http_response \<Rightarrow> (string \<times> string) list \<Rightarrow> string \<Rightarrow> string" where
  "append_headers r [] outputBuf = outputBuf"
| "append_headers r ((k, v) # hs) outputBuf =
     append_headers r hs
       (if skip_header r k then outputBuf else outputBuf @ k @ '': '' @ v @ crlf)"

definition appendToBuffer :: "http_response \<Rightarrow> string \<Rightarrow> string" where
  "appendToBuffer r outputBuf =
     (let buf1 = outputBuf @ resp_version r @ '' '' @ to_string (resp_statusCode r) @ '' '' @
                 resp_statusMessage r @ crlf;
          buf2 = buf1 @ (if resp_closeConnection r then ''Connection: close'' @ crlf
                         else ''Connection: Keep-Alive'' @ crlf);
          buf3 = (if \<not> resp_streaming r \<and> \<not> noBody r
                  then buf2 @ ''Content-Length: '' @ to_string (length (resp_body r)) @ crlf
                  else buf2);
          buf4 = append_headers r (resp_headers r) buf3 @ crlf
      in if \<not> resp_streaming r \<and> \<not> noBody r then buf4 @ resp_body r else buf4)"

section \<open>Invariant\<close>

text \<open>The headers stay a sorted map under every operation.\<close>

definition response_ok :: "http_response \<Rightarrow> bool" where
  "response_ok r \<longleftrightarrow> smap_ok (resp_headers r)"

lemma response_ok_new [simp]: "response_ok (new_response close)"
  by (simp add: response_ok_def new_response_def)

lemma response_ok_addHeader [simp]: "response_ok r \<Longrightarrow> response_ok (resp_addHeader k v r)"
  by (simp add: response_ok_def resp_addHeader_def smap_ok_put)

lemma response_ok_updates [simp]:
  "response_ok (resp_setVersion s r) = response_ok r"
  "response_ok (setStatusCode n r) = response_ok r"
  "response_ok (setStatusMessage s r) = response_ok r"
  "response_ok (setCloseConnection b r) = response_ok r"
  "response_ok (resp_setBody s r) = response_ok r"
  "response_ok (setStreaming b r) = response_ok r"
  "response_ok (setStatusLine s n s' r) = response_ok r"
  "response_ok (setLogRoute s r) = response_ok r"
  by (simp_all add: response_ok_def resp_setVersion_def setStatusCode_def setStatusMessage_def
      setCloseConnection_def resp_setBody_def setStreaming_def setStatusLine_def setLogRoute_def
      split: option.split)

lemma response_ok_derived [simp]:
  "response_ok r \<Longrightarrow> response_ok (setContentType s r)"
  "response_ok r \<Longrightarrow> response_ok (resp_setContentLength n r)"
  "response_ok r \<Longrightarrow> response_ok (setupSSEHeaders r)"
  by (simp_all add: setContentType_def resp_setContentLength_def setupSSEHeaders_def Let_def)

lemma addHeader_lookup:
  "response_ok r \<Longrightarrow> map_of (resp_headers (resp_addHeader k v r)) = (map_of (resp_headers r))(k \<mapsto> v)"
  by (simp add: response_ok_def resp_addHeader_def map_of_smap_put)

section \<open>What a reader of the message finds\<close>

text \<open>The lines before the first empty line, and what follows it.\<close>

function read_head :: "string \<Rightarrow> (string list \<times> string) option" where
  "read_head s =
     (case find_str crlf s of
        None \<Rightarrow> None
      | Some n \<Rightarrow>
          (if n = 0 then Some ([], drop 2 s)
           else map_option (\<lambda>(ls, rest). (take n s # ls, rest)) (read_head (drop (n + 2) s))))"
  by pat_completeness auto
termination
  by (relation "measure length") (auto dest!: find_str_Some_take)

declare read_head.simps [simp del]

text \<open>Name and value of a field line, and the values of all fields of one name.\<close>

definition field_of :: "string \<Rightarrow> string \<times> string" where
  "field_of line = (let n = std_find CHR '':'' line in (take n line, drop (n + 2) line))"

definition field_values :: "string \<Rightarrow> string list \<Rightarrow> string list" where
  "field_values name ls =
     map snd (filter (\<lambda>(k, v). lower k = name) (map field_of ls))"

definition field_line :: "string \<times> string \<Rightarrow> string" where
  "field_line kv = fst kv @ '': '' @ snd kv"

text \<open>Names and values a handler may set: no carriage return, no colon in a name.\<close>

definition field_ok :: "string \<times> string \<Rightarrow> bool" where
  "field_ok kv \<longleftrightarrow> CR \<notin> set (fst kv) \<and> CR \<notin> set (snd kv) \<and> CHR '':'' \<notin> set (fst kv)"

definition writable :: "http_response \<Rightarrow> bool" where
  "writable r \<longleftrightarrow> CR \<notin> set (resp_version r) \<and> CR \<notin> set (resp_statusMessage r) \<and>
     list_all field_ok (resp_headers r)"

lemma find_str_crlf_line: "CR \<notin> set line \<Longrightarrow> find_str crlf (line @ crlf @ rest) = Some (length line)"
  by (induction line) auto

lemma read_head_line:
  assumes "CR \<notin> set line" and "line \<noteq> []"
  shows "read_head (line @ crlf @ rest) =
    map_option (\<lambda>(ls, rest). (line # ls, rest)) (read_head rest)"
  using find_str_crlf_line [OF assms(1), of rest] assms(2)
  by (subst read_head.simps) simp

lemma read_head_blank: "read_head (crlf @ rest) = Some ([], rest)"
  by (simp add: read_head.simps)

lemma read_head_lines:
  assumes "list_all (\<lambda>l. CR \<notin> set l \<and> l \<noteq> []) ls"
  shows "read_head (concat (map (\<lambda>l. l @ crlf) ls) @ crlf @ rest) = Some (ls, rest)"
  using assms
proof (induction ls)
  case Nil
  show ?case using read_head_blank [of rest] by simp
next
  case (Cons l ls)
  with read_head_line [of l] show ?case by simp
qed

lemma field_of_line: "field_ok kv \<Longrightarrow> field_of (field_line kv) = kv"
proof -
  assume "field_ok kv"
  then have "std_find CHR '':'' (field_line kv) = length (fst kv)"
    by (simp add: field_line_def field_ok_def std_find_append) (simp add: std_find_def)
  then show ?thesis by (cases kv) (simp add: field_of_def field_line_def)
qed

text \<open>The fields of the message, in the order they are written.\<close>

definition wire_fields :: "http_response \<Rightarrow> (string \<times> string) list" where
  "wire_fields r =
     (''Connection'', if resp_closeConnection r then ''close'' else ''Keep-Alive'') #
     (if \<not> resp_streaming r \<and> \<not> noBody r
      then [(''Content-Length'', to_string (length (resp_body r)))] else []) @
     filter (\<lambda>kv. \<not> skip_header r (fst kv)) (resp_headers r)"

definition status_line :: "http_response \<Rightarrow> string" where
  "status_line r = resp_version r @ '' '' @ to_string (resp_statusCode r) @ '' '' @ resp_statusMessage r"

definition wire_body :: "http_response \<Rightarrow> string" where
  "wire_body r = (if \<not> resp_streaming r \<and> \<not> noBody r then resp_body r else [])"

lemma append_headers_eq:
  "append_headers r hs buf =
     buf @ concat (map (\<lambda>l. l @ crlf) (map field_line (filter (\<lambda>kv. \<not> skip_header r (fst kv)) hs)))"
  by (induction r hs buf rule: append_headers.induct) (auto simp: field_line_def)

lemma appendToBuffer_eq:
  "appendToBuffer r buf =
     buf @ concat (map (\<lambda>l. l @ crlf) (status_line r # map field_line (wire_fields r))) @ crlf @ wire_body r"
  by (simp add: appendToBuffer_def append_headers_eq status_line_def wire_fields_def field_line_def
      wire_body_def Let_def)

lemma digit_not_CR: "CR \<notin> set (to_string n)"
proof
  assume "CR \<in> set (to_string n)"
  with to_string_digits [of n] have "is_digit CR" by (auto simp: list_all_iff)
  then show False by (simp add: is_digit_def)
qed

lemma wire_fields_ok: "writable r \<Longrightarrow> list_all field_ok (wire_fields r)"
  by (auto simp: wire_fields_def writable_def field_ok_def list_all_iff digit_not_CR)

lemma wire_lines_ok:
  assumes "writable r"
  shows "list_all (\<lambda>l. CR \<notin> set l \<and> l \<noteq> []) (status_line r # map field_line (wire_fields r))"
  using assms wire_fields_ok [OF assms]
  by (auto simp: status_line_def writable_def field_line_def field_ok_def list_all_iff digit_not_CR)

lemma field_values_lines:
  "list_all field_ok kvs \<Longrightarrow>
     field_values name (map field_line kvs) = map snd (filter (\<lambda>kv. lower (fst kv) = name) kvs)"
  by (induction kvs) (simp_all add: field_values_def field_of_line case_prod_unfold)

lemma read_appendToBuffer:
  assumes "writable r"
  shows "read_head (appendToBuffer r []) =
    Some (status_line r # map field_line (wire_fields r), wire_body r)"
  using read_head_lines [OF wire_lines_ok [OF assms]] by (simp add: appendToBuffer_eq)

lemma filter_wire_fields:
  "filter (\<lambda>kv. lower (fst kv) = name) (wire_fields r) =
     (if name = ''connection''
      then [(''Connection'', if resp_closeConnection r then ''close'' else ''Keep-Alive'')] else []) @
     (if name = ''content-length'' \<and> \<not> resp_streaming r \<and> \<not> noBody r
      then [(''Content-Length'', to_string (length (resp_body r)))] else []) @
     filter (\<lambda>kv. \<not> skip_header r (fst kv) \<and> lower (fst kv) = name) (resp_headers r)"
proof -
  have eq: "filter (\<lambda>kv. lower (fst kv) = name) ((k, v) # (if b then [(k', v')] else []) @ hs) =
      (if name = lower k then [(k, v)] else []) @
      (if name = lower k' \<and> b then [(k', v')] else []) @ filter (\<lambda>kv. lower (fst kv) = name) hs"
    for k v b k' v' and hs :: "(string \<times> string) list"
    by auto
  have low: "lower ''Connection'' = ''connection''" "lower ''Content-Length'' = ''content-length''"
    by code_simp+
  show ?thesis unfolding wire_fields_def eq low filter_filter by (rule refl)
qed

section \<open>Properties\<close>

text \<open>
  C15. A response that is not streamed is framed correctly on the wire. A reader that splits the bytes
  \<^verbatim>\<open>appendToBuffer\<close> writes into lines finds one \<^verbatim>\<open>Connection\<close> field that agrees with the close flag,
  no \<^verbatim>\<open>Transfer-Encoding\<close>, and, unless the status forbids a body, exactly one \<^verbatim>\<open>Content-Length\<close>, which
  is the number of bytes after the empty line; for 1xx, 204 and 304 there is neither a length nor a body.
  This holds for any headers the handlers added, in whatever case they spelled them, under two conditions:
  the response is not a stream, and it is \<open>writable\<close>: neither the version, the status message
  nor any header name or value holds a carriage return, and no header name holds a colon (the code writes these
  strings as they are).
\<close>

theorem appendToBuffer_framing:
  assumes "writable r" and "\<not> resp_streaming r"
  shows "\<exists>line fields. read_head (appendToBuffer r []) =
        Some (line # fields, if noBody r then [] else resp_body r) \<and>
      field_values ''connection'' fields =
        [if resp_closeConnection r then ''close'' else ''Keep-Alive''] \<and>
      field_values ''transfer-encoding'' fields = [] \<and>
      field_values ''content-length'' fields =
        (if noBody r then [] else [to_string (length (resp_body r))])"
proof -
  note fv = field_values_lines [OF wire_fields_ok [OF assms(1)]]
  have none: "filter (\<lambda>kv. \<not> skip_header r (fst kv) \<and> lower (fst kv) = n) (resp_headers r) = []"
    if "n \<in> {''connection'', ''content-length'', ''transfer-encoding''}" for n
    using that assms(2) by (auto simp: filter_empty_conv skip_header_def Let_def)
  have fields: "field_values n (map field_line (wire_fields r)) =
      map snd (filter (\<lambda>kv. lower (fst kv) = n) (wire_fields r))" for n
    by (rule fv)
  have "wire_body r = (if noBody r then [] else resp_body r)"
    using assms(2) by (simp add: wire_body_def)
  moreover have "field_values ''connection'' (map field_line (wire_fields r)) =
      [if resp_closeConnection r then ''close'' else ''Keep-Alive'']"
    unfolding fields filter_wire_fields by (subst none) simp_all
  moreover have "field_values ''transfer-encoding'' (map field_line (wire_fields r)) = []"
    unfolding fields filter_wire_fields by (subst none) simp_all
  moreover have "field_values ''content-length'' (map field_line (wire_fields r)) =
      (if noBody r then [] else [to_string (length (resp_body r))])"
    unfolding fields filter_wire_fields using assms(2) by (subst none) simp_all
  ultimately show ?thesis
    unfolding read_appendToBuffer [OF assms(1)] by (intro exI conjI) simp_all
qed

text \<open>A response whose handler set a wrong length in an odd spelling.\<close>

definition odd_response :: http_response where
  "odd_response = resp_setBody ''hi'' (resp_addHeader ''content-LENGTH'' ''999''
     (setStatusCode k200Ok (new_response False)))"

theorem appendToBuffer_framing_witness:
  "\<exists>line fields. read_head (appendToBuffer odd_response []) = Some (line # fields, ''hi'') \<and>
     field_values ''connection'' fields = [''Keep-Alive''] \<and>
     field_values ''transfer-encoding'' fields = [] \<and>
     field_values ''content-length'' fields = [''2'']"
proof -
  have w: "writable odd_response" "\<not> resp_streaming odd_response" by code_simp+
  have e: "noBody odd_response = False" "resp_body odd_response = ''hi''"
    "resp_closeConnection odd_response = False" "to_string (length ''hi'') = ''2''"
    by code_simp+
  from appendToBuffer_framing [OF w] show ?thesis unfolding e if_False .
qed

end
