(* ===== verification/Middleware.thy ===== *)
theory Middleware
  imports Http_Request Http_Response
begin

text \<open>
  \<^verbatim>\<open>HttpServer/include/middleware\<close> and \<^verbatim>\<open>HttpServer/src/middleware\<close>: the chain of middlewares and the
  CORS middleware. Code that runs inside a request (handlers, middlewares) is a function on
  the request or response it is given and on the rest of the process's state, of a type \<open>'w\<close>
  the model leaves open; it ends normally, throws a standard exception, or throws a response (the
  CORS middleware does). Calling through a null pointer is the outcome \<open>Crashed\<close>.
\<close>

section \<open>Code that runs inside a request\<close>

datatype thrown = Std_exception cpp_exn | Response_thrown http_response

datatype 'a outcome = Done 'a | Threw thrown | Crashed

type_synonym 'w handler =
  "http_request \<Rightarrow> http_response \<Rightarrow> 'w \<Rightarrow> unit outcome \<times> http_response \<times> 'w"

record 'w middleware =
  mw_before :: "http_request \<Rightarrow> 'w \<Rightarrow> unit outcome \<times> http_request \<times> 'w"
  mw_after :: "http_response \<Rightarrow> 'w \<Rightarrow> unit outcome \<times> http_response \<times> 'w"

section \<open>The chain\<close>

type_synonym 'w middleware_chain = "'w middleware option list"

definition addMiddleware :: "'w middleware option \<Rightarrow> 'w middleware_chain \<Rightarrow> 'w middleware_chain" where
  "addMiddleware middleware middlewares = middlewares @ [middleware]"

fun processBefore ::
  "'w middleware_chain \<Rightarrow> http_request \<Rightarrow> 'w \<Rightarrow> unit outcome \<times> http_request \<times> 'w" where
  "processBefore [] request w = (Done (), request, w)"
| "processBefore (None # ms) request w = (Crashed, request, w)"
| "processBefore (Some m # ms) request w =
     (case mw_before m request w of
        (Done _, request', w') \<Rightarrow> processBefore ms request' w'
      | r \<Rightarrow> r)"

fun after_loop ::
  "'w middleware_chain \<Rightarrow> http_response \<Rightarrow> 'w \<Rightarrow> unit outcome \<times> http_response \<times> 'w" where
  "after_loop [] response w = (Done (), response, w)"
| "after_loop (None # ms) response w = after_loop ms response w"
| "after_loop (Some m # ms) response w =
     (case mw_after m response w of
        (Done _, response', w') \<Rightarrow> after_loop ms response' w'
      | r \<Rightarrow> r)"

definition processAfter ::
  "'w middleware_chain \<Rightarrow> http_response \<Rightarrow> 'w \<Rightarrow> unit outcome \<times> http_response \<times> 'w" where
  "processAfter middlewares response w =
     (case after_loop (rev middlewares) response w of
        (Threw (Std_exception e), response', w') \<Rightarrow> (Done (), response', w')
      | r \<Rightarrow> r)"

section \<open>Cross-origin requests\<close>

record cors_config =
  cors_allowedOrigins :: "string list"
  cors_allowedMethods :: "string list"
  cors_allowedHeaders :: "string list"
  cors_allowCredentials :: bool
  cors_maxAge :: int

definition cors_defaultConfig :: cors_config where
  "cors_defaultConfig = \<lparr>cors_allowedOrigins = [''*''],
     cors_allowedMethods = [''GET'', ''POST'', ''PUT'', ''DELETE'', ''OPTIONS''],
     cors_allowedHeaders = [''Content-Type'', ''Authorization''],
     cors_allowCredentials = False, cors_maxAge = 3600\<rparr>"

fun join_from :: "nat \<Rightarrow> string list \<Rightarrow> string \<Rightarrow> string" where
  "join_from i [] delimiter = []"
| "join_from i (s # ss) delimiter =
     (if i > 0 then delimiter else []) @ s @ join_from (i + 1) ss delimiter"

definition cors_join :: "string list \<Rightarrow> string \<Rightarrow> string" where
  "cors_join strings delimiter = join_from 0 strings delimiter"

definition isOriginAllowed :: "cors_config \<Rightarrow> string \<Rightarrow> bool" where
  "isOriginAllowed cfg origin \<longleftrightarrow> cors_allowedOrigins cfg = [] \<or>
     ''*'' \<in> set (cors_allowedOrigins cfg) \<or> origin \<in> set (cors_allowedOrigins cfg)"

definition addCorsHeaders :: "cors_config \<Rightarrow> http_response \<Rightarrow> string \<Rightarrow> http_response" where
  "addCorsHeaders cfg response origin =
     (let r1 = resp_addHeader ''Access-Control-Allow-Origin'' origin response;
          r2 = (if cors_allowCredentials cfg
                then resp_addHeader ''Access-Control-Allow-Credentials'' ''true'' r1 else r1);
          r3 = (if cors_allowedMethods cfg \<noteq> []
                then resp_addHeader ''Access-Control-Allow-Methods''
                       (cors_join (cors_allowedMethods cfg) '', '') r2 else r2);
          r4 = (if cors_allowedHeaders cfg \<noteq> []
                then resp_addHeader ''Access-Control-Allow-Headers''
                       (cors_join (cors_allowedHeaders cfg) '', '') r3 else r3)
      in resp_addHeader ''Access-Control-Max-Age'' (to_string_int (cors_maxAge cfg)) r4)"

definition handlePreflightRequest ::
  "cors_config \<Rightarrow> http_request \<Rightarrow> http_response \<Rightarrow> http_response" where
  "handlePreflightRequest cfg request response =
     (let r1 = resp_setVersion (req_version request) response;
          origin = getHeader request ''Origin''
      in if \<not> isOriginAllowed cfg origin then setStatusCode k403Forbidden r1
         else setStatusCode k204NoContent (addCorsHeaders cfg r1 origin))"

definition cors_before ::
  "cors_config \<Rightarrow> http_request \<Rightarrow> 'w \<Rightarrow> unit outcome \<times> http_request \<times> 'w" where
  "cors_before cfg request w =
     (if req_method request = kOptions
      then (Threw (Response_thrown (handlePreflightRequest cfg request (new_response True))), request, w)
      else (Done (), request, w))"

definition cors_after ::
  "cors_config \<Rightarrow> http_response \<Rightarrow> 'w \<Rightarrow> unit outcome \<times> http_response \<times> 'w" where
  "cors_after cfg response w =
     (Done (),
      (case cors_allowedOrigins cfg of
         [] \<Rightarrow> response
       | first # _ \<Rightarrow> if ''*'' \<in> set (cors_allowedOrigins cfg) then addCorsHeaders cfg response ''*''
                       else addCorsHeaders cfg response first),
      w)"

definition CorsMiddleware :: "cors_config \<Rightarrow> 'w middleware" where
  "CorsMiddleware cfg = \<lparr>mw_before = cors_before cfg, mw_after = cors_after cfg\<rparr>"

section \<open>The chain runs inwards and back out\<close>

text \<open>
  The contract of a chain element that only transforms the requests satisfying \<open>P\<close>: on those it
  neither throws nor crashes, and it never throws on the way out. Such elements compose: requests
  pass through them in order, responses in the reverse order.
\<close>

locale transforming_middleware =
  fixes P :: "http_request \<Rightarrow> bool"
    and m :: "'w middleware"
    and f :: "http_request \<Rightarrow> http_request"
    and g :: "http_response \<Rightarrow> http_response"
  assumes before: "P request \<Longrightarrow> mw_before m request w = (Done (), f request, w)"
    and keeps: "P request \<Longrightarrow> P (f request)"
    and after: "mw_after m response w = (Done (), g response, w)"
begin

lemma processBefore_Cons:
  "P request \<Longrightarrow> processBefore (Some m # ms) request w = processBefore ms (f request) w"
  by (simp add: before)

lemma after_loop_Cons: "after_loop (Some m # ms) response w = after_loop ms (g response) w"
  by (simp add: after)

end

text \<open>The CORS middleware is such an element for every request but a preflight.\<close>

definition cors_stamp :: "cors_config \<Rightarrow> http_response \<Rightarrow> http_response" where
  "cors_stamp cfg response = fst (snd (cors_after cfg response ()))"

interpretation cors: transforming_middleware
  "\<lambda>request. req_method request \<noteq> kOptions" "CorsMiddleware cfg" "\<lambda>request. request" "cors_stamp cfg"
  for cfg
  by unfold_locales (auto simp: CorsMiddleware_def cors_before_def cors_stamp_def cors_after_def)

lemma processBefore_append:
  "processBefore (ms @ ms') request w =
     (case processBefore ms request w of
        (Done _, request', w') \<Rightarrow> processBefore ms' request' w'
      | r \<Rightarrow> r)"
  by (induction ms request w rule: processBefore.induct)
    (auto split: prod.splits outcome.splits)

lemma after_loop_append:
  "after_loop (ms @ ms') response w =
     (case after_loop ms response w of
        (Done _, response', w') \<Rightarrow> after_loop ms' response' w'
      | r \<Rightarrow> r)"
  by (induction ms response w rule: after_loop.induct)
    (auto split: prod.splits outcome.splits)

lemma processBefore_transforming:
  "list_all (\<lambda>(m, f, g). transforming_middleware P m f g) ms \<Longrightarrow> P request \<Longrightarrow>
     processBefore (map (\<lambda>(m, f, g). Some m) ms) request w =
       (Done (), fold (\<lambda>(m, f, g). f) ms request, w)"
proof (induction ms arbitrary: request)
  case (Cons e ms)
  obtain m f g where e: "e = (m, f, g)" by (cases e)
  with Cons.prems have t: "transforming_middleware P m f g" by simp
  from transforming_middleware.processBefore_Cons [OF t] transforming_middleware.keeps [OF t] Cons e
  show ?case by simp
qed simp

lemma after_loop_transforming:
  "list_all (\<lambda>(m, f, g). transforming_middleware P m f g) ms \<Longrightarrow>
     after_loop (map (\<lambda>(m, f, g). Some m) ms) response w =
       (Done (), fold (\<lambda>(m, f, g). g) ms response, w)"
proof (induction ms arbitrary: response)
  case (Cons e ms)
  obtain m f g where e: "e = (m, f, g)" by (cases e)
  with Cons.prems have "transforming_middleware P m f g" by simp
  from transforming_middleware.after_loop_Cons [OF this] Cons e show ?case by simp
qed simp

lemma processAfter_transforming:
  assumes "list_all (\<lambda>(m, f, g). transforming_middleware P m f g) ms"
  shows "processAfter (map (\<lambda>(m, f, g). Some m) ms) response w =
    (Done (), fold (\<lambda>(m, f, g). g) (rev ms) response, w)"
  using after_loop_transforming [of P "rev ms"] assms
  by (simp add: processAfter_def rev_map [symmetric] list_all_rev)

text \<open>No element of the chain may be null on the way in; on the way out null elements are skipped.\<close>

lemma after_loop_skips_null:
  "after_loop ms response w = after_loop (filter (\<lambda>m. m \<noteq> None) ms) response w"
  by (induction ms response w rule: after_loop.induct) (auto split: prod.splits outcome.splits)

lemma processAfter_no_std_exception: "fst (processAfter ms response w) \<noteq> Threw (Std_exception e)"
  by (auto simp: processAfter_def split: prod.splits outcome.splits thrown.splits)

section \<open>CORS\<close>

lemma response_ok_cors [simp]: "response_ok r \<Longrightarrow> response_ok (addCorsHeaders cfg r origin)"
  by (simp add: addCorsHeaders_def Let_def)

lemma addCorsHeaders_origin:
  "response_ok r \<Longrightarrow>
     map_of (resp_headers (addCorsHeaders cfg r origin)) ''Access-Control-Allow-Origin'' = Some origin"
  by (simp add: addCorsHeaders_def Let_def addHeader_lookup)

lemma addCorsHeaders_credentials:
  "response_ok r \<Longrightarrow>
     map_of (resp_headers (addCorsHeaders cfg r origin)) ''Access-Control-Allow-Credentials'' =
       (if cors_allowCredentials cfg then Some ''true''
        else map_of (resp_headers r) ''Access-Control-Allow-Credentials'')"
  by (simp add: addCorsHeaders_def Let_def addHeader_lookup)

lemma addCorsHeaders_fields [simp]:
  "resp_statusCode (addCorsHeaders cfg r origin) = resp_statusCode r"
  "resp_body (addCorsHeaders cfg r origin) = resp_body r"
  "resp_streaming (addCorsHeaders cfg r origin) = resp_streaming r"
  "resp_closeConnection (addCorsHeaders cfg r origin) = resp_closeConnection r"
  by (simp_all add: addCorsHeaders_def resp_addHeader_def Let_def)

lemma cors_join_Cons: "cors_join (s # ss) d = s @ concat (map (\<lambda>t. d @ t) ss)"
proof -
  have "join_from (Suc i) ss d = concat (map (\<lambda>t. d @ t) ss)" for i
    by (induction ss arbitrary: i) auto
  then show ?thesis by (simp add: cors_join_def)
qed

section \<open>Properties\<close>

text \<open>
  Middlewares nest. For a chain whose elements transform requests and responses without throwing, the
  request passes through their \<^verbatim>\<open>before\<close> functions in the order they were added and the response
  through their \<^verbatim>\<open>after\<close> functions in the reverse order, each exactly once.
\<close>

theorem middleware_chain_nests:
  assumes "list_all (\<lambda>(m, f, g). transforming_middleware P m f g) ms" and "P request"
  shows "processBefore (foldl (\<lambda>chain (m, f, g). addMiddleware (Some m) chain) [] ms) request w =
           (Done (), fold (\<lambda>(m, f, g). f) ms request, w) \<and>
         processAfter (foldl (\<lambda>chain (m, f, g). addMiddleware (Some m) chain) [] ms) response w =
           (Done (), foldr (\<lambda>(m, f, g). g) ms response, w)"
proof -
  have "foldl (\<lambda>chain (m, f, g). addMiddleware (Some m) chain) chain0 ms =
      chain0 @ map (\<lambda>(m, f, g). Some m) ms" for chain0
    by (induction ms arbitrary: chain0) (auto simp: addMiddleware_def)
  with processBefore_transforming [where P = P, OF assms]
    processAfter_transforming [where P = P, OF assms(1)]
  show ?thesis by (simp add: foldr_conv_fold)
qed

text \<open>A middleware that records, in the path and in the status message, that it ran.\<close>

definition tagging :: "string \<Rightarrow> 'w middleware" where
  "tagging s = \<lparr>mw_before = (\<lambda>r w. (Done (), setPath (req_path r @ s) r, w)),
                mw_after = (\<lambda>r w. (Done (), setStatusMessage (resp_statusMessage r @ s) r, w))\<rparr>"

lemma tagging_transforms:
  "transforming_middleware (\<lambda>request. req_method request \<noteq> kOptions) (tagging s)
     (\<lambda>r. setPath (req_path r @ s) r) (\<lambda>r. setStatusMessage (resp_statusMessage r @ s) r)"
  by unfold_locales (auto simp: tagging_def setPath_def)

theorem middleware_chain_nests_witness:
  "processBefore [Some (tagging ''1''), Some (CorsMiddleware cors_defaultConfig), Some (tagging ''2'')]
       new_request () = (Done (), setPath ''12'' new_request, ()) \<and>
   resp_statusMessage (fst (snd (processAfter
     [Some (tagging ''1''), Some (CorsMiddleware cors_defaultConfig), Some (tagging ''2'')]
       (setStatusMessage [] (new_response True)) ()))) = ''21''"
proof -
  let ?tag = "\<lambda>s. (tagging s :: unit middleware, \<lambda>r. setPath (req_path r @ s) r,
                    \<lambda>r. setStatusMessage (resp_statusMessage r @ s) r)"
  let ?ms = "[?tag ''1'', (CorsMiddleware cors_defaultConfig, \<lambda>request. request,
                           cors_stamp cors_defaultConfig), ?tag ''2'']"
  have "list_all (\<lambda>(m, f, g).
      transforming_middleware (\<lambda>request. req_method request \<noteq> kOptions) m f g) ?ms"
    by (simp only: list.pred_inject split)
      (intro conjI TrueI tagging_transforms cors.transforming_middleware_axioms)
  from middleware_chain_nests [OF this, of new_request "()" "setStatusMessage [] (new_response True)"]
  show ?thesis
    by (simp add: addMiddleware_def new_request_def setPath_def setStatusMessage_def cors_stamp_def
        cors_after_def cors_defaultConfig_def addCorsHeaders_def resp_addHeader_def Let_def)
qed

text \<open>
  A preflight request is answered by the CORS middleware itself: any request with method
  \<^verbatim>\<open>OPTIONS\<close>, and no other, is ended by a thrown response; it is 204 with the request's origin as
  allowed origin exactly if that origin is allowed, otherwise 403 with no CORS header at all,
  and it closes the connection.
\<close>

theorem cors_preflight:
  "cors_before cfg request w =
     (if req_method request \<noteq> kOptions then (Done (), request, w)
      else let response = handlePreflightRequest cfg request (new_response True)
           in (Threw (Response_thrown response), request, w)) \<and>
   (let response = handlePreflightRequest cfg request (new_response True);
        origin = getHeader request ''Origin''
    in resp_closeConnection response \<and>
       resp_statusCode response = (if isOriginAllowed cfg origin then 204 else 403) \<and>
       map_of (resp_headers response) ''Access-Control-Allow-Origin'' =
         (if isOriginAllowed cfg origin then Some origin else None) \<and>
       (isOriginAllowed cfg origin \<or> resp_headers response = []))"
proof -
  have ok: "response_ok (resp_setVersion v (new_response True))" for v by simp
  show ?thesis
    using addCorsHeaders_origin [OF ok]
    by (auto simp: cors_before_def handlePreflightRequest_def Let_def setStatusCode_def
        status_text_def resp_setVersion_def new_response_def)
qed

end
