(* ===== verification/Router.thy ===== *)
theory Router
  imports Middleware
begin

text \<open>
  \<^verbatim>\<open>HttpServer/include/router/Router.h\<close> and \<^verbatim>\<open>HttpServer/src/router/Router.cpp\<close>: the routing table and the
  dispatch of a request. The two \<^verbatim>\<open>unordered_map\<close>s are association lists; a null handler pointer is the
  function that ends in \<open>Crashed\<close>, an empty \<^verbatim>\<open>std::function\<close> one that throws.

  Dynamic routes are compiled to a \<^verbatim>\<open>std::regex\<close>. The model has the fragment of ECMAScript expressions that
  path patterns are translated to (literal characters and the group \<^verbatim>\<open>([^/]+)\<close> between \<^verbatim>\<open>^\<close> and \<^verbatim>\<open>$\<close>), with
  the backtracking search of \<^verbatim>\<open>regex_match\<close>; an expression outside that fragment is left to
  the parameter \<open>other_regex\<close>, which may also reject it.
\<close>

section \<open>Regular expressions of path patterns\<close>

datatype regex_elem = Lit char | Seg

type_synonym regex = "string \<Rightarrow> string list option"

abbreviation slash :: char where "slash \<equiv> CHR ''/''"
abbreviation colon :: char where "colon \<equiv> CHR '':''"

abbreviation seg_group :: string where "seg_group \<equiv> ''([^/]+)''"

definition regex_meta :: "char \<Rightarrow> bool" where
  "regex_meta c \<longleftrightarrow> c \<in> set (''^$.*+?()[]{}|'' @ [CHR 0x5C])"

function compile_elems :: "string \<Rightarrow> regex_elem list option" where
  "compile_elems s =
     (if s = ''$'' then Some []
      else if s = [] then None
      else if take 7 s = seg_group then map_option (Cons Seg) (compile_elems (drop 7 s))
      else if regex_meta (hd s) then None
      else map_option (Cons (Lit (hd s))) (compile_elems (tl s)))"
  by pat_completeness auto
termination
  by (relation "measure length") (auto simp: length_greater_0_conv)

declare compile_elems.simps [simp del]

definition compile_regex :: "string \<Rightarrow> regex_elem list option" where
  "compile_regex s = (if s \<noteq> [] \<and> hd s = CHR ''^'' then compile_elems (tl s) else None)"

fun first_some :: "('a \<Rightarrow> 'b option) \<Rightarrow> 'a list \<Rightarrow> 'b option" where
  "first_some f [] = None"
| "first_some f (x # xs) = (case f x of Some y \<Rightarrow> Some y | None \<Rightarrow> first_some f xs)"

text \<open>The captures of a match, the longest choice for each group first.\<close>

fun match_elems :: "regex_elem list \<Rightarrow> regex" where
  "match_elems [] s = (if s = [] then Some [] else None)"
| "match_elems (Lit c # es) s =
     (if s \<noteq> [] \<and> hd s = c then match_elems es (tl s) else None)"
| "match_elems (Seg # es) s =
     first_some (\<lambda>n. map_option (Cons (take n s)) (match_elems es (drop n s)))
       (rev [1..<Suc (std_find slash s)])"

declare match_elems.simps(3) [simp del]

definition make_regex :: "(string \<Rightarrow> regex result) \<Rightarrow> string \<Rightarrow> regex result" where
  "make_regex other_regex s =
     (case compile_regex s of Some es \<Rightarrow> return (match_elems es) | None \<Rightarrow> other_regex s)"

section \<open>From a path pattern to an expression\<close>

text \<open>\<^verbatim>\<open>regex_replace\<close> of \<^verbatim>\<open>/:([^/]+)\<close> by \<^verbatim>\<open>/([^/]+)\<close>: matches do not overlap and are as long as possible.\<close>

function replace_params :: "string \<Rightarrow> string" where
  "replace_params s =
     (if s = [] then []
      else if take 2 s = [slash, colon] \<and> std_find slash (drop 2 s) > 0
      then slash # seg_group @ replace_params (drop (2 + std_find slash (drop 2 s)) s)
      else hd s # replace_params (tl s))"
  by pat_completeness auto
termination
  by (relation "measure length") (auto simp: length_greater_0_conv)

declare replace_params.simps [simp del]

definition convertToRegex :: "(string \<Rightarrow> regex result) \<Rightarrow> string \<Rightarrow> regex result" where
  "convertToRegex other_regex pathPattern =
     make_regex other_regex (''^'' @ replace_params pathPattern @ ''$'')"

section \<open>The routing table\<close>

record 'w router =
  rt_handlers :: "(http_method \<times> string, 'w handler) umap"
  rt_callbacks :: "(http_method \<times> string, 'w handler) umap"
  rt_regexHandlers :: "(http_method \<times> regex \<times> 'w handler) list"
  rt_regexCallbacks :: "(http_method \<times> regex \<times> 'w handler) list"
  rt_regexHandlerLabels :: "string list"
  rt_regexCallbackLabels :: "string list"

definition new_router :: "'w router" where
  "new_router = \<lparr>rt_handlers = [], rt_callbacks = [], rt_regexHandlers = [], rt_regexCallbacks = [],
     rt_regexHandlerLabels = [], rt_regexCallbackLabels = []\<rparr>"

definition registerHandler :: "http_method \<Rightarrow> string \<Rightarrow> 'w handler \<Rightarrow> 'w router \<Rightarrow> 'w router" where
  "registerHandler method path handler rt =
     rt\<lparr>rt_handlers := AList.update (method, path) handler (rt_handlers rt)\<rparr>"

definition registerCallback :: "http_method \<Rightarrow> string \<Rightarrow> 'w handler \<Rightarrow> 'w router \<Rightarrow> 'w router" where
  "registerCallback method path callback rt =
     rt\<lparr>rt_callbacks := AList.update (method, path) callback (rt_callbacks rt)\<rparr>"

definition addRegexHandler ::
  "(string \<Rightarrow> regex result) \<Rightarrow> http_method \<Rightarrow> string \<Rightarrow> 'w handler \<Rightarrow> 'w router \<Rightarrow> 'w router result" where
  "addRegexHandler other_regex method path handler rt =
     bind_result (convertToRegex other_regex path) (\<lambda>pathRegex.
       let rt1 = rt\<lparr>rt_regexHandlerLabels := rt_regexHandlerLabels rt @ [path]\<rparr>
       in return (rt1\<lparr>rt_regexHandlers := rt_regexHandlers rt1 @ [(method, pathRegex, handler)]\<rparr>))"

definition addRegexCallback ::
  "(string \<Rightarrow> regex result) \<Rightarrow> http_method \<Rightarrow> string \<Rightarrow> 'w handler \<Rightarrow> 'w router \<Rightarrow> 'w router result" where
  "addRegexCallback other_regex method path callback rt =
     bind_result (convertToRegex other_regex path) (\<lambda>pathRegex.
       let rt1 = rt\<lparr>rt_regexCallbackLabels := rt_regexCallbackLabels rt @ [path]\<rparr>
       in return (rt1\<lparr>rt_regexCallbacks := rt_regexCallbacks rt1 @ [(method, pathRegex, callback)]\<rparr>))"

section \<open>Dispatch\<close>

fun extract_from :: "nat \<Rightarrow> string list \<Rightarrow> http_request \<Rightarrow> http_request" where
  "extract_from i [] request = request"
| "extract_from i (m # ms) request =
     extract_from (i + 1) ms (setPathParameters (''param'' @ to_string i) m request)"

definition extractPathParameters :: "string list \<Rightarrow> http_request \<Rightarrow> http_request" where
  "extractPathParameters captures request = extract_from 1 captures request"

type_synonym 'w dispatched = "bool outcome \<times> http_response \<times> 'w"

definition run_handler :: "'w handler \<Rightarrow> http_request \<Rightarrow> http_response \<Rightarrow> 'w \<Rightarrow> 'w dispatched" where
  "run_handler h req resp w =
     (case h req resp w of
        (Done _, resp', w') \<Rightarrow> (Done True, resp', w')
      | (Threw e, resp', w') \<Rightarrow> (Threw e, resp', w')
      | (Crashed, resp', w') \<Rightarrow> (Crashed, resp', w'))"

text \<open>The two loops over dynamic routes; reading a label past the end of its vector is \<open>Crashed\<close>.\<close>

fun regex_loop ::
  "nat \<Rightarrow> (http_method \<times> regex \<times> 'w handler) list \<Rightarrow> string list \<Rightarrow> http_request \<Rightarrow>
   http_response \<Rightarrow> 'w \<Rightarrow> 'w dispatched option" where
  "regex_loop index [] labels req resp w = None"
| "regex_loop index ((method, pathRegex, h) # rs) labels req resp w =
     (if method = req_method req
      then (case pathRegex (req_path req) of
              Some captures \<Rightarrow>
                Some (let newReq = extractPathParameters captures req
                      in if index < length labels
                         then run_handler h newReq (setLogRoute (labels ! index) resp) w
                         else (Crashed, resp, w))
            | None \<Rightarrow> regex_loop (index + 1) rs labels req resp w)
      else regex_loop (index + 1) rs labels req resp w)"

definition route :: "'w router \<Rightarrow> http_request \<Rightarrow> http_response \<Rightarrow> 'w \<Rightarrow> 'w dispatched" where
  "route rt req resp w =
     (let key = (req_method req, req_path req)
      in case map_of (rt_handlers rt) key of
           Some h \<Rightarrow> run_handler h req (setLogRoute (snd key) resp) w
         | None \<Rightarrow>
      (case map_of (rt_callbacks rt) key of
           Some h \<Rightarrow> run_handler h req (setLogRoute (snd key) resp) w
         | None \<Rightarrow>
      (case regex_loop 0 (rt_regexHandlers rt) (rt_regexHandlerLabels rt) req resp w of
           Some r \<Rightarrow> r
         | None \<Rightarrow>
      (case regex_loop 0 (rt_regexCallbacks rt) (rt_regexCallbackLabels rt) req resp w of
           Some r \<Rightarrow> r
         | None \<Rightarrow> (Done False, resp, w)))))"

section \<open>Invariant\<close>

text \<open>Every dynamic route has its label.\<close>

definition router_ok :: "'w router \<Rightarrow> bool" where
  "router_ok rt \<longleftrightarrow> length (rt_regexHandlerLabels rt) = length (rt_regexHandlers rt) \<and>
     length (rt_regexCallbackLabels rt) = length (rt_regexCallbacks rt)"

lemma router_ok_new [simp]: "router_ok new_router"
  by (simp add: router_ok_def new_router_def)

lemma router_ok_register [simp]:
  "router_ok (registerHandler m p h rt) = router_ok rt"
  "router_ok (registerCallback m p h rt) = router_ok rt"
  by (simp_all add: router_ok_def registerHandler_def registerCallback_def)

lemma router_ok_add:
  "router_ok rt \<Longrightarrow> addRegexHandler other m p h rt = Inr rt' \<Longrightarrow> router_ok rt'"
  "router_ok rt \<Longrightarrow> addRegexCallback other m p h rt = Inr rt' \<Longrightarrow> router_ok rt'"
  by (auto simp: router_ok_def addRegexHandler_def addRegexCallback_def bind_result_Inr Let_def)

section \<open>The specification of dispatch\<close>

text \<open>
  A route as the programmer sees it: what it accepts (with the request the handler gets), its
  label and its handler. A request goes to the first route of the list that accepts it.
\<close>

type_synonym 'w spec_route = "(http_request \<Rightarrow> http_request option) \<times> string \<times> 'w handler"

definition exact_route :: "(http_method \<times> string) \<times> 'w handler \<Rightarrow> 'w spec_route" where
  "exact_route e =
     ((\<lambda>req. if (req_method req, req_path req) = fst e then Some req else None), snd (fst e), snd e)"

definition dynamic_route :: "(http_method \<times> regex \<times> 'w handler) \<times> string \<Rightarrow> 'w spec_route" where
  "dynamic_route e = (case e of ((m, rx, h), label) \<Rightarrow>
     ((\<lambda>req. if m = req_method req
             then map_option (\<lambda>captures. extractPathParameters captures req) (rx (req_path req))
             else None), label, h))"

definition spec_routes :: "'w router \<Rightarrow> 'w spec_route list" where
  "spec_routes rt =
     map exact_route (rt_handlers rt) @ map exact_route (rt_callbacks rt) @
     map dynamic_route (zip (rt_regexHandlers rt) (rt_regexHandlerLabels rt)) @
     map dynamic_route (zip (rt_regexCallbacks rt) (rt_regexCallbackLabels rt))"

fun spec_dispatch :: "'w spec_route list \<Rightarrow> http_request \<Rightarrow> http_response \<Rightarrow> 'w \<Rightarrow> 'w dispatched" where
  "spec_dispatch [] req resp w = (Done False, resp, w)"
| "spec_dispatch ((accepts, label, h) # rs) req resp w =
     (case accepts req of
        Some req' \<Rightarrow> run_handler h req' (setLogRoute label resp) w
      | None \<Rightarrow> spec_dispatch rs req resp w)"

lemma spec_dispatch_exact:
  "spec_dispatch (map exact_route es @ rs) req resp w =
     (case map_of es (req_method req, req_path req) of
        Some h \<Rightarrow> run_handler h req (setLogRoute (req_path req) resp) w
      | None \<Rightarrow> spec_dispatch rs req resp w)"
  by (induction es) (auto simp: exact_route_def)

lemma regex_loop_spec:
  "length ls = length es \<Longrightarrow>
     spec_dispatch (map dynamic_route (zip es ls) @ rs) req resp w =
       (case regex_loop (length ps) es (ps @ ls) req resp w of
          Some r \<Rightarrow> r | None \<Rightarrow> spec_dispatch rs req resp w)"
proof (induction es arbitrary: ls ps)
  case (Cons e es)
  obtain m rx h where e: "e = (m, rx, h)" by (cases e)
  from Cons.prems obtain l ls' where ls: "ls = l # ls'" by (cases ls) auto
  with Cons.IH [of ls' "ps @ [l]"] Cons.prems e show ?case
    by (auto simp: dynamic_route_def split: option.splits)
qed simp

lemma route_spec: "router_ok rt \<Longrightarrow> route rt req resp w = spec_dispatch (spec_routes rt) req resp w"
  using regex_loop_spec [of "rt_regexHandlerLabels rt" "rt_regexHandlers rt" _ _ _ _ "[]"]
    regex_loop_spec [of "rt_regexCallbackLabels rt" "rt_regexCallbacks rt" "[]" _ _ _ "[]"]
  by (simp add: route_def spec_routes_def router_ok_def spec_dispatch_exact Let_def
      split: option.split)

section \<open>What a path pattern matches\<close>

text \<open>The segments of a path pattern, and when a segment of a path fits one.\<close>

datatype pat_seg = Fixed string | Param string

fun render_seg :: "pat_seg \<Rightarrow> string" where
  "render_seg (Fixed s) = slash # s"
| "render_seg (Param n) = slash # colon # n"

definition render_pattern :: "pat_seg list \<Rightarrow> string" where
  "render_pattern segs = concat (map render_seg segs)"

text \<open>Plain fixed segments (no slash, no leading colon, no metacharacter) and named parameters.\<close>

fun seg_ok :: "pat_seg \<Rightarrow> bool" where
  "seg_ok (Fixed s) \<longleftrightarrow> slash \<notin> set s \<and> (s = [] \<or> hd s \<noteq> colon) \<and> list_all (\<lambda>c. \<not> regex_meta c) s"
| "seg_ok (Param n) \<longleftrightarrow> slash \<notin> set n \<and> n \<noteq> []"

fun seg_matches :: "pat_seg \<Rightarrow> string \<Rightarrow> bool" where
  "seg_matches (Fixed s) x \<longleftrightarrow> x = s"
| "seg_matches (Param n) x \<longleftrightarrow> x \<noteq> [] \<and> slash \<notin> set x"

fun captured :: "pat_seg list \<Rightarrow> string list \<Rightarrow> string list" where
  "captured (Fixed s # segs) (x # xs) = captured segs xs"
| "captured (Param n # segs) (x # xs) = x # captured segs xs"
| "captured _ _ = []"

definition path_of :: "string list \<Rightarrow> string" where
  "path_of xs = concat (map (Cons slash) xs)"

fun seg_regex :: "pat_seg \<Rightarrow> string" where
  "seg_regex (Fixed s) = slash # s"
| "seg_regex (Param n) = slash # seg_group"

fun seg_elems :: "pat_seg \<Rightarrow> regex_elem list" where
  "seg_elems (Fixed s) = Lit slash # map Lit s"
| "seg_elems (Param n) = [Lit slash, Seg]"

subsection \<open>Translation\<close>

lemma std_find_slash_rest:
  "slash \<notin> set s \<Longrightarrow> rest = [] \<or> hd rest = slash \<Longrightarrow> std_find slash (s @ rest) = length s"
  by (cases rest) (simp_all add: std_find_append std_find_notin, simp add: std_find_def)

lemma replace_params_plain:
  "slash \<notin> set s \<Longrightarrow> replace_params (s @ rest) = s @ replace_params rest"
proof (induction s)
  case (Cons c s)
  then show ?case by (subst replace_params.simps) auto
qed simp

lemma replace_params_seg:
  assumes "seg_ok seg" and "rest = [] \<or> hd rest = slash"
  shows "replace_params (render_seg seg @ rest) = seg_regex seg @ replace_params rest"
proof (cases seg)
  case (Fixed s)
  have "take 2 (slash # s @ rest) \<noteq> [slash, colon]"
    using assms Fixed by (cases s; cases rest) auto
  then have "replace_params (slash # s @ rest) = slash # replace_params (s @ rest)"
    by (subst replace_params.simps) auto
  with Fixed assms(1) replace_params_plain [of s rest] show ?thesis by simp
next
  case (Param n)
  with assms std_find_slash_rest [of n rest] show ?thesis
    by (subst replace_params.simps) auto
qed

lemma render_pattern_head: "render_pattern segs = [] \<or> hd (render_pattern segs) = slash"
proof (cases segs)
  case (Cons seg segs')
  then show ?thesis by (cases seg) (simp_all add: render_pattern_def)
qed (simp add: render_pattern_def)

lemma replace_params_render:
  "list_all seg_ok segs \<Longrightarrow> replace_params (render_pattern segs) = concat (map seg_regex segs)"
proof (induction segs)
  case Nil
  show ?case by (simp add: render_pattern_def replace_params.simps)
next
  case (Cons seg segs)
  with replace_params_seg [of seg "render_pattern segs"] render_pattern_head [of segs]
  show ?case by (simp add: render_pattern_def)
qed

lemma compile_lit:
  assumes "\<not> regex_meta c"
  shows "compile_elems (c # s) = map_option (Cons (Lit c)) (compile_elems s)"
proof -
  have "c \<noteq> CHR ''$''" "c \<noteq> CHR ''(''" using assms by (auto simp: regex_meta_def)
  with assms show ?thesis by (subst compile_elems.simps) simp
qed

lemma compile_lits:
  "list_all (\<lambda>c. \<not> regex_meta c) s \<Longrightarrow>
     compile_elems (s @ rest) = map_option (\<lambda>es. map Lit s @ es) (compile_elems rest)"
  by (induction s; cases "compile_elems rest") (auto simp: compile_lit)

lemma compile_seg: "compile_elems (seg_group @ rest) = map_option (Cons Seg) (compile_elems rest)"
  by (subst compile_elems.simps) simp

lemma compile_segs:
  "list_all seg_ok segs \<Longrightarrow>
     compile_elems (concat (map seg_regex segs) @ ''$'') = Some (concat (map seg_elems segs))"
proof (induction segs)
  case Nil
  show ?case by (simp add: compile_elems.simps)
next
  case (Cons seg segs)
  have slash: "\<not> regex_meta slash" by (simp add: regex_meta_def)
  show ?case
  proof (cases seg)
    case (Fixed s)
    with Cons slash show ?thesis by (simp add: compile_lit compile_lits)
  next
    case (Param n)
    with Cons slash compile_seg [of "concat (map seg_regex segs) @ ''$''"] show ?thesis
      by (simp add: compile_lit)
  qed
qed

lemma convertToRegex_render:
  "list_all seg_ok segs \<Longrightarrow>
     convertToRegex other (render_pattern segs) = Inr (match_elems (concat (map seg_elems segs)))"
  by (simp add: convertToRegex_def make_regex_def compile_regex_def replace_params_render compile_segs)

subsection \<open>Matching\<close>

lemma match_lits:
  "match_elems (map Lit s @ es) t =
     (if take (length s) t = s then match_elems es (drop (length s) t) else None)"
proof (induction s arbitrary: t)
  case (Cons c s)
  then show ?case by (cases t) auto
qed simp

lemma match_lit_head: "match_elems (Lit c # es) t \<noteq> None \<Longrightarrow> t \<noteq> [] \<and> hd t = c"
  by (simp split: if_splits)

text \<open>A group is followed by a slash or the end, so only its longest choice can succeed.\<close>

lemma match_elems_needs_slash:
  "segs = [] \<Longrightarrow> match_elems (concat (map seg_elems segs)) t \<noteq> None \<Longrightarrow> t = []"
  "segs \<noteq> [] \<Longrightarrow> match_elems (concat (map seg_elems segs)) t \<noteq> None \<Longrightarrow> t \<noteq> [] \<and> hd t = slash"
proof -
  show "t = []" if "segs = []" "match_elems (concat (map seg_elems segs)) t \<noteq> None"
    using that by (auto split: if_splits)
  show "t \<noteq> [] \<and> hd t = slash"
    if ne: "segs \<noteq> []" and m: "match_elems (concat (map seg_elems segs)) t \<noteq> None"
  proof -
    obtain seg segs' where s: "segs = seg # segs'" using ne by (cases segs) auto
    obtain es where "concat (map seg_elems segs) = Lit slash # es"
      unfolding s by (cases seg) simp_all
    with m have "match_elems (Lit slash # es) t \<noteq> None" by metis
    then show ?thesis by (rule match_lit_head)
  qed
qed

lemma first_some_down:
  "(\<And>k. 1 \<le> k \<Longrightarrow> k < n \<Longrightarrow> f k = None) \<Longrightarrow>
     first_some f (rev [1..<Suc n]) = (if n = 0 then None else f n)"
proof -
  assume f: "\<And>k. 1 \<le> k \<Longrightarrow> k < n \<Longrightarrow> f k = None"
  have none: "first_some f xs = None" if "\<forall>x\<in>set xs. f x = None" for xs
    using that by (induction xs) auto
  have "\<forall>x\<in>set (rev [1..<n]). f x = None" using f by simp
  from none [OF this] show ?thesis by (auto split: option.split)
qed

lemma match_group:
  "match_elems (Seg # concat (map seg_elems segs)) t =
     (let n = std_find slash t
      in if n = 0 then None
         else map_option (Cons (take n t)) (match_elems (concat (map seg_elems segs)) (drop n t)))"
proof -
  have "match_elems (concat (map seg_elems segs)) (drop k t) = None"
    if k: "1 \<le> k" "k < std_find slash t" for k
  proof (rule ccontr)
    assume h: "match_elems (concat (map seg_elems segs)) (drop k t) \<noteq> None"
    have len: "k < length t" using k std_find_le [of slash t] by simp
    then have "t ! k \<in> set (take (std_find slash t) t)" using k by (auto simp: in_set_conv_nth)
    with not_in_take_std_find [of slash t] have "t ! k \<noteq> slash" by metis
    moreover have "hd (drop k t) = t ! k" using len by (simp add: hd_drop_conv_nth)
    ultimately show False using match_elems_needs_slash [of segs "drop k t"] h len by (cases segs) auto
  qed
  then show ?thesis unfolding match_elems.simps(3)
    by (subst first_some_down) (simp_all add: Let_def)
qed

lemma path_of_split:
  assumes "slash \<notin> set x"
  shows "std_find slash (x @ path_of xs) = length x"
  using assms by (intro std_find_slash_rest) (cases xs; simp add: path_of_def)+

lemma match_segments:
  "list_all seg_ok segs \<Longrightarrow>
     match_elems (concat (map seg_elems segs)) t = Some caps \<longleftrightarrow>
       (\<exists>xs. t = path_of xs \<and> list_all2 seg_matches segs xs \<and> caps = captured segs xs)"
proof (induction segs arbitrary: t caps)
  case Nil
  show ?case by (auto simp: path_of_def)
next
  case (Cons seg segs)
  then have IH: "match_elems (concat (map seg_elems segs)) t = Some caps \<longleftrightarrow>
       (\<exists>xs. t = path_of xs \<and> list_all2 seg_matches segs xs \<and> caps = captured segs xs)" for t caps
    by simp
  have split: "(\<exists>ys. t = path_of ys \<and> list_all2 seg_matches (seg # segs) ys \<and>
        caps = captured (seg # segs) ys) \<longleftrightarrow>
      (\<exists>x xs. t = slash # x @ path_of xs \<and> seg_matches seg x \<and> list_all2 seg_matches segs xs \<and>
        caps = captured (seg # segs) (x # xs))"
  proof (intro iffI; elim exE conjE)
    fix ys
    assume h: "t = path_of ys" "list_all2 seg_matches (seg # segs) ys" "caps = captured (seg # segs) ys"
    from h(2) obtain x xs where "ys = x # xs" "seg_matches seg x" "list_all2 seg_matches segs xs"
      by (auto simp: list_all2_Cons1)
    with h show "\<exists>x xs. t = slash # x @ path_of xs \<and> seg_matches seg x \<and>
        list_all2 seg_matches segs xs \<and> caps = captured (seg # segs) (x # xs)"
      by (intro exI [of _ x] exI [of _ xs]) (simp add: path_of_def)
  next
    fix x xs
    assume "t = slash # x @ path_of xs" "seg_matches seg x" "list_all2 seg_matches segs xs"
      "caps = captured (seg # segs) (x # xs)"
    then show "\<exists>ys. t = path_of ys \<and> list_all2 seg_matches (seg # segs) ys \<and>
        caps = captured (seg # segs) ys"
      by (intro exI [of _ "x # xs"]) (simp add: path_of_def)
  qed
  show ?case
  proof (cases seg)
    case (Fixed s)
    have "match_elems (concat (map seg_elems (seg # segs))) t = Some caps \<longleftrightarrow>
        (\<exists>t'. t = slash # s @ t' \<and> match_elems (concat (map seg_elems segs)) t' = Some caps)"
      using Fixed by (cases t) (auto simp: match_lits, metis append_take_drop_id)
    then show ?thesis unfolding split IH using Fixed by auto
  next
    case (Param n)
    have "match_elems (concat (map seg_elems (seg # segs))) t = Some caps \<longleftrightarrow>
        (\<exists>t'. t = slash # t' \<and> std_find slash t' > 0 \<and> (\<exists>caps'. caps = take (std_find slash t') t' # caps' \<and>
           match_elems (concat (map seg_elems segs)) (drop (std_find slash t') t') = Some caps'))"
      using Param by (cases t) (auto simp: match_group Let_def)
    also have "\<dots> \<longleftrightarrow> (\<exists>x xs. t = slash # x @ path_of xs \<and> seg_matches seg x \<and>
        list_all2 seg_matches segs xs \<and> caps = captured (seg # segs) (x # xs))"
    proof (intro iffI; elim exE conjE)
      fix t' caps'
      assume h: "t = slash # t'" "0 < std_find slash t'" "caps = take (std_find slash t') t' # caps'"
        "match_elems (concat (map seg_elems segs)) (drop (std_find slash t') t') = Some caps'"
      from h(4) IH obtain xs where xs: "drop (std_find slash t') t' = path_of xs"
        "list_all2 seg_matches segs xs" "caps' = captured segs xs" by blast
      let ?x = "take (std_find slash t') t'"
      have "t' = ?x @ path_of xs" using xs(1) by (metis append_take_drop_id)
      moreover have "slash \<notin> set ?x" by (rule not_in_take_std_find)
      moreover have "?x \<noteq> []" using h(2) std_find_le [of slash t'] by auto
      ultimately show "\<exists>x xs. t = slash # x @ path_of xs \<and> seg_matches seg x \<and>
          list_all2 seg_matches segs xs \<and> caps = captured (seg # segs) (x # xs)"
        using Param h xs by (intro exI [of _ ?x] exI [of _ xs]) auto
    next
      fix x xs
      assume h: "t = slash # x @ path_of xs" "seg_matches seg x" "list_all2 seg_matches segs xs"
        "caps = captured (seg # segs) (x # xs)"
      with Param have x: "x \<noteq> []" "slash \<notin> set x" by auto
      from h(3) IH have "match_elems (concat (map seg_elems segs)) (path_of xs) = Some (captured segs xs)"
        by blast
      with path_of_split [OF x(2), of xs] x h Param
      show "\<exists>t'. t = slash # t' \<and> 0 < std_find slash t' \<and> (\<exists>caps'. caps = take (std_find slash t') t' # caps' \<and>
           match_elems (concat (map seg_elems segs)) (drop (std_find slash t') t') = Some caps')"
        by (intro exI [of _ "x @ path_of xs"]) simp
    qed
    finally show ?thesis unfolding split .
  qed
qed

lemma extract_from_lookup:
  "map_of (req_pathParameters (extract_from i caps r)) (''param'' @ to_string j) =
     (if i \<le> j \<and> j < i + length caps then Some (caps ! (j - i))
      else map_of (req_pathParameters r) (''param'' @ to_string j))"
proof (induction caps arbitrary: i r)
  case (Cons c caps)
  then show ?case
    by (auto simp: setPathParameters_def update_conv' nth_Cons')
qed auto

section \<open>Properties\<close>

text \<open>
  C22. Dispatch refines its specification: a request goes to the first route that accepts it, exact
  handlers before exact callbacks before dynamic handlers before dynamic callbacks, dynamic ones in
  registration order; the log label is the pattern of that very route; if none accepts, the response and
  the rest of the state are untouched and \<^verbatim>\<open>route\<close> returns false.
\<close>

theorem route_refines_spec:
  assumes "router_ok rt"
  shows "route rt req resp w = spec_dispatch (spec_routes rt) req resp w"
  using assms by (rule route_spec)

text \<open>A handler that answers with its name and the first path parameter.\<close>

definition named_handler :: "string \<Rightarrow> unit handler" where
  "named_handler name req resp w =
     (Done (), resp_setBody (name @ getPathParameters req ''param1'') resp, w)"

definition sample_router :: "unit router" where
  "sample_router =
     (case addRegexCallback (\<lambda>s. throw (Runtime_error ''regex'')) kGet ''/item/:id'' (named_handler ''b'')
             (registerHandler kGet ''/item/0'' (named_handler ''a'') new_router) of
        Inr rt \<Rightarrow> rt | Inl e \<Rightarrow> new_router)"

definition sample_request :: http_request where
  "sample_request = setPath ''/item/7'' (new_request\<lparr>req_method := kGet\<rparr>)"

theorem route_refines_spec_witness:
  "route sample_router sample_request (new_response True) () =
     spec_dispatch (spec_routes sample_router) sample_request (new_response True) () \<and>
   resp_body (fst (snd (route sample_router sample_request (new_response True) ()))) = ''b7''"
proof -
  have ok: "router_ok sample_router" by code_simp
  have "resp_body (fst (snd (route sample_router sample_request (new_response True) ()))) = ''b7''"
    by code_simp
  with route_refines_spec [OF ok] show ?thesis by blast
qed

text \<open>
  A path pattern of plain segments and named parameters compiles without an exception and means
  what it shows: it matches a path exactly when the path has the same number of segments, fixed
  segments are equal and each parameter stands for a nonempty segment; the captures are those segments, in
  order.
\<close>

theorem path_pattern_matches:
  assumes "list_all seg_ok segs"
  shows "\<exists>rx. convertToRegex other_regex (render_pattern segs) = Inr rx \<and>
    (\<forall>path captures. rx path = Some captures \<longleftrightarrow>
       (\<exists>xs. path = path_of xs \<and> list_all2 seg_matches segs xs \<and> captures = captured segs xs))"
  using convertToRegex_render [OF assms] match_segments [OF assms] by blast

theorem path_pattern_matches_witness:
  "\<exists>rx. convertToRegex (\<lambda>s. throw (Runtime_error ''regex''))
          (render_pattern [Fixed ''user'', Param ''id'', Fixed ''edit'']) = Inr rx \<and>
     rx ''/user/7/edit'' = Some [''7'']"
proof -
  let ?segs = "[Fixed ''user'', Param ''id'', Fixed ''edit'']"
  have ok: "list_all seg_ok ?segs" by code_simp
  have "''/user/7/edit'' = path_of [''user'', ''7'', ''edit'']"
    "list_all2 seg_matches ?segs [''user'', ''7'', ''edit'']"
    "[''7''] = captured ?segs [''user'', ''7'', ''edit'']" by code_simp+
  with path_pattern_matches [OF ok] show ?thesis by metis
qed

text \<open>
  The captures reach the handler under the names \<^verbatim>\<open>param1\<close>, \<^verbatim>\<open>param2\<close>, ... in order.
\<close>

theorem path_parameters_numbered:
  assumes "i < length captures"
  shows "getPathParameters (extractPathParameters captures request) (''param'' @ to_string (i + 1)) =
    captures ! i"
  using assms extract_from_lookup [of 1 captures request "i + 1"]
  by (simp add: getPathParameters_def extractPathParameters_def)

theorem path_parameters_numbered_witness:
  "getPathParameters (extractPathParameters [''a'', ''b''] new_request) (''param'' @ to_string (1 + 1)) =
     ''b''"
  using path_parameters_numbered [of 1 "[''a'', ''b'']" new_request] by simp

end
