(* ===== verification/Http_Server.thy ===== *)
theory Http_Server
  imports Http_Context Router
begin

text \<open>
  \<^verbatim>\<open>HttpServer/include/http/HttpServer.h\<close>, \<^verbatim>\<open>HttpServer/src/http/HttpServer.cpp\<close> and
  \<^verbatim>\<open>HttpServer/include/http/HttpRequestLog.h\<close>: what the server does with the bytes of a connection, after
  the TLS branch (theory \<open>Ssl\<close> has that). A \<^verbatim>\<open>muduo::net::TcpConnection\<close> and the steady clock are the parameter \<open>ops\<close>: operations on the
  process's state \<open>'w\<close>. The state the server itself keeps is the counter behind the request
  identifiers and the request log.

  \<^verbatim>\<open>onMessage\<close> is the callback for received bytes. Its result \<open>None\<close> is a callback that never
  returns; the theorems exclude that, show that the server's answers do not depend on how the bytes
  were cut into messages, and that no request is looked at after the connection was given up.
\<close>

section \<open>The request log\<close>

definition nextId :: "64 word \<Rightarrow> 64 word \<times> 64 word" where
  "nextId sequence = (sequence + 1, sequence + 1)"

fun methodName :: "http_method \<Rightarrow> string" where
  "methodName kGet = ''GET''"
| "methodName kPost = ''POST''"
| "methodName kHead = ''HEAD''"
| "methodName kPut = ''PUT''"
| "methodName kDelete = ''DELETE''"
| "methodName kOptions = ''OPTIONS''"
| "methodName kInvalid = ''INVALID''"

abbreviation quote :: char where "quote \<equiv> CHR 0x22"
abbreviation backslash :: char where "backslash \<equiv> CHR 0x5C"

definition hex_digit :: "nat \<Rightarrow> char" where
  "hex_digit n = ''0123456789abcdef'' ! n"

definition quote_char :: "char \<Rightarrow> string" where
  "quote_char c =
     (let ch = byte_of c
      in if c = quote \<or> c = backslash then [backslash, c]
         else if ch < 0x20 \<or> ch \<ge> 0x7f
         then [backslash, CHR ''x'', hex_digit (ch div 16), hex_digit (ch mod 16)]
         else [c])"

definition quoteLabel :: "string \<Rightarrow> string" where
  "quoteLabel label =
     [quote] @ concat (map quote_char (take 128 label)) @
     (if length label > 128 then ''...'' else []) @ [quote]"

definition record_event ::
  "64 word \<Rightarrow> http_method \<Rightarrow> string \<Rightarrow> nat \<Rightarrow> int \<Rightarrow> int \<Rightarrow> nat \<Rightarrow> bool \<Rightarrow> string" where
  "record_event rid method label status started now bytes streaming =
     (let elapsed = (now - started) div 1000
      in ''http_request request_id='' @ to_string (unat rid) @ '' method='' @ methodName method @
         '' route='' @ quoteLabel label @ '' status='' @ to_string status @
         '' elapsed_us='' @ to_string_int elapsed @
         '' event='' @ (if streaming then ''stream_open'' else ''response'') @
         (if \<not> streaming then '' response_bytes='' @ to_string bytes else []))"

section \<open>The state and the connection\<close>

record 'w tcp_ops =
  op_send :: "string \<Rightarrow> 'w \<Rightarrow> 'w"
  op_shutdown :: "'w \<Rightarrow> 'w"
  op_connected :: "'w \<Rightarrow> bool"
  op_now :: "'w \<Rightarrow> int"

record 'w server =
  srv_sequence :: "64 word"
  srv_log :: "string list"
  srv_world :: 'w

definition bad_request_bytes :: string where
  "bad_request_bytes = ''HTTP/1.1 400 Bad Request'' @ crlf @ ''Connection: close'' @ crlf @
     ''Content-Length: 0'' @ crlf @ crlf"

definition record_request ::
  "'w tcp_ops \<Rightarrow> 64 word \<Rightarrow> http_method \<Rightarrow> string \<Rightarrow> nat \<Rightarrow> int \<Rightarrow> nat \<Rightarrow> bool \<Rightarrow> 'w server \<Rightarrow> 'w server" where
  "record_request ops rid method label status started bytes streaming st =
     st\<lparr>srv_log := srv_log st @
          [record_event rid method label status started (op_now ops (srv_world st)) bytes streaming]\<rparr>"

section \<open>Handling one request\<close>

definition defaultHttpCallback :: "'w handler" where
  "defaultHttpCallback req resp w =
     (Done (), setCloseConnection True
        (setStatusLine (req_version req) k404NotFound ''Not Found'' resp), w)"

definition handleRequest :: "'w middleware_chain \<Rightarrow> 'w router \<Rightarrow> 'w handler" where
  "handleRequest chain rt req resp w =
     (let attempt =
        (case processBefore chain req w of
           (Threw e, _, w1) \<Rightarrow> (Threw e, resp, w1)
         | (Crashed, _, w1) \<Rightarrow> (Crashed, resp, w1)
         | (Done _, mutableReq, w1) \<Rightarrow>
             (case route rt mutableReq resp w1 of
                (Threw e, resp1, w2) \<Rightarrow> (Threw e, resp1, w2)
              | (Crashed, resp1, w2) \<Rightarrow> (Crashed, resp1, w2)
              | (Done matched, resp1, w2) \<Rightarrow>
                  let resp2 = (if \<not> matched
                               then setCloseConnection True
                                      (setStatusLine (req_version req) k404NotFound ''Not Found''
                                        (setLogRoute ''unmatched'' resp1))
                               else resp1)
                  in processAfter chain resp2 w2))
      in case attempt of
           (Threw (Response_thrown res), _, w') \<Rightarrow>
             (Done (), resp_setVersion (req_version req)
                (setLogRoute (if req_method req = kOptions then ''preflight'' else ''callback'') res), w')
         | (Threw (Std_exception e), _, w') \<Rightarrow>
             (Done (), resp_setBody (what e)
                (setStatusLine (req_version req) k500InternalServerError ''Internal Server Error''
                  (setLogRoute ''error'' (new_response True))), w')
         | r \<Rightarrow> r)"

text \<open>The comma-separated tokens of the \<^verbatim>\<open>Connection\<close> field, from the position of \<^verbatim>\<open>begin\<close> on.\<close>

function hasConnectionToken :: "string \<Rightarrow> string \<Rightarrow> bool" where
  "hasConnectionToken expected connection =
     (if connection = [] then False
      else let comma = find_char CHR '','' connection;
               token = (case comma of None \<Rightarrow> connection | Some n \<Rightarrow> take n connection)
           in if (\<exists>ch\<in>set token. ch \<notin> {SP, TAB}) \<and> lower (trim_chars [SP, TAB] token) = expected
              then True
              else case comma of
                  None \<Rightarrow> False
                | Some n \<Rightarrow> hasConnectionToken expected (drop (n + 1) connection))"
  by pat_completeness auto
termination
  by (relation "measure (\<lambda>(e, s). length s)") auto

declare hasConnectionToken.simps [simp del]

definition close_requested :: "http_request \<Rightarrow> bool" where
  "close_requested req \<longleftrightarrow>
     (let connection = getHeader req ''Connection''
      in hasConnectionToken ''close'' connection \<or>
         (req_version req = ''HTTP/1.0'' \<and> \<not> hasConnectionToken ''keep-alive'' connection))"

text \<open>
  \<^verbatim>\<open>onRequest\<close>: the boolean says whether another request may use the connection. It writes the
  connection into the request through a \<^verbatim>\<open>const_cast\<close>, so the request is returned too.
\<close>

definition onRequest ::
  "'w tcp_ops \<Rightarrow> 'w handler \<Rightarrow> nat \<Rightarrow> http_request \<Rightarrow> 'w server \<Rightarrow>
   bool outcome \<times> http_request \<times> 'w server" where
  "onRequest ops httpCallback conn req st =
     (let started = op_now ops (srv_world st);
          (sequence, requestId) = nextId (srv_sequence st);
          st1 = st\<lparr>srv_sequence := sequence\<rparr>;
          close = close_requested req;
          response = resp_setVersion (req_version req) (new_response close);
          req1 = setConnection conn req
      in case httpCallback req1 response (srv_world st1) of
           (Threw (Std_exception e), _, w) \<Rightarrow>
             (Threw (Std_exception e), req1,
              record_request ops requestId (req_method req1) ''error'' 400 started
                (length bad_request_bytes) False (st1\<lparr>srv_world := w\<rparr>))
         | (Threw (Response_thrown r), _, w) \<Rightarrow> (Threw (Response_thrown r), req1, st1\<lparr>srv_world := w\<rparr>)
         | (Crashed, _, w) \<Rightarrow> (Crashed, req1, st1\<lparr>srv_world := w\<rparr>)
         | (Done _, response1, w) \<Rightarrow>
             let st2 = st1\<lparr>srv_world := w\<rparr>
             in if resp_streaming response1
                then (Done False, req1,
                      record_request ops requestId (req_method req1) (resp_logRoute response1)
                        (resp_statusCode response1) started 0 True st2)
                else let response2 = (if close then setCloseConnection True response1 else response1);
                         buf = appendToBuffer response2 [];
                         st3 = record_request ops requestId (req_method req1) (resp_logRoute response2)
                                 (resp_statusCode response2) started (length buf) False st2;
                         st4 = st3\<lparr>srv_world := op_send ops buf (srv_world st3)\<rparr>
                     in if resp_closeConnection response2
                        then (Done False, req1, st4\<lparr>srv_world := op_shutdown ops (srv_world st4)\<rparr>)
                        else (Done (op_connected ops (srv_world st4)), req1, st4))"

section \<open>Handling received bytes\<close>

definition give_up :: "'w tcp_ops \<Rightarrow> 'w server \<Rightarrow> 'w server" where
  "give_up ops st =
     st\<lparr>srv_world := op_shutdown ops (op_send ops bad_request_bytes (srv_world st))\<rparr>"

type_synonym 'w message_result = "unit outcome \<times> 'w server \<times> http_context \<times> string"

text \<open>The loop over the requests in the buffer, with what the \<^verbatim>\<open>if\<close> after it does.\<close>

partial_function (option) serve_loop ::
  "(string \<Rightarrow> nat option) \<Rightarrow> 'w tcp_ops \<Rightarrow> 'w handler \<Rightarrow> nat \<Rightarrow> timestamp \<Rightarrow>
   'w server \<Rightarrow> http_context \<Rightarrow> string \<Rightarrow> 'w message_result option" where
  "serve_loop findCRLF ops httpCallback conn t st c buf =
     (if op_connected ops (srv_world st) \<and> buf \<noteq> []
      then (case parseRequest findCRLF t c buf of
              None \<Rightarrow> None
            | Some r \<Rightarrow>
                (case r of
                   Aborted \<Rightarrow> Some (Crashed, st, c, buf)
                 | Returned ok c1 buf1 \<Rightarrow>
                     if \<not> ok then Some (Done (), give_up ops st, stopProcessing c1, [])
                     else if \<not> gotAll c1 then Some (Done (), st, c1, buf1)
                     else (case onRequest ops httpCallback conn (ctx_request c1) st of
                             (Done canContinue, req, st1) \<Rightarrow>
                               if canContinue
                               then serve_loop findCRLF ops httpCallback conn t st1
                                      (reset_context (c1\<lparr>ctx_request := req\<rparr>)) buf1
                               else Some (Done (), st1,
                                      stopProcessing (reset_context (c1\<lparr>ctx_request := req\<rparr>)), [])
                           | (Threw e, req, st1) \<Rightarrow> Some (Threw e, st1, c1\<lparr>ctx_request := req\<rparr>, buf1)
                           | (Crashed, req, st1) \<Rightarrow> Some (Crashed, st1, c1\<lparr>ctx_request := req\<rparr>, buf1))))
      else if \<not> op_connected ops (srv_world st) then Some (Done (), st, stopProcessing c, [])
      else Some (Done (), st, c, buf))"

declare serve_loop.simps [code]

definition onMessage ::
  "(string \<Rightarrow> nat option) \<Rightarrow> 'w tcp_ops \<Rightarrow> 'w handler \<Rightarrow> nat \<Rightarrow> timestamp \<Rightarrow>
   'w server \<Rightarrow> http_context \<Rightarrow> string \<Rightarrow> 'w message_result option" where
  "onMessage findCRLF ops httpCallback conn t st c buf =
     (if ctx_processingStopped c then Some (Done (), st, c, [])
      else case serve_loop findCRLF ops httpCallback conn t st c buf of
             None \<Rightarrow> None
           | Some (Threw (Std_exception e), st1, c1, buf1) \<Rightarrow>
               Some (Done (), give_up ops st1, stopProcessing c1, [])
           | Some r \<Rightarrow> Some r)"

section \<open>The loop ends\<close>

text \<open>Between two messages a connection is given up, or its context can take more bytes.\<close>

definition conn_ok :: "http_context \<Rightarrow> bool" where
  "conn_ok c \<longleftrightarrow> ctx_processingStopped c \<or> (context_ok c \<and> \<not> gotAll c)"

lemma conn_ok_new [simp]: "conn_ok new_context"
proof -
  have "\<not> gotAll new_context" by (simp add: gotAll_def new_context_def)
  then show ?thesis by (simp add: conn_ok_def)
qed

lemma gotAll_reset [simp]: "\<not> gotAll (reset_context c)"
  by (simp add: gotAll_def reset_context_eq)

lemma stopped_simps [simp]:
  "ctx_processingStopped (stopProcessing c)"
  "ctx_processingStopped (reset_context c) = ctx_processingStopped c"
  by (simp_all add: stopProcessing_def reset_context_eq)

lemma conn_ok_stop [simp]: "conn_ok (stopProcessing c)"
  by (simp add: conn_ok_def)

context muduo_buffer
begin

lemma serve_loop_returns:
  "context_ok c \<Longrightarrow> \<not> gotAll c \<Longrightarrow> \<not> ctx_processingStopped c \<Longrightarrow>
     \<exists>oc st' c' buf'. serve_loop findCRLF ops cb conn t st c buf = Some (oc, st', c', buf') \<and>
       (oc = Done () \<longrightarrow> conn_ok c' \<and> (ctx_processingStopped c' \<longrightarrow> buf' = []))"
proof (induction "length buf" arbitrary: st c buf rule: less_induct)
  case less
  let ?loop = "serve_loop findCRLF ops cb conn t"
  note ng = less.prems(2) [unfolded gotAll_def]
  show ?case
  proof (cases "op_connected ops (srv_world st) \<and> buf \<noteq> []")
    case False
    with less.prems show ?thesis by (auto simp: serve_loop.simps [of _ _ _ _ _ st c] conn_ok_def)
  next
    case run: True
    obtain ok c1 buf1 where p: "parseRequest findCRLF t c buf = Some (Returned ok c1 buf1)"
      and c1: "ok \<longrightarrow> context_ok c1"
      using parseRequest_returns [OF less.prems(1) ng, of t buf] by blast
    note progress = parseRequest_progress [OF less.prems(1) ng p]
    show ?thesis
    proof (cases "ok \<and> gotAll c1")
      case False
      with run p c1 progress less.prems show ?thesis
        by (auto simp: serve_loop.simps [of _ _ _ _ _ st c] conn_ok_def gotAll_def)
    next
      case all: True
      obtain o1 req st1 where r: "onRequest ops cb conn (ctx_request c1) st = (o1, req, st1)"
        by (cases "onRequest ops cb conn (ctx_request c1) st")
      show ?thesis
      proof (cases "o1 = Done True")
        case True
        have "?loop st c buf = ?loop st1 (reset_context (c1\<lparr>ctx_request := req\<rparr>)) buf1"
          using run p all r True by (simp add: serve_loop.simps [of _ _ _ _ _ st c])
        moreover have "length buf1 < length buf" "\<not> ctx_processingStopped c1"
          using progress all less.prems by (auto simp: gotAll_def)
        ultimately show ?thesis using less.hyps [of buf1 "reset_context (c1\<lparr>ctx_request := req\<rparr>)"] by simp
      next
        case False
        with run p all r show ?thesis
          by (cases o1) (auto simp: serve_loop.simps [of _ _ _ _ _ st c])
      qed
    qed
  qed
qed

lemma onMessage_returns:
  assumes "conn_ok c"
  shows "\<exists>oc st' c' buf'. onMessage findCRLF ops cb conn t st c buf = Some (oc, st', c', buf') \<and>
    (oc = Done () \<longrightarrow> conn_ok c' \<and> (ctx_processingStopped c' \<longrightarrow> buf' = []))"
proof (cases "ctx_processingStopped c")
  case True
  then show ?thesis by (simp add: onMessage_def assms)
next
  case False
  with assms serve_loop_returns [of c ops cb conn t st buf] obtain oc st' c' buf'
    where "serve_loop findCRLF ops cb conn t st c buf = Some (oc, st', c', buf')"
      "oc = Done () \<longrightarrow> conn_ok c' \<and> (ctx_processingStopped c' \<longrightarrow> buf' = [])"
    by (auto simp: conn_ok_def)
  with False show ?thesis
    by (auto simp: onMessage_def split: outcome.split thrown.split)
qed

end

section \<open>Messages can be cut anywhere\<close>

context muduo_buffer
begin

lemma serve_loop_append:
  "context_ok c \<Longrightarrow> \<not> gotAll c \<Longrightarrow> \<not> ctx_processingStopped c \<Longrightarrow>
   serve_loop findCRLF ops cb conn t st c buf = Some (oc, st1, c1, buf1) \<Longrightarrow>
   serve_loop findCRLF ops cb conn t st c (buf @ rest) =
     (if oc = Done ()
      then if ctx_processingStopped c1 then Some (Done (), st1, c1, [])
           else serve_loop findCRLF ops cb conn t st1 c1 (buf1 @ rest)
      else Some (oc, st1, c1, buf1 @ rest))"
proof (induction "length buf" arbitrary: st c buf rule: less_induct)
  case less
  let ?loop = "serve_loop findCRLF ops cb conn t"
  note ng = less.prems(2) [unfolded gotAll_def]
  show ?case
  proof (cases "op_connected ops (srv_world st) \<and> buf \<noteq> []")
    case False
    with less.prems show ?thesis
      by (cases "op_connected ops (srv_world st)") (auto simp: serve_loop.simps [of _ _ _ _ _ _ c])
  next
    case run: True
    obtain ok c2 buf2 where p: "parseRequest findCRLF t c buf = Some (Returned ok c2 buf2)"
      and c2: "ok \<longrightarrow> context_ok c2"
      using parseRequest_returns [OF less.prems(1) ng, of t buf] by blast
    note progress = parseRequest_progress [OF less.prems(1) ng p]
    note app = parseRequest_append [OF less.prems(1) ng p, of rest]
    show ?thesis
    proof (cases "ok \<and> gotAll c2")
      case False
      show ?thesis
      proof (cases ok)
        case False
        with run p app less.prems(4) show ?thesis
          by (auto simp: serve_loop.simps [of _ _ _ _ _ _ c])
      next
        case True
        with \<open>\<not> (ok \<and> gotAll c2)\<close> run p less.prems(4)
        have res: "oc = Done ()" "st1 = st" "c1 = c2" "buf1 = buf2" and ng2: "\<not> gotAll c2"
          by (simp_all add: serve_loop.simps [of _ _ _ _ _ _ c])
        have "?loop st c (buf @ rest) = ?loop st c2 (buf2 @ rest)"
        proof (cases "buf2 @ rest = []")
          case True
          with less.prems(4) res run show ?thesis
            by (simp add: serve_loop.simps [of _ _ _ _ _ _ c2])
        next
          case False
          obtain ok3 c3 buf3
            where "parseRequest findCRLF t c2 (buf2 @ rest) = Some (Returned ok3 c3 buf3)"
            using parseRequest_returns [of c2 t "buf2 @ rest"] c2 True ng2
            unfolding gotAll_def by blast
          with False app True ng2 run show ?thesis by (subst (1 2) serve_loop.simps) simp
        qed
        with res progress less.prems(3) show ?thesis by simp
      qed
    next
      case all: True
      obtain o1 req st2 where r: "onRequest ops cb conn (ctx_request c2) st = (o1, req, st2)"
        by (cases "onRequest ops cb conn (ctx_request c2) st")
      have app': "parseRequest findCRLF t c (buf @ rest) = Some (Returned True c2 (buf2 @ rest))"
        using app all by simp
      show ?thesis
      proof (cases "o1 = Done True")
        case True
        let ?c = "reset_context (c2\<lparr>ctx_request := req\<rparr>)"
        have "?loop st c buf = ?loop st2 ?c buf2" "?loop st c (buf @ rest) = ?loop st2 ?c (buf2 @ rest)"
          using run p app' all r True by (simp_all add: serve_loop.simps [of _ _ _ _ _ st c])
        moreover have "length buf2 < length buf" "\<not> ctx_processingStopped c2"
          using progress all less.prems(3) by auto
        ultimately show ?thesis
          using less.hyps [of buf2 ?c st2] less.prems(4) by simp
      next
        case False
        with run p app' all r less.prems(4) show ?thesis
          by (cases o1) (auto simp: serve_loop.simps [of _ _ _ _ _ st c])
      qed
    qed
  qed
qed

lemma onMessage_append:
  assumes "conn_ok c" and "onMessage findCRLF ops cb conn t st c buf = Some (Done (), st1, c1, buf1)"
  shows "onMessage findCRLF ops cb conn t st c (buf @ rest) =
    onMessage findCRLF ops cb conn t st1 c1 (buf1 @ rest)"
proof (cases "ctx_processingStopped c")
  case True
  with assms(2) show ?thesis by (auto simp: onMessage_def)
next
  case False
  with assms(1) have c: "context_ok c" "\<not> gotAll c" by (auto simp: conn_ok_def)
  obtain oc st2 c2 buf2 where l: "serve_loop findCRLF ops cb conn t st c buf = Some (oc, st2, c2, buf2)"
    using serve_loop_returns [OF c False] by blast
  note app = serve_loop_append [OF c False l, of rest]
  show ?thesis
  proof (cases "oc = Done ()")
    case True
    with assms(2) False l app show ?thesis by (auto simp: onMessage_def)
  next
    case nd: False
    with assms(2) False l obtain e where "oc = Threw (Std_exception e)" "c1 = stopProcessing c2"
      "st1 = give_up ops st2"
      by (auto simp: onMessage_def split: outcome.splits thrown.splits)
    with nd False app show ?thesis by (simp add: onMessage_def)
  qed
qed

end

section \<open>Exceptions stay inside\<close>

text \<open>
  What the server relies on of its callback: it ends normally (or takes the process down), it
  does not throw. The server's own \<^verbatim>\<open>handleRequest\<close> is such a callback, whatever its middlewares
  and handlers throw.
\<close>

locale containing_callback =
  fixes cb :: "'w handler"
  assumes contains: "fst (cb req resp w) \<noteq> Threw e"
begin

lemma onRequest_contains: "fst (onRequest ops cb conn req st) \<noteq> Threw e"
proof -
  let ?req = "setConnection conn req"
  let ?resp = "resp_setVersion (req_version req) (new_response (close_requested req))"
  obtain o1 r1 w1 where cb: "cb ?req ?resp (srv_world st) = (o1, r1, w1)"
    by (cases "cb ?req ?resp (srv_world st)")
  with contains [of ?req ?resp "srv_world st"] have "o1 \<noteq> Threw x" for x by (metis fst_conv)
  with cb show ?thesis by (cases o1) (auto simp: onRequest_def Let_def nextId_def)
qed

lemma serve_loop_contains:
  assumes "serve_loop f ops cb conn t st c buf = Some r"
  shows "fst r \<noteq> Threw e"
proof (rule serve_loop.raw_induct [where P = "\<lambda>f ops cb' conn t st c buf r. cb' = cb \<longrightarrow> fst r \<noteq> Threw e",
      OF _ assms, rule_format], goal_cases)
  case (1 p f ops cb' conn t st c buf r)
  have on: "onRequest ops cb conn q st \<noteq> (Threw e, q', st')" for q q' st'
    using onRequest_contains [of ops conn q st e] by auto
  show ?case
  proof (cases "op_connected ops (srv_world st) \<and> buf \<noteq> []")
    case False
    with 1(2) show ?thesis by (auto split: if_splits)
  next
    case run: True
    with 1(2) obtain r1 where r1: "parseRequest f t c buf = Some r1" by (auto split: option.splits)
    show ?thesis
    proof (cases r1)
      case (Returned ok c1 buf1)
      obtain o1 req st1 where o1: "onRequest ops cb conn (ctx_request c1) st = (o1, req, st1)"
        by (cases "onRequest ops cb conn (ctx_request c1) st")
      with on have "o1 \<noteq> Threw e" by blast
      with 1(1) [of f ops cb conn t] 1(2,3) run r1 Returned o1 show ?thesis
        by (cases o1) (auto split: if_splits)
    qed (use 1(2) run r1 in auto)
  qed
qed (rule refl)

lemma onMessage_contains: "onMessage f ops cb conn t st c buf \<noteq> Some (Threw e, st', c', buf')"
proof -
  have "serve_loop f ops cb conn t st c buf \<noteq> Some (Threw x, s1, c1, b1)" for x s1 c1 b1
    using serve_loop_contains [of f ops conn t st c buf "(Threw x, s1, c1, b1)" x] by auto
  then show ?thesis
    by (auto simp: onMessage_def split: option.splits outcome.splits thrown.splits)
qed

end

lemma handleRequest_contains: "fst (handleRequest chain rt req resp w) \<noteq> Threw e"
  by (auto simp: handleRequest_def Let_def split: prod.splits outcome.splits thrown.splits)

interpretation own_callback: containing_callback "handleRequest chain rt" for chain rt
  by unfold_locales (rule handleRequest_contains)

interpretation default_callback: containing_callback defaultHttpCallback
  by unfold_locales (simp add: defaultHttpCallback_def)

section \<open>The tokens of the Connection field\<close>

fun split_char :: "char \<Rightarrow> string \<Rightarrow> string list" where
  "split_char c [] = [[]]"
| "split_char c (x # xs) =
     (if x = c then [] # split_char c xs
      else (x # hd (split_char c xs)) # tl (split_char c xs))"

lemma split_char_eq:
  "split_char c s = (if c \<in> set s then take (std_find c s) s # split_char c (drop (Suc (std_find c s)) s)
                     else [s])"
  by (induction s) (auto simp: std_find_def)

lemma trim_chars_Nil: "trim_chars cs s = [] \<longleftrightarrow> set s \<subseteq> set cs"
proof -
  have "dropWhile (\<lambda>c. c \<in> set cs) (rev (dropWhile (\<lambda>c. c \<in> set cs) s)) = [] \<longleftrightarrow>
      set (dropWhile (\<lambda>c. c \<in> set cs) s) \<subseteq> set cs"
    by (auto simp: dropWhile_eq_Nil_conv)
  also have "\<dots> \<longleftrightarrow> set s \<subseteq> set cs" by (induction s) auto
  finally show ?thesis by (simp add: trim_chars_def)
qed

lemma hasConnectionToken_split:
  assumes "expected \<noteq> []"
  shows "hasConnectionToken expected s \<longleftrightarrow>
    (\<exists>token\<in>set (split_char CHR '','' s). lower (trim_chars [SP, TAB] token) = expected)"
proof (induction "length s" arbitrary: s rule: less_induct)
  case less
  have blank: "(\<exists>ch\<in>set token. ch \<notin> {SP, TAB}) \<and> lower (trim_chars [SP, TAB] token) = expected \<longleftrightarrow>
      lower (trim_chars [SP, TAB] token) = expected" for token
    using assms trim_chars_Nil [of "[SP, TAB]" token] by auto
  show ?case
  proof (cases "CHR '','' \<in> set s")
    case True
    let ?n = "std_find CHR '','' s"
    have f: "find_char CHR '','' s = Some ?n" using True by (simp add: find_char_Some)
    have ne: "s \<noteq> []" using True by auto
    have "hasConnectionToken expected s \<longleftrightarrow>
        lower (trim_chars [SP, TAB] (take ?n s)) = expected \<or>
        hasConnectionToken expected (drop (?n + 1) s)"
      using ne f blank [of "take ?n s"] by (subst hasConnectionToken.simps) (simp add: Let_def)
    moreover have "length (drop (?n + 1) s) < length s" using ne by simp
    ultimately show ?thesis using less.hyps True by (simp add: split_char_eq [of _ s])
  next
    case False
    then have "find_char CHR '','' s = None" by (simp add: find_char_None)
    with blank [of s] False assms show ?thesis
      by (subst hasConnectionToken.simps)
        (auto simp: Let_def split_char_eq [of _ s] trim_chars_def)
  qed
qed

section \<open>One request, one line\<close>

definition printable :: "char \<Rightarrow> bool" where
  "printable c \<longleftrightarrow> 0x20 \<le> byte_of c \<and> byte_of c < 0x7f"

lemma hex_digit_cases: "n < 16 \<Longrightarrow> hex_digit n \<in> set ''0123456789abcdef''"
  unfolding hex_digit_def by (rule nth_mem) simp

lemma hex_digit_printable: "n < 16 \<Longrightarrow> printable (hex_digit n)"
  using hex_digit_cases [of n] by (auto simp: printable_def)

lemma digits_printable: "list_all printable (to_string n)"
  using to_string_digits [of n] by (auto simp: list_all_iff printable_def is_digit_def)

lemma int_printable: "list_all printable (to_string_int i)"
proof -
  have "printable CHR ''-''" by (simp add: printable_def)
  with digits_printable show ?thesis by (simp add: to_string_int_def)
qed

lemma byte_high: "byte_of c div 16 < 16"
  by (rule less_mult_imp_div_less, rule order.strict_trans2 [OF byte_of_less]) simp

lemma quote_char_printable: "list_all printable (quote_char c)"
proof -
  have "byte_of c div 16 < 16" by (rule byte_high)
  then show ?thesis
    using hex_digit_printable [of "byte_of c div 16"] hex_digit_printable [of "byte_of c mod 16"]
    by (auto simp: quote_char_def Let_def printable_def)
qed

lemma quote_char_length: "length (quote_char c) \<le> 4"
  by (simp add: quote_char_def Let_def)

lemma quoteLabel_printable: "list_all printable (quoteLabel l)"
proof -
  have "list_all printable (concat (map quote_char s))" for s
    using quote_char_printable by (induction s) auto
  moreover have "list_all printable [quote]" "list_all printable ''...''" by (simp_all add: printable_def)
  ultimately show ?thesis by (simp add: quoteLabel_def)
qed

lemma quoteLabel_length: "length (quoteLabel l) \<le> 517"
proof -
  have "length (concat (map quote_char s)) \<le> 4 * length s" for s
  proof (induction s)
    case (Cons c s)
    with quote_char_length [of c] show ?case by simp
  qed simp
  from this [of "take 128 l"] show ?thesis by (auto simp: quoteLabel_def)
qed

text \<open>Reading a quoted label back.\<close>

definition hex_value :: "char \<Rightarrow> nat" where
  "hex_value c = (if is_digit c then byte_of c - 48 else byte_of c - 87)"

fun unquote :: "string \<Rightarrow> string" where
  "unquote [] = []"
| "unquote (c # s) =
     (if c \<noteq> backslash then c # unquote s
      else case s of
          [] \<Rightarrow> []
        | x # s1 \<Rightarrow>
            (if x = CHR ''x''
             then (case s1 of
                     h # l # s2 \<Rightarrow> char_of (16 * hex_value h + hex_value l) # unquote s2
                   | _ \<Rightarrow> [])
             else x # unquote s1))"

lemma hex_value_digit: "n < 16 \<Longrightarrow> hex_value (hex_digit n) = n"
proof -
  assume "n < 16"
  then have "n \<in> set [0..<16]" by simp
  moreover have "\<forall>n\<in>set [0..<16]. hex_value (hex_digit n) = n" by code_simp
  ultimately show ?thesis by blast
qed

lemma unquote_quote_char: "unquote (quote_char c @ s) = c # unquote s"
proof -
  have "byte_of c div 16 < 16" by (rule byte_high)
  then show ?thesis by (auto simp: quote_char_def Let_def hex_value_digit)
qed

lemma unquote_quoted: "unquote (concat (map quote_char s)) = s"
  by (induction s) (simp_all add: unquote_quote_char)

lemma record_event_printable: "list_all printable (record_event i m l n a b k str)"
proof -
  have "list_all printable (methodName m)" by (cases m) (simp_all add: printable_def)
  moreover have "list_all printable ''http_request request_id=''" "list_all printable '' method=''"
    "list_all printable '' route=''" "list_all printable '' status=''" "list_all printable '' elapsed_us=''"
    "list_all printable '' event=''" "list_all printable ''stream_open''" "list_all printable ''response''"
    "list_all printable '' response_bytes=''" by (simp_all add: printable_def)
  ultimately show ?thesis
    unfolding record_event_def Let_def list_all_append
    using digits_printable int_printable quoteLabel_printable by (auto split: if_split)
qed

section \<open>Properties\<close>

text \<open>
  The message callback always returns and keeps the connection usable: from a context of a live
  or given-up connection, whatever bytes arrive and whatever the callback does, \<^verbatim>\<open>onMessage\<close> does not run
  forever; when it ends normally, either processing is stopped and the buffer empty, or the
  context is well-formed and ready to take more bytes.
\<close>

theorem onMessage_total:
  assumes "muduo_buffer f" and "conn_ok c"
  shows "\<exists>oc st' c' buf'. onMessage f ops cb conn t st c buf = Some (oc, st', c', buf') \<and>
    (oc = Done () \<longrightarrow> conn_ok c' \<and> (ctx_processingStopped c' \<longrightarrow> buf' = []))"
  by (rule muduo_buffer.onMessage_returns [OF assms])

text \<open>A connection that records what is sent on it and is up until it is shut down.\<close>

datatype conn_action = Sent string | Shut

definition log_ops :: "conn_action list tcp_ops" where
  "log_ops = \<lparr>op_send = (\<lambda>s w. w @ [Sent s]), op_shutdown = (\<lambda>w. w @ [Shut]),
              op_connected = (\<lambda>w. Shut \<notin> set w), op_now = (\<lambda>w. 0)\<rparr>"

definition fresh_server :: "conn_action list server" where
  "fresh_server = \<lparr>srv_sequence = 0, srv_log = [], srv_world = []\<rparr>"

theorem onMessage_total_witness:
  "\<exists>oc st' c' buf'. onMessage stub_findCRLF log_ops defaultHttpCallback 1 0 fresh_server new_context
       ''GET'' = Some (oc, st', c', buf') \<and>
     (oc = Done () \<longrightarrow> conn_ok c' \<and> (ctx_processingStopped c' \<longrightarrow> buf' = []))"
  by (rule onMessage_total [OF stub_buffer.muduo_buffer_axioms conn_ok_new])

text \<open>
  C12. The server's behaviour does not depend on how the byte stream is cut into messages: handling
  a first piece and then a second piece of it leaves the same responses, log, context and
  buffer as handling both at once. In particular pipelined requests are answered as if each had come in a
  message of its own, and bytes after the connection was given up have no effect.
\<close>

theorem onMessage_incremental:
  assumes "muduo_buffer f" and "conn_ok c"
    and "onMessage f ops cb conn t st c buf = Some (Done (), st1, c1, buf1)"
  shows "onMessage f ops cb conn t st c (buf @ rest) = onMessage f ops cb conn t st1 c1 (buf1 @ rest)"
  by (rule muduo_buffer.onMessage_append [OF assms])

definition partial_context :: http_context where
  "partial_context = half_request\<lparr>ctx_request := (ctx_request half_request)
     \<lparr>req_path := ''/'', req_headers := [(''host'', ''x'')]\<rparr>\<rparr>"

lemma partial_message:
  "onMessage stub_findCRLF log_ops defaultHttpCallback 1 0 fresh_server new_context
     (''GET / HTTP/1.1'' @ crlf @ ''Host: x'' @ crlf) = Some (Done (), fresh_server, partial_context, [])"
  by code_simp

theorem onMessage_incremental_witness:
  "onMessage stub_findCRLF log_ops defaultHttpCallback 1 0 fresh_server new_context
     ((''GET / HTTP/1.1'' @ crlf @ ''Host: x'' @ crlf) @ crlf) =
   onMessage stub_findCRLF log_ops defaultHttpCallback 1 0 fresh_server partial_context ([] @ crlf)"
  by (rule onMessage_incremental [OF stub_buffer.muduo_buffer_axioms conn_ok_new partial_message])

text \<open>
  C23. No exception leaves the server's own request handling: whatever exceptions or
  responses middlewares and handlers throw, \<^verbatim>\<open>onMessage\<close> with \<^verbatim>\<open>handleRequest\<close> as its callback never ends in
  one, so every parsed request is answered by its own response.
\<close>

theorem onMessage_contains_exceptions:
  "onMessage f ops (handleRequest chain rt) conn t st c buf \<noteq> Some (Threw e, st', c', buf')"
  by (rule own_callback.onMessage_contains)

text \<open>
  A standard exception thrown by a middleware or a handler becomes a fresh response: status 500
  with the exception's message as body, the request's version, closing the connection, and none of the
  headers or body the handler had set.
\<close>

theorem handler_exception_is_500:
  assumes "processBefore chain req w = (Done (), req1, w1)"
    and "route rt req1 resp w1 = (Threw (Std_exception e), resp1, w2)"
  shows "handleRequest chain rt req resp w =
    (Done (), \<lparr>resp_version = req_version req, resp_statusCode = 500,
       resp_statusMessage = ''Internal Server Error'', resp_closeConnection = True, resp_headers = [],
       resp_body = what e, resp_logRoute = ''error'', resp_isFile = False, resp_streaming = False\<rparr>, w2)"
  using assms
  by (simp add: handleRequest_def Let_def new_response_def setLogRoute_def setStatusLine_def resp_setBody_def)

definition throwing_router :: "unit router" where
  "throwing_router = registerHandler kGet ''/''
     (\<lambda>req resp w. (Threw (Std_exception (Runtime_error ''boom'')), resp_setBody ''half'' resp, w)) new_router"

theorem handler_exception_is_500_witness:
  "handleRequest [Some (CorsMiddleware cors_defaultConfig)] throwing_router
     (new_request\<lparr>req_method := kGet, req_path := ''/''\<rparr>) (new_response False) () =
    (Done (), \<lparr>resp_version = ''Unknown'', resp_statusCode = 500,
       resp_statusMessage = ''Internal Server Error'', resp_closeConnection = True, resp_headers = [],
       resp_body = ''boom'', resp_logRoute = ''error'', resp_isFile = False, resp_streaming = False\<rparr>, ())"
proof -
  let ?req = "new_request\<lparr>req_method := kGet, req_path := ''/''\<rparr>"
  let ?chain = "[Some (CorsMiddleware cors_defaultConfig)] :: unit middleware_chain"
  have "processBefore ?chain ?req () = (Done (), ?req, ())"
    by (simp add: CorsMiddleware_def cors_before_def)
  moreover have "route throwing_router ?req (new_response False) () =
      (Threw (Std_exception (Runtime_error ''boom'')),
       resp_setBody ''half'' (setLogRoute ''/'' (new_response False)), ())"
    by (simp add: route_def throwing_router_def registerHandler_def new_router_def run_handler_def)
  ultimately show ?thesis
    using handler_exception_is_500 [of ?chain ?req "()" ?req "()"] by (simp add: new_request_def)
qed

text \<open>
  C21. The request decides about closing, and a handler cannot override it: the connection closes
  after the response if the \<^verbatim>\<open>Connection\<close> field has the token \<^verbatim>\<open>close\<close>, or for HTTP/1.0 unless it has
  \<^verbatim>\<open>keep-alive\<close>, tokens being the comma-separated parts without surrounding blanks, in any case.
  For a handler that does not stream, exactly one response is sent, with the close flag of the
  handler or of the request; if that flag is set the connection is shut down after it and no further
  request may use it; and exactly one line is added to the request log.
\<close>

theorem onRequest_responds:
  assumes "cb (setConnection conn req)
      (resp_setVersion (req_version req) (new_response (close_requested req))) (srv_world st) =
    (Done (), resp, w)" and "\<not> resp_streaming resp"
  shows "\<exists>line. onRequest ops cb conn req st =
    (let tokens = map (\<lambda>t. lower (trim_chars [SP, TAB] t)) (split_char CHR '','' (getHeader req ''Connection''));
         close = (resp_closeConnection resp \<or> ''close'' \<in> set tokens \<or>
                  req_version req = ''HTTP/1.0'' \<and> ''keep-alive'' \<notin> set tokens);
         w1 = op_send ops (appendToBuffer (setCloseConnection close resp) []) w
     in (Done (\<not> close \<and> op_connected ops w1), setConnection conn req,
         st\<lparr>srv_sequence := srv_sequence st + 1, srv_log := srv_log st @ [line],
            srv_world := (if close then op_shutdown ops w1 else w1)\<rparr>))"
proof -
  have tok: "hasConnectionToken e s \<longleftrightarrow>
      e \<in> set (map (\<lambda>t. lower (trim_chars [SP, TAB] t)) (split_char CHR '','' s))"
    if "e \<noteq> []" for e s
    unfolding hasConnectionToken_split [OF that] set_map image_iff by (metis (no_types))
  have cr: "close_requested req \<longleftrightarrow>
      (let tokens = map (\<lambda>t. lower (trim_chars [SP, TAB] t)) (split_char CHR '','' (getHeader req ''Connection''))
       in ''close'' \<in> set tokens \<or> req_version req = ''HTTP/1.0'' \<and> ''keep-alive'' \<notin> set tokens)"
    unfolding close_requested_def Let_def by (subst (1 2) tok) simp_all
  have id: "setCloseConnection True resp = resp" if "resp_closeConnection resp"
    using that by (simp add: setCloseConnection_def)
  have id': "setCloseConnection False resp = resp" if "\<not> resp_closeConnection resp"
    using that by (simp add: setCloseConnection_def)
  have c: "resp_closeConnection (setCloseConnection b resp) = b" for b
    by (simp add: setCloseConnection_def)
  show ?thesis
    unfolding Let_def cr [unfolded Let_def, symmetric]
    using assms
    by (cases "close_requested req"; cases "resp_closeConnection resp")
      (auto simp: onRequest_def nextId_def record_request_def Let_def id id' c)
qed

definition stubborn_handler :: "conn_action list handler" where
  "stubborn_handler req resp w = (Done (), setCloseConnection False (resp_setBody ''x'' resp), w)"

definition closing_request :: http_request where
  "closing_request = new_request\<lparr>req_method := kGet, req_version := ''HTTP/1.1'',
     req_headers := [(''connection'', ''Keep-Alive, CLOSE'')]\<rparr>"

theorem onRequest_responds_witness:
  "\<exists>line resp. onRequest log_ops stubborn_handler 1 closing_request fresh_server =
     (Done False, setConnection 1 closing_request,
      fresh_server\<lparr>srv_sequence := 1, srv_log := [line],
        srv_world := [Sent (appendToBuffer (setCloseConnection True resp) []), Shut]\<rparr>) \<and>
     resp_body resp = ''x''"
proof -
  let ?resp = "setCloseConnection False (resp_setBody ''x''
    (resp_setVersion (req_version closing_request) (new_response (close_requested closing_request))))"
  have cb: "stubborn_handler (setConnection 1 closing_request)
      (resp_setVersion (req_version closing_request) (new_response (close_requested closing_request)))
      (srv_world fresh_server) = (Done (), ?resp, [])"
    by (simp add: stubborn_handler_def fresh_server_def)
  have s: "\<not> resp_streaming ?resp"
    by (simp add: setCloseConnection_def resp_setBody_def resp_setVersion_def new_response_def)
  have t: "map (\<lambda>t. lower (trim_chars [SP, TAB] t)) (split_char CHR '',''
      (getHeader closing_request ''Connection'')) = [''keep-alive'', ''close'']"
    by code_simp
  from onRequest_responds [of stubborn_handler, OF cb s, of log_ops]
  show ?thesis unfolding t
    by (intro exI [of _ ?resp] ex_comm [THEN iffD1, rule_format])
      (simp add: Let_def log_ops_def fresh_server_def setCloseConnection_def resp_setBody_def)
qed

text \<open>
  The request log cannot be forged through labels: every line the log writes consists of
  printable characters only (so one request is one line), the quoted label takes at most 517 bytes,
  and for labels within the limit it can be read back exactly.
\<close>

theorem request_log_line:
  "list_all printable (record_event rid method label status started now bytes streaming) \<and>
   length (quoteLabel label) \<le> 517 \<and>
   unquote (butlast (tl (quoteLabel (take 128 label)))) = take 128 label"
  using record_event_printable quoteLabel_length unquote_quoted
  by (simp add: quoteLabel_def butlast_append)

end
