(* ===== verification/Session.thy ===== *)
theory Session
  imports Middleware
begin

text \<open>
  \<^verbatim>\<open>HttpServer/include/session\<close> and \<^verbatim>\<open>HttpServer/src/session\<close>: sessions, their storage in memory and the
  manager that finds or creates the session of a request. Sessions are shared objects: a \<^verbatim>\<open>shared_ptr\<close>
  is an address in an object store, so that a change through one pointer is seen through all. The
  state holds the objects, the storage map and the generator behind the session identifiers.

  Each public operation of the storage runs under its mutex, and those of a session under the
  session's; the transitions below are these critical sections. The steady clock is the parameter
  \<open>clk\<close>: the \<open>n\<close>-th reading in the run is \<open>clk n\<close>, in nanoseconds, and the state counts the readings.
\<close>

section \<open>Data\<close>

record session =
  ses_id :: string
  ses_data :: "(string, string) umap"
  ses_expiry :: int
  ses_maxAge :: int
  ses_bound :: bool

text \<open>\<^verbatim>\<open>ses_bound\<close>: the weak pointer to the storage is set. The repository has one manager and one storage.\<close>

record 'r session_state =
  st_heap :: "nat \<Rightarrow> session option"
  st_next :: nat
  st_capacity :: nat
  st_sessions :: "(string, nat) umap"
  st_tick :: nat
  st_rng :: 'r

definition null_session :: session where
  "null_session = \<lparr>ses_id = [], ses_data = [], ses_expiry = 0, ses_maxAge = 0, ses_bound = False\<rparr>"

definition obj :: "'r session_state \<Rightarrow> nat \<Rightarrow> session" where
  "obj s a = (case st_heap s a of Some x \<Rightarrow> x | None \<Rightarrow> null_session)"

definition put_obj :: "nat \<Rightarrow> session \<Rightarrow> 'r session_state \<Rightarrow> 'r session_state" where
  "put_obj a x s = s\<lparr>st_heap := (st_heap s)(a \<mapsto> x)\<rparr>"

abbreviation seconds :: "int \<Rightarrow> int" where
  "seconds n \<equiv> n * 1000000000"

abbreviation now :: "(nat \<Rightarrow> int) \<Rightarrow> 'r session_state \<Rightarrow> int" where
  "now clk s \<equiv> clk (st_tick s)"

abbreviation tick :: "'r session_state \<Rightarrow> 'r session_state" where
  "tick s \<equiv> s\<lparr>st_tick := Suc (st_tick s)\<rparr>"

section \<open>Session objects\<close>

definition isExpired :: "(nat \<Rightarrow> int) \<Rightarrow> nat \<Rightarrow> 'r session_state \<Rightarrow> bool \<times> 'r session_state" where
  "isExpired clk a s = (now clk s \<ge> ses_expiry (obj s a), tick s)"

definition refresh :: "(nat \<Rightarrow> int) \<Rightarrow> nat \<Rightarrow> 'r session_state \<Rightarrow> 'r session_state" where
  "refresh clk a s =
     tick (put_obj a ((obj s a)\<lparr>ses_expiry := now clk s + seconds (ses_maxAge (obj s a))\<rparr>) s)"

definition setManager :: "nat \<Rightarrow> bool \<Rightarrow> 'r session_state \<Rightarrow> 'r session_state" where
  "setManager a manager s = put_obj a ((obj s a)\<lparr>ses_bound := manager\<rparr>) s"

definition getValue :: "nat \<Rightarrow> string \<Rightarrow> 'r session_state \<Rightarrow> string" where
  "getValue a key s = (case map_of (ses_data (obj s a)) key of Some v \<Rightarrow> v | None \<Rightarrow> [])"

definition remove_value :: "nat \<Rightarrow> string \<Rightarrow> 'r session_state \<Rightarrow> 'r session_state" where
  "remove_value a key s = put_obj a ((obj s a)\<lparr>ses_data := AList.delete key (ses_data (obj s a))\<rparr>) s"

definition clear_session :: "nat \<Rightarrow> 'r session_state \<Rightarrow> 'r session_state" where
  "clear_session a s = put_obj a ((obj s a)\<lparr>ses_data := []\<rparr>) s"

definition make_session ::
  "(nat \<Rightarrow> int) \<Rightarrow> string \<Rightarrow> bool \<Rightarrow> int \<Rightarrow> 'r session_state \<Rightarrow> nat \<times> 'r session_state" where
  "make_session clk sessionId manager maxAge s =
     (let a = st_next s;
          x = \<lparr>ses_id = sessionId, ses_data = [], ses_expiry = 0, ses_maxAge = maxAge, ses_bound = False\<rparr>;
          s1 = put_obj a x (s\<lparr>st_next := Suc a\<rparr>)
      in (a, refresh clk a (setManager a manager s1)))"

section \<open>The storage in memory\<close>

definition new_storage :: "nat \<Rightarrow> 'r \<Rightarrow> 'r session_state result" where
  "new_storage capacity rng =
     (if capacity = 0 then throw (Invalid_argument ''Session capacity must be positive'')
      else return \<lparr>st_heap = Map.empty, st_next = 0, st_capacity = capacity, st_sessions = [],
                   st_tick = 0, st_rng = rng\<rparr>)"

text \<open>The sweep: every entry is compared with its own reading of the clock.\<close>

fun clean_loop ::
  "(nat \<Rightarrow> int) \<Rightarrow> 'r session_state \<Rightarrow> nat \<Rightarrow> (string \<times> nat) list \<Rightarrow> (string \<times> nat) list \<times> nat" where
  "clean_loop clk s t [] = ([], t)"
| "clean_loop clk s t ((i, a) # m) =
     (let (m', t') = clean_loop clk s (Suc t) m
      in if clk t \<ge> ses_expiry (obj s a) then (m', t') else ((i, a) # m', t'))"

definition cleanExpired :: "(nat \<Rightarrow> int) \<Rightarrow> 'r session_state \<Rightarrow> 'r session_state" where
  "cleanExpired clk s =
     (let (m, t) = clean_loop clk s (st_tick s) (st_sessions s)
      in s\<lparr>st_sessions := m, st_tick := t\<rparr>)"

definition remove_session :: "string \<Rightarrow> 'r session_state \<Rightarrow> 'r session_state" where
  "remove_session sessionId s = s\<lparr>st_sessions := AList.delete sessionId (st_sessions s)\<rparr>"

definition insert_bounded ::
  "(nat \<Rightarrow> int) \<Rightarrow> nat \<Rightarrow> 'r session_state \<Rightarrow> bool \<times> 'r session_state" where
  "insert_bounded clk a s =
     (let s1 = (if length (st_sessions s) \<ge> st_capacity s then cleanExpired clk s else s)
      in if length (st_sessions s1) \<ge> st_capacity s1 then (False, s1)
         else (True, s1\<lparr>st_sessions := AList.update (ses_id (obj s1 a)) a (st_sessions s1)\<rparr>))"

definition admit ::
  "(nat \<Rightarrow> int) \<Rightarrow> nat option \<Rightarrow> 'r session_state \<Rightarrow> bool result \<times> 'r session_state" where
  "admit clk session s =
     (case session of
        None \<Rightarrow> (throw (Invalid_argument ''Session must not be null''), s)
      | Some a \<Rightarrow>
          (case map_of (st_sessions s) (ses_id (obj s a)) of
             Some b \<Rightarrow>
               (if b = a then (return True, s)
                else if now clk s < ses_expiry (obj s b) then (return False, tick s)
                else (case insert_bounded clk a (remove_session (ses_id (obj s a)) (tick s)) of
                        (ok, s') \<Rightarrow> (return ok, s')))
           | None \<Rightarrow> (case insert_bounded clk a s of (ok, s') \<Rightarrow> (return ok, s'))))"

definition save ::
  "(nat \<Rightarrow> int) \<Rightarrow> nat option \<Rightarrow> 'r session_state \<Rightarrow> unit result \<times> 'r session_state" where
  "save clk session s =
     (case admit clk session s of
        (Inl e, s') \<Rightarrow> (Inl e, s')
      | (Inr ok, s') \<Rightarrow>
          (if ok then (return (), s') else (throw (Length_error ''Session admission rejected''), s')))"

definition load ::
  "(nat \<Rightarrow> int) \<Rightarrow> string \<Rightarrow> 'r session_state \<Rightarrow> nat option \<times> 'r session_state" where
  "load clk sessionId s =
     (case map_of (st_sessions s) sessionId of
        None \<Rightarrow> (None, s)
      | Some a \<Rightarrow>
          (if now clk s \<ge> ses_expiry (obj s a) then (None, remove_session sessionId (tick s))
           else (Some a, tick s)))"

definition loadAndRefresh ::
  "(nat \<Rightarrow> int) \<Rightarrow> string \<Rightarrow> 'r session_state \<Rightarrow> nat option \<times> 'r session_state" where
  "loadAndRefresh clk sessionId s =
     (case map_of (st_sessions s) sessionId of
        None \<Rightarrow> (None, s)
      | Some a \<Rightarrow>
          (let t = now clk s
           in if t \<ge> ses_expiry (obj s a) then (None, remove_session sessionId (tick s))
              else (Some a, put_obj a ((obj s a)\<lparr>ses_expiry := t + seconds (ses_maxAge (obj s a))\<rparr>) (tick s))))"

definition updateExisting ::
  "(nat \<Rightarrow> int) \<Rightarrow> nat \<Rightarrow> 'r session_state \<Rightarrow> bool \<times> 'r session_state" where
  "updateExisting clk a s =
     (if map_of (st_sessions s) (ses_id (obj s a)) \<noteq> Some a then (False, s)
      else if now clk s \<ge> ses_expiry (obj s a)
      then (False, remove_session (ses_id (obj s a)) (tick s))
      else (True, tick s))"

text \<open>The virtual operations callers reach a storage through, and the ones of the storage in memory.\<close>

record 'r storage_ops =
  sop_admit :: "(nat \<Rightarrow> int) \<Rightarrow> nat option \<Rightarrow> 'r session_state \<Rightarrow> bool result \<times> 'r session_state"
  sop_loadAndRefresh :: "(nat \<Rightarrow> int) \<Rightarrow> string \<Rightarrow> 'r session_state \<Rightarrow> nat option \<times> 'r session_state"
  sop_remove :: "string \<Rightarrow> 'r session_state \<Rightarrow> 'r session_state"
  sop_cleanExpired :: "(nat \<Rightarrow> int) \<Rightarrow> 'r session_state \<Rightarrow> 'r session_state"
  sop_updateExisting :: "(nat \<Rightarrow> int) \<Rightarrow> nat \<Rightarrow> 'r session_state \<Rightarrow> bool \<times> 'r session_state"

definition memory_ops :: "'r storage_ops" where
  "memory_ops = \<lparr>sop_admit = admit, sop_loadAndRefresh = loadAndRefresh, sop_remove = remove_session,
     sop_cleanExpired = cleanExpired, sop_updateExisting = updateExisting\<rparr>"

lemma memory_ops_simps [simp]:
  "sop_admit memory_ops = admit"
  "sop_loadAndRefresh memory_ops = loadAndRefresh"
  "sop_remove memory_ops = remove_session"
  "sop_cleanExpired memory_ops = cleanExpired"
  "sop_updateExisting memory_ops = updateExisting"
  by (simp_all add: memory_ops_def)

text \<open>
  \<^verbatim>\<open>Session::setValue\<close> has two critical sections: one under the lock of the session, in which the value is
  stored, and then one of the storage.
\<close>

definition store_value :: "nat \<Rightarrow> string \<Rightarrow> string \<Rightarrow> 'r session_state \<Rightarrow> 'r session_state" where
  [simp]: "store_value a key value s = put_obj a ((obj s a)\<lparr>ses_data := AList.update key value (ses_data (obj s a))\<rparr>) s"

definition setValue ::
  "'r storage_ops \<Rightarrow> (nat \<Rightarrow> int) \<Rightarrow> nat \<Rightarrow> string \<Rightarrow> string \<Rightarrow> 'r session_state \<Rightarrow> 'r session_state" where
  "setValue ops clk a key value s =
     (let s1 = store_value a key value s
      in if ses_bound (obj s1 a) then snd (sop_updateExisting ops clk a s1) else s1)"

section \<open>The base class's defaults\<close>

text \<open>
  What \<^verbatim>\<open>SessionStorage\<close> does for a backend that only has \<^verbatim>\<open>save\<close>, \<^verbatim>\<open>load\<close> and \<^verbatim>\<open>remove\<close>; these are
  the arguments. An exception of the backend passes through.
\<close>

type_synonym 'r save_op = "nat \<Rightarrow> 'r session_state \<Rightarrow> unit result \<times> 'r session_state"
type_synonym 'r load_op = "string \<Rightarrow> 'r session_state \<Rightarrow> nat option \<times> 'r session_state"
type_synonym 'r remove_op = "string \<Rightarrow> 'r session_state \<Rightarrow> 'r session_state"

definition default_admit :: "'r save_op \<Rightarrow> nat \<Rightarrow> 'r session_state \<Rightarrow> bool result \<times> 'r session_state" where
  "default_admit save_op a s =
     (case save_op a s of (Inl e, s') \<Rightarrow> (Inl e, s') | (Inr _, s') \<Rightarrow> (Inr True, s'))"

definition default_loadAndRefresh ::
  "(nat \<Rightarrow> int) \<Rightarrow> 'r save_op \<Rightarrow> 'r load_op \<Rightarrow> 'r remove_op \<Rightarrow> string \<Rightarrow> 'r session_state \<Rightarrow>
   nat option result \<times> 'r session_state" where
  "default_loadAndRefresh clk save_op load_op remove_op sessionId s =
     (case load_op sessionId s of
        (None, s1) \<Rightarrow> (return None, s1)
      | (Some a, s1) \<Rightarrow>
          (case isExpired clk a s1 of
             (True, s2) \<Rightarrow> (return None, remove_op sessionId s2)
           | (False, s2) \<Rightarrow>
               (case save_op a (refresh clk a s2) of
                  (Inl e, s3) \<Rightarrow> (Inl e, s3)
                | (Inr _, s3) \<Rightarrow> (return (Some a), s3))))"

definition default_updateExisting ::
  "(nat \<Rightarrow> int) \<Rightarrow> 'r save_op \<Rightarrow> 'r load_op \<Rightarrow> 'r remove_op \<Rightarrow> nat \<Rightarrow> 'r session_state \<Rightarrow>
   bool result \<times> 'r session_state" where
  "default_updateExisting clk save_op load_op remove_op a s =
     (case load_op (ses_id (obj s a)) s of
        (None, s1) \<Rightarrow> (return False, s1)
      | (Some current, s1) \<Rightarrow>
          (case isExpired clk current s1 of
             (True, s2) \<Rightarrow> (return False, remove_op (ses_id (obj s2 a)) s2)
           | (False, s2) \<Rightarrow>
               (case isExpired clk a s2 of
                  (True, s3) \<Rightarrow> (return False, s3)
                | (False, s3) \<Rightarrow>
                    (case save_op a s3 of
                       (Inl e, s4) \<Rightarrow> (Inl e, s4)
                     | (Inr _, s4) \<Rightarrow> (return True, s4)))))"

section \<open>The manager\<close>

text \<open>The checks of the constructor.\<close>

definition new_manager :: "bool \<Rightarrow> int \<Rightarrow> int \<Rightarrow> unit result" where
  "new_manager has_storage cleanupInterval sessionMaxAge =
     (if \<not> has_storage then throw (Invalid_argument ''Session storage must not be null'')
      else if cleanupInterval \<le> 0
      then throw (Invalid_argument ''Session cleanup interval must be positive'')
      else if sessionMaxAge \<le> 0 then throw (Invalid_argument ''Session lifetime must be positive'')
      else return ())"

text \<open>
  The cleanup thread: each element of the list is what one wait returned, true once the manager is
  stopping. \<open>sweep\<close> is the storage's \<^verbatim>\<open>cleanExpired\<close>; its exceptions are swallowed.
\<close>

fun cleanupLoop ::
  "('r session_state \<Rightarrow> unit result \<times> 'r session_state) \<Rightarrow> bool list \<Rightarrow> 'r session_state \<Rightarrow> 'r session_state" where
  "cleanupLoop sweep [] s = s"
| "cleanupLoop sweep (stopping # waits) s =
     (if stopping then s else cleanupLoop sweep waits (snd (sweep s)))"

text \<open>\<^verbatim>\<open>std::hex << n\<close> for a number below sixteen; \<open>dist\<close> draws from 0 to 15.\<close>

definition hex_of :: "nat \<Rightarrow> char" where
  "hex_of n = ''0123456789abcdef'' ! n"

fun draw_digits :: "('r \<Rightarrow> nat \<times> 'r) \<Rightarrow> nat \<Rightarrow> 'r \<Rightarrow> string \<times> 'r" where
  "draw_digits dist 0 rng = ([], rng)"
| "draw_digits dist (Suc n) rng =
     (let (d, rng1) = dist rng; (ds, rng2) = draw_digits dist n rng1 in (hex_of d # ds, rng2))"

definition generateSessionId :: "('r \<Rightarrow> nat \<times> 'r) \<Rightarrow> 'r session_state \<Rightarrow> string \<times> 'r session_state" where
  "generateSessionId dist s =
     (let (sid, rng) = draw_digits dist 32 (st_rng s) in (sid, s\<lparr>st_rng := rng\<rparr>))"

definition getSessionIdFromCookie :: "http_request \<Rightarrow> string" where
  "getSessionIdFromCookie req =
     (let cookie = getHeader req ''Cookie''
      in if cookie = [] then []
         else case find_str ''sessionId='' cookie of
             None \<Rightarrow> []
           | Some pos \<Rightarrow>
               (let rest = drop (pos + 10) cookie
                in case find_char CHR '';'' rest of
                     Some n \<Rightarrow> take n rest
                   | None \<Rightarrow> rest))"

definition setSessionCookie :: "string \<Rightarrow> http_response \<Rightarrow> http_response" where
  "setSessionCookie sessionId resp =
     resp_addHeader ''Set-Cookie'' (''sessionId='' @ sessionId @ ''; Path=/; HttpOnly'') resp"

definition unavailable_response :: http_response where
  "unavailable_response =
     resp_setBody ''Session capacity unavailable''
       (setContentType ''text/plain; charset=utf-8''
         (setStatusCode k503ServiceUnavailable (new_response True)))"

definition getSession ::
  "'r storage_ops \<Rightarrow> ('r \<Rightarrow> nat \<times> 'r) \<Rightarrow> (nat \<Rightarrow> int) \<Rightarrow> int \<Rightarrow> http_request \<Rightarrow> http_response \<Rightarrow> 'r session_state \<Rightarrow>
   nat outcome \<times> http_response \<times> 'r session_state" where
  "getSession ops dist clk sessionMaxAge req resp s =
     (let sessionId = getSessionIdFromCookie req;
          (found, s1) = (if sessionId = [] then (None, s) else sop_loadAndRefresh ops clk sessionId s)
      in case found of
           Some a \<Rightarrow> (Done a, resp, setManager a True s1)
         | None \<Rightarrow>
             (let (sid, s2) = generateSessionId dist s1;
                  (a, s3) = make_session clk sid True sessionMaxAge s2
              in case sop_admit ops clk (Some a) s3 of
                   (Inl e, s4) \<Rightarrow> (Threw (Std_exception e), resp, s4)
                 | (Inr False, s4) \<Rightarrow> (Threw (Response_thrown unavailable_response), resp, s4)
                 | (Inr True, s4) \<Rightarrow> (Done a, setSessionCookie (ses_id (obj s4 a)) resp, s4)))"

definition destroySession :: "'r storage_ops \<Rightarrow> string \<Rightarrow> 'r session_state \<Rightarrow> 'r session_state" where
  "destroySession ops sessionId s = sop_remove ops sessionId s"

definition cleanExpiredSessions :: "'r storage_ops \<Rightarrow> (nat \<Rightarrow> int) \<Rightarrow> 'r session_state \<Rightarrow> 'r session_state" where
  "cleanExpiredSessions ops clk s = sop_cleanExpired ops clk s"

definition updateSession :: "'r storage_ops \<Rightarrow> (nat \<Rightarrow> int) \<Rightarrow> nat \<Rightarrow> 'r session_state \<Rightarrow> 'r session_state" where
  "updateSession ops clk a s = snd (sop_updateExisting ops clk a s)"

section \<open>Invariant of the storage\<close>

text \<open>
  At most \<^verbatim>\<open>capacity\<close> entries with distinct keys, each pointing to an existing session of that very
  identifier; addresses from \<open>st_next\<close> on are unused.
\<close>

definition storage_ok :: "'r session_state \<Rightarrow> bool" where
  "storage_ok s \<longleftrightarrow> umap_ok (st_sessions s) \<and> length (st_sessions s) \<le> st_capacity s \<and>
     (\<forall>i a. map_of (st_sessions s) i = Some a \<longrightarrow> (\<exists>x. st_heap s a = Some x \<and> ses_id x = i)) \<and>
     (\<forall>a. st_heap s a \<noteq> None \<longrightarrow> a < st_next s)"

lemma obj_put [simp]: "obj (put_obj a x s) b = (if b = a then x else obj s b)"
  by (simp add: obj_def put_obj_def)

lemma put_obj_simps [simp]:
  "st_sessions (put_obj a x s) = st_sessions s"
  "st_capacity (put_obj a x s) = st_capacity s"
  "st_next (put_obj a x s) = st_next s"
  "st_tick (put_obj a x s) = st_tick s"
  "st_rng (put_obj a x s) = st_rng s"
  "st_heap (put_obj a x s) = (st_heap s)(a \<mapsto> x)"
  by (simp_all add: put_obj_def)

lemma obj_update [simp]:
  "obj (s\<lparr>st_tick := t\<rparr>) a = obj s a"
  "obj (s\<lparr>st_sessions := m\<rparr>) a = obj s a"
  "obj (s\<lparr>st_rng := g\<rparr>) a = obj s a"
  "obj (s\<lparr>st_next := n\<rparr>) a = obj s a"
  by (simp_all add: obj_def)

lemma storage_ok_tick [simp]: "storage_ok (s\<lparr>st_tick := t\<rparr>) = storage_ok s"
  by (simp add: storage_ok_def)

lemma storage_ok_rng [simp]: "storage_ok (s\<lparr>st_rng := g\<rparr>) = storage_ok s"
  by (simp add: storage_ok_def)

lemma storage_ok_obj:
  "storage_ok s \<Longrightarrow> map_of (st_sessions s) i = Some a \<Longrightarrow> ses_id (obj s a) = i \<and> st_heap s a \<noteq> None"
  by (force simp: storage_ok_def obj_def)

lemma storage_ok_put:
  "storage_ok s \<Longrightarrow> st_heap s a \<noteq> None \<Longrightarrow> ses_id x = ses_id (obj s a) \<Longrightarrow> storage_ok (put_obj a x s)"
proof -
  assume ok: "storage_ok s" and a: "st_heap s a \<noteq> None" and i: "ses_id x = ses_id (obj s a)"
  have "\<exists>y. st_heap (put_obj a x s) b = Some y \<and> ses_id y = j"
    if "map_of (st_sessions s) j = Some b" for j b
    using storage_ok_obj [OF ok that] i by (auto simp: obj_def)
  moreover have "c < st_next s" if "st_heap (put_obj a x s) c \<noteq> None" for c
    using ok a that by (cases "c = a") (auto simp: storage_ok_def)
  ultimately show ?thesis using ok unfolding storage_ok_def put_obj_simps by blast
qed

lemma storage_ok_remove [simp]: "storage_ok s \<Longrightarrow> storage_ok (remove_session i s)"
proof -
  assume ok: "storage_ok s"
  then have u: "umap_ok (st_sessions s)" by (simp add: storage_ok_def)
  have "length (AList.delete i (st_sessions s)) \<le> length (st_sessions s)"
    using umap.count_del [OF u, of i] by (auto split: if_splits)
  with ok show ?thesis
    by (simp add: storage_ok_def remove_session_def umap.ok_del [OF u] umap.get_del [OF u])
qed

lemma remove_session_simps [simp]:
  "st_heap (remove_session i s) = st_heap s"
  "st_next (remove_session i s) = st_next s"
  "obj (remove_session i s) a = obj s a"
  by (simp_all add: remove_session_def obj_def)

subsection \<open>The sweep\<close>

lemma clean_loop_sub:
  "set (fst (clean_loop clk s t m)) \<subseteq> set m \<and> length (fst (clean_loop clk s t m)) \<le> length m \<and>
   (umap_ok m \<longrightarrow> umap_ok (fst (clean_loop clk s t m)))"
proof (induction m arbitrary: t)
  case (Cons e m)
  obtain i a where e: "e = (i, a)" by (cases e)
  have u: "umap_ok ((i, a) # m') \<longleftrightarrow> i \<notin> fst ` set m' \<and> umap_ok m'" for m'
    by (simp add: umap_ok_def)
  from Cons [of "Suc t"] show ?case
    unfolding e by (auto simp: Let_def split_beta u)
qed simp

text \<open>An entry survives the sweep just when it had not expired at its reading of the clock.\<close>

lemma clean_loop_unexpired:
  "mono clk \<Longrightarrow> (i, a) \<in> set m \<Longrightarrow> clk (t + length m) < ses_expiry (obj s a) \<Longrightarrow>
     (i, a) \<in> set (fst (clean_loop clk s t m))"
proof (induction m arbitrary: t)
  case (Cons e m)
  obtain j b where e: "e = (j, b)" by (cases e)
  have "clk t \<le> clk (t + length (e # m))" using Cons.prems(1) by (simp add: monoD)
  with Cons.prems Cons.IH [of "Suc t"] show ?case
    unfolding e by (auto simp: Let_def split_beta)
qed simp

lemma clean_loop_live:
  "mono clk \<Longrightarrow> (i, a) \<in> set (fst (clean_loop clk s t m)) \<Longrightarrow> clk t < ses_expiry (obj s a)"
proof (induction m arbitrary: t)
  case (Cons e m)
  obtain j b where e: "e = (j, b)" by (cases e)
  have "clk t \<le> clk (Suc t)" using Cons.prems(1) by (simp add: monoD)
  with Cons.prems Cons.IH [of "Suc t"] show ?case
    unfolding e by (force simp: Let_def split_beta split: if_splits)
qed simp

lemma cleanExpired_simps [simp]:
  "st_heap (cleanExpired clk s) = st_heap s"
  "st_next (cleanExpired clk s) = st_next s"
  "st_capacity (cleanExpired clk s) = st_capacity s"
  "obj (cleanExpired clk s) a = obj s a"
  by (simp_all add: cleanExpired_def split_beta obj_def)

lemma storage_ok_clean [simp]:
  assumes "storage_ok s"
  shows "storage_ok (cleanExpired clk s)"
proof -
  let ?m = "fst (clean_loop clk s (st_tick s) (st_sessions s))"
  note sub = clean_loop_sub [of clk s "st_tick s" "st_sessions s"]
  have u: "umap_ok (st_sessions s)" "umap_ok ?m" using assms sub by (auto simp: storage_ok_def)
  have "map_of ?m i = Some a \<Longrightarrow> map_of (st_sessions s) i = Some a" for i a
    using u(1) sub by (auto simp: umap_ok_def dest!: map_of_SomeD)
  with assms u sub show ?thesis
    by (auto simp: cleanExpired_def split_beta storage_ok_def)
qed

subsection \<open>Every operation keeps the invariant\<close>

lemma storage_ok_insert:
  assumes "storage_ok s" and "st_heap s a = Some x"
    and "ses_id x = i" and "length (st_sessions s) < st_capacity s"
  shows "storage_ok (s\<lparr>st_sessions := AList.update i a (st_sessions s)\<rparr>)"
  using assms umap.count_put [of "st_sessions s" i a]
  by (auto simp: storage_ok_def map_simps split: if_splits)

lemma insert_bounded_ok:
  assumes "storage_ok s" and "st_heap s a \<noteq> None"
  shows "storage_ok (snd (insert_bounded clk a s))"
    and "st_heap (snd (insert_bounded clk a s)) = st_heap s"
    and "st_next (snd (insert_bounded clk a s)) = st_next s"
proof -
  let ?s = "if length (st_sessions s) \<ge> st_capacity s then cleanExpired clk s else s"
  have ok: "storage_ok ?s" and h: "st_heap ?s = st_heap s" using assms by auto
  obtain x where x: "st_heap ?s a = Some x" using assms(2) h by auto
  then have "ses_id (obj ?s a) = ses_id x" by (simp add: obj_def)
  with storage_ok_insert [OF ok x] ok show "storage_ok (snd (insert_bounded clk a s))"
    unfolding insert_bounded_def Let_def by (auto simp del: split_paired_Ex)
  show "st_heap (snd (insert_bounded clk a s)) = st_heap s"
    "st_next (snd (insert_bounded clk a s)) = st_next s"
    by (simp_all add: insert_bounded_def Let_def)
qed

lemma admit_ok:
  assumes "storage_ok s" and "st_heap s a \<noteq> None"
  shows "storage_ok (snd (admit clk (Some a) s))"
    and "st_heap (snd (admit clk (Some a) s)) = st_heap s"
    and "st_next (snd (admit clk (Some a) s)) = st_next s"
proof -
  let ?r = "remove_session (ses_id (obj s a)) (tick s)"
  have r: "storage_ok ?r" "st_heap ?r a \<noteq> None" "st_heap ?r = st_heap s" "st_next ?r = st_next s"
    using assms by simp_all
  note i1 = insert_bounded_ok [OF r(1,2), of clk] and i2 = insert_bounded_ok [OF assms, of clk]
  show "storage_ok (snd (admit clk (Some a) s))"
    "st_heap (snd (admit clk (Some a) s)) = st_heap s"
    "st_next (snd (admit clk (Some a) s)) = st_next s"
    using i1 i2 r assms by (auto simp: admit_def split_beta split: option.split)
qed

lemma loadAndRefresh_ok:
  assumes "storage_ok s"
  shows "storage_ok (snd (loadAndRefresh clk i s))"
    and "st_next (snd (loadAndRefresh clk i s)) = st_next s"
  using assms storage_ok_obj [OF assms, of i]
  by (auto simp: loadAndRefresh_def Let_def split: option.split intro!: storage_ok_put)

lemma load_ok: "storage_ok s \<Longrightarrow> storage_ok (snd (load clk i s))"
  by (simp add: load_def split: option.split)

lemma updateExisting_ok: "storage_ok s \<Longrightarrow> storage_ok (snd (updateExisting clk a s))"
  by (simp add: updateExisting_def)

lemma setValue_ok:
  assumes "storage_ok s" and "st_heap s a \<noteq> None"
  shows "storage_ok (setValue memory_ops clk a k v s)"
proof -
  have "storage_ok (put_obj a ((obj s a)\<lparr>ses_data := AList.update k v (ses_data (obj s a))\<rparr>) s)"
    using assms by (intro storage_ok_put) simp_all
  then show ?thesis by (simp add: setValue_def Let_def updateExisting_ok)
qed

lemma make_session_ok:
  assumes "storage_ok s"
  shows "storage_ok (snd (make_session clk i b m s))"
    and "fst (make_session clk i b m s) = st_next s"
    and "st_heap s (st_next s) = None"
    and "st_heap (snd (make_session clk i b m s)) =
      (st_heap s)(st_next s \<mapsto> \<lparr>ses_id = i, ses_data = [], ses_expiry = now clk s + seconds m,
         ses_maxAge = m, ses_bound = b\<rparr>)"
proof -
  show fresh: "st_heap s (st_next s) = None"
    using assms by (auto simp: storage_ok_def)
  show heap: "st_heap (snd (make_session clk i b m s)) =
      (st_heap s)(st_next s \<mapsto> \<lparr>ses_id = i, ses_data = [], ses_expiry = now clk s + seconds m,
         ses_maxAge = m, ses_bound = b\<rparr>)"
    by (simp add: make_session_def Let_def refresh_def setManager_def)
  have "st_sessions (snd (make_session clk i b m s)) = st_sessions s"
    "st_capacity (snd (make_session clk i b m s)) = st_capacity s"
    "st_next (snd (make_session clk i b m s)) = Suc (st_next s)"
    by (simp_all add: make_session_def Let_def refresh_def setManager_def)
  with assms heap fresh show "storage_ok (snd (make_session clk i b m s))"
    unfolding storage_ok_def by (auto simp: less_Suc_eq)
  show "fst (make_session clk i b m s) = st_next s" by (simp add: make_session_def Let_def)
qed

section \<open>Runs\<close>

text \<open>
  One critical section of any thread: the storage's operations, those of a session some thread
  holds a pointer to, and the two steps in which the manager makes a new session. A call of \<^verbatim>\<open>setValue\<close> is
  two steps, between which other threads may run.
\<close>

inductive session_step ::
  "(nat \<Rightarrow> int) \<Rightarrow> ('r \<Rightarrow> nat \<times> 'r) \<Rightarrow> 'r session_state \<Rightarrow> 'r session_state \<Rightarrow> bool"
  for clk dist where
  step_admit: "st_heap s a \<noteq> None \<Longrightarrow> session_step clk dist s (snd (admit clk (Some a) s))"
| step_load: "session_step clk dist s (snd (load clk i s))"
| step_loadAndRefresh: "session_step clk dist s (snd (loadAndRefresh clk i s))"
| step_remove: "session_step clk dist s (remove_session i s)"
| step_clean: "session_step clk dist s (cleanExpired clk s)"
| step_update: "st_heap s a \<noteq> None \<Longrightarrow> session_step clk dist s (snd (updateExisting clk a s))"
| step_refresh: "st_heap s a \<noteq> None \<Longrightarrow> session_step clk dist s (refresh clk a s)"
| step_isExpired: "session_step clk dist s (snd (isExpired clk a s))"
| step_setManager: "st_heap s a \<noteq> None \<Longrightarrow> session_step clk dist s (setManager a b s)"
| step_storeValue: "st_heap s a \<noteq> None \<Longrightarrow> session_step clk dist s (store_value a k v s)"
| step_removeValue: "st_heap s a \<noteq> None \<Longrightarrow> session_step clk dist s (remove_value a k s)"
| step_clear: "st_heap s a \<noteq> None \<Longrightarrow> session_step clk dist s (clear_session a s)"
| step_generate: "session_step clk dist s (snd (generateSessionId dist s))"
| step_make: "session_step clk dist s (snd (make_session clk i b m s))"

inductive session_reachable ::
  "(nat \<Rightarrow> int) \<Rightarrow> ('r \<Rightarrow> nat \<times> 'r) \<Rightarrow> nat \<Rightarrow> 'r session_state \<Rightarrow> bool"
  for clk dist capacity where
  reach_init: "new_storage capacity rng = Inr s \<Longrightarrow> session_reachable clk dist capacity s"
| reach_step: "session_reachable clk dist capacity s \<Longrightarrow> session_step clk dist s s' \<Longrightarrow>
    session_reachable clk dist capacity s'"

lemma session_step_capacity: "session_step clk dist s s' \<Longrightarrow> st_capacity s' = st_capacity s"
  by (induction rule: session_step.induct)
    (auto simp: admit_def insert_bounded_def remove_session_def load_def loadAndRefresh_def Let_def
      updateExisting_def refresh_def isExpired_def setManager_def setValue_def remove_value_def
      clear_session_def generateSessionId_def make_session_def split_beta split: option.splits)

lemma session_step_ok: "session_step clk dist s s' \<Longrightarrow> storage_ok s \<Longrightarrow> storage_ok s'"
proof (induction rule: session_step.induct)
  case (step_admit s a)
  then show ?case by (simp add: admit_ok)
next
  case (step_generate s)
  then show ?case by (simp add: generateSessionId_def split_beta)
qed (auto simp: load_ok loadAndRefresh_ok updateExisting_ok make_session_ok refresh_def
    isExpired_def setManager_def remove_value_def clear_session_def storage_ok_put)

lemma new_storage_ok: "new_storage capacity rng = Inr s \<Longrightarrow> storage_ok s \<and> st_capacity s = capacity"
  by (auto simp: new_storage_def storage_ok_def split: if_splits)

lemma session_reachable_ok:
  "session_reachable clk dist capacity s \<Longrightarrow> storage_ok s \<and> st_capacity s = capacity"
  by (induction rule: session_reachable.induct)
    (auto simp: new_storage_ok session_step_ok session_step_capacity)

section \<open>What the manager relies on of a storage\<close>

text \<open>
  The contract of a backend over its invariant \<open>inv\<close> and what it has stored under an identifier:
  \<^verbatim>\<open>loadAndRefresh\<close> returns the stored session of that identifier when it has not expired, with its data
  unchanged and its expiry moved on, and nothing otherwise, and allocates nothing; \<^verbatim>\<open>admit\<close> changes no
  object, does not throw, and what it accepts is stored; and the invariant does not mind what the manager
  does beside the storage.
\<close>

locale session_backend =
  fixes ops :: "'r storage_ops" and clk :: "nat \<Rightarrow> int" and inv :: "'r session_state \<Rightarrow> bool"
    and stored :: "'r session_state \<Rightarrow> string \<Rightarrow> nat option"
  assumes found: "inv s \<Longrightarrow> sop_loadAndRefresh ops clk i s = (Some a, s') \<Longrightarrow>
      stored s i = Some a \<and> stored s' i = Some a \<and>
      st_heap s a \<noteq> None \<and> st_heap s' a \<noteq> None \<and> ses_id (obj s a) = i \<and>
      now clk s < ses_expiry (obj s a) \<and> ses_expiry (obj s' a) = now clk s + seconds (ses_maxAge (obj s a)) \<and>
      ses_data (obj s' a) = ses_data (obj s a)"
    and absent: "inv s \<Longrightarrow> sop_loadAndRefresh ops clk i s = (None, s') \<Longrightarrow> stored s i = Some a \<Longrightarrow>
      ses_expiry (obj s a) \<le> now clk s"
    and loaded: "inv s \<Longrightarrow> inv (snd (sop_loadAndRefresh ops clk i s)) \<and>
      st_next (snd (sop_loadAndRefresh ops clk i s)) = st_next s"
    and admitted: "inv s \<Longrightarrow> st_heap s a \<noteq> None \<Longrightarrow>
      inv (snd (sop_admit ops clk (Some a) s)) \<and>
      st_heap (snd (sop_admit ops clk (Some a) s)) = st_heap s \<and>
      (\<exists>ok. fst (sop_admit ops clk (Some a) s) = Inr ok \<and>
        (ok \<longrightarrow> stored (snd (sop_admit ops clk (Some a) s)) (ses_id (obj s a)) = Some a))"
    and inv_rng: "inv s \<Longrightarrow> inv (s\<lparr>st_rng := g\<rparr>)"
    and inv_make: "inv s \<Longrightarrow> inv (snd (make_session clk i b m s))"
    and inv_manager: "inv s \<Longrightarrow> st_heap s a \<noteq> None \<Longrightarrow> inv (setManager a b s)"
    and stored_manager: "stored (setManager a b s) = stored s"
    and unused: "inv s \<Longrightarrow> st_heap s (st_next s) = None"
begin

text \<open>
  The session of a request: the stored one its cookie names, if it has not expired, with its data and
  a new expiry; otherwise a brand-new one without any data, which is now stored and whose identifier
  goes out in the cookie.
\<close>

definition live_cookie :: "http_request \<Rightarrow> 'r session_state \<Rightarrow> nat \<Rightarrow> bool" where
  "live_cookie req s a \<longleftrightarrow> getSessionIdFromCookie req \<noteq> [] \<and> stored s (getSessionIdFromCookie req) = Some a \<and>
     now clk s < ses_expiry (obj s a)"

definition authentic :: "http_request \<Rightarrow> http_response \<Rightarrow> 'r session_state \<Rightarrow> nat \<Rightarrow> http_response \<Rightarrow>
    'r session_state \<Rightarrow> bool" where
  "authentic req resp s a resp' s' \<longleftrightarrow>
     (live_cookie req s a \<and> ses_id (obj s a) = getSessionIdFromCookie req \<and>
      stored s' (getSessionIdFromCookie req) = Some a \<and>
      ses_expiry (obj s' a) = now clk s + seconds (ses_maxAge (obj s a)) \<and>
      ses_data (obj s' a) = ses_data (obj s a) \<and> resp' = resp) \<or>
     ((\<nexists>b. live_cookie req s b) \<and> st_heap s a = None \<and> stored s' (ses_id (obj s' a)) = Some a \<and>
      ses_data (obj s' a) = [] \<and> resp' = setSessionCookie (ses_id (obj s' a)) resp)"

lemma getSession_sound:
  assumes "inv s" and "getSession ops dist clk m req resp s = (oc, resp', s')"
  shows "inv s' \<and> (case oc of
      Done a \<Rightarrow> authentic req resp s a resp' s'
    | Threw e \<Rightarrow> e = Response_thrown unavailable_response \<and> (\<nexists>b. live_cookie req s b) \<and> resp' = resp
    | Crashed \<Rightarrow> False)"
proof -
  let ?i = "getSessionIdFromCookie req"
  obtain found s1 where f: "(if ?i = [] then (None, s) else sop_loadAndRefresh ops clk ?i s) = (found, s1)"
    by (cases "if ?i = [] then (None, s) else sop_loadAndRefresh ops clk ?i s")
  have s1: "inv s1" "st_next s1 = st_next s"
    using f assms(1) loaded [OF assms(1), of ?i] by (auto split: if_splits)
  show ?thesis
  proof (cases found)
    case (Some a)
    with f have i: "?i \<noteq> []" and l: "sop_loadAndRefresh ops clk ?i s = (Some a, s1)" by (auto split: if_splits)
    have r: "oc = Done a" "resp' = resp" "s' = setManager a True s1"
      using assms(2) f Some by (auto simp: getSession_def Let_def)
    have "ses_expiry (obj s' a) = ses_expiry (obj s1 a)" "ses_data (obj s' a) = ses_data (obj s1 a)"
      by (simp_all add: r(3) setManager_def)
    with found [OF assms(1) l] i inv_manager [OF s1(1), of a True] stored_manager [of a True s1]
    show ?thesis by (simp add: r authentic_def live_cookie_def)
  next
    case None
    have no: "\<nexists>b. live_cookie req s b"
    proof (intro notI, elim exE)
      fix b assume b: "live_cookie req s b"
      with f None have "sop_loadAndRefresh ops clk ?i s = (None, s1)" by (auto simp: live_cookie_def)
      from absent [OF assms(1) this] b show False by (auto simp: live_cookie_def)
    qed
    obtain sid g where gen: "generateSessionId dist s1 = (sid, s1\<lparr>st_rng := g\<rparr>)"
      by (cases "draw_digits dist 32 (st_rng s1)") (simp add: generateSessionId_def)
    let ?s2 = "s1\<lparr>st_rng := g\<rparr>"
    let ?x = "\<lparr>ses_id = sid, ses_data = [], ses_expiry = now clk s1 + seconds m, ses_maxAge = m, ses_bound = True\<rparr>"
    obtain s3 where mk: "make_session clk sid True m ?s2 = (st_next s, s3)"
      and h3: "st_heap s3 = (st_heap s1)(st_next s \<mapsto> ?x)"
      using s1(2) by (simp add: make_session_def Let_def refresh_def setManager_def)
    have i3: "inv s3" using inv_make [OF inv_rng [OF s1(1)], of sid True m g] mk by simp
    obtain r s4 where ad: "sop_admit ops clk (Some (st_next s)) s3 = (r, s4)"
      by (cases "sop_admit ops clk (Some (st_next s)) s3")
    have o3: "obj s3 (st_next s) = ?x" by (simp add: obj_def h3)
    from admitted [OF i3, of "st_next s"] h3 ad obtain ok where a4: "inv s4" "st_heap s4 = st_heap s3"
      "r = Inr ok" "ok \<longrightarrow> stored s4 sid = Some (st_next s)" by (auto simp: o3)
    have o4: "obj s4 (st_next s) = ?x" using o3 a4(2) by (simp add: obj_def)
    from assms(2) f None gen mk ad a4 o4 no unused [OF assms(1)]
    show ?thesis
      by (cases ok) (auto simp: getSession_def Let_def authentic_def)
  qed
qed

end

lemma insert_bounded_stored:
  "insert_bounded clk a s = (True, s') \<Longrightarrow> map_of (st_sessions s') (ses_id (obj s a)) = Some a"
  by (auto simp: insert_bounded_def Let_def cleanExpired_def update_conv' split: if_splits prod.splits)

lemma admit_stored:
  "\<exists>ok. fst (admit clk (Some a) s) = Inr ok \<and>
     (ok \<longrightarrow> map_of (st_sessions (snd (admit clk (Some a) s))) (ses_id (obj s a)) = Some a)"
proof -
  let ?r = "remove_session (ses_id (obj s a)) (tick s)"
  have "fst (insert_bounded clk a s1) \<longrightarrow> map_of (st_sessions (snd (insert_bounded clk a s1))) (ses_id (obj s1 a)) = Some a" for s1
    using insert_bounded_stored [of clk a s1] by (metis prod.collapse)
  from this [of s] this [of ?r] show ?thesis
    by (auto simp: admit_def split_beta split: option.split)
qed

interpretation memory: session_backend memory_ops clk storage_ok "\<lambda>s. map_of (st_sessions s)" for clk
proof
  fix s :: "'r session_state" and i a s'
  assume ok: "storage_ok s" and l: "sop_loadAndRefresh memory_ops clk i s = (Some a, s')"
  then have "map_of (st_sessions s) i = Some a"
    by (auto simp: loadAndRefresh_def Let_def split: option.splits if_splits)
  with ok l storage_ok_obj [OF ok this]
  show "map_of (st_sessions s) i = Some a \<and> map_of (st_sessions s') i = Some a \<and>
      st_heap s a \<noteq> None \<and> st_heap s' a \<noteq> None \<and> ses_id (obj s a) = i \<and>
      now clk s < ses_expiry (obj s a) \<and> ses_expiry (obj s' a) = now clk s + seconds (ses_maxAge (obj s a)) \<and>
      ses_data (obj s' a) = ses_data (obj s a)"
    by (auto simp: loadAndRefresh_def Let_def split: if_splits)
next
  fix s :: "'r session_state" and i s' a
  assume "sop_loadAndRefresh memory_ops clk i s = (None, s')" "map_of (st_sessions s) i = Some a"
  then show "ses_expiry (obj s a) \<le> now clk s" by (auto simp: loadAndRefresh_def Let_def split: if_splits)
next
  fix s :: "'r session_state" and a
  assume "storage_ok s" "st_heap s a \<noteq> None"
  then show "storage_ok (snd (sop_admit memory_ops clk (Some a) s)) \<and>
      st_heap (snd (sop_admit memory_ops clk (Some a) s)) = st_heap s \<and>
      (\<exists>ok. fst (sop_admit memory_ops clk (Some a) s) = Inr ok \<and>
        (ok \<longrightarrow> map_of (st_sessions (snd (sop_admit memory_ops clk (Some a) s))) (ses_id (obj s a)) = Some a))"
    using admit_stored [of clk a s] by (simp add: admit_ok)
next
  fix s :: "'r session_state" and a b
  assume "storage_ok s" "st_heap s a \<noteq> None"
  then show "storage_ok (setManager a b s)" by (simp add: setManager_def storage_ok_put)
qed (auto simp: loadAndRefresh_ok make_session_ok setManager_def)

section \<open>Identifiers and cookies\<close>

lemma hex_of_cases: "n < 16 \<Longrightarrow> hex_of n \<in> set ''0123456789abcdef''"
  unfolding hex_of_def by (rule nth_mem) simp

lemma draw_digits_hex:
  assumes "\<And>g. fst (dist g) < 16"
  shows "length (fst (draw_digits dist n g)) = n \<and>
    set (fst (draw_digits dist n g)) \<subseteq> set ''0123456789abcdef''"
proof (induction n arbitrary: g)
  case (Suc n)
  have "hex_of (fst (dist g)) \<in> set ''0123456789abcdef''" by (rule hex_of_cases [OF assms])
  with Suc [of "snd (dist g)"] show ?case by (simp add: Let_def split_beta)
qed simp

lemma generateSessionId_hex:
  assumes "\<And>g. fst (dist g) < 16"
  shows "length (fst (generateSessionId dist s)) = 32 \<and>
    set (fst (generateSessionId dist s)) \<subseteq> set ''0123456789abcdef''"
  using draw_digits_hex [of dist 32 "st_rng s", OF assms]
  by (simp add: generateSessionId_def split_beta)

lemma find_str_append: "find_str t s = Some n \<Longrightarrow> find_str t (s @ u) = Some n"
proof (induction s arbitrary: n)
  case Nil
  then show ?case by (cases u) (auto split: if_splits)
next
  case (Cons c s)
  show ?case
  proof (cases "take (length t) (c # s) = t")
    case True
    then have "length t \<le> length (c # s)" by (metis length_take min.cobounded1)
    then have "take (length t) ((c # s) @ u) = take (length t) (c # s)" by (simp only: take_append) simp
    with True Cons.prems show ?thesis by simp
  next
    case False
    with Cons.prems obtain k where k: "find_str t s = Some k" "n = Suc k" by auto
    note fit = find_str_Some_take [OF k(1)]
    have "length t \<le> length (c # s)" using fit by simp
    then have "take (length t) ((c # s) @ u) = take (length t) (c # s)" by (simp only: take_append) simp
    with False k Cons.IH [OF k(1)] show ?thesis by simp
  qed
qed

section \<open>Properties\<close>

text \<open>
  C24. However threads interleave their operations, the storage never holds more sessions than its
  capacity, its keys are distinct, and each key maps to an existing session of that identifier.
\<close>

theorem session_storage_invariant:
  assumes "session_reachable clk dist capacity s"
  shows "length (st_sessions s) \<le> capacity \<and> distinct (map fst (st_sessions s)) \<and>
    (\<forall>i a. map_of (st_sessions s) i = Some a \<longrightarrow> (\<exists>x. st_heap s a = Some x \<and> ses_id x = i))"
  using session_reachable_ok [OF assms] by (simp add: storage_ok_def umap_ok_def)

definition sample_storage :: "nat session_state" where
  "sample_storage = \<lparr>st_heap = Map.empty, st_next = 0, st_capacity = 1, st_sessions = [],
     st_tick = 0, st_rng = 0\<rparr>"

definition sample_dist :: "nat \<Rightarrow> nat \<times> nat" where
  "sample_dist g = (g mod 16, g + 1)"

definition sample_clock :: "nat \<Rightarrow> int" where
  "sample_clock n = int n"

lemma sample_storage_new: "new_storage 1 0 = Inr sample_storage"
  by (simp add: new_storage_def sample_storage_def)

theorem session_storage_invariant_witness:
  "\<exists>s. session_reachable sample_clock sample_dist 1 s \<and> length (st_sessions s) = 1 \<and>
     distinct (map fst (st_sessions s))"
proof -
  let ?s1 = "snd (make_session sample_clock ''id'' True 3600 sample_storage)"
  let ?s2 = "snd (admit sample_clock (Some 0) ?s1)"
  have a: "st_heap ?s1 0 \<noteq> None"
    by (simp add: make_session_def Let_def sample_storage_def refresh_def setManager_def)
  have r: "session_reachable sample_clock sample_dist 1 ?s2"
    by (rule reach_step [OF reach_step [OF reach_init [OF sample_storage_new] step_make] step_admit [OF a]])
  moreover have "length (st_sessions ?s2) = 1" by code_simp
  ultimately show ?thesis using session_storage_invariant [OF r] by blast
qed

text \<open>
  C25. Authentication by session is sound. When the request's cookie names a stored session that has not expired,
  \<^verbatim>\<open>getSession\<close> returns that session, still stored, with its data untouched and its lifetime renewed, and leaves the
  response alone. Otherwise it returns a new object without any data (so nobody is logged in) that is now
  stored under its identifier, which is sent in the cookie; or it throws the response 503 and leaves
  the response alone. The storage stays well-formed in every case.
\<close>

theorem getSession_authentic:
  assumes "storage_ok s" and "getSession memory_ops dist clk maxAge req resp s = (oc, resp', s')"
  shows "storage_ok s' \<and>
    (let i = getSessionIdFromCookie req;
         live = (\<lambda>a. i \<noteq> [] \<and> map_of (st_sessions s) i = Some a \<and> clk (st_tick s) < ses_expiry (obj s a))
     in case oc of
          Done a \<Rightarrow>
            (live a \<and> ses_id (obj s a) = i \<and> map_of (st_sessions s') i = Some a \<and>
             ses_expiry (obj s' a) = clk (st_tick s) + seconds (ses_maxAge (obj s a)) \<and>
             ses_data (obj s' a) = ses_data (obj s a) \<and> resp' = resp) \<or>
            ((\<nexists>b. live b) \<and> st_heap s a = None \<and> map_of (st_sessions s') (ses_id (obj s' a)) = Some a \<and>
             ses_data (obj s' a) = [] \<and> resp' = setSessionCookie (ses_id (obj s' a)) resp)
        | Threw e \<Rightarrow> e = Response_thrown unavailable_response \<and> (\<nexists>b. live b) \<and> resp' = resp
        | Crashed \<Rightarrow> False)"
  using memory.getSession_sound [OF assms] unfolding memory.authentic_def memory.live_cookie_def Let_def .

theorem getSession_authentic_witness:
  "\<exists>resp' s'. getSession memory_ops sample_dist sample_clock 3600 new_request (new_response True) sample_storage =
     (Done 0, resp', s') \<and> storage_ok s' \<and> map_of (st_sessions s') (ses_id (obj s' 0)) = Some 0 \<and>
     ses_data (obj s' 0) = [] \<and> resp' = setSessionCookie (ses_id (obj s' 0)) (new_response True)"
proof -
  have ok: "storage_ok sample_storage" using new_storage_ok [OF sample_storage_new] by simp
  have i: "getSessionIdFromCookie new_request = []" by code_simp
  obtain resp' s' where e: "getSession memory_ops sample_dist sample_clock 3600 new_request
      (new_response True) sample_storage = (Done 0, resp', s')"
    by (simp add: getSession_def i generateSessionId_def Let_def split_beta make_session_def sample_storage_def refresh_def
        setManager_def admit_def insert_bounded_def)
  from getSession_authentic [OF ok e] e show ?thesis by (simp add: Let_def i)
qed

text \<open>
  When the storage is full of sessions that have not expired, a request without a session is refused with
  status 503 and no stored session is dropped.
\<close>

theorem getSession_full_is_503:
  assumes "storage_ok s" and "mono clk" and "getSessionIdFromCookie req = []"
    and "length (st_sessions s) = st_capacity s"
    and "\<forall>(i, a)\<in>set (st_sessions s). clk (Suc (st_tick s) + st_capacity s) < ses_expiry (obj s a)"
    and "map_of (st_sessions s) (fst (generateSessionId dist s)) = None"
  shows "\<exists>e s'. getSession memory_ops dist clk maxAge req resp s = (Threw (Response_thrown e), resp, s') \<and>
    resp_statusCode e = 503 \<and> set (st_sessions s') = set (st_sessions s)"
proof -
  obtain sid g where gen: "generateSessionId dist s = (sid, s\<lparr>st_rng := g\<rparr>)"
    by (cases "draw_digits dist 32 (st_rng s)") (simp add: generateSessionId_def)
  let ?a = "st_next s"
  obtain s3 where mk: "make_session clk sid True maxAge (s\<lparr>st_rng := g\<rparr>) = (?a, s3)"
    and m3: "st_sessions s3 = st_sessions s" "st_capacity s3 = st_capacity s"
      "st_tick s3 = Suc (st_tick s)" and id3: "ses_id (obj s3 ?a) = sid"
      and o3: "\<And>b. b \<noteq> ?a \<Longrightarrow> obj s3 b = obj s b"
    by (simp add: make_session_def Let_def refresh_def setManager_def)
  have live: "clk (Suc (st_tick s) + length (st_sessions s)) < ses_expiry (obj s3 b)"
    if "(i, b) \<in> set (st_sessions s)" for i b
  proof -
    from that assms(1) have "map_of (st_sessions s) i = Some b"
      by (simp add: storage_ok_def umap_ok_def)
    with assms(1) have "b \<noteq> ?a" by (fastforce simp: storage_ok_def)
    with that assms(4,5) o3 show ?thesis by auto
  qed
  have "set (st_sessions (cleanExpired clk s3)) = set (st_sessions s)"
    using clean_loop_sub [of clk s3 "Suc (st_tick s)" "st_sessions s"]
      clean_loop_unexpired [OF assms(2) _ live]
    by (auto simp: cleanExpired_def split_beta m3)
  moreover have "umap_ok (st_sessions (cleanExpired clk s3))"
    using clean_loop_sub [of clk s3 "Suc (st_tick s)" "st_sessions s"] assms(1)
    by (auto simp: cleanExpired_def split_beta m3 storage_ok_def)
  ultimately have len: "length (st_sessions (cleanExpired clk s3)) = st_capacity s"
    using assms(1,4) by (metis distinct_card distinct_map storage_ok_def umap_ok_def)
  have ad: "admit clk (Some ?a) s3 = (Inr False, cleanExpired clk s3)"
    using assms(4,6) len gen m3 id3 by (simp add: admit_def insert_bounded_def Let_def)
  have "resp_statusCode unavailable_response = 503" by code_simp
  with assms(3) gen mk ad \<open>set (st_sessions (cleanExpired clk s3)) = set (st_sessions s)\<close>
  show ?thesis by (simp add: getSession_def)
qed

definition full_storage :: "nat session_state" where
  "full_storage = sample_storage\<lparr>st_heap := [0 \<mapsto> \<lparr>ses_id = ''x'', ses_data = [(''isLoggedIn'', ''true'')],
     ses_expiry = 1000, ses_maxAge = 60, ses_bound = True\<rparr>], st_next := 1, st_sessions := [(''x'', 0)]\<rparr>"

lemma full_storage_ok: "storage_ok full_storage"
  by (simp add: storage_ok_def full_storage_def sample_storage_def umap_ok_def)

lemma sample_clock_mono: "mono sample_clock"
  by (simp add: mono_def sample_clock_def)

theorem getSession_full_is_503_witness:
  "\<exists>e s'. getSession memory_ops sample_dist sample_clock 3600 new_request (new_response True) full_storage =
     (Threw (Response_thrown e), new_response True, s') \<and> resp_statusCode e = 503 \<and>
     set (st_sessions s') = {(''x'', 0)}"
proof -
  have c: "getSessionIdFromCookie new_request = []" by code_simp
  have l: "length (st_sessions full_storage) = st_capacity full_storage" by code_simp
  have x: "\<forall>(i, a)\<in>set (st_sessions full_storage).
      sample_clock (Suc (st_tick full_storage) + st_capacity full_storage) < ses_expiry (obj full_storage a)"
    by code_simp
  have n: "map_of (st_sessions full_storage) (fst (generateSessionId sample_dist full_storage)) = None"
    by code_simp
  have m: "set (st_sessions full_storage) = {(''x'', 0)}" by (simp add: full_storage_def)
  from getSession_full_is_503 [OF full_storage_ok sample_clock_mono c l x n, of 3600 "new_response True"]
  show ?thesis unfolding m .
qed

text \<open>
  Session data survive from one request to the next: a value set on a stored session is what a later
  request that sends the session's cookie in time reads from it, and other values are unchanged.
\<close>

theorem session_value_round_trip:
  fixes s :: "'r session_state"
  assumes "storage_ok s" and "map_of (st_sessions s) i = Some a" and "i \<noteq> []"
    and "getSessionIdFromCookie req = i"
    and "clk (st_tick s) < ses_expiry (obj s a)" and "clk (Suc (st_tick s)) < ses_expiry (obj s a)"
  shows "\<exists>s'. getSession memory_ops dist clk maxAge req resp (setValue memory_ops clk a k v s) =
      (Done a, resp, s') \<and> getValue a k s' = v \<and>
      (\<forall>k'. k' \<noteq> k \<longrightarrow> getValue a k' s' = getValue a k' s)"
proof -
  let ?x = "(obj s a)\<lparr>ses_data := AList.update k v (ses_data (obj s a))\<rparr>"
  have id: "ses_id (obj s a) = i" using storage_ok_obj [OF assms(1,2)] by simp
  have "updateExisting clk a (put_obj a ?x s) = (True, tick (put_obj a ?x s))"
    using assms(2,5) id by (simp add: updateExisting_def)
  then have set: "setValue memory_ops clk a k v s = tick (put_obj a ?x s) \<or>
      setValue memory_ops clk a k v s = put_obj a ?x s"
    by (simp add: setValue_def Let_def)
  have vals: "getValue a k s' = v \<and> (\<forall>k'. k' \<noteq> k \<longrightarrow> getValue a k' s' = getValue a k' s)"
    if "ses_data (obj s' a) = ses_data ?x" for s' :: "'r session_state"
    using that by (simp add: getValue_def update_conv')
  have get: "\<exists>s'. getSession memory_ops dist clk maxAge req resp s1 = (Done a, resp, s') \<and>
      ses_data (obj s' a) = ses_data ?x"
    if "obj s1 a = ?x" "st_sessions s1 = st_sessions s" "clk (st_tick s1) < ses_expiry (obj s a)" for s1
    using that assms(2-4)
    by (simp add: getSession_def loadAndRefresh_def Let_def setManager_def)
  from set show ?thesis
    using get [of "tick (put_obj a ?x s)"] get [of "put_obj a ?x s"] assms(5,6) vals by auto
qed

definition cookie_request :: "string \<Rightarrow> http_request" where
  "cookie_request c = new_request\<lparr>req_headers := [(''cookie'', c)]\<rparr>"

theorem session_value_round_trip_witness:
  "\<exists>s'. getSession memory_ops sample_dist sample_clock 3600 (cookie_request ''lang=en; sessionId=x'')
      (new_response True) (setValue memory_ops sample_clock 0 ''userId'' ''7'' full_storage) =
      (Done 0, new_response True, s') \<and> getValue 0 ''userId'' s' = ''7'' \<and>
      (\<forall>k'. k' \<noteq> ''userId'' \<longrightarrow> getValue 0 k' s' = getValue 0 k' full_storage)"
proof -
  have "map_of (st_sessions full_storage) ''x'' = Some 0"
    "getSessionIdFromCookie (cookie_request ''lang=en; sessionId=x'') = ''x''"
    "sample_clock (st_tick full_storage) < ses_expiry (obj full_storage 0)"
    "sample_clock (Suc (st_tick full_storage)) < ses_expiry (obj full_storage 0)" by code_simp+
  from session_value_round_trip [OF full_storage_ok this(1) _ this(2-4)] show ?thesis by simp
qed

text \<open>
  A session identifier is 32 lowercase hexadecimal digits, and the server recovers it from the
  \<^verbatim>\<open>Cookie\<close> header: from the first occurrence of \<^verbatim>\<open>sessionId=\<close> up to the next semicolon. (The first
  occurrence counts even if it is the tail of another cookie's name.)
\<close>

theorem session_cookie_round_trip:
  assumes "\<forall>g. fst (dist g) < 16" and "fst (generateSessionId dist s) = sid"
    and "getHeader req ''Cookie'' = before @ ''sessionId='' @ sid @ rest"
    and "find_str ''sessionId='' (before @ ''sessionId='') = Some (length before)"
    and "rest = [] \<or> hd rest = CHR '';''"
  shows "getSessionIdFromCookie req = sid \<and> length sid = 32 \<and> set sid \<subseteq> set ''0123456789abcdef''"
proof -
  have sid: "length sid = 32" "set sid \<subseteq> set ''0123456789abcdef''"
    using generateSessionId_hex [of dist s] assms(1,2) by auto
  then have semi: "CHR '';'' \<notin> set sid" by auto
  have "find_str ''sessionId='' (before @ ''sessionId='' @ sid @ rest) = Some (length before)"
    using find_str_append [OF assms(4), of "sid @ rest"] by simp
  moreover have "find_char CHR '';'' (sid @ rest) = (if rest = [] then None else Some (length sid))"
    using semi assms(5)
    by (cases rest) (auto simp: find_char_def std_find_append std_find_notin, auto simp: std_find_def)
  ultimately have "getSessionIdFromCookie req = sid"
    unfolding getSessionIdFromCookie_def assms(3) Let_def by simp
  with sid show ?thesis by simp
qed

theorem session_cookie_round_trip_witness:
  "getSessionIdFromCookie (cookie_request (''lang=en; '' @ ''sessionId='' @
     fst (generateSessionId sample_dist sample_storage) @ ''; a=b'')) =
   fst (generateSessionId sample_dist sample_storage)"
proof -
  have d: "\<forall>g. fst (sample_dist g) < 16" by (simp add: sample_dist_def)
  have "lower ''Cookie'' = ''cookie''" by code_simp
  then have h: "getHeader (cookie_request c) ''Cookie'' = c" for c
    unfolding getHeader_def cookie_request_def by (simp del: list.map)
  have f: "find_str ''sessionId='' (''lang=en; '' @ ''sessionId='') = Some (length ''lang=en; '')"
    by code_simp
  from session_cookie_round_trip [OF d refl [of "fst (generateSessionId sample_dist sample_storage)"]
      h f, of "''; a=b''"]
  show ?thesis by simp
qed

end
