(* ===== verification/Password_Util.thy ===== *)
theory Password_Util
  imports Cpp_Prelude "HOL-Library.Word"
begin

text \<open>
  \<^verbatim>\<open>HttpServer/src/utils/PasswordUtil.cpp\<close>: the encoding and checking of password hashes. OpenSSL is a
  parameter: what \<^verbatim>\<open>RAND_bytes\<close> delivered (\<open>None\<close> if it failed) and \<^verbatim>\<open>PKCS5_PBKDF2_HMAC\<close> as a function of
  password, salt and cost. \<open>pbkdf2_ok\<close> says what is relied on: it fills the 32 bytes of the key.
\<close>

unbundle bit_operations_syntax

type_synonym bytes = "8 word list"

type_synonym pbkdf2_fun = "string \<Rightarrow> bytes \<Rightarrow> nat \<Rightarrow> bytes option"

section \<open>Encoding\<close>

definition iterations :: nat where
  "iterations = 600000"

definition prefix :: string where
  "prefix = ''pbkdf2_sha256$''"

abbreviation hex_digits :: string where
  "hex_digits \<equiv> ''0123456789abcdef''"

fun hex :: "bytes \<Rightarrow> string" where
  "hex [] = []"
| "hex (byte # bytes) =
     hex_digits ! unat (drop_bit 4 byte) # hex_digits ! unat (byte AND 15) # hex bytes"

definition digit :: "char \<Rightarrow> 8 word option" where
  "digit value =
     (if byte_of CHR ''0'' \<le> byte_of value \<and> byte_of value \<le> byte_of CHR ''9''
      then Some (of_nat (byte_of value - byte_of CHR ''0''))
      else if byte_of CHR ''a'' \<le> byte_of value \<and> byte_of value \<le> byte_of CHR ''f''
      then Some (of_nat (byte_of value - byte_of CHR ''a'' + 10))
      else None)"

fun unhex_loop :: "string \<Rightarrow> bytes option" where
  "unhex_loop (h # l # input) =
     (case (digit h, digit l) of
        (Some high, Some low) \<Rightarrow> map_option (Cons (push_bit 4 high OR low)) (unhex_loop input)
      | _ \<Rightarrow> None)"
| "unhex_loop _ = Some []"

definition unhex :: "nat \<Rightarrow> string \<Rightarrow> bytes option" where
  "unhex n input = (if length input \<noteq> n * 2 then None else unhex_loop input)"

section \<open>Hashing and verifying\<close>

definition derive :: "pbkdf2_fun \<Rightarrow> string \<Rightarrow> bytes \<Rightarrow> nat \<Rightarrow> bytes option" where
  "derive pbkdf2 password salt cost =
     (if length password > 2147483647 then None else pbkdf2 password salt cost)"

definition hash :: "pbkdf2_fun \<Rightarrow> bytes option \<Rightarrow> string \<Rightarrow> string result" where
  "hash pbkdf2 rand_bytes password =
     (case rand_bytes of
        None \<Rightarrow> throw (Runtime_error ''Password hashing failed'')
      | Some salt \<Rightarrow>
          (case derive pbkdf2 password salt iterations of
             None \<Rightarrow> throw (Runtime_error ''Password hashing failed'')
           | Some key \<Rightarrow> return (prefix @ to_string iterations @ ''$'' @ hex salt @ ''$'' @ hex key)))"

definition isHash :: "string \<Rightarrow> bool" where
  "isHash encoded \<longleftrightarrow> take (length prefix) encoded = prefix"

text \<open>\<^verbatim>\<open>std::from_chars\<close> for an \<^verbatim>\<open>int\<close>: the value and how many characters it read.\<close>

definition from_chars :: "string \<Rightarrow> (int \<times> nat) option" where
  "from_chars s =
     (let neg = (s \<noteq> [] \<and> hd s = CHR ''-'');
          ds = takeWhile is_digit (if neg then tl s else s);
          v = (if neg then - int (decimal ds) else int (decimal ds))
      in if ds = [] then None
         else if v < - (2 ^ 31) \<or> v > 2 ^ 31 - 1 then None
         else Some (v, length ds + (if neg then 1 else 0)))"

definition verify :: "pbkdf2_fun \<Rightarrow> string \<Rightarrow> string \<Rightarrow> bool" where
  "verify pbkdf2 password encoded =
     (if \<not> isHash encoded then False
      else let rest = drop (length prefix) encoded
           in case find_char CHR ''$'' rest of
                None \<Rightarrow> False
              | Some separator \<Rightarrow>
                  (case from_chars (take separator rest) of
                     None \<Rightarrow> False
                   | Some (cost, ptr) \<Rightarrow>
                       if ptr \<noteq> separator \<or> cost < 100000 \<or> cost > 2000000 then False
                       else let rest2 = drop (separator + 1) rest
                            in case find_char CHR ''$'' rest2 of
                                 None \<Rightarrow> False
                               | Some separator2 \<Rightarrow>
                                   (case (unhex 16 (take separator2 rest2),
                                          unhex 32 (drop (separator2 + 1) rest2)) of
                                      (Some salt, Some expected) \<Rightarrow>
                                        (case derive pbkdf2 password salt (nat cost) of
                                           None \<Rightarrow> False
                                         | Some actual \<Rightarrow> expected = actual)
                                    | _ \<Rightarrow> False)))"

definition verifyLegacy :: "string \<Rightarrow> string \<Rightarrow> bool" where
  "verifyLegacy password stored \<longleftrightarrow>
     \<not> isHash stored \<and> length password = length stored \<and> password = stored"

section \<open>Hexadecimal digits\<close>

lemma digit_table: "n < 16 \<Longrightarrow> digit (hex_digits ! n) = Some (of_nat n)"
proof -
  have "\<forall>n\<in>set [0..<16]. digit (hex_digits ! n) = Some (of_nat n)" by code_simp
  then show "n < 16 \<Longrightarrow> ?thesis" by simp
qed

lemma byte_of_hex_digit:
  "n < 16 \<Longrightarrow> byte_of (hex_digits ! n) = (if n < 10 then 48 + n else 87 + n)"
proof -
  have "\<forall>n\<in>set [0..<16]. byte_of (hex_digits ! n) = (if n < 10 then 48 + n else 87 + n)" by code_simp
  then show "n < 16 \<Longrightarrow> ?thesis" by simp
qed

lemma digit_Some:
  assumes "digit c = Some w"
  shows "unat w < 16 \<and> hex_digits ! unat w = c"
proof -
  obtain n where n: "n < 16" "w = of_nat n" "byte_of c = (if n < 10 then 48 + n else 87 + n)"
  proof (cases "48 \<le> byte_of c \<and> byte_of c \<le> 57")
    case True
    define k where "k = byte_of c - 48"
    have "byte_of c = 48 + k" "k < 10" using True by (auto simp: k_def)
    with assms that [of k] show thesis by (simp add: digit_def)
  next
    case False
    define k where "k = byte_of c - 97"
    have "byte_of c = 97 + k" "k < 6" using assms False by (auto simp: k_def digit_def split: if_splits)
    with assms that [of "k + 10"] show thesis by (simp add: digit_def)
  qed
  have "unat w = n" using n(1,2) by (simp add: unat_of_nat)
  moreover have "byte_of (hex_digits ! n) = byte_of c" using byte_of_hex_digit [OF n(1)] n(3) by simp
  then have "hex_digits ! n = c" by (simp only: of_char_eq_iff)
  ultimately show ?thesis using n(1) by simp
qed

lemma nibbles_less: "unat (drop_bit 4 (b :: 8 word)) < 16" "unat ((b :: 8 word) AND 15) < 16"
proof -
  have "unat b < 256" using unsigned_less [of b] by simp
  then show "unat (drop_bit 4 b) < 16"
    by (simp only: unat_drop_bit_eq drop_bit_eq_div [of 4 "unat b"]) simp
  have "b AND 15 \<le> 15" by (rule word_and_le1)
  then show "unat (b AND 15) < 16" by (simp add: word_le_nat_alt)
qed

lemma nibbles_join: "push_bit 4 (drop_bit 4 b) OR (b AND 15) = (b :: 8 word)"
proof -
  have "(15 :: 8 word) = mask 4" by (simp add: mask_eq_exp_minus_1)
  then show ?thesis by (simp add: bit_eq_iff bit_simps) auto
qed

lemma nibbles_split:
  assumes "unat h < 16" and "unat l < 16"
  shows "drop_bit 4 (push_bit 4 h OR l :: 8 word) = h" and "(push_bit 4 h OR l :: 8 word) AND 15 = l"
proof -
  have "\<forall>i\<in>set [0..<16]. \<forall>j\<in>set [0..<16].
      drop_bit 4 (push_bit 4 (of_nat i) OR of_nat j :: 8 word) = of_nat i \<and>
      (push_bit 4 (of_nat i) OR of_nat j :: 8 word) AND 15 = of_nat j" by code_simp
  then have "drop_bit 4 (push_bit 4 (of_nat (unat h)) OR of_nat (unat l) :: 8 word) = of_nat (unat h) \<and>
      (push_bit 4 (of_nat (unat h)) OR of_nat (unat l) :: 8 word) AND 15 = of_nat (unat l)"
    using assms by (metis atLeastLessThan_iff set_upt zero_le)
  then show "drop_bit 4 (push_bit 4 h OR l :: 8 word) = h" "(push_bit 4 h OR l :: 8 word) AND 15 = l"
    unfolding of_nat_unat ucast_id by blast+
qed

lemma length_hex [simp]: "length (hex bs) = 2 * length bs"
  by (induction bs) simp_all

lemma unhex_loop_hex: "unhex_loop (hex bs) = Some bs"
  by (induction bs) (simp_all add: digit_table nibbles_less nibbles_join)

lemma hex_unhex_loop: "unhex_loop s = Some bs \<Longrightarrow> even (length s) \<Longrightarrow> hex bs = s"
proof (induction s arbitrary: bs rule: unhex_loop.induct)
  case (1 h l s)
  then obtain high low bs' where d: "digit h = Some high" "digit l = Some low"
    and bs': "unhex_loop s = Some bs'" and bs: "bs = (push_bit 4 high OR low) # bs'"
    by (auto split: option.splits)
  from 1 d bs' have "hex bs' = s" by simp
  with bs digit_Some [OF d(1)] digit_Some [OF d(2)] nibbles_split [of high low]
  show ?case by simp
qed simp_all

lemma unhex_iff: "unhex n s = Some bs \<longleftrightarrow> s = hex bs \<and> length bs = n"
proof
  assume h: "unhex n s = Some bs"
  then have l: "length s = n * 2" "unhex_loop s = Some bs" by (auto simp: unhex_def split: if_splits)
  with hex_unhex_loop have "hex bs = s" by simp
  moreover from this l(1) have "length bs = n" using length_hex [of bs] by simp
  ultimately show "s = hex bs \<and> length bs = n" by simp
next
  assume "s = hex bs \<and> length bs = n"
  then show "unhex n s = Some bs" by (simp add: unhex_def unhex_loop_hex)
qed

lemma hex_chars: "set (hex bs) \<subseteq> set hex_digits"
proof (induction bs)
  case (Cons b bs)
  have "hex_digits ! n \<in> set hex_digits" if "n < 16" for n using that by (intro nth_mem) simp
  from this [OF nibbles_less(1) [of b]] this [OF nibbles_less(2) [of b]] Cons
  show ?case unfolding hex.simps set_simps(2) insert_subset by blast
qed simp

lemma dollar_not_hex: "CHR ''$'' \<notin> set (hex bs)"
  using hex_chars [of bs] by auto

section \<open>The format of a hash\<close>

lemma isHash_iff: "isHash e \<longleftrightarrow> (\<exists>rest. e = prefix @ rest)"
  by (metis append_eq_conv_conj append_take_drop_id isHash_def)

lemma find_dollar: "CHR ''$'' \<notin> set s \<Longrightarrow> find_char CHR ''$'' (s @ ''$'' @ t) = Some (length s)"
  by (simp add: find_char_Some std_find_append) (simp add: std_find_def)

lemma find_dollar_Some:
  "find_char CHR ''$'' r = Some n \<Longrightarrow> \<exists>t. r = take n r @ ''$'' @ t \<and> t = drop (n + 1) r \<and> CHR ''$'' \<notin> set (take n r)"
  using split_at_char [of "CHR ''$''" r] not_in_take_std_find [of "CHR ''$''" r]
  by (auto simp: find_char_Some)

lemma digits_no_sign: "list_all is_digit ds \<Longrightarrow> ds = [] \<or> hd ds \<noteq> CHR ''-''"
  by (cases ds) (auto simp: is_digit_def)

lemma takeWhile_digits: "list_all is_digit ds \<Longrightarrow> takeWhile is_digit ds = ds"
  by (simp add: list_all_iff takeWhile_eq_all_conv)

lemma from_chars_cost:
  "(\<exists>v. from_chars s = Some (v, length s) \<and> 100000 \<le> v \<and> v \<le> 2000000 \<and> n = nat v) \<longleftrightarrow>
   list_all is_digit s \<and> decimal s = n \<and> 100000 \<le> n \<and> n \<le> 2000000"
proof
  assume "\<exists>v. from_chars s = Some (v, length s) \<and> 100000 \<le> v \<and> v \<le> 2000000 \<and> n = nat v"
  then obtain v where v: "from_chars s = Some (v, length s)" "100000 \<le> v" "v \<le> 2000000" "n = nat v" by blast
  have "\<not> (s \<noteq> [] \<and> hd s = CHR ''-'')"
    using v(1,2) by (auto simp: from_chars_def Let_def split: if_splits)
  with v have "length (takeWhile is_digit s) = length s" "v = int (decimal (takeWhile is_digit s))"
    by (auto simp: from_chars_def Let_def split: if_splits)
  moreover from this(1) have "takeWhile is_digit s = s"
    by (metis takeWhile_eq_take take_all order_refl)
  ultimately show "list_all is_digit s \<and> decimal s = n \<and> 100000 \<le> n \<and> n \<le> 2000000"
    using v by (auto simp: list_all_iff takeWhile_eq_all_conv)
next
  assume h: "list_all is_digit s \<and> decimal s = n \<and> 100000 \<le> n \<and> n \<le> 2000000"
  then have "s \<noteq> []" by auto
  have tw: "takeWhile is_digit s = s" using h takeWhile_digits [of s] by blast
  have "from_chars s = Some (int (decimal s), length s)"
    using h digits_no_sign [of s] \<open>s \<noteq> []\<close> unfolding from_chars_def Let_def
    by (simp add: tw del: takeWhile_eq_all_conv)
  with h show "\<exists>v. from_chars s = Some (v, length s) \<and> 100000 \<le> v \<and> v \<le> 2000000 \<and> n = nat v"
    by auto
qed

definition pbkdf2_ok :: "pbkdf2_fun \<Rightarrow> bool" where
  "pbkdf2_ok pbkdf2 \<longleftrightarrow> (\<forall>password salt cost key. pbkdf2 password salt cost = Some key \<longrightarrow> length key = 32)"

lemma verify_format:
  "verify pbkdf2 password (prefix @ ds @ ''$'' @ s @ ''$'' @ k) \<longleftrightarrow>
     (\<exists>n salt key. list_all is_digit ds \<and> decimal ds = n \<and> 100000 \<le> n \<and> n \<le> 2000000 \<and>
        s = hex salt \<and> length salt = 16 \<and> k = hex key \<and> length key = 32 \<and>
        derive pbkdf2 password salt n = Some key)"
  if "CHR ''$'' \<notin> set ds" "CHR ''$'' \<notin> set s" for ds s k
proof -
  have cost: "(case from_chars ds of None \<Rightarrow> False | Some (cost, ptr) \<Rightarrow>
        if ptr \<noteq> length ds \<or> cost < 100000 \<or> cost > 2000000 then False else Q (nat cost)) \<longleftrightarrow>
      (\<exists>n. list_all is_digit ds \<and> decimal ds = n \<and> 100000 \<le> n \<and> n \<le> 2000000 \<and> Q n)" for Q
  proof -
    have "(case from_chars ds of None \<Rightarrow> False | Some (cost, ptr) \<Rightarrow>
        if ptr \<noteq> length ds \<or> cost < 100000 \<or> cost > 2000000 then False else Q (nat cost)) \<longleftrightarrow>
      (\<exists>n. (\<exists>v. from_chars ds = Some (v, length ds) \<and> 100000 \<le> v \<and> v \<le> 2000000 \<and> n = nat v) \<and> Q n)"
      by (cases "from_chars ds") auto
    then show ?thesis unfolding from_chars_cost by blast
  qed
  have keys: "(case (unhex 16 s, unhex 32 k) of
        (Some salt, Some expected) \<Rightarrow>
          (case derive pbkdf2 password salt n of None \<Rightarrow> False | Some actual \<Rightarrow> expected = actual)
      | _ \<Rightarrow> False) \<longleftrightarrow>
      (\<exists>salt key. s = hex salt \<and> length salt = 16 \<and> k = hex key \<and> length key = 32 \<and>
        derive pbkdf2 password salt n = Some key)" for n
  proof -
    have "(\<exists>salt key. s = hex salt \<and> length salt = 16 \<and> k = hex key \<and> length key = 32 \<and>
        derive pbkdf2 password salt n = Some key) \<longleftrightarrow>
      (\<exists>salt key. unhex 16 s = Some salt \<and> unhex 32 k = Some key \<and> derive pbkdf2 password salt n = Some key)"
      unfolding unhex_iff by blast
    then show ?thesis by (auto split: option.splits)
  qed
  have "verify pbkdf2 password (prefix @ ds @ ''$'' @ s @ ''$'' @ k) \<longleftrightarrow>
      (case from_chars ds of None \<Rightarrow> False | Some (cost, ptr) \<Rightarrow>
        if ptr \<noteq> length ds \<or> cost < 100000 \<or> cost > 2000000 then False else
        (case (unhex 16 s, unhex 32 k) of
           (Some salt, Some expected) \<Rightarrow>
             (case derive pbkdf2 password salt (nat cost) of None \<Rightarrow> False | Some actual \<Rightarrow> expected = actual)
         | _ \<Rightarrow> False))"
    using find_dollar [OF that(1), of "s @ ''$'' @ k"] find_dollar [OF that(2), of k]
    by (cases "from_chars ds") (auto simp: verify_def isHash_iff Let_def)
  also have "\<dots> \<longleftrightarrow> (\<exists>n. list_all is_digit ds \<and> decimal ds = n \<and> 100000 \<le> n \<and> n \<le> 2000000 \<and>
      (\<exists>salt key. s = hex salt \<and> length salt = 16 \<and> k = hex key \<and> length key = 32 \<and>
        derive pbkdf2 password salt n = Some key))"
    unfolding keys
    by (rule cost [of "\<lambda>n. \<exists>salt key. s = hex salt \<and> length salt = 16 \<and> k = hex key \<and>
      length key = 32 \<and> derive pbkdf2 password salt n = Some key"])
  finally show ?thesis by blast
qed

lemma verify_shape:
  assumes "verify pbkdf2 password e"
  obtains ds s k where "e = prefix @ ds @ ''$'' @ s @ ''$'' @ k" "CHR ''$'' \<notin> set ds" "CHR ''$'' \<notin> set s"
proof -
  from assms have "isHash e" by (auto simp: verify_def split: if_splits)
  then obtain rest where e: "e = prefix @ rest" by (auto simp: isHash_iff)
  from assms e obtain n where n: "find_char CHR ''$'' rest = Some n"
    by (auto simp: verify_def Let_def split: if_splits option.splits)
  from assms e n obtain m where m: "find_char CHR ''$'' (drop (n + 1) rest) = Some m"
    by (auto simp: verify_def Let_def split: if_splits option.splits)
  from find_dollar_Some [OF n] find_dollar_Some [OF m] that e show thesis by metis
qed

section \<open>Properties\<close>

text \<open>
  C33. What is hashed can be verified: for every password short enough for the library and every
  random salt of 16 bytes, hashing either throws (the library failed) or gives a string that is recognised as a hash,
  against which the password verifies, and which the check for legacy plain-text rows refuses.
\<close>

theorem hash_verify_round_trip:
  assumes "pbkdf2_ok pbkdf2" and "length salt = 16"
    and "hash pbkdf2 (Some salt) password = Inr encoded"
  shows "isHash encoded \<and> verify pbkdf2 password encoded \<and> \<not> verifyLegacy any encoded"
proof -
  from assms(3) obtain key where key: "derive pbkdf2 password salt iterations = Some key"
    and e: "encoded = prefix @ to_string iterations @ ''$'' @ hex salt @ ''$'' @ hex key"
    by (auto simp: hash_def split: option.splits)
  have "length key = 32"
    using assms(1) key by (auto simp: pbkdf2_ok_def derive_def split: if_splits)
  moreover have "CHR ''$'' \<notin> set (to_string iterations)"
    using to_string_digits [of iterations] by (auto simp: list_all_iff is_digit_def)
  ultimately have "verify pbkdf2 password encoded"
    unfolding e using assms(2) key to_string_digits [of iterations]
    by (subst verify_format) (auto simp: dollar_not_hex iterations_def)
  moreover have "isHash encoded" by (auto simp: e isHash_iff)
  ultimately show ?thesis by (simp add: verifyLegacy_def)
qed

definition sample_pbkdf2 :: pbkdf2_fun where
  "sample_pbkdf2 password salt cost = Some (replicate 32 (of_nat (length password + cost)))"

theorem hash_verify_round_trip_witness:
  "\<exists>encoded. hash sample_pbkdf2 (Some (replicate 16 7)) ''secret'' = Inr encoded \<and>
     isHash encoded \<and> verify sample_pbkdf2 ''secret'' encoded \<and> \<not> verifyLegacy ''x'' encoded"
proof -
  have ok: "pbkdf2_ok sample_pbkdf2" by (simp add: pbkdf2_ok_def sample_pbkdf2_def)
  have l: "length (replicate 16 (7 :: 8 word)) = 16" by simp
  obtain e where e: "hash sample_pbkdf2 (Some (replicate 16 7)) ''secret'' = Inr e"
    by (simp add: hash_def derive_def sample_pbkdf2_def)
  from hash_verify_round_trip [OF ok l e, of "''x''"] e show ?thesis by blast
qed

text \<open>
  Verification accepts nothing else: a password verifies against a stored string exactly when
  the string is the prefix, a decimal cost between 100000 and 2000000, a salt of 16 bytes and the
  32-byte key that the derivation yields for this password, salt and cost, in lower-case hexadecimal
  and separated by dollar signs.
\<close>

theorem verify_exact:
  "verify pbkdf2 password encoded \<longleftrightarrow>
     (\<exists>ds salt key. encoded = prefix @ ds @ ''$'' @ hex salt @ ''$'' @ hex key \<and>
        list_all is_digit ds \<and> 100000 \<le> decimal ds \<and> decimal ds \<le> 2000000 \<and>
        length salt = 16 \<and> length key = 32 \<and> derive pbkdf2 password salt (decimal ds) = Some key)"
proof
  assume v: "verify pbkdf2 password encoded"
  then obtain ds s k where e: "encoded = prefix @ ds @ ''$'' @ s @ ''$'' @ k"
    and d: "CHR ''$'' \<notin> set ds" "CHR ''$'' \<notin> set s" by (rule verify_shape)
  from v verify_format [OF d] e show "\<exists>ds salt key. encoded = prefix @ ds @ ''$'' @ hex salt @ ''$'' @ hex key \<and>
        list_all is_digit ds \<and> 100000 \<le> decimal ds \<and> decimal ds \<le> 2000000 \<and>
        length salt = 16 \<and> length key = 32 \<and> derive pbkdf2 password salt (decimal ds) = Some key"
    by metis
next
  assume "\<exists>ds salt key. encoded = prefix @ ds @ ''$'' @ hex salt @ ''$'' @ hex key \<and>
        list_all is_digit ds \<and> 100000 \<le> decimal ds \<and> decimal ds \<le> 2000000 \<and>
        length salt = 16 \<and> length key = 32 \<and> derive pbkdf2 password salt (decimal ds) = Some key"
  then obtain ds salt key where h: "encoded = prefix @ ds @ ''$'' @ hex salt @ ''$'' @ hex key"
      "list_all is_digit ds" "100000 \<le> decimal ds" "decimal ds \<le> 2000000" "length salt = 16"
      "length key = 32" "derive pbkdf2 password salt (decimal ds) = Some key" by blast
  have "CHR ''$'' \<notin> set ds" using h(2) by (auto simp: list_all_iff is_digit_def)
  from verify_format [OF this dollar_not_hex] h show "verify pbkdf2 password encoded" by metis
qed

end
