(* ===== verification/Json_Lib.thy ===== *)
theory Json_Lib
  imports Cpp_Prelude
begin

text \<open>
  The JSON library (nlohmann::json, \<^verbatim>\<open>HttpServer/include/utils/JsonUtil.h\<close>) is not part of the repository. It is a
  record of the operations the code calls, over a type of values of its own; every function
  that handles JSON takes it as an argument. A missing result is the exception the library
  documents for the call; the text of its message is not modelled. What theorems rely on is stated in \<open>json_ok\<close>, and the record \<open>table_json\<close> is a
  concrete library that satisfies it, used by witnesses.
\<close>

record 'j json_lib =
  js_parse :: "string \<Rightarrow> 'j option"
  js_dump :: "'j \<Rightarrow> string option"
  js_pretty :: "'j \<Rightarrow> string option"
  js_string :: "string \<Rightarrow> 'j"
  js_int :: "int \<Rightarrow> 'j"
  js_bool :: "bool \<Rightarrow> 'j"
  js_null :: 'j
  js_array :: "'j list \<Rightarrow> 'j"
  js_object :: "(string \<times> 'j) list \<Rightarrow> 'j"
  js_contains :: "'j \<Rightarrow> string \<Rightarrow> bool"
  js_at :: "'j \<Rightarrow> string \<Rightarrow> 'j option"
  js_elements :: "'j \<Rightarrow> 'j list option"
  js_items :: "'j \<Rightarrow> (string \<times> 'j) list option"
  js_empty :: "'j \<Rightarrow> bool"
  js_is_null :: "'j \<Rightarrow> bool"
  js_is_string :: "'j \<Rightarrow> bool"
  js_is_integer :: "'j \<Rightarrow> bool"
  js_as_string :: "'j \<Rightarrow> string option"
  js_as_int :: "'j \<Rightarrow> int option"
  js_as_bool :: "'j \<Rightarrow> bool option"
  js_equals_int :: "'j \<Rightarrow> int \<Rightarrow> bool"
  js_equals_string :: "'j \<Rightarrow> string \<Rightarrow> bool"

abbreviation js_is_object :: "'j json_lib \<Rightarrow> 'j \<Rightarrow> bool" where
  "js_is_object js j \<equiv> js_items js j \<noteq> None"

abbreviation js_is_array :: "'j json_lib \<Rightarrow> 'j \<Rightarrow> bool" where
  "js_is_array js j \<equiv> js_elements js j \<noteq> None"

text \<open>A missing result of the library as the exception it throws.\<close>

definition js_get :: "'a option \<Rightarrow> 'a result" where
  "js_get r = (case r of None \<Rightarrow> throw (Json_exception ''json'') | Some x \<Rightarrow> return x)"

lemma js_get_simps [simp]:
  "js_get (Some x) = Inr x"
  "js_get None = Inl (Json_exception ''json'')"
  "js_get r = Inr x \<longleftrightarrow> r = Some x"
  by (auto simp: js_get_def split: option.split)

text \<open>
  The values the code builds and reads back: strings, integers of 64 bits, and arrays and objects of them. (Others, such as a
  number that is not finite, print as \<^verbatim>\<open>null\<close>.)
\<close>

inductive js_plain :: "'j json_lib \<Rightarrow> 'j \<Rightarrow> bool" for js where
  plain_string: "js_plain js (js_string js s)"
| plain_int: "- (2 ^ 63) \<le> i \<Longrightarrow> i < 2 ^ 63 \<Longrightarrow> js_plain js (js_int js i)"
| plain_array: "list_all (js_plain js) vs \<Longrightarrow> js_plain js (js_array js vs)"
| plain_object: "distinct (map fst kvs) \<Longrightarrow> list_all (\<lambda>kv. js_plain js (snd kv)) kvs \<Longrightarrow> js_plain js (js_object js kvs)"

text \<open>
  What the code relies on: such a value is read back when it was printed (printing fails on invalid UTF-8), fields and scalars can
  be read from the values they were put into.
\<close>

definition json_ok :: "'j json_lib \<Rightarrow> bool" where
  "json_ok js \<longleftrightarrow>
     (\<forall>j t. js_plain js j \<longrightarrow> js_dump js j = Some t \<longrightarrow> js_parse js t = Some j) \<and>
     (\<forall>kvs k. distinct (map fst kvs) \<longrightarrow>
        js_at js (js_object js kvs) k = map_of kvs k \<and>
        js_contains js (js_object js kvs) k = (map_of kvs k \<noteq> None)) \<and>
     (\<forall>s. js_is_string js (js_string js s) \<and> js_as_string js (js_string js s) = Some s) \<and>
     (\<forall>i. - (2 ^ 63) \<le> i \<and> i < 2 ^ 63 \<longrightarrow>
        js_is_integer js (js_int js i) \<and> js_as_int js (js_int js i) = Some i \<and>
        (\<forall>k. js_equals_int js (js_int js i) k = (i = k)))"

lemma json_okD:
  assumes "json_ok js"
  shows "js_plain js j \<Longrightarrow> js_dump js j = Some t \<Longrightarrow> js_parse js t = Some j"
    and "distinct (map fst kvs) \<Longrightarrow> js_at js (js_object js kvs) k = map_of kvs k"
    and "js_is_string js (js_string js s)" "js_as_string js (js_string js s) = Some s"
    and "- (2 ^ 63) \<le> i \<Longrightarrow> i < 2 ^ 63 \<Longrightarrow> js_is_integer js (js_int js i)"
    and "- (2 ^ 63) \<le> i \<Longrightarrow> i < 2 ^ 63 \<Longrightarrow> js_as_int js (js_int js i) = Some i"
    and "- (2 ^ 63) \<le> i \<Longrightarrow> i < 2 ^ 63 \<Longrightarrow> js_equals_int js (js_int js i) n = (i = n)"
  using assms by (auto simp: json_ok_def)

section \<open>A library for witnesses\<close>

datatype jval = J_null | J_bool bool | J_int int | J_str string | J_arr "jval list" | J_obj "(string \<times> jval) list"

fun jval_field :: "jval \<Rightarrow> string \<Rightarrow> jval option" where
  "jval_field (J_obj kvs) k = map_of kvs k"
| "jval_field _ k = None"

text \<open>The texts and values in the table are the only ones this library prints and reads.\<close>

definition table_json :: "(string \<times> jval) list \<Rightarrow> jval json_lib" where
  "table_json table = \<lparr>js_parse = map_of table,
     js_dump = (\<lambda>j. map_of (map (\<lambda>e. (snd e, fst e)) table) j),
     js_pretty = (\<lambda>j. map_of (map (\<lambda>e. (snd e, fst e)) table) j),
     js_string = J_str, js_int = J_int, js_bool = J_bool, js_null = J_null, js_array = J_arr, js_object = J_obj,
     js_contains = (\<lambda>j k. jval_field j k \<noteq> None), js_at = jval_field,
     js_elements = (\<lambda>j. case j of J_arr js \<Rightarrow> Some js | _ \<Rightarrow> None),
     js_items = (\<lambda>j. case j of J_obj kvs \<Rightarrow> Some kvs | _ \<Rightarrow> None),
     js_empty = (\<lambda>j. case j of J_null \<Rightarrow> True | J_arr js \<Rightarrow> js = [] | J_obj kvs \<Rightarrow> kvs = [] | _ \<Rightarrow> False),
     js_is_null = (\<lambda>j. j = J_null), js_is_string = (\<lambda>j. case j of J_str s \<Rightarrow> True | _ \<Rightarrow> False),
     js_is_integer = (\<lambda>j. case j of J_int i \<Rightarrow> True | _ \<Rightarrow> False),
     js_as_string = (\<lambda>j. case j of J_str s \<Rightarrow> Some s | _ \<Rightarrow> None),
     js_as_int = (\<lambda>j. case j of J_int i \<Rightarrow> Some i | _ \<Rightarrow> None),
     js_as_bool = (\<lambda>j. case j of J_bool b \<Rightarrow> Some b | _ \<Rightarrow> None),
     js_equals_int = (\<lambda>j i. j = J_int i), js_equals_string = (\<lambda>j s. j = J_str s)\<rparr>"

lemma table_json_ok:
  assumes "distinct (map fst table)"
  shows "json_ok (table_json table)"
proof -
  have "map_of table t = Some j" if "map_of (map (\<lambda>e. (snd e, fst e)) table) j = Some t" for j t
    using map_of_SomeD [OF that] assms by (auto intro: map_of_is_SomeI)
  then show ?thesis by (simp add: json_ok_def table_json_def)
qed

end
