(* ===== verification/AI_Strategy.thy ===== *)
theory AI_Strategy
  imports Json_Lib
begin

text \<open>
  \<^verbatim>\<open>AIApps/ChatServer/include/AIUtil/AIStrategy.h\<close>, \<^verbatim>\<open>AIStrategy.cpp\<close> and \<^verbatim>\<open>AIFactory.h\<close>/\<^verbatim>\<open>.cpp\<close>: the model providers. A strategy object is the record of its
  virtual functions; a class is a definition of that record, and its constructor a function of the
  environment. Subscripting a constant JSON object with a key it does not have is undefined behaviour, the
  result \<open>None\<close> of \<open>js_subscript\<close>.
\<close>

type_synonym getenv = "string \<Rightarrow> string option"
type_synonym messages = "(string \<times> int) list"

record 'j strategy =
  st_getApiUrl :: "string result"
  st_getApiKey :: string
  st_getModel :: string
  st_buildRequest :: "messages \<Rightarrow> 'j"
  st_parseResponse :: "'j \<Rightarrow> string checked"
  st_isLocal :: bool
  st_buildStreamRequest :: "messages \<Rightarrow> 'j"
  st_parseStreamChunk :: "string \<Rightarrow> string option"
  st_streamHeaders :: "string list"
  st_isStreamComplete :: "'j \<Rightarrow> bool result"
  st_isMCPModel :: bool

section \<open>Endpoints and models\<close>

definition Aliyun_getApiUrl :: string where
  "Aliyun_getApiUrl = ''https://dashscope.aliyuncs.com/compatible-mode/v1/chat/completions''"

definition Aliyun_getModel :: string where "Aliyun_getModel = ''qwen-plus''"

definition DouBao_getApiUrl :: string where
  "DouBao_getApiUrl = ''https://ark.cn-beijing.volces.com/api/v3/chat/completions''"

definition DouBao_getModel :: string where "DouBao_getModel = ''doubao-seed-1-6-thinking-250715''"

definition Rag_getModel :: string where "Rag_getModel = []"

definition Rag_streamHeaders :: "string list" where
  "Rag_streamHeaders = [''X-DashScope-SSE: enable'', ''Accept: text/event-stream'']"

definition Mcp_getApiUrl :: string where
  "Mcp_getApiUrl = ''https://dashscope.aliyuncs.com/compatible-mode/v1/chat/completions''"

definition Mcp_getModel :: string where "Mcp_getModel = ''qwen-plus''"

definition Gemma_getApiUrl :: string where "Gemma_getApiUrl = ''local://gemma''"

definition Gemma_getApiKey :: string where "Gemma_getApiKey = []"

definition Gemma_getModel :: string where "Gemma_getModel = ''gemma-2-2b-it''"

lemmas getter_defs [simp] = Aliyun_getApiUrl_def Aliyun_getModel_def DouBao_getApiUrl_def DouBao_getModel_def Rag_getModel_def
  Rag_streamHeaders_def Mcp_getApiUrl_def Mcp_getModel_def Gemma_getApiUrl_def Gemma_getApiKey_def Gemma_getModel_def

section \<open>Requests\<close>

fun message_loop :: "'j json_lib \<Rightarrow> nat \<Rightarrow> messages \<Rightarrow> 'j list" where
  "message_loop js i [] = []"
| "message_loop js i ((content, ts) # ms) =
     js_object js [(''role'', js_string js (if i mod 2 = 0 then ''user'' else ''assistant'')),
                   (''content'', js_string js content)] # message_loop js (i + 1) ms"

definition openai_fields :: "'j json_lib \<Rightarrow> string \<Rightarrow> messages \<Rightarrow> (string \<times> 'j) list" where
  "openai_fields js model ms =
     [(''model'', js_string js model), (''messages'', js_array js (message_loop js 0 ms))]"

definition Aliyun_buildRequest :: "'j json_lib \<Rightarrow> messages \<Rightarrow> 'j" where
  "Aliyun_buildRequest js ms = js_object js (openai_fields js Aliyun_getModel ms)"

definition DouBao_buildRequest :: "'j json_lib \<Rightarrow> messages \<Rightarrow> 'j" where
  "DouBao_buildRequest js ms = js_object js (openai_fields js DouBao_getModel ms)"

definition Mcp_buildRequest :: "'j json_lib \<Rightarrow> messages \<Rightarrow> 'j" where
  "Mcp_buildRequest js ms = js_object js (openai_fields js Mcp_getModel ms)"

definition Gemma_buildRequest :: "'j json_lib \<Rightarrow> messages \<Rightarrow> 'j" where
  "Gemma_buildRequest js ms = js_object js (openai_fields js Gemma_getModel ms)"

definition Rag_buildRequest :: "'j json_lib \<Rightarrow> messages \<Rightarrow> 'j" where
  "Rag_buildRequest js ms =
     js_object js [(''input'', js_object js [(''messages'', js_array js (message_loop js 0 ms))]),
                   (''parameters'', js_object js [])]"

text \<open>\<^verbatim>\<open>req["stream"] = true\<close> and \<^verbatim>\<open>payload["parameters"]["incremental_output"] = true\<close> on the request built before.\<close>

definition default_buildStreamRequest :: "'j json_lib \<Rightarrow> string \<Rightarrow> messages \<Rightarrow> 'j" where
  "default_buildStreamRequest js model ms =
     js_object js (openai_fields js model ms @ [(''stream'', js_bool js True)])"

definition Rag_buildStreamRequest :: "'j json_lib \<Rightarrow> messages \<Rightarrow> 'j" where
  "Rag_buildStreamRequest js ms =
     js_object js [(''input'', js_object js [(''messages'', js_array js (message_loop js 0 ms))]),
                   (''parameters'', js_object js [(''incremental_output'', js_bool js True)])]"

section \<open>Responses\<close>

definition js_subscript :: "'j json_lib \<Rightarrow> 'j \<Rightarrow> string \<Rightarrow> 'j checked" where
  "js_subscript js j k =
     (if \<not> js_is_object js j then Some (throw (Json_exception ''type_error''))
      else case js_at js j k of None \<Rightarrow> None | Some x \<Rightarrow> Some (return x))"

definition js_first :: "'j json_lib \<Rightarrow> 'j \<Rightarrow> 'j checked" where
  "js_first js j =
     (case js_elements js j of
        None \<Rightarrow> Some (throw (Json_exception ''type_error''))
      | Some [] \<Rightarrow> None
      | Some (x # xs) \<Rightarrow> Some (return x))"

definition js_text :: "'j json_lib \<Rightarrow> 'j \<Rightarrow> string checked" where
  "js_text js j = Some (js_get (js_as_string js j))"

text \<open>A field after \<^verbatim>\<open>contains\<close> has answered for it.\<close>

definition js_known :: "'j json_lib \<Rightarrow> 'j \<Rightarrow> string \<Rightarrow> 'j" where
  "js_known js j k = the (js_at js j k)"

definition openai_parseResponse :: "'j json_lib \<Rightarrow> 'j \<Rightarrow> string checked" where
  "openai_parseResponse js response =
     (if js_contains js response ''choices'' \<and> \<not> js_empty js (js_known js response ''choices'')
      then bind_checked (js_first js (js_known js response ''choices'')) (\<lambda>c.
           bind_checked (js_subscript js c ''message'') (\<lambda>m.
           bind_checked (js_subscript js m ''content'') (js_text js)))
      else Some (return []))"

text \<open>Three classes have this body.\<close>

definition Aliyun_parseResponse :: "'j json_lib \<Rightarrow> 'j \<Rightarrow> string checked" where
  "Aliyun_parseResponse js response = openai_parseResponse js response"

definition DouBao_parseResponse :: "'j json_lib \<Rightarrow> 'j \<Rightarrow> string checked" where
  "DouBao_parseResponse js response = openai_parseResponse js response"

definition Mcp_parseResponse :: "'j json_lib \<Rightarrow> 'j \<Rightarrow> string checked" where
  "Mcp_parseResponse js response = openai_parseResponse js response"

lemma openai_responses [simp]:
  "Aliyun_parseResponse js = openai_parseResponse js" "DouBao_parseResponse js = openai_parseResponse js"
  "Mcp_parseResponse js = openai_parseResponse js"
  by (simp_all add: fun_eq_iff Aliyun_parseResponse_def DouBao_parseResponse_def Mcp_parseResponse_def)

definition Rag_parseResponse :: "'j json_lib \<Rightarrow> 'j \<Rightarrow> string checked" where
  "Rag_parseResponse js response =
     (if js_contains js response ''output'' \<and> js_contains js (js_known js response ''output'') ''text''
      then js_text js (js_known js (js_known js response ''output'') ''text'')
      else Some (return []))"

definition Gemma_parseResponse :: "'j json_lib \<Rightarrow> 'j \<Rightarrow> string checked" where
  "Gemma_parseResponse js response =
     (if \<not> js_is_object js response then Some (throw (Json_exception ''type_error''))
      else case js_at js response ''text'' of None \<Rightarrow> Some (return []) | Some x \<Rightarrow> js_text js x)"

section \<open>Streams\<close>

text \<open>The text of an event, if \<^verbatim>\<open>parseStreamChunk\<close> returns true.\<close>

definition default_parseStreamChunk :: "'j json_lib \<Rightarrow> string \<Rightarrow> string option" where
  "default_parseStreamChunk js sse =
     (if sse = [] \<or> sse = ''[DONE]'' then None
      else Option.bind (js_parse js sse) (\<lambda>j.
        if js_contains js j ''choices'' \<and> \<not> js_empty js (js_known js j ''choices'')
        then Option.bind (js_elements js (js_known js j ''choices'')) (\<lambda>cs.
          if cs \<noteq> [] \<and> js_contains js (hd cs) ''delta'' \<and> js_contains js (js_known js (hd cs) ''delta'') ''content''
          then Option.bind (js_as_string js (js_known js (js_known js (hd cs) ''delta'') ''content'')) (\<lambda>t.
            if t = [] then None else Some t)
          else None)
        else None))"

definition Rag_parseStreamChunk :: "'j json_lib \<Rightarrow> string \<Rightarrow> string option" where
  "Rag_parseStreamChunk js event =
     Option.bind (js_parse js event) (\<lambda>j.
       if \<not> js_contains js j ''output'' \<or> \<not> js_is_object js (js_known js j ''output'') then None
       else let output = js_known js j ''output''
            in if js_contains js output ''text'' \<and> js_is_string js (js_known js output ''text'')
               then Option.bind (js_as_string js (js_known js output ''text'')) (\<lambda>t. if t = [] then None else Some t)
               else None)"

definition Rag_isStreamComplete :: "'j json_lib \<Rightarrow> 'j \<Rightarrow> bool result" where
  "Rag_isStreamComplete js event =
     (if \<not> js_contains js event ''output'' then return False
      else let output = js_known js event ''output''
           in if \<not> js_is_object js output then throw (Runtime_error ''Invalid DashScope application output'')
              else if js_contains js output ''text'' \<and> \<not> js_is_string js (js_known js output ''text'')
              then throw (Runtime_error ''Invalid DashScope application text'')
              else if \<not> js_contains js output ''finish_reason'' \<or> js_is_null js (js_known js output ''finish_reason'')
              then return False
              else bind_result (js_get (js_as_string js (js_known js output ''finish_reason''))) (\<lambda>reason.
                if reason = [] \<or> reason = ''null'' then return False
                else if reason = ''stop'' then return True
                else throw (Runtime_error ''DashScope application stream did not finish normally'')))"

section \<open>The classes\<close>

definition id_ok :: "string \<Rightarrow> bool" where
  "id_ok i \<longleftrightarrow> i \<noteq> [] \<and> length i \<le> 128 \<and>
     list_all (\<lambda>c. is_lower c \<or> is_upper c \<or> is_digit c \<or> c = CHR ''-'' \<or> c = CHR ''_'') i"

definition Rag_getApiUrl :: "getenv \<Rightarrow> string result" where
  "Rag_getApiUrl env =
     (let value = (case env ''KNOWLEDGE_BASE_ID'' of None \<Rightarrow> env ''Knowledge_Base_ID'' | Some v \<Rightarrow> Some v);
          i = (case value of None \<Rightarrow> [] | Some v \<Rightarrow> v)
      in if \<not> id_ok i
         then throw (Runtime_error ''KNOWLEDGE_BASE_ID must contain the DashScope application ID'')
         else return (''https://dashscope.aliyuncs.com/api/v1/apps/'' @ i @ ''/completion''))"

definition AliyunStrategy :: "'j json_lib \<Rightarrow> getenv \<Rightarrow> 'j strategy result" where
  "AliyunStrategy js env =
     (case env ''DASHSCOPE_API_KEY'' of
        None \<Rightarrow> throw (Runtime_error ''Aliyun API Key not found!'')
      | Some key \<Rightarrow> return
          \<lparr>st_getApiUrl = return Aliyun_getApiUrl,
           st_getApiKey = key, st_getModel = Aliyun_getModel, st_buildRequest = Aliyun_buildRequest js,
           st_parseResponse = Aliyun_parseResponse js, st_isLocal = False,
           st_buildStreamRequest = default_buildStreamRequest js Aliyun_getModel,
           st_parseStreamChunk = default_parseStreamChunk js, st_streamHeaders = [],
           st_isStreamComplete = (\<lambda>_. return False), st_isMCPModel = False\<rparr>)"

definition DouBaoStrategy :: "'j json_lib \<Rightarrow> getenv \<Rightarrow> 'j strategy result" where
  "DouBaoStrategy js env =
     (case env ''DOUBAO_API_KEY'' of
        None \<Rightarrow> throw (Runtime_error ''DOUBAO API Key not found!'')
      | Some key \<Rightarrow> return
          \<lparr>st_getApiUrl = return DouBao_getApiUrl,
           st_getApiKey = key, st_getModel = DouBao_getModel, st_buildRequest = DouBao_buildRequest js,
           st_parseResponse = DouBao_parseResponse js, st_isLocal = False,
           st_buildStreamRequest = default_buildStreamRequest js DouBao_getModel,
           st_parseStreamChunk = default_parseStreamChunk js, st_streamHeaders = [],
           st_isStreamComplete = (\<lambda>_. return False), st_isMCPModel = False\<rparr>)"

definition AliyunRAGStrategy :: "'j json_lib \<Rightarrow> getenv \<Rightarrow> 'j strategy result" where
  "AliyunRAGStrategy js env =
     (case env ''DASHSCOPE_API_KEY'' of
        None \<Rightarrow> throw (Runtime_error ''Aliyun API Key not found!'')
      | Some key \<Rightarrow> return
          \<lparr>st_getApiUrl = Rag_getApiUrl env, st_getApiKey = key, st_getModel = Rag_getModel,
           st_buildRequest = Rag_buildRequest js, st_parseResponse = Rag_parseResponse js, st_isLocal = False,
           st_buildStreamRequest = Rag_buildStreamRequest js, st_parseStreamChunk = Rag_parseStreamChunk js,
           st_streamHeaders = Rag_streamHeaders,
           st_isStreamComplete = Rag_isStreamComplete js, st_isMCPModel = False\<rparr>)"

definition AliyunMcpStrategy :: "'j json_lib \<Rightarrow> getenv \<Rightarrow> 'j strategy result" where
  "AliyunMcpStrategy js env =
     (case env ''DASHSCOPE_API_KEY'' of
        None \<Rightarrow> throw (Runtime_error ''Aliyun API Key not found!'')
      | Some key \<Rightarrow> return
          \<lparr>st_getApiUrl = return Mcp_getApiUrl,
           st_getApiKey = key, st_getModel = Mcp_getModel, st_buildRequest = Mcp_buildRequest js,
           st_parseResponse = Mcp_parseResponse js, st_isLocal = False,
           st_buildStreamRequest = default_buildStreamRequest js Mcp_getModel,
           st_parseStreamChunk = default_parseStreamChunk js, st_streamHeaders = [],
           st_isStreamComplete = (\<lambda>_. return False), st_isMCPModel = True\<rparr>)"

definition GemmaStrategy :: "'j json_lib \<Rightarrow> getenv \<Rightarrow> 'j strategy result" where
  "GemmaStrategy js env = return
     \<lparr>st_getApiUrl = return Gemma_getApiUrl, st_getApiKey = Gemma_getApiKey, st_getModel = Gemma_getModel,
      st_buildRequest = Gemma_buildRequest js, st_parseResponse = Gemma_parseResponse js, st_isLocal = True,
      st_buildStreamRequest = default_buildStreamRequest js Gemma_getModel,
      st_parseStreamChunk = default_parseStreamChunk js, st_streamHeaders = [],
      st_isStreamComplete = (\<lambda>_. return False), st_isMCPModel = False\<rparr>"

section \<open>The factory\<close>

type_synonym 'j creators = "(string, getenv \<Rightarrow> 'j strategy result) umap"

definition registerStrategy :: "string \<Rightarrow> (getenv \<Rightarrow> 'j strategy result) \<Rightarrow> 'j creators \<Rightarrow> 'j creators" where
  "registerStrategy name creator creators = AList.update name creator creators"

text \<open>The five static registrations at the end of \<^verbatim>\<open>AIStrategy.cpp\<close>.\<close>

definition strategy_factory :: "'j json_lib \<Rightarrow> 'j creators" where
  "strategy_factory js =
     registerStrategy ''5'' (GemmaStrategy js) (registerStrategy ''4'' (AliyunMcpStrategy js)
       (registerStrategy ''3'' (AliyunRAGStrategy js) (registerStrategy ''2'' (DouBaoStrategy js)
         (registerStrategy ''1'' (AliyunStrategy js) []))))"

definition create_strategy :: "'j json_lib \<Rightarrow> getenv \<Rightarrow> string \<Rightarrow> 'j strategy result" where
  "create_strategy js env name =
     (case map_of (strategy_factory js) name of
        None \<Rightarrow> throw (Runtime_error (''Unknown strategy: '' @ name))
      | Some creator \<Rightarrow> creator env)"

section \<open>What reaches a provider\<close>

lemma length_message_loop [simp]: "length (message_loop js i ms) = length ms"
  by (induction js i ms rule: message_loop.induct) simp_all

lemma nth_message_loop:
  "k < length ms \<Longrightarrow> message_loop js i ms ! k =
     js_object js [(''role'', js_string js (if (i + k) mod 2 = 0 then ''user'' else ''assistant'')),
                   (''content'', js_string js (fst (ms ! k)))]"
proof (induction js i ms arbitrary: k rule: message_loop.induct)
  case (2 js i content ts ms)
  then show ?case by (cases k) simp_all
qed simp

lemma message_loop_fields:
  assumes "json_ok js" "k < length ms"
  shows "js_at js (message_loop js 0 ms ! k) ''role'' = Some (js_string js (if even k then ''user'' else ''assistant'')) \<and>
    js_at js (message_loop js 0 ms ! k) ''content'' = Some (js_string js (fst (ms ! k)))"
  using assms by (simp add: nth_message_loop json_okD(2) even_iff_mod_2_eq_zero)

lemma create_strategy_eq:
  "create_strategy js env name =
     (if name = ''1'' then AliyunStrategy js env else if name = ''2'' then DouBaoStrategy js env
      else if name = ''3'' then AliyunRAGStrategy js env else if name = ''4'' then AliyunMcpStrategy js env
      else if name = ''5'' then GemmaStrategy js env else Inl (Runtime_error (''Unknown strategy: '' @ name)))"
  by (simp add: create_strategy_def strategy_factory_def registerStrategy_def)

lemma openai_requests:
  "Aliyun_buildRequest js = (\<lambda>ms. js_object js (openai_fields js ''qwen-plus'' ms))"
  "DouBao_buildRequest js = (\<lambda>ms. js_object js (openai_fields js ''doubao-seed-1-6-thinking-250715'' ms))"
  "Mcp_buildRequest js = (\<lambda>ms. js_object js (openai_fields js ''qwen-plus'' ms))"
  "Gemma_buildRequest js = (\<lambda>ms. js_object js (openai_fields js ''gemma-2-2b-it'' ms))"
  by (simp_all add: fun_eq_iff Aliyun_buildRequest_def DouBao_buildRequest_def Mcp_buildRequest_def
      Gemma_buildRequest_def)

lemmas strategy_defs = AliyunStrategy_def DouBaoStrategy_def AliyunRAGStrategy_def AliyunMcpStrategy_def GemmaStrategy_def

lemma create_strategy_cases:
  assumes "create_strategy js env name = Inr st"
  obtains (openai) model where "name \<noteq> ''3''" "st_buildRequest st = (\<lambda>ms. js_object js (openai_fields js model ms))"
      "st_buildStreamRequest st = default_buildStreamRequest js model"
  | (rag) "name = ''3''" "st_buildRequest st = Rag_buildRequest js" "st_buildStreamRequest st = Rag_buildStreamRequest js"
  using assms openai rag
  by (auto simp: create_strategy_eq strategy_defs openai_requests split: option.splits if_splits)

text \<open>Where a provider looks for the conversation.\<close>

definition request_messages :: "'j json_lib \<Rightarrow> string \<Rightarrow> 'j \<Rightarrow> 'j option" where
  "request_messages js name req =
     (if name = ''3'' then Option.bind (js_at js req ''input'') (\<lambda>i. js_at js i ''messages'')
      else js_at js req ''messages'')"

text \<open>
  Every provider is sent the whole conversation, in both the plain and the streaming request: one entry per message, in
  order, with its text, and with roles that alternate from the user.
\<close>

theorem requests_carry_conversation:
  assumes "json_ok js" "create_strategy js env name = Inr st"
  shows "\<exists>entries. request_messages js name (st_buildRequest st ms) = Some (js_array js entries) \<and>
    request_messages js name (st_buildStreamRequest st ms) = Some (js_array js entries) \<and>
    length entries = length ms \<and>
    (\<forall>k<length ms.
       js_at js (entries ! k) ''role'' = Some (js_string js (if even k then ''user'' else ''assistant'')) \<and>
       js_at js (entries ! k) ''content'' = Some (js_string js (fst (ms ! k))))"
proof -
  note at = json_okD(2) [OF assms(1)]
  from assms(2) have "request_messages js name (st_buildRequest st ms) = Some (js_array js (message_loop js 0 ms)) \<and>
      request_messages js name (st_buildStreamRequest st ms) = Some (js_array js (message_loop js 0 ms))"
  proof (cases rule: create_strategy_cases)
    case (openai model)
    then show ?thesis
      by (simp add: request_messages_def default_buildStreamRequest_def openai_fields_def at)
  next
    case rag
    then show ?thesis
      by (simp add: request_messages_def Rag_buildRequest_def Rag_buildStreamRequest_def at)
  qed
  then show ?thesis using message_loop_fields [OF assms(1)] by (intro exI [of _ "message_loop js 0 ms"]) simp
qed

theorem requests_carry_conversation_witness:
  "\<exists>st entries. create_strategy (table_json []) (\<lambda>_. None) ''5'' = Inr st \<and>
     request_messages (table_json []) ''5'' (st_buildRequest st [(''a'', 1), (''b'', 2)]) = Some (J_arr entries) \<and>
     length entries = 2 \<and> jval_field (entries ! 1) ''role'' = Some (J_str ''assistant'')"
proof -
  obtain st where st: "create_strategy (table_json []) (\<lambda>_. None) ''5'' = Inr st"
    by (simp add: create_strategy_def strategy_factory_def registerStrategy_def GemmaStrategy_def)
  show ?thesis
    using requests_carry_conversation [OF table_json_ok st, of "[(''a'', 1), (''b'', 2)]"] st
    by (fastforce simp: table_json_def)
qed

text \<open>
  A response that lists a choice without a message, or with a message without content, is undefined
  behaviour: the constant subscript operator requires the key.
\<close>

lemma openai_parseResponse_undefined:
  assumes "js_contains js r ''choices''" "\<not> js_empty js (js_known js r ''choices'')"
    and "js_elements js (js_known js r ''choices'') = Some (c # cs)" "js_is_object js c" "js_at js c ''message'' = None"
  shows "openai_parseResponse js r = None"
  using assms by (simp add: openai_parseResponse_def js_first_def js_subscript_def)

end
