(* ===== verification/AI_Stream.thy ===== *)
theory AI_Stream
  imports AI_Strategy
begin

text \<open>
  \<^verbatim>\<open>AIHelper::executeCurl\<close> and \<^verbatim>\<open>AIHelper::executeCurlStream\<close> of \<^verbatim>\<open>AIApps/ChatServer/src/AIUtil/AIHelper.cpp\<close>: a request to a model provider, and the
  parser of server-sent events that runs in libcurl's write callback. libcurl is a parameter: what a
  request yields, and for a stream the pieces it delivers to the callback. The main result is that the way the
  network cuts the stream into pieces does not matter.
\<close>

section \<open>libcurl\<close>

text \<open>What libcurl does with a request: no handle, no memory for a header, an error of its own, or a response.\<close>

record outgoing =
  out_url :: string
  out_headers :: "string list"
  out_body :: string

datatype curl_outcome = Curl_no_handle | Curl_no_header | Curl_error string | Curl_done int string

text \<open>A stream delivers pieces until the write callback refuses one; \<open>cs_result\<close> is libcurl's error, if any.\<close>

record curl_stream =
  cs_handle :: bool
  cs_header :: bool
  cs_pieces :: "string list"
  cs_result :: "string option"
  cs_status :: int

section \<open>Requests to a provider\<close>

definition upstream_error :: "'j json_lib \<Rightarrow> 'j \<Rightarrow> bool" where
  "upstream_error js j \<longleftrightarrow> js_contains js j ''error'' \<or>
     (js_contains js j ''code'' \<and>
      (let c = js_known js j ''code''
       in \<not> js_is_null js c \<and> \<not> js_equals_string js c [] \<and> \<not> js_equals_string js c ''200'' \<and> \<not> js_equals_int js c 200))"

definition auth_headers :: "'j strategy \<Rightarrow> string list" where
  "auth_headers strat = [''Authorization: Bearer '' @ st_getApiKey strat, ''Content-Type: application/json'']"

definition executeCurl :: "'j json_lib \<Rightarrow> (outgoing \<Rightarrow> curl_outcome) \<Rightarrow> 'j strategy \<Rightarrow> 'j \<Rightarrow> 'j result" where
  "executeCurl js curl strat payload =
     bind_result (st_getApiUrl strat) (\<lambda>url.
     bind_result (js_get (js_dump js payload)) (\<lambda>body.
       case curl \<lparr>out_url = url, out_headers = auth_headers strat, out_body = body\<rparr> of
         Curl_no_handle \<Rightarrow> throw (Runtime_error ''Failed to initialize curl'')
       | Curl_no_header \<Rightarrow> throw (Runtime_error ''Failed to allocate curl request headers'')
       | Curl_error msg \<Rightarrow> throw (Runtime_error (''curl_easy_perform() failed: '' @ msg))
       | Curl_done status text \<Rightarrow>
           (if status < 200 \<or> status \<ge> 300
            then throw (Runtime_error (''Upstream HTTP error: '' @ to_string_int status))
            else case js_parse js text of
                None \<Rightarrow> throw (Runtime_error ''Failed to parse upstream JSON response'')
              | Some response \<Rightarrow>
                  (if upstream_error js response then throw (Runtime_error ''Upstream model reported an error'')
                   else return response))))"

subsection \<open>Streams\<close>

text \<open>\<open>sse_out\<close> are the texts handed to the caller's chunk function, which may throw after having seen them.\<close>

record sse_state =
  sse_buffer :: string
  sse_error :: string
  sse_completed :: bool
  sse_out :: "string list"

definition strip_cr :: "string \<Rightarrow> string" where
  "strip_cr line = (if line \<noteq> [] \<and> last line = CR then butlast line else line)"

definition sse_failed :: "string \<Rightarrow> sse_state \<Rightarrow> bool \<times> sse_state" where
  "sse_failed msg st = (False, st\<lparr>sse_error := msg\<rparr>)"

definition sse_event ::
  "'j json_lib \<Rightarrow> 'j strategy \<Rightarrow> (string list \<Rightarrow> cpp_exn option) \<Rightarrow> string \<Rightarrow> sse_state \<Rightarrow> bool \<times> sse_state" where
  "sse_event js strat chunk event st =
     (if event = ''[DONE]'' then (True, st\<lparr>sse_completed := True\<rparr>)
      else if event = [] then (True, st)
      else case js_parse js event of
          None \<Rightarrow> sse_failed ''Invalid or failed stream callback'' st
        | Some parsed \<Rightarrow>
            (if upstream_error js parsed then sse_failed ''Upstream model reported an error'' st
             else if sse_completed st then (True, st)
             else
               let st1 = (case st_parseStreamChunk strat event of None \<Rightarrow> st | Some t \<Rightarrow> st\<lparr>sse_out := sse_out st @ [t]\<rparr>)
               in if st_parseStreamChunk strat event \<noteq> None \<and> chunk (sse_out st1) \<noteq> None
                  then sse_failed ''Invalid or failed stream callback'' st1
                  else case st_isStreamComplete strat parsed of
                      Inl e \<Rightarrow> sse_failed ''Invalid or failed stream callback'' st1
                    | Inr done \<Rightarrow> (True, if done then st1\<lparr>sse_completed := True\<rparr> else st1)))"

definition sse_line ::
  "'j json_lib \<Rightarrow> 'j strategy \<Rightarrow> (string list \<Rightarrow> cpp_exn option) \<Rightarrow> string \<Rightarrow> sse_state \<Rightarrow> bool \<times> sse_state" where
  "sse_line js strat chunk line0 st =
     (let line = strip_cr line0
      in if take 5 line \<noteq> ''data:'' then (True, st)
         else let event = drop 5 line;
                  event = (if event \<noteq> [] \<and> hd event = SP then tl event else event)
              in sse_event js strat chunk event st)"

text \<open>The loop of the write callback over the lines in the buffer; \<open>False\<close> is a callback that returns 0.\<close>

function sse_loop ::
  "'j json_lib \<Rightarrow> 'j strategy \<Rightarrow> (string list \<Rightarrow> cpp_exn option) \<Rightarrow> string \<Rightarrow> sse_state \<Rightarrow> bool \<times> sse_state" where
  "sse_loop js strat chunk buf st =
     (case find_char LF buf of
        None \<Rightarrow> (True, st\<lparr>sse_buffer := buf\<rparr>)
      | Some pos \<Rightarrow>
          (case sse_line js strat chunk (take pos buf) st of
             (True, st') \<Rightarrow> sse_loop js strat chunk (drop (pos + 1) buf) st'
           | (False, st') \<Rightarrow> (False, st'\<lparr>sse_buffer := drop (pos + 1) buf\<rparr>)))"
  by pat_completeness auto
termination
  by (relation "measure (\<lambda>(js, strat, chunk, buf, st). length buf)") (auto simp: find_char_def split: if_splits)

declare sse_loop.simps [simp del]

definition sse_write ::
  "'j json_lib \<Rightarrow> 'j strategy \<Rightarrow> (string list \<Rightarrow> cpp_exn option) \<Rightarrow> string \<Rightarrow> sse_state \<Rightarrow> bool \<times> sse_state" where
  "sse_write js strat chunk piece st = sse_loop js strat chunk (sse_buffer st @ piece) st"

text \<open>libcurl calls the write callback for each piece and stops when it returns less than the piece.\<close>

fun sse_pieces ::
  "'j json_lib \<Rightarrow> 'j strategy \<Rightarrow> (string list \<Rightarrow> cpp_exn option) \<Rightarrow> string list \<Rightarrow> sse_state \<Rightarrow> bool \<times> sse_state" where
  "sse_pieces js strat chunk [] st = (True, st)"
| "sse_pieces js strat chunk (p # ps) st =
     (case sse_write js strat chunk p st of
        (True, st') \<Rightarrow> sse_pieces js strat chunk ps st'
      | (False, st') \<Rightarrow> (False, st'))"

definition new_sse :: sse_state where
  "new_sse = \<lparr>sse_buffer = [], sse_error = [], sse_completed = False, sse_out = []\<rparr>"

text \<open>
  The texts handed over, and the error reported, if any. A refused piece makes libcurl fail with an error of
  its own, but the error of the callback is looked at first.
\<close>

definition executeCurlStream ::
  "'j json_lib \<Rightarrow> (outgoing \<Rightarrow> curl_stream) \<Rightarrow> 'j strategy \<Rightarrow> (string list \<Rightarrow> cpp_exn option) \<Rightarrow> 'j \<Rightarrow>
   (string list \<times> string option) result" where
  "executeCurlStream js stream strat chunk payload =
     bind_result (st_getApiUrl strat) (\<lambda>url.
     bind_result (js_get (js_dump js payload)) (\<lambda>data.
       let c = stream \<lparr>out_url = url, out_headers = auth_headers strat @ st_streamHeaders strat, out_body = data\<rparr>
       in if \<not> cs_handle c then return ([], Some ''Failed to initialize curl'')
          else if \<not> cs_header c then throw (Runtime_error ''Failed to allocate curl request headers'')
          else let st = snd (sse_pieces js strat chunk (cs_pieces c) new_sse)
               in return (sse_out st,
                    if sse_error st \<noteq> [] then Some (sse_error st)
                    else case cs_result c of
                        Some msg \<Rightarrow> Some (''curl error: '' @ msg)
                      | None \<Rightarrow>
                          (if cs_status c < 200 \<or> cs_status c \<ge> 300
                           then Some (''Upstream HTTP error: '' @ to_string_int (cs_status c))
                           else if \<not> sse_completed st then Some ''Model stream ended before completion''
                           else None))))"

section \<open>The cut of the stream does not matter\<close>

text \<open>Lines do not look at the buffer.\<close>

lemma sse_event_buffer:
  "sse_event js strat chunk event (st\<lparr>sse_buffer := b\<rparr>) =
     (fst (sse_event js strat chunk event st), snd (sse_event js strat chunk event st)\<lparr>sse_buffer := b\<rparr>)"
  by (auto simp: sse_event_def sse_failed_def Let_def split: option.split sum.split)

lemma sse_line_buffer:
  "sse_line js strat chunk line (st\<lparr>sse_buffer := b\<rparr>) =
     (fst (sse_line js strat chunk line st), snd (sse_line js strat chunk line st)\<lparr>sse_buffer := b\<rparr>)"
  by (simp add: sse_line_def Let_def sse_event_buffer)

lemma sse_loop_buffer: "sse_loop js strat chunk buf (st\<lparr>sse_buffer := b\<rparr>) = sse_loop js strat chunk buf st"
proof (induction js strat chunk buf st arbitrary: b rule: sse_loop.induct)
  case (1 js strat chunk buf st)
  show ?case
  proof (cases "find_char LF buf")
    case None
    then show ?thesis by (subst (1 2) sse_loop.simps) simp
  next
    case (Some pos)
    obtain ok st' where l: "sse_line js strat chunk (take pos buf) st = (ok, st')" by fastforce
    show ?thesis
      using Some l "1.IH" [OF Some l [symmetric], of b]
      by (subst (1 2) sse_loop.simps) (cases ok, simp_all add: sse_line_buffer)
  qed
qed

lemma find_char_append: "find_char c s = Some n \<Longrightarrow> find_char c (s @ t) = Some n"
  using std_find_less [of c s] by (auto simp: find_char_def std_find_append trans_less_add1 split: if_splits)

lemma sse_loop_append:
  "sse_loop js strat chunk (buf @ piece) st =
     (case sse_loop js strat chunk buf st of
        (True, st') \<Rightarrow> sse_loop js strat chunk (sse_buffer st' @ piece) st'
      | (False, st') \<Rightarrow> (False, st'\<lparr>sse_buffer := sse_buffer st' @ piece\<rparr>))"
proof (induction js strat chunk buf st rule: sse_loop.induct)
  case (1 js strat chunk buf st)
  show ?case
  proof (cases "find_char LF buf")
    case None
    then have "sse_loop js strat chunk buf st = (True, st\<lparr>sse_buffer := buf\<rparr>)" by (subst sse_loop.simps) simp
    then show ?thesis by (simp add: sse_loop_buffer)
  next
    case (Some pos)
    have le: "pos < length buf" using Some by (auto simp: find_char_def split: if_splits)
    obtain ok st' where l: "sse_line js strat chunk (take pos buf) st = (ok, st')" by fastforce
    show ?thesis
      using find_char_append [OF Some, of piece] Some l le "1.IH" [OF Some l [symmetric]]
      by (subst (1 2) sse_loop.simps) (cases ok, simp_all)
  qed
qed

text \<open>What the caller can observe of a stream: success of the callback, the error, completion, and the texts.\<close>

definition sse_result :: "bool \<times> sse_state \<Rightarrow> bool \<times> string \<times> bool \<times> string list" where
  "sse_result r = (fst r, sse_error (snd r), sse_completed (snd r), sse_out (snd r))"

lemma sse_write_append:
  "sse_result (case sse_write js strat chunk p st of
       (True, st') \<Rightarrow> sse_write js strat chunk q st' | (False, st') \<Rightarrow> (False, st')) =
     sse_result (sse_write js strat chunk (p @ q) st)"
proof -
  obtain ok st' where l: "sse_loop js strat chunk (sse_buffer st @ p) st = (ok, st')" by fastforce
  then show ?thesis
    using sse_loop_append [of js strat chunk "sse_buffer st @ p" q st]
    by (cases ok) (auto simp: sse_write_def sse_result_def)
qed

lemma sse_loop_rest: "sse_loop js strat chunk buf st = (True, st') \<Longrightarrow> LF \<notin> set (sse_buffer st')"
proof (induction js strat chunk buf st rule: sse_loop.induct)
  case (1 js strat chunk buf st)
  show ?case
  proof (cases "find_char LF buf")
    case None
    then have "sse_buffer st' = buf" using "1.prems" by (subst (asm) sse_loop.simps) auto
    with None show ?thesis by (simp add: find_char_None)
  next
    case (Some pos)
    obtain ok st1 where l: "sse_line js strat chunk (take pos buf) st = (ok, st1)" by fastforce
    have ok using "1.prems" Some l by (subst (asm) sse_loop.simps) (cases ok, simp_all)
    then show ?thesis
      using "1.IH" [OF Some l [symmetric]] "1.prems" Some l by (subst (asm) (2) sse_loop.simps) simp
  qed
qed

lemma sse_pieces_whole:
  "LF \<notin> set (sse_buffer st) \<Longrightarrow>
     sse_result (sse_pieces js strat chunk ps st) = sse_result (sse_write js strat chunk (concat ps) st)"
proof (induction ps arbitrary: st)
  case Nil
  then have "find_char LF (sse_buffer st) = None" by (simp add: find_char_None)
  then have "sse_loop js strat chunk (sse_buffer st) st = (True, st)" by (subst sse_loop.simps) simp
  then show ?case by (simp add: sse_write_def)
next
  case (Cons p ps)
  obtain ok st' where w: "sse_write js strat chunk p st = (ok, st')" by fastforce
  note app = sse_write_append [where p = p and q = "concat ps" and st = st and js = js and strat = strat and chunk = chunk]
  show ?case
  proof (cases ok)
    case True
    then have "LF \<notin> set (sse_buffer st')" using w by (auto simp: sse_write_def dest: sse_loop_rest)
    from Cons.IH [OF this] show ?thesis using app True w by simp
  next
    case False
    then show ?thesis using app w by simp
  qed
qed

text \<open>
  C37. The stream of a provider is understood however the network delivers it: for every way of cutting the bytes into
  pieces, the texts passed on, the completion flag, the error and whether the transfer is cut short are those of
  the bytes in one piece.
\<close>

theorem sse_cut_independent:
  "concat ps = concat qs \<Longrightarrow>
     sse_result (sse_pieces js strat chunk ps new_sse) = sse_result (sse_pieces js strat chunk qs new_sse)"
  using sse_pieces_whole [of new_sse js strat chunk ps] sse_pieces_whole [of new_sse js strat chunk qs]
  by (simp add: new_sse_def)

definition delta_json :: jval where
  "delta_json = J_obj [(''choices'', J_arr [J_obj [(''delta'', J_obj [(''content'', J_str ''hi'')])]])]"

abbreviation sample_sse_lib :: "jval json_lib" where
  "sample_sse_lib \<equiv> table_json [(''x'', delta_json)]"

definition sample_strategy :: "jval strategy" where
  "sample_strategy = \<lparr>st_getApiUrl = Inr ''u'', st_getApiKey = ''k'', st_getModel = ''m'',
     st_buildRequest = Aliyun_buildRequest sample_sse_lib, st_parseResponse = openai_parseResponse sample_sse_lib,
     st_isLocal = False, st_buildStreamRequest = default_buildStreamRequest sample_sse_lib ''m'',
     st_parseStreamChunk = default_parseStreamChunk sample_sse_lib, st_streamHeaders = [],
     st_isStreamComplete = (\<lambda>_. Inr False), st_isMCPModel = False\<rparr>"

lemma sample_whole:
  "sse_result (sse_pieces sample_sse_lib sample_strategy (\<lambda>_. None)
     [''data: x'' @ [LF] @ ''data: [DONE]'' @ [LF]] new_sse) = (True, [], True, [''hi''])"
  by (simp add: sse_write_def new_sse_def sse_loop.simps [of _ _ _ "_ # _"] sse_loop.simps [of _ _ _ "[]"] find_char_def std_find_def
      sse_line_def strip_cr_def sse_event_def sse_result_def table_json_def sample_strategy_def delta_json_def
      upstream_error_def default_parseStreamChunk_def js_known_def Let_def)

theorem sse_cut_independent_witness:
  "sse_result (sse_pieces sample_sse_lib sample_strategy (\<lambda>_. None)
     [''da'', ''ta: x'', [LF] @ ''data: [DO'', ''NE]'' @ [LF]] new_sse) = (True, [], True, [''hi''])"
  using sse_cut_independent [of "[''da'', ''ta: x'', [LF] @ ''data: [DO'', ''NE]'' @ [LF]]"
      "[''data: x'' @ [LF] @ ''data: [DONE]'' @ [LF]]" sample_sse_lib sample_strategy "\<lambda>_. None"]
  unfolding sample_whole by simp

end
