(* ===== verification/AI_Config.thy ===== *)
theory AI_Config
  imports Json_Lib
begin

text \<open>
  \<^verbatim>\<open>AIApps/ChatServer/src/AIUtil/AIConfig.cpp\<close> and \<^verbatim>\<open>AIToolRegistry.cpp\<close>: prompts that offer tools to a model, the reading of
  its answer as a call of a tool, and the tools. Texts are byte strings, so the Chinese literals are their UTF-8
  bytes. \<^verbatim>\<open>std::regex_replace\<close> is used with two expressions that match a fixed string; the replacement is a
  format in which \<^verbatim>\<open>$\<close> is special, so a replacement with that character is expanded by a parameter. The
  tools' network and clock are parameters as well.
\<close>

section \<open>Data\<close>

record ai_tool =
  tool_name :: string
  tool_params :: "(string, string) umap"
  tool_desc :: string

record 'j ai_tool_call =
  call_toolName :: string
  call_args :: 'j
  call_isToolCall :: bool

record ai_config =
  cfg_promptTemplate :: string
  cfg_tools :: "ai_tool list"

definition new_config :: ai_config where
  "new_config = \<lparr>cfg_promptTemplate = [], cfg_tools = []\<rparr>"

section \<open>Loading\<close>

text \<open>\<^verbatim>\<open>tool.value(key, "")\<close>\<close>

definition js_value :: "'j json_lib \<Rightarrow> 'j \<Rightarrow> string \<Rightarrow> string \<Rightarrow> string result" where
  "js_value js j k dflt =
     (if \<not> js_is_object js j then throw (Json_exception ''type_error'')
      else case js_at js j k of None \<Rightarrow> return dflt | Some x \<Rightarrow> js_get (js_as_string js x))"

fun load_params :: "'j json_lib \<Rightarrow> (string \<times> 'j) list \<Rightarrow> (string, string) umap \<Rightarrow> (string, string) umap result" where
  "load_params js [] params = return params"
| "load_params js ((key, val) # items) params =
     bind_result (js_get (js_as_string js val)) (\<lambda>v. load_params js items (AList.update key v params))"

definition load_tool :: "'j json_lib \<Rightarrow> 'j \<Rightarrow> ai_tool result" where
  "load_tool js tool =
     bind_result (js_value js tool ''name'' []) (\<lambda>name.
     bind_result (js_value js tool ''desc'' []) (\<lambda>desc.
     bind_result
       (case js_at js tool ''params'' of
          None \<Rightarrow> return []
        | Some p \<Rightarrow> (case js_items js p of None \<Rightarrow> return [] | Some items \<Rightarrow> load_params js items []))
       (\<lambda>params. return \<lparr>tool_name = name, tool_params = params, tool_desc = desc\<rparr>)))"

fun load_tools :: "'j json_lib \<Rightarrow> 'j list \<Rightarrow> ai_tool list \<Rightarrow> ai_tool list result" where
  "load_tools js [] tools = return tools"
| "load_tools js (t # ts) tools = bind_result (load_tool js t) (\<lambda>x. load_tools js ts (tools @ [x]))"

text \<open>\<open>content\<close> is \<open>None\<close> when the file cannot be opened.\<close>

definition loadFromFile :: "'j json_lib \<Rightarrow> string option \<Rightarrow> ai_config \<Rightarrow> (bool \<times> ai_config) result" where
  "loadFromFile js content cfg =
     (case content of
        None \<Rightarrow> return (False, cfg)
      | Some text \<Rightarrow>
          bind_result (js_get (js_parse js text)) (\<lambda>j.
            case js_at js j ''prompt_template'' of
              None \<Rightarrow> return (False, cfg)
            | Some p \<Rightarrow>
                (if \<not> js_is_string js p then return (False, cfg)
                 else bind_result (js_get (js_as_string js p)) (\<lambda>tmpl.
                   let cfg = cfg\<lparr>cfg_promptTemplate := tmpl\<rparr>
                   in case Option.bind (js_at js j ''tools'') (js_elements js) of
                        None \<Rightarrow> return (True, cfg)
                      | Some ts \<Rightarrow>
                          bind_result (load_tools js ts (cfg_tools cfg)) (\<lambda>tools.
                            return (True, cfg\<lparr>cfg_tools := tools\<rparr>))))))"

section \<open>Prompts\<close>

definition utf8 :: "nat list \<Rightarrow> string" where
  "utf8 = map char_of"

fun join_names :: "string list \<Rightarrow> string" where
  "join_names [] = []"
| "join_names [k] = k"
| "join_names (k # ks) = k @ '', '' @ join_names ks"

definition tool_line :: "ai_tool \<Rightarrow> string" where
  "tool_line t = tool_name t @ ''('' @ join_names (map fst (tool_params t)) @ '') '' @ utf8 [0xE2, 0x86, 0x92] @ '' '' @ tool_desc t @ [LF]"

definition buildToolList :: "ai_config \<Rightarrow> string" where
  "buildToolList cfg = concat (map tool_line (cfg_tools cfg))"

text \<open>
  \<^verbatim>\<open>std::regex_replace\<close> for an expression that matches one nonempty string: occurrences from the left, not
  overlapping. \<open>expand\<close> is the expansion of a format with a dollar sign for the match that many characters before the end.
\<close>

fun regex_replace :: "(string \<Rightarrow> nat \<Rightarrow> string) \<Rightarrow> string \<Rightarrow> string \<Rightarrow> nat \<Rightarrow> string \<Rightarrow> string" where
  "regex_replace expand pat fmt skip [] = []"
| "regex_replace expand pat fmt skip (c # s) =
     (if skip > 0 then regex_replace expand pat fmt (skip - 1) s
      else if take (length pat) (c # s) = pat
      then (if CHR ''$'' \<in> set fmt then expand fmt (length (c # s)) else fmt) @ regex_replace expand pat fmt (length pat - 1) s
      else c # regex_replace expand pat fmt 0 s)"

definition buildPrompt :: "(string \<Rightarrow> nat \<Rightarrow> string) \<Rightarrow> ai_config \<Rightarrow> string \<Rightarrow> string" where
  "buildPrompt expand cfg userInput =
     (let r = regex_replace expand ''{user_input}'' userInput 0 (cfg_promptTemplate cfg)
      in regex_replace expand ''{tool_list}'' (buildToolList cfg) 0 r)"

definition buildToolResultPrompt ::
  "'j json_lib \<Rightarrow> string \<Rightarrow> string \<Rightarrow> 'j \<Rightarrow> 'j \<Rightarrow> string result" where
  "buildToolResultPrompt js userInput toolName toolArgs toolResult =
     bind_result (js_get (js_dump js toolArgs)) (\<lambda>args.
     bind_result (js_get (js_pretty js toolResult)) (\<lambda>res.
     return (
       utf8 [0xE4, 0xB8, 0x8B, 0xE9, 0x9D, 0xA2, 0xE6, 0x98, 0xAF, 0xE7, 0x94, 0xA8, 0xE6, 0x88, 0xB7,
       0xE8, 0xAF, 0xB4, 0xE7, 0x9A, 0x84, 0xE8, 0xAF, 0x9D, 0xEF, 0xBC, 0x9A] @ userInput @ [LF] @
       utf8 [0xE6, 0x88, 0x91, 0xE5, 0x88, 0x9A, 0xE6, 0x89, 0x8D, 0xE8, 0xB0, 0x83, 0xE7, 0x94, 0xA8,
       0xE4, 0xBA, 0x86, 0xE5, 0xB7, 0xA5, 0xE5, 0x85, 0xB7] @ '' ['' @ toolName @ ''] '' @
       utf8 [0xEF, 0xBC, 0x8C, 0xE5, 0x8F, 0x82, 0xE6, 0x95, 0xB0, 0xE4, 0xB8, 0xBA, 0xEF, 0xBC, 0x9A] @ args @ [LF] @
       utf8 [0xE5, 0xB7, 0xA5, 0xE5, 0x85, 0xB7, 0xE8, 0xBF, 0x94, 0xE5, 0x9B, 0x9E, 0xE7, 0x9A, 0x84,
       0xE7, 0xBB, 0x93, 0xE6, 0x9E, 0x9C, 0xE5, 0xA6, 0x82, 0xE4, 0xB8, 0x8B, 0xEF, 0xBC, 0x9A, 0x0A] @ res @ [LF] @
       utf8 [0xE8, 0xAF, 0xB7, 0xE6, 0xA0, 0xB9, 0xE6, 0x8D, 0xAE, 0xE4, 0xBB, 0xA5, 0xE4, 0xB8, 0x8A,
       0xE4, 0xBF, 0xA1, 0xE6, 0x81, 0xAF, 0xEF, 0xBC, 0x8C, 0xE7, 0x94, 0xA8, 0xE8, 0x87, 0xAA, 0xE7,
       0x84, 0xB6, 0xE8, 0xAF, 0xAD, 0xE8, 0xA8, 0x80, 0xE5, 0x9B, 0x9E, 0xE7, 0xAD, 0x94, 0xE7, 0x94,
       0xA8, 0xE6, 0x88, 0xB7, 0xE3, 0x80, 0x82])))"

section \<open>Reading the model's answer\<close>

definition blanks :: "char list" where
  "blanks = [SP, TAB, LF, CR]"

text \<open>Nothing is trimmed when there is nothing but blanks.\<close>

definition trim_response :: "string \<Rightarrow> string" where
  "trim_response s = (if list_all (\<lambda>c. c \<in> set blanks) s then s else trim_chars blanks s)"

definition drop_fence_end :: "string \<Rightarrow> string" where
  "drop_fence_end s = (if length s \<ge> 3 \<and> drop (length s - 3) s = ''```'' then take (length s - 3) s else s)"

definition drop_fence :: "string \<Rightarrow> string" where
  "drop_fence s =
     (if length s \<ge> 7 \<and> take 7 s = ''```json'' then drop_fence_end (drop 7 s)
      else if length s \<ge> 3 \<and> take 3 s = ''```'' then drop_fence_end (drop 3 s)
      else s)"

definition no_call :: "'j json_lib \<Rightarrow> 'j ai_tool_call" where
  "no_call js = \<lparr>call_toolName = [], call_args = js_null js, call_isToolCall = False\<rparr>"

definition parseAIResponse :: "'j json_lib \<Rightarrow> string \<Rightarrow> 'j ai_tool_call" where
  "parseAIResponse js response =
     (case js_parse js (trim_response (drop_fence (trim_response response))) of
        None \<Rightarrow> no_call js
      | Some j \<Rightarrow>
          (case js_at js j ''tool'' of
             None \<Rightarrow> no_call js
           | Some t \<Rightarrow>
               (if \<not> js_is_string js t then no_call js
                else case js_as_string js t of
                    None \<Rightarrow> no_call js
                  | Some name \<Rightarrow>
                      \<lparr>call_toolName = name,
                       call_args = (case js_at js j ''args'' of
                            None \<Rightarrow> js_null js
                          | Some a \<Rightarrow> if js_is_object js a then a else js_null js),
                       call_isToolCall = True\<rparr>)))"

section \<open>Tools\<close>

text \<open>The network and the clock, as the tools see them: escaping, a transfer, and the formatted local time.\<close>

record tool_world =
  tw_escape :: "string \<Rightarrow> string option"
  tw_curl_init :: bool
  tw_fetch :: "string \<Rightarrow> string option"
  tw_localtime :: string

definition getWeather :: "'j json_lib \<Rightarrow> tool_world \<Rightarrow> 'j \<Rightarrow> 'j result" where
  "getWeather js w args =
     (if \<not> js_contains js args ''city''
      then return (js_object js [(''error'', js_string js ''Missing parameter: city'')])
      else bind_result (js_get (Option.bind (js_at js args ''city'') (js_as_string js))) (\<lambda>city.
        case tw_escape w city of
          None \<Rightarrow> return (js_object js [(''error'', js_string js ''URL encode failed'')])
        | Some encoded \<Rightarrow>
            (if \<not> tw_curl_init w then return (js_object js [(''error'', js_string js ''Failed to init CURL'')])
             else case tw_fetch w (''https://wttr.in/'' @ encoded @ ''?format=3&lang=zh'') of
                 None \<Rightarrow> return (js_object js [(''error'', js_string js ''CURL request failed'')])
               | Some response \<Rightarrow>
                   return (js_object js [(''city'', js_string js city), (''weather'', js_string js response)]))))"

definition getTime :: "'j json_lib \<Rightarrow> tool_world \<Rightarrow> 'j \<Rightarrow> 'j result" where
  "getTime js w args = return (js_object js [(''time'', js_string js (tw_localtime w))])"

type_synonym 'j tools = "(string, 'j \<Rightarrow> 'j result) umap"

definition registerTool :: "string \<Rightarrow> ('j \<Rightarrow> 'j result) \<Rightarrow> 'j tools \<Rightarrow> 'j tools" where
  "registerTool name func tools = AList.update name func tools"

definition AIToolRegistry :: "'j json_lib \<Rightarrow> tool_world \<Rightarrow> 'j tools" where
  "AIToolRegistry js w = registerTool ''get_time'' (getTime js w) (registerTool ''get_weather'' (getWeather js w) [])"

definition tool_invoke :: "'j tools \<Rightarrow> string \<Rightarrow> 'j \<Rightarrow> 'j result" where
  "tool_invoke tools name args =
     (case map_of tools name of
        None \<Rightarrow> throw (Runtime_error (''Tool not found: '' @ name))
      | Some f \<Rightarrow> f args)"

definition hasTool :: "'j tools \<Rightarrow> string \<Rightarrow> bool" where
  "hasTool tools name \<longleftrightarrow> map_of tools name \<noteq> None"

section \<open>Filling the template\<close>

lemma regex_replace_skip: "regex_replace expand pat fmt n s = regex_replace expand pat fmt 0 (drop n s)"
  by (induction s arbitrary: n) (auto simp: drop_Cons' split: if_splits)

lemma regex_replace_hit:
  assumes "pat \<noteq> []"
  shows "regex_replace expand pat fmt 0 (pat @ s) =
    (if CHR ''$'' \<in> set fmt then expand fmt (length (pat @ s)) else fmt) @ regex_replace expand pat fmt 0 s"
proof -
  obtain c p where p: "pat = c # p" using assms by (cases pat) auto
  show ?thesis by (simp add: p regex_replace_skip [of _ _ _ "length p"])
qed

lemma regex_replace_miss:
  "hd pat \<notin> set a \<Longrightarrow> pat \<noteq> [] \<Longrightarrow> regex_replace expand pat fmt 0 (a @ s) = a @ regex_replace expand pat fmt 0 s"
proof (induction a)
  case (Cons c a)
  then show ?case by (cases pat) auto
qed simp

lemma regex_replace_none:
  "find_str pat s = None \<Longrightarrow> regex_replace expand pat fmt 0 s = s"
  by (induction s) (auto split: if_splits)

text \<open>
  A template with one place for each of the two texts is filled in as intended, for an input without a brace and a
  dollar sign; the rest of the template may hold braces.
\<close>

lemma buildPrompt_fills_template:
  assumes "cfg_promptTemplate cfg = a @ ''{user_input}'' @ b @ ''{tool_list}'' @ c"
    and "CHR ''{'' \<notin> set a" "CHR ''{'' \<notin> set b" "find_str ''{user_input}'' c = None" "find_str ''{tool_list}'' c = None"
    and "CHR ''{'' \<notin> set userInput" "CHR ''$'' \<notin> set userInput" "CHR ''$'' \<notin> set (buildToolList cfg)"
  shows "buildPrompt expand cfg userInput = a @ userInput @ b @ buildToolList cfg @ c"
proof -
  define u where "u = ''{user_input}''"
  define t where "t = ''{tool_list}''"
  have ut: "u \<noteq> []" "hd u = CHR ''{''" "t \<noteq> []" "hd t = CHR ''{''" by (simp_all add: u_def t_def)
  have tc: "regex_replace expand u userInput 0 (t @ c) = t @ regex_replace expand u userInput 0 c"
    by (simp add: u_def t_def)
  note facts = assms(2-8) [folded u_def t_def] ut
  have "regex_replace expand u userInput 0 (a @ u @ b @ t @ c) = a @ userInput @ b @ t @ c"
    using facts by (simp add: regex_replace_miss regex_replace_hit regex_replace_none tc)
  moreover have "regex_replace expand t (buildToolList cfg) 0 (a @ userInput @ b @ t @ c) =
      a @ userInput @ b @ buildToolList cfg @ c"
    using facts by (simp add: regex_replace_miss regex_replace_hit regex_replace_none)
  ultimately show ?thesis
    unfolding buildPrompt_def assms(1) u_def [symmetric] t_def [symmetric] Let_def by simp
qed

text \<open>
  An input that names the other placeholder is rewritten by the second replacement: the user's text does not reach
  the model as typed.
\<close>

lemma buildPrompt_rewrites_input:
  assumes "CHR ''$'' \<notin> set (buildToolList cfg)" "cfg_promptTemplate cfg = ''{user_input}''"
  shows "buildPrompt expand cfg ''{tool_list}'' = buildToolList cfg"
  using assms by (simp add: buildPrompt_def)

section \<open>Answers in a code fence\<close>

lemma trim_response_padded:
  assumes "s \<noteq> []" "hd s \<notin> set blanks" "last s \<notin> set blanks" "set u \<subseteq> set blanks" "set v \<subseteq> set blanks"
  shows "trim_response (u @ s @ v) = s"
proof -
  have "dropWhile (\<lambda>c. c \<in> set blanks) (s @ v) = s @ v" using assms(1,2) by (cases s) auto
  then have "dropWhile (\<lambda>c. c \<in> set blanks) (u @ s @ v) = s @ v"
    using assms(4) by (simp add: dropWhile_append subset_iff)
  moreover have "dropWhile (\<lambda>c. c \<in> set blanks) (rev (s @ v)) = rev s"
  proof -
    have "dropWhile (\<lambda>c. c \<in> set blanks) (rev s) = rev s"
      using assms(1,3) by (cases s rule: rev_cases) auto
    then show ?thesis using assms(5) by (simp add: dropWhile_append subset_iff)
  qed
  ultimately have "trim_chars blanks (u @ s @ v) = s" by (simp add: trim_chars_def)
  moreover have "hd s \<in> set (u @ s @ v)" using assms(1) by simp
  ultimately show ?thesis using assms(2) by (auto simp: trim_response_def list_all_iff)
qed

text \<open>
  A tool call is recognised in a Markdown fence as without it, with blanks around the fence and
  inside it.
\<close>

lemma parseAIResponse_fenced:
  assumes "body \<noteq> []" "hd body \<notin> set blanks" "last body \<notin> set blanks" "hd body \<noteq> CHR ''`''"
    and "set u1 \<subseteq> set blanks" "set u2 \<subseteq> set blanks" "set v1 \<subseteq> set blanks" "set v2 \<subseteq> set blanks"
    and "lang \<in> {[], ''json''}" "lang = [] \<longrightarrow> take 4 (u2 @ body @ v1 @ ''```'') \<noteq> ''json''"
  shows "parseAIResponse js (u1 @ ''```'' @ lang @ u2 @ body @ v1 @ ''```'' @ v2) = parseAIResponse js body"
proof -
  define inner where "inner = u2 @ body @ v1"
  have bt: "CHR ''`'' \<notin> set blanks" by (simp add: blanks_def)
  have outer: "trim_response (u1 @ (''```'' @ lang @ inner @ ''```'') @ v2) = ''```'' @ lang @ inner @ ''```''"
    using assms(5,8) bt by (intro trim_response_padded) auto
  have fence: "drop_fence_end (inner @ ''```'') = inner" by (simp add: drop_fence_end_def)
  have "drop_fence (''```'' @ lang @ inner @ ''```'') = inner"
  proof (cases "lang = []")
    case True
    have "take 4 (inner @ ''```'') \<noteq> ''json''" using assms(10) True by (simp add: inner_def)
    then show ?thesis using True fence by (auto simp: drop_fence_def)
  next
    case False
    then have "lang = ''json''" using assms(9) by simp
    then show ?thesis using fence by (simp add: drop_fence_def)
  qed
  moreover have "trim_response inner = body"
    unfolding inner_def using assms(1-3,6,7) by (rule trim_response_padded)
  moreover have "trim_response body = body" using trim_response_padded [OF assms(1-3), of "[]" "[]"] by simp
  moreover have "drop_fence body = body" using assms(1,4) by (cases body) (auto simp: drop_fence_def)
  ultimately show ?thesis using outer by (simp add: parseAIResponse_def inner_def)
qed

end
