(* ===== verification/Chat_Exchange.thy ===== *)
theory Chat_Exchange
  imports Json_Lib
begin

text \<open>
  \<^verbatim>\<open>AIApps/ChatServer/include/AIUtil/ChatMessage.h\<close> and \<^verbatim>\<open>AIApps/ChatServer/include/AIUtil/SecureId.h\<close>: one exchange of a conversation as the
  item that goes through the message queue to the database. \<^verbatim>\<open>int\<close> and \<^verbatim>\<open>long long\<close> are integers with their
  bounds written out. The database is a parameter of \<^verbatim>\<open>persist\<close> in the source too: the model gives the
  statement and the bound values it is called with.
\<close>

section \<open>Identifiers\<close>

definition hex_digits :: string where
  "hex_digits = ''0123456789abcdef''"

text \<open>\<open>RAND_bytes\<close> fails or fills sixteen bytes.\<close>

definition secureId :: "nat list option \<Rightarrow> string result" where
  "secureId random =
     (case random of
        None \<Rightarrow> throw (Runtime_error ''Secure ID generation failed'')
      | Some bytes \<Rightarrow> return (concat (map (\<lambda>b. [hex_digits ! (b div 16), hex_digits ! (b mod 16)]) bytes)))"

section \<open>The exchange\<close>

record chat_exchange =
  ex_message_id :: string
  ex_user_id :: int
  ex_username :: string
  ex_session_id :: string
  ex_question :: string
  ex_answer :: string
  ex_ts :: int

definition INT_MAX :: int where "INT_MAX = 2147483647"
definition LLONG_MAX :: int where "LLONG_MAX = 9223372036854775807"

definition exchange_fields :: "'j json_lib \<Rightarrow> chat_exchange \<Rightarrow> (string \<times> 'j) list" where
  "exchange_fields js x =
     [(''v'', js_int js 1), (''message_id'', js_string js (ex_message_id x)), (''user_id'', js_int js (ex_user_id x)),
      (''username'', js_string js (ex_username x)), (''session_id'', js_string js (ex_session_id x)),
      (''question'', js_string js (ex_question x)), (''answer'', js_string js (ex_answer x)),
      (''ts'', js_int js (ex_ts x))]"

definition serialize :: "'j json_lib \<Rightarrow> chat_exchange \<Rightarrow> string result" where
  "serialize js x = js_get (js_dump js (js_object js (exchange_fields js x)))"

definition id_char :: "char \<Rightarrow> bool" where
  "id_char c \<longleftrightarrow> (CHR ''0'' \<le> c \<and> c \<le> CHR ''9'') \<or> (CHR ''a'' \<le> c \<and> c \<le> CHR ''f'')"

definition fields_valid :: "int \<Rightarrow> chat_exchange \<Rightarrow> bool" where
  "fields_valid uid x \<longleftrightarrow>
     \<not> (uid \<le> 0 \<or> uid > INT_MAX \<or> ex_ts x < 0 \<or> ex_ts x \<ge> LLONG_MAX - 1 \<or>
        length (ex_message_id x) \<noteq> 32 \<or> \<not> list_all id_char (ex_message_id x) \<or>
        ex_username x = [] \<or> length (ex_username x) > 128 \<or> ex_session_id x = [] \<or>
        length (ex_session_id x) > 64 \<or> ex_question x = [] \<or> ex_answer x = [] \<or>
        length (ex_question x) > 65535 \<or> length (ex_answer x) > 65535)"

text \<open>The body of the \<^verbatim>\<open>try\<close> block; \<open>None\<close> stands for any exception in it, all of which end in the same handler.\<close>

definition js_string_field :: "'j json_lib \<Rightarrow> 'j \<Rightarrow> string \<Rightarrow> string option" where
  "js_string_field js j k = Option.bind (js_at js j k) (js_as_string js)"

definition js_int_field :: "'j json_lib \<Rightarrow> 'j \<Rightarrow> string \<Rightarrow> int option" where
  "js_int_field js j k = Option.bind (js_at js j k) (js_as_int js)"

definition schema_ok :: "'j json_lib \<Rightarrow> 'j \<Rightarrow> bool" where
  "schema_ok js j =
     (case (js_at js j ''v'', js_at js j ''user_id'', js_at js j ''ts'') of
        (Some v, Some u, Some t) \<Rightarrow>
          js_is_integer js v \<and> js_equals_int js v 1 \<and> js_is_integer js u \<and> js_is_integer js t
      | _ \<Rightarrow> False)"

definition parse_fields :: "'j json_lib \<Rightarrow> 'j \<Rightarrow> chat_exchange option" where
  "parse_fields js j =
     (if \<not> schema_ok js j then None
      else Option.bind (js_int_field js j ''user_id'') (\<lambda>uid.
           Option.bind (js_string_field js j ''message_id'') (\<lambda>mid.
           Option.bind (js_string_field js j ''username'') (\<lambda>username.
           Option.bind (js_string_field js j ''session_id'') (\<lambda>session_id.
           Option.bind (js_string_field js j ''question'') (\<lambda>question.
           Option.bind (js_string_field js j ''answer'') (\<lambda>answer.
           Option.bind (js_int_field js j ''ts'') (\<lambda>ts.
             let item = \<lparr>ex_message_id = mid, ex_user_id = 0, ex_username = username, ex_session_id = session_id,
                         ex_question = question, ex_answer = answer, ex_ts = ts\<rparr>
             in if \<not> fields_valid uid item then None else Some (item\<lparr>ex_user_id := uid\<rparr>)))))))))"

definition parse_exchange :: "'j json_lib \<Rightarrow> string \<Rightarrow> chat_exchange result" where
  "parse_exchange js body =
     (case Option.bind (js_parse js body) (parse_fields js) of
        None \<Rightarrow> throw (Invalid_argument ''Unsupported or malformed chat message'')
      | Some x \<Rightarrow> return x)"

section \<open>Persistence\<close>

datatype sql_value = Sql_text string | Sql_int int

definition insert_exchange_sql :: string where
  "insert_exchange_sql =
     ''INSERT INTO chat_message (message_id,id,username,session_id,is_user,content,ts) '' @
     ''VALUES (?,?,?,?,?,?,?),(?,?,?,?,?,?,?) '' @
     ''ON DUPLICATE KEY UPDATE message_id=message_id''"

definition persist :: "chat_exchange \<Rightarrow> string \<times> sql_value list" where
  "persist x =
     (let userMessageId = ex_message_id x @ ''/u''; answerMessageId = ex_message_id x @ ''/a''
      in (insert_exchange_sql,
          [Sql_text userMessageId, Sql_int (ex_user_id x), Sql_text (ex_username x), Sql_text (ex_session_id x),
           Sql_int 1, Sql_text (ex_question x), Sql_int (ex_ts x),
           Sql_text answerMessageId, Sql_int (ex_user_id x), Sql_text (ex_username x), Sql_text (ex_session_id x),
           Sql_int 0, Sql_text (ex_answer x), Sql_int (ex_ts x + 1)]))"

section \<open>Round trip\<close>

lemma exchange_fields_distinct: "distinct (map fst (exchange_fields js x))"
  by (simp add: exchange_fields_def)

lemma parse_fields_exchange:
  assumes "json_ok js" and b: "- (2 ^ 63) \<le> ex_user_id x" "ex_user_id x < 2 ^ 63" "- (2 ^ 63) \<le> ex_ts x" "ex_ts x < 2 ^ 63"
  shows "parse_fields js (js_object js (exchange_fields js x)) = (if fields_valid (ex_user_id x) x then Some x else None)"
proof -
  have at: "js_at js (js_object js (exchange_fields js x)) k = map_of (exchange_fields js x) k" for k
    using json_okD(2) [OF assms(1) exchange_fields_distinct] .
  note ints = json_okD(5-7) [OF assms(1)]
  have "schema_ok js (js_object js (exchange_fields js x))"
    using b by (simp add: schema_ok_def at) (simp add: exchange_fields_def ints)
  moreover have "js_int_field js (js_object js (exchange_fields js x)) ''user_id'' = Some (ex_user_id x)"
    "js_int_field js (js_object js (exchange_fields js x)) ''ts'' = Some (ex_ts x)"
    using b by (simp_all add: js_int_field_def at, simp_all add: exchange_fields_def ints)
  moreover have "js_string_field js (js_object js (exchange_fields js x)) ''message_id'' = Some (ex_message_id x)"
    "js_string_field js (js_object js (exchange_fields js x)) ''username'' = Some (ex_username x)"
    "js_string_field js (js_object js (exchange_fields js x)) ''session_id'' = Some (ex_session_id x)"
    "js_string_field js (js_object js (exchange_fields js x)) ''question'' = Some (ex_question x)"
    "js_string_field js (js_object js (exchange_fields js x)) ''answer'' = Some (ex_answer x)"
    by (simp_all add: js_string_field_def at, simp_all add: exchange_fields_def json_okD(4) [OF assms(1)])
  ultimately show ?thesis by (simp add: parse_fields_def fields_valid_def)
qed

lemma parse_exchange_valid:
  "parse_exchange js body = Inr x \<Longrightarrow> fields_valid (ex_user_id x) x"
  by (auto simp: parse_exchange_def parse_fields_def Let_def fields_valid_def
      split: option.splits bind_splits if_splits)

lemma parse_serialize:
  assumes "json_ok js" "serialize js x = Inr body"
    and "- (2 ^ 63) \<le> ex_user_id x" "ex_user_id x < 2 ^ 63" "- (2 ^ 63) \<le> ex_ts x" "ex_ts x < 2 ^ 63"
  shows "parse_exchange js body = (if fields_valid (ex_user_id x) x then Inr x
      else Inl (Invalid_argument ''Unsupported or malformed chat message''))"
proof -
  have "js_dump js (js_object js (exchange_fields js x)) = Some body" using assms(2) by (simp add: serialize_def)
  moreover have "js_plain js (js_object js (exchange_fields js x))"
    using assms(3-6) by (intro plain_object exchange_fields_distinct) (auto simp: exchange_fields_def intro: js_plain.intros)
  ultimately have "js_parse js body = Some (js_object js (exchange_fields js x))" by (intro json_okD(1) [OF assms(1)])
  then show ?thesis by (simp add: parse_exchange_def parse_fields_exchange [OF assms(1,3-6)])
qed

text \<open>
  An exchange survives the queue: what \<^verbatim>\<open>serialize\<close> writes for an exchange within the bounds, \<^verbatim>\<open>parse\<close> reads back unchanged, and for one
  outside of them it throws; whatever the queue delivers, \<^verbatim>\<open>parse\<close> returns only exchanges within
  the bounds, so that the answer's time stamp, one more than the question's, cannot overflow.
\<close>


theorem exchange_round_trip:
  assumes "json_ok js" "serialize js x = Inr body"
    and "- (2 ^ 63) \<le> ex_user_id x" "ex_user_id x < 2 ^ 63" "- (2 ^ 63) \<le> ex_ts x" "ex_ts x < 2 ^ 63"
  shows "parse_exchange js body =
      (if fields_valid (ex_user_id x) x then Inr x
       else Inl (Invalid_argument ''Unsupported or malformed chat message'')) \<and>
    (\<forall>b y. parse_exchange js b = Inr y \<longrightarrow> 0 < ex_user_id y \<and> ex_user_id y \<le> INT_MAX \<and>
       length (ex_message_id y) = 32 \<and> ex_ts y + 1 < LLONG_MAX)"
proof -
  have "0 < ex_user_id y \<and> ex_user_id y \<le> INT_MAX \<and> length (ex_message_id y) = 32 \<and> ex_ts y + 1 < LLONG_MAX"
    if "parse_exchange js b = Inr y" for b y
    using parse_exchange_valid [OF that] by (auto simp: fields_valid_def)
  then show ?thesis using parse_serialize [OF assms] by blast
qed

definition sample_exchange :: chat_exchange where
  "sample_exchange = \<lparr>ex_message_id = replicate 32 CHR ''0'', ex_user_id = 7, ex_username = ''u'', ex_session_id = ''s'',
     ex_question = ''q'', ex_answer = ''a'', ex_ts = 1000\<rparr>"

definition sample_object :: jval where
  "sample_object = J_obj [(''v'', J_int 1), (''message_id'', J_str (replicate 32 CHR ''0'')), (''user_id'', J_int 7),
      (''username'', J_str ''u''), (''session_id'', J_str ''s''), (''question'', J_str ''q''), (''answer'', J_str ''a''),
      (''ts'', J_int 1000)]"

lemma sample_serialize: "serialize (table_json [(''body'', sample_object)]) sample_exchange = Inr ''body''"
  by (simp add: serialize_def exchange_fields_def sample_exchange_def sample_object_def table_json_def)

lemma sample_valid: "fields_valid 7 sample_exchange"
  by (simp add: fields_valid_def sample_exchange_def list_all_iff id_char_def INT_MAX_def LLONG_MAX_def)

theorem exchange_round_trip_witness:
  "parse_exchange (table_json [(''body'', sample_object)]) ''body'' = Inr sample_exchange"
  using exchange_round_trip [OF table_json_ok sample_serialize] sample_valid
  by (simp add: sample_exchange_def)

end
