(* ===== verification/Gemma_Pool.thy ===== *)
theory Gemma_Pool
  imports Complex_Main Cpp_Prelude "HOL-Library.Multiset"
begin

text \<open>
  \<^verbatim>\<open>AIApps/ChatServer/include/AIUtil/GemmaInferencePool.h\<close> and \<^verbatim>\<open>AIApps/ChatServer/src/AIUtil/GemmaInferencePool.cpp\<close>:
  the local model with one cache of attention state per conversation. One lock covers every operation,
  so each is a function on the pool's state. The engine (gemma.cpp) and the file system are
  parameters: a record of what the code asks of them. A run of the engine yields the
  tokens it passes to the stream callback, possibly an exception, and the changed cache. The clock
  readings of an operation are its arguments; the access counter is an unbounded number.
\<close>

section \<open>Data\<close>

record cache_policy =
  max_sessions :: nat
  sequence_tokens :: nat
  idle_ttl :: int

definition default_cache_policy :: cache_policy where
  "default_cache_policy = \<lparr>max_sessions = 2, sequence_tokens = 1024, idle_ttl = 600000\<rparr>"

record 'kv session_data =
  kv_cache :: 'kv
  abs_pos :: nat
  transcript :: "string list"
  last_used :: int
  access_order :: nat

type_synonym history = "(string \<times> int) list"

record 'kv gemma_pool =
  gp_loaded :: bool
  gp_sessions :: "(string, 'kv session_data) umap"
  gp_policy :: cache_policy
  gp_access :: nat

text \<open>The engine: tokenizer, allocation of a cache, and a generation from a position.\<close>

record 'kv engine =
  eng_Encode :: "string \<Rightarrow> int list option"
  eng_Wrap :: "nat \<Rightarrow> string \<Rightarrow> int list"
  eng_Decode :: "int \<Rightarrow> string option"
  eng_IsEOS :: "int \<Rightarrow> bool"
  eng_new_cache :: "cache_policy \<Rightarrow> 'kv result"
  eng_SeqLen :: "'kv \<Rightarrow> nat"
  eng_Generate :: "nat \<Rightarrow> real \<Rightarrow> int list \<Rightarrow> nat \<Rightarrow> 'kv \<Rightarrow> int list \<times> cpp_exn option \<times> 'kv"

record file_system =
  fs_regular :: "string \<Rightarrow> bool"
  fs_size :: "string \<Rightarrow> nat option"
  fs_has_byte :: "string \<Rightarrow> bool option"

definition new_gemma_pool :: "'kv gemma_pool" where
  "new_gemma_pool = \<lparr>gp_loaded = False, gp_sessions = [], gp_policy = default_cache_policy, gp_access = 0\<rparr>"

section \<open>Loading\<close>

text \<open>\<open>fs_has_byte\<close> is \<open>None\<close> when the file cannot be opened.\<close>

definition validateReadableFile :: "file_system \<Rightarrow> string \<Rightarrow> string \<Rightarrow> unit result" where
  "validateReadableFile fs path kind =
     (if path = [] \<or> \<not> fs_regular fs path \<or> fs_size fs path = Some 0 \<or> fs_size fs path = None
      then throw (Runtime_error (''Gemma '' @ kind @ '' must be a nonempty readable regular file''))
      else if fs_has_byte fs path = None \<or> fs_has_byte fs path = Some False
      then throw (Runtime_error (''Gemma '' @ kind @ '' is not readable''))
      else return ())"

definition policy_valid :: "cache_policy \<Rightarrow> bool" where
  "policy_valid p \<longleftrightarrow> \<not> (max_sessions p = 0 \<or> sequence_tokens p < 32 \<or> sequence_tokens p > 8192 \<or>
     sequence_tokens p mod 32 \<noteq> 0 \<or> idle_ttl p \<le> 0)"

text \<open>\<open>load\<close> is the construction of the model by the engine, which may throw.\<close>

definition gemma_initialize ::
  "file_system \<Rightarrow> unit result \<Rightarrow> string \<Rightarrow> string \<Rightarrow> cache_policy \<Rightarrow> 'kv gemma_pool \<Rightarrow>
   unit result \<times> 'kv gemma_pool" where
  "gemma_initialize fs load weights tokenizer policy s =
     (if gp_loaded s then (return (), s)
      else if \<not> policy_valid policy then (throw (Invalid_argument ''Invalid Gemma cache policy''), s)
      else case validateReadableFile fs weights ''weights'' of
          Inl e \<Rightarrow> (Inl e, s)
        | Inr _ \<Rightarrow>
            (case (if tokenizer \<noteq> [] then validateReadableFile fs tokenizer ''tokenizer'' else return ()) of
               Inl e \<Rightarrow> (Inl e, s)
             | Inr _ \<Rightarrow>
                 (case load of
                    Inl e \<Rightarrow> (Inl e, s)
                  | Inr _ \<Rightarrow> (return (), s\<lparr>gp_loaded := True, gp_policy := policy\<rparr>))))"

definition isLoaded :: "'kv gemma_pool \<Rightarrow> bool" where
  "isLoaded s = gp_loaded s"

definition gemma_shutdown :: "'kv gemma_pool \<Rightarrow> 'kv gemma_pool" where
  "gemma_shutdown s = s\<lparr>gp_sessions := [], gp_loaded := False, gp_access := 0\<rparr>"

definition clearSession :: "string \<Rightarrow> 'kv gemma_pool \<Rightarrow> 'kv gemma_pool" where
  "clearSession key s = s\<lparr>gp_sessions := AList.delete key (gp_sessions s)\<rparr>"

section \<open>Budgets, expiry and eviction\<close>

definition validateBudget :: "nat \<Rightarrow> nat \<Rightarrow> nat \<Rightarrow> nat \<Rightarrow> unit result" where
  "validateBudget start prompt generated capacity =
     (if prompt = 0 \<or> start > capacity \<or> prompt > capacity - start \<or> generated > capacity - start - prompt
      then throw (Length_error ''Gemma context token budget exceeded; shorten history or generation'')
      else return ())"

definition pruneExpiredLocked :: "int \<Rightarrow> 'kv gemma_pool \<Rightarrow> 'kv gemma_pool" where
  "pruneExpiredLocked now s =
     s\<lparr>gp_sessions := filter (\<lambda>e. \<not> now - last_used (snd e) \<ge> idle_ttl (gp_policy s)) (gp_sessions s)\<rparr>"

text \<open>\<^verbatim>\<open>std::min_element\<close>: the first entry no other one precedes.\<close>

definition oldest :: "(string \<times> 'kv session_data) \<Rightarrow> (string, 'kv session_data) umap \<Rightarrow> string \<times> 'kv session_data" where
  "oldest e es = foldl (\<lambda>b a. if access_order (snd a) < access_order (snd b) then a else b) e es"

lemma oldest_in: "oldest e es \<in> set (e # es)"
  unfolding oldest_def by (induction es arbitrary: e) auto

lemma oldest_Cons: "oldest e (a # es) = oldest (if access_order (snd a) < access_order (snd e) then a else e) es"
  by (simp add: oldest_def)

lemma oldest_min: "x \<in> set (e # es) \<Longrightarrow> access_order (snd (oldest e es)) \<le> access_order (snd x)"
proof (induction es arbitrary: e x)
  case Nil
  then show ?case by (simp add: oldest_def)
next
  case (Cons a es)
  let ?b = "if access_order (snd a) < access_order (snd e) then a else e"
  have b: "access_order (snd (oldest ?b es)) \<le> access_order (snd ?b)" by (rule Cons.IH) simp
  show ?case
  proof (cases "x \<in> set es")
    case True
    then show ?thesis unfolding oldest_Cons by (intro Cons.IH) simp
  next
    case False
    then have "x = e \<or> x = a" using Cons.prems by auto
    then have "access_order (snd ?b) \<le> access_order (snd x)" by auto
    with b show ?thesis unfolding oldest_Cons by linarith
  qed
qed

function evict :: "nat \<Rightarrow> (string, 'kv session_data) umap \<Rightarrow> (string, 'kv session_data) umap" where
  "evict limit m =
     (case m of
        [] \<Rightarrow> m
      | e # es \<Rightarrow> if length m \<ge> limit then evict limit (remove1 (oldest e es) m) else m)"
  by pat_completeness auto
termination
proof (relation "measure (\<lambda>(limit, m). length m)", goal_cases)
  case (2 limit m e es)
  then show ?case using oldest_in [of e es] by (simp add: length_remove1 del: remove1.simps)
qed simp

declare evict.simps [simp del]

section \<open>The request to the engine\<close>

text \<open>The loop that compares the cached conversation with the history.\<close>

fun same_messages :: "string list \<Rightarrow> history \<Rightarrow> bool" where
  "same_messages [] h = True"
| "same_messages (p # prior) h = (case h of [] \<Rightarrow> False | (m, t) # h' \<Rightarrow> p = m \<and> same_messages prior h')"

definition can_reuse :: "history option \<Rightarrow> 'kv session_data option \<Rightarrow> bool" where
  "can_reuse history found =
     (case found of
        None \<Rightarrow> False
      | Some s \<Rightarrow>
          (case history of
             None \<Rightarrow> True
           | Some h \<Rightarrow> transcript s \<noteq> [] \<and> length (transcript s) + 1 = length h \<and>
               same_messages (transcript s) h))"

definition append_part ::
  "'kv engine \<Rightarrow> cache_policy \<Rightarrow> nat \<Rightarrow> int list \<Rightarrow> string \<Rightarrow> bool \<Rightarrow> int list result" where
  "append_part eng policy start_pos tokens txt user_turn =
     (case eng_Encode eng txt of
        None \<Rightarrow> throw (Runtime_error ''Gemma tokenizer could not encode input'')
      | Some enc \<Rightarrow>
          (let part = (if user_turn then eng_Wrap eng (start_pos + length tokens) txt else enc)
           in if length part > sequence_tokens policy - length tokens
              then throw (Length_error ''Gemma context token budget exceeded; shorten history'')
              else return (tokens @ part)))"

fun append_history ::
  "'kv engine \<Rightarrow> cache_policy \<Rightarrow> nat \<Rightarrow> history \<Rightarrow> nat \<Rightarrow> int list \<Rightarrow> int list result" where
  "append_history eng policy start_pos [] i tokens = return tokens"
| "append_history eng policy start_pos ((m, t) # h) i tokens =
     bind_result (append_part eng policy start_pos tokens m (i mod 2 = 0))
       (\<lambda>tokens. append_history eng policy start_pos h (i + 1) tokens)"

definition gemma_tokens ::
  "'kv engine \<Rightarrow> cache_policy \<Rightarrow> bool \<Rightarrow> nat \<Rightarrow> string \<Rightarrow> history option \<Rightarrow> int list result" where
  "gemma_tokens eng policy reuse start_pos prompt history =
     (case history of
        Some h \<Rightarrow>
          (if \<not> reuse then append_history eng policy start_pos h 0 []
           else append_part eng policy start_pos [] prompt True)
      | None \<Rightarrow> append_part eng policy start_pos [] prompt True)"

text \<open>
  The stream callback over the tokens the engine passes to it. The first tokens are the prompt's. A text is
  handed to \<open>on_token\<close>, which sees what it got so far and may throw; the state is the number of tokens
  streamed, the answer, and the texts handed over.
\<close>

fun stream_loop ::
  "'kv engine \<Rightarrow> nat \<Rightarrow> (string list \<Rightarrow> cpp_exn option) option \<Rightarrow> int list \<Rightarrow> nat \<times> string \<times> string list \<Rightarrow>
   cpp_exn option \<times> nat \<times> string \<times> string list" where
  "stream_loop eng n on_token [] s = (None, s)"
| "stream_loop eng n on_token (t # ts) (streamed, answer, out) =
     (if streamed + 1 \<le> n \<or> eng_IsEOS eng t
      then stream_loop eng n on_token ts (streamed + 1, answer, out)
      else case eng_Decode eng t of
          None \<Rightarrow> stream_loop eng n on_token ts (streamed + 1, answer, out)
        | Some txt \<Rightarrow>
            (case on_token of
               None \<Rightarrow> stream_loop eng n on_token ts (streamed + 1, answer @ txt, out)
             | Some f \<Rightarrow>
                 (case f (out @ [txt]) of
                    Some e \<Rightarrow> (Some e, streamed + 1, answer @ txt, out @ [txt])
                  | None \<Rightarrow> stream_loop eng n on_token ts (streamed + 1, answer @ txt, out @ [txt]))))"

section \<open>Generation\<close>

text \<open>
  The session to run in: the cached one, or a new one, for which the old entry is erased and others are evicted
  first. \<open>Inl\<close> carries the pool an exception leaves behind.
\<close>

definition obtain_session ::
  "'kv engine \<Rightarrow> string \<Rightarrow> nat \<Rightarrow> nat \<Rightarrow> 'kv session_data option \<Rightarrow> 'kv gemma_pool \<Rightarrow>
   'kv session_data result \<times> 'kv gemma_pool" where
  "obtain_session eng key ntokens max_tokens reused s =
     (case reused of
        Some d \<Rightarrow> (return d, s)
      | None \<Rightarrow>
          (let s1 = s\<lparr>gp_sessions := evict (max_sessions (gp_policy s)) (AList.delete key (gp_sessions s))\<rparr>
           in case eng_new_cache eng (gp_policy s) of
                Inl e \<Rightarrow> (Inl e, s1)
              | Inr kv \<Rightarrow>
                  (case validateBudget 0 ntokens max_tokens (eng_SeqLen eng kv) of
                     Inl e \<Rightarrow> (Inl e, s1)
                   | Inr _ \<Rightarrow>
                       (let d = \<lparr>kv_cache = kv, abs_pos = 0, transcript = [], last_used = 0, access_order = 0\<rparr>
                        in (return d, s1\<lparr>gp_sessions := AList.update key d (gp_sessions s1)\<rparr>)))))"

definition run_session ::
  "'kv engine \<Rightarrow> string \<Rightarrow> int list \<Rightarrow> nat \<Rightarrow> history option \<Rightarrow> (string list \<Rightarrow> cpp_exn option) option \<Rightarrow>
   real \<Rightarrow> nat \<Rightarrow> int \<Rightarrow> 'kv session_data \<Rightarrow> 'kv gemma_pool \<Rightarrow>
   unit result \<times> string list \<times> 'kv gemma_pool" where
  "run_session eng key tokens start_pos history on_token temperature max_tokens now d s =
     (let (toks, exn, kv) = eng_Generate eng max_tokens temperature tokens start_pos (kv_cache d);
          (cb, streamed, answer, out) = stream_loop eng (length tokens) on_token toks (0, [], []);
          failed = (\<lambda>e. (throw e, out, s\<lparr>gp_sessions := AList.delete key (gp_sessions s)\<rparr>))
      in case cb of
           Some e \<Rightarrow> failed e
         | None \<Rightarrow>
             (case exn of
                Some e \<Rightarrow> failed e
              | None \<Rightarrow>
                  (return (), out,
                   s\<lparr>gp_access := gp_access s + 1,
                     gp_sessions := AList.update key
                       \<lparr>kv_cache = kv, abs_pos = start_pos + streamed,
                        transcript = (case history of None \<Rightarrow> [] | Some h \<Rightarrow> map fst h @ [answer]),
                        last_used = now, access_order = gp_access s + 1\<rparr> (gp_sessions s)\<rparr>)))"

text \<open>\<open>temperature\<close> is \<open>None\<close> for a value that is not finite.\<close>

definition generateImpl ::
  "'kv engine \<Rightarrow> string \<Rightarrow> string \<Rightarrow> history option \<Rightarrow> (string list \<Rightarrow> cpp_exn option) option \<Rightarrow>
   real option \<Rightarrow> nat \<Rightarrow> int \<Rightarrow> int \<Rightarrow> 'kv gemma_pool \<Rightarrow> unit result \<times> string list \<times> 'kv gemma_pool" where
  "generateImpl eng key prompt history on_token temperature max_tokens now now' s =
     (if \<not> gp_loaded s then (throw (Runtime_error ''Gemma model not loaded''), [], s)
      else if key = [] \<or> max_tokens = 0 \<or> temperature = None \<or> the temperature < 0
      then (throw (Invalid_argument ''Invalid Gemma generation request''), [], s)
      else if (case history of None \<Rightarrow> False | Some h \<Rightarrow> h = [] \<or> length h mod 2 = 0)
      then (throw (Invalid_argument ''Gemma history must alternate user/assistant and end with user''), [], s)
      else
        let s1 = pruneExpiredLocked now s;
            found = map_of (gp_sessions s1) key;
            reused = (if can_reuse history found then found else None);
            start_pos = (case reused of Some d \<Rightarrow> abs_pos d | None \<Rightarrow> 0)
        in case gemma_tokens eng (gp_policy s1) (reused \<noteq> None) start_pos prompt history of
             Inl e \<Rightarrow> (Inl e, [], s1)
           | Inr tokens \<Rightarrow>
               (case validateBudget start_pos (length tokens) max_tokens
                       (case reused of Some d \<Rightarrow> eng_SeqLen eng (kv_cache d)
                        | None \<Rightarrow> sequence_tokens (gp_policy s1)) of
                  Inl e \<Rightarrow> (Inl e, [], s1)
                | Inr _ \<Rightarrow>
                    (case obtain_session eng key (length tokens) max_tokens reused s1 of
                       (Inl e, s2) \<Rightarrow> (Inl e, [], s2)
                     | (Inr d, s2) \<Rightarrow>
                         run_session eng key tokens start_pos history on_token (the temperature) max_tokens now' d s2)))"

definition gemma_generate ::
  "'kv engine \<Rightarrow> string \<Rightarrow> string \<Rightarrow> (string list \<Rightarrow> cpp_exn option) option \<Rightarrow> real option \<Rightarrow> nat \<Rightarrow>
   int \<Rightarrow> int \<Rightarrow> 'kv gemma_pool \<Rightarrow> unit result \<times> string list \<times> 'kv gemma_pool" where
  "gemma_generate eng key prompt on_token temperature max_tokens now now' s =
     generateImpl eng key prompt None on_token temperature max_tokens now now' s"

text \<open>The collecting callback of the synchronous variants never throws; its answer is what it was given.\<close>

definition generateSync ::
  "'kv engine \<Rightarrow> string \<Rightarrow> string \<Rightarrow> real option \<Rightarrow> nat \<Rightarrow> int \<Rightarrow> int \<Rightarrow> 'kv gemma_pool \<Rightarrow>
   string result \<times> 'kv gemma_pool" where
  "generateSync eng key prompt temperature max_tokens now now' s =
     (case gemma_generate eng key prompt (Some (\<lambda>_. None)) temperature max_tokens now now' s of
        (Inl e, out, s') \<Rightarrow> (Inl e, s')
      | (Inr _, out, s') \<Rightarrow> (return (concat out), s'))"

definition generateFromHistory ::
  "'kv engine \<Rightarrow> string \<Rightarrow> history \<Rightarrow> (string list \<Rightarrow> cpp_exn option) option \<Rightarrow> real option \<Rightarrow> nat \<Rightarrow>
   int \<Rightarrow> int \<Rightarrow> 'kv gemma_pool \<Rightarrow> unit result \<times> string list \<times> 'kv gemma_pool" where
  "generateFromHistory eng key h on_token temperature max_tokens now now' s =
     generateImpl eng key (if h = [] then [] else fst (last h)) (Some h) on_token temperature max_tokens now now' s"

definition generateSyncFromHistory ::
  "'kv engine \<Rightarrow> string \<Rightarrow> history \<Rightarrow> real option \<Rightarrow> nat \<Rightarrow> int \<Rightarrow> int \<Rightarrow> 'kv gemma_pool \<Rightarrow>
   string result \<times> 'kv gemma_pool" where
  "generateSyncFromHistory eng key h temperature max_tokens now now' s =
     (case generateFromHistory eng key h (Some (\<lambda>_. None)) temperature max_tokens now now' s of
        (Inl e, out, s') \<Rightarrow> (Inl e, s')
      | (Inr _, out, s') \<Rightarrow> (return (concat out), s'))"

section \<open>Eviction\<close>

lemma evict_sub: "set (evict limit m) \<subseteq> set m \<and> (distinct (map f m) \<longrightarrow> distinct (map f (evict limit m)))"
proof (induction limit m rule: evict.induct)
  case (1 limit m)
  show ?case
  proof (cases "m \<noteq> [] \<and> length m \<ge> limit")
    case True
    then obtain e es where m: "m = e # es" by (cases m) auto
    let ?r = "remove1 (oldest e es) m"
    have ev: "evict limit m = evict limit ?r" using True m by (subst evict.simps) simp
    have "set (evict limit ?r) \<subseteq> set ?r \<and> (distinct (map f ?r) \<longrightarrow> distinct (map f (evict limit ?r)))"
      using True m by (intro "1.IH") auto
    moreover have "distinct (map f m) \<longrightarrow> distinct (map f ?r)"
      by (auto simp: distinct_map intro: inj_on_subset)
    ultimately show ?thesis unfolding ev using set_remove1_subset [of "oldest e es" m] by auto
  next
    case False
    then show ?thesis by (subst (1 2) evict.simps) (auto split: list.split)
  qed
qed

lemma length_evict: "0 < limit \<Longrightarrow> length (evict limit m) < limit"
proof (induction limit m rule: evict.induct)
  case (1 limit m)
  then show ?case by (subst evict.simps) (auto split: list.split)
qed

text \<open>What is dropped was used before everything that is kept.\<close>

lemma evict_least_recent:
  "x \<in> set m \<Longrightarrow> x \<notin> set (evict limit m) \<Longrightarrow> y \<in> set (evict limit m) \<Longrightarrow>
     access_order (snd x) \<le> access_order (snd y)"
proof (induction limit m rule: evict.induct)
  case (1 limit m)
  obtain e es where m: "m = e # es" using "1.prems"(1) by (cases m) auto
  show ?case
  proof (cases "length m \<ge> limit")
    case True
    let ?r = "remove1 (oldest e es) m"
    have ev: "evict limit m = evict limit ?r" using True m by (subst evict.simps) simp
    have y: "y \<in> set m" using "1.prems"(3) evict_sub by blast
    show ?thesis
    proof (cases "x = oldest e es")
      case True
      then show ?thesis using oldest_min [of y e es] y m by simp
    next
      case False
      then have "x \<in> set ?r" using "1.prems"(1) by simp
      then show ?thesis using "1.IH" [OF m True] "1.prems"(2,3) unfolding ev by blast
    qed
  next
    case False
    then have "evict limit m = m" using m by (subst evict.simps) simp
    then show ?thesis using "1.prems" by simp
  qed
qed

section \<open>The invariant\<close>

text \<open>What the code relies on of the engine: it generates no more than it is asked to, and a cache keeps its length.\<close>

definition engine_ok :: "'kv engine \<Rightarrow> bool" where
  "engine_ok eng \<longleftrightarrow> (\<forall>limit t toks start kv out exn kv'.
     eng_Generate eng limit t toks start kv = (out, exn, kv') \<longrightarrow>
       length out \<le> length toks + limit \<and> eng_SeqLen eng kv' = eng_SeqLen eng kv)"

definition entries_ok :: "'kv engine \<Rightarrow> nat \<Rightarrow> (string, 'kv session_data) umap \<Rightarrow> bool" where
  "entries_ok eng counter m \<longleftrightarrow> umap_ok m \<and> distinct (map (\<lambda>e. access_order (snd e)) m) \<and>
     (\<forall>e\<in>set m. abs_pos (snd e) \<le> eng_SeqLen eng (kv_cache (snd e)) \<and> access_order (snd e) \<le> counter)"

definition gemma_ok :: "'kv engine \<Rightarrow> 'kv gemma_pool \<Rightarrow> bool" where
  "gemma_ok eng s \<longleftrightarrow> entries_ok eng (gp_access s) (gp_sessions s) \<and>
     (if gp_loaded s then policy_valid (gp_policy s) \<and> length (gp_sessions s) \<le> max_sessions (gp_policy s)
      else gp_sessions s = [])"

lemma entries_ok_subset:
  assumes "entries_ok eng c m" "set m' \<subseteq> set m" "umap_ok m'"
  shows "entries_ok eng c m'"
proof -
  have "inj_on (\<lambda>e. access_order (snd e)) (set m')"
    using assms(1,2) by (auto simp: entries_ok_def distinct_map intro: inj_on_subset)
  moreover have "distinct m'" using assms(3) by (simp add: umap_ok_def distinct_map)
  ultimately show ?thesis using assms by (auto simp: entries_ok_def distinct_map)
qed

lemma mset_update:
  "umap_ok m \<Longrightarrow> mset (AList.update k v m) = add_mset (k, v) (mset (AList.delete k m))"
proof (induction m)
  case (Cons e m)
  obtain k' v' where e: "e = (k', v')" by (cases e)
  have "umap_ok m" "k' \<notin> fst ` set m" using Cons.prems e by (auto simp: umap_ok_def)
  then show ?case using Cons.IH e by auto
qed simp

lemma set_delete_subset: "set (AList.delete k m) \<subseteq> set m"
  by (auto simp: AList.delete_eq)

lemma entries_ok_update:
  assumes "entries_ok eng c (AList.delete k m)" "umap_ok m"
    and "access_order x = c + 1" "abs_pos x \<le> eng_SeqLen eng (kv_cache x)"
  shows "entries_ok eng (c + 1) (AList.update k x m)"
    and "length (AList.update k x m) = Suc (length (AList.delete k m))"
proof -
  let ?d = "AList.delete k m"
  have ms: "mset (AList.update k x m) = mset ((k, x) # ?d)"
    using assms(2) by (simp add: mset_update)
  then have "mset (map (\<lambda>e. access_order (snd e)) (AList.update k x m)) =
      mset (map (\<lambda>e. access_order (snd e)) ((k, x) # ?d))" by simp
  then have "distinct (map (\<lambda>e. access_order (snd e)) (AList.update k x m)) \<longleftrightarrow>
      distinct (map (\<lambda>e. access_order (snd e)) ((k, x) # ?d))"
    by (rule mset_eq_imp_distinct_iff)
  moreover have "set (AList.update k x m) = insert (k, x) (set ?d)"
    using mset_eq_setD [OF ms] by simp
  moreover have "umap_ok (AList.update k x m)" using assms(2) by (simp add: umap.ok_put)
  moreover have "access_order (snd e) \<le> c" if "e \<in> set ?d" for e
    using that assms(1) by (simp add: entries_ok_def)
  ultimately show "entries_ok eng (c + 1) (AList.update k x m)"
    using assms by (fastforce simp: entries_ok_def)
  show "length (AList.update k x m) = Suc (length ?d)"
    using mset_eq_length [OF ms] by simp
qed

lemma stream_loop_result:
  "stream_loop eng n on_token toks (k, a, out) = (cb, k', a', out') \<Longrightarrow>
     k' \<le> k + length toks \<and> (cb = None \<longrightarrow> k' = k + length toks) \<and>
     (on_token \<noteq> None \<longrightarrow> (\<exists>new. out' = out @ new \<and> a' = a @ concat new))"
proof (induction toks arbitrary: k a out)
  case (Cons t toks)
  show ?case
  proof (cases "k + 1 \<le> n \<or> eng_IsEOS eng t \<or> eng_Decode eng t = None")
    case True
    then have "stream_loop eng n on_token toks (k + 1, a, out) = (cb, k', a', out')"
      using Cons.prems by (auto split: if_splits)
    from Cons.IH [OF this] show ?thesis by auto
  next
    case False
    then obtain piece where piece: "eng_Decode eng t = Some piece" by auto
    show ?thesis
    proof (cases on_token)
      case None
      then have "stream_loop eng n on_token toks (k + 1, a @ piece, out) = (cb, k', a', out')"
        using Cons.prems False piece by simp
      from Cons.IH [OF this] show ?thesis using None by auto
    next
      case (Some f)
      show ?thesis
      proof (cases "f (out @ [piece])")
        case None
        then have "stream_loop eng n on_token toks (k + 1, a @ piece, out @ [piece]) = (cb, k', a', out')"
          using Cons.prems False piece Some by simp
        from Cons.IH [OF this] show ?thesis by fastforce
      qed (use Cons.prems False piece Some in auto)
    qed
  qed
qed simp

lemma validateBudget_Inr:
  "validateBudget start prompt generated capacity = Inr u \<longleftrightarrow>
     0 < prompt \<and> start + prompt + generated \<le> capacity"
  by (auto simp: validateBudget_def)

lemma gemma_ok_subset:
  assumes "gemma_ok eng s" "set m \<subseteq> set (gp_sessions s)" "umap_ok m" "length m \<le> length (gp_sessions s)"
  shows "gemma_ok eng (s\<lparr>gp_sessions := m\<rparr>)"
  using assms entries_ok_subset [OF _ assms(2,3)] by (auto simp: gemma_ok_def)

lemma prune_ok: "gemma_ok eng s \<Longrightarrow> gemma_ok eng (pruneExpiredLocked now s)"
  unfolding pruneExpiredLocked_def
  by (intro gemma_ok_subset) (auto simp: gemma_ok_def entries_ok_def umap_ok_filter)

lemma clearSession_ok: "gemma_ok eng s \<Longrightarrow> gemma_ok eng (clearSession key s)"
  unfolding clearSession_def
  by (intro gemma_ok_subset set_delete_subset length_delete_le)
    (auto simp: gemma_ok_def entries_ok_def umap.ok_del)

lemma prune_simps [simp]:
  "gp_loaded (pruneExpiredLocked now s) = gp_loaded s"
  "gp_policy (pruneExpiredLocked now s) = gp_policy s"
  "gp_access (pruneExpiredLocked now s) = gp_access s"
  by (simp_all add: pruneExpiredLocked_def)

text \<open>The state a generation starts in: there is room for the entry it will write.\<close>

definition room_ok :: "'kv engine \<Rightarrow> string \<Rightarrow> 'kv gemma_pool \<Rightarrow> bool" where
  "room_ok eng key s \<longleftrightarrow> gp_loaded s \<and> policy_valid (gp_policy s) \<and> umap_ok (gp_sessions s) \<and>
     entries_ok eng (gp_access s) (AList.delete key (gp_sessions s)) \<and>
     length (AList.delete key (gp_sessions s)) < max_sessions (gp_policy s)"

lemma room_ok_delete:
  "room_ok eng key s \<Longrightarrow> gemma_ok eng (s\<lparr>gp_sessions := AList.delete key (gp_sessions s)\<rparr>)"
  by (auto simp: room_ok_def gemma_ok_def)

lemma run_session_ok:
  assumes "engine_ok eng" "room_ok eng key s"
    and "start_pos + length tokens + max_tokens \<le> eng_SeqLen eng (kv_cache d)"
  shows "gemma_ok eng (snd (snd (run_session eng key tokens start_pos history on_token t max_tokens now d s)))"
proof -
  obtain toks exn kv where g: "eng_Generate eng max_tokens t tokens start_pos (kv_cache d) = (toks, exn, kv)"
    by (cases "eng_Generate eng max_tokens t tokens start_pos (kv_cache d)") auto
  obtain cb streamed answer out where
    l: "stream_loop eng (length tokens) on_token toks (0, [], []) = (cb, streamed, answer, out)"
    by (cases "stream_loop eng (length tokens) on_token toks (0, [], [])") auto
  have "length toks \<le> length tokens + max_tokens" and len: "eng_SeqLen eng kv = eng_SeqLen eng (kv_cache d)"
    using assms(1) g unfolding engine_ok_def by blast+
  then have pos: "start_pos + streamed \<le> eng_SeqLen eng kv"
    using stream_loop_result [OF l] assms(3) by auto
  let ?x = "\<lparr>kv_cache = kv, abs_pos = start_pos + streamed,
    transcript = (case history of None \<Rightarrow> [] | Some h \<Rightarrow> map fst h @ [answer]),
    last_used = now, access_order = gp_access s + 1\<rparr>"
  have "entries_ok eng (gp_access s + 1) (AList.update key ?x (gp_sessions s))"
    and "length (AList.update key ?x (gp_sessions s)) = Suc (length (AList.delete key (gp_sessions s)))"
    using assms(2) pos
    by (intro entries_ok_update, simp_all add: room_ok_def)
      (intro entries_ok_update, simp_all add: room_ok_def)
  then have "gemma_ok eng (s\<lparr>gp_access := gp_access s + 1,
      gp_sessions := AList.update key ?x (gp_sessions s)\<rparr>)"
    using assms(2) by (simp add: gemma_ok_def room_ok_def)
  then show ?thesis
    using room_ok_delete [OF assms(2)]
    by (cases cb; cases exn) (simp_all add: run_session_def g l)
qed

lemma length_delete_less: "map_of m k \<noteq> None \<Longrightarrow> length (AList.delete k m) < length m"
proof (induction m)
  case (Cons e m)
  then show ?case using length_delete_le [of k m] by (cases e) (auto simp: less_Suc_eq_le)
qed simp

lemma room_ok_reuse:
  assumes "gemma_ok eng s" "gp_loaded s" "map_of (gp_sessions s) key \<noteq> None"
  shows "room_ok eng key s"
proof -
  have "entries_ok eng (gp_access s) (gp_sessions s)" using assms(1) by (simp add: gemma_ok_def)
  then have "entries_ok eng (gp_access s) (AList.delete key (gp_sessions s))"
    by (rule entries_ok_subset [OF _ set_delete_subset]) (use assms(1) in \<open>auto simp: gemma_ok_def entries_ok_def umap.ok_del\<close>)
  then show ?thesis
    using assms length_delete_less [OF assms(3)] by (auto simp: room_ok_def gemma_ok_def entries_ok_def)
qed

lemma obtain_session_ok:
  assumes "gemma_ok eng s" "gp_loaded s" "obtain_session eng key n limit None s = (r, s')"
  shows "gp_policy s' = gp_policy s \<and>
    (case r of Inl e \<Rightarrow> gemma_ok eng s' | Inr d \<Rightarrow> room_ok eng key s' \<and> n + limit \<le> eng_SeqLen eng (kv_cache d))"
proof -
  let ?m = "evict (max_sessions (gp_policy s)) (AList.delete key (gp_sessions s))"
  let ?s = "s\<lparr>gp_sessions := ?m\<rparr>"
  have p: "policy_valid (gp_policy s)" and u: "umap_ok (gp_sessions s)"
    using assms(1,2) by (auto simp: gemma_ok_def entries_ok_def)
  have sub: "set ?m \<subseteq> set (gp_sessions s)"
    using evict_sub [of "max_sessions (gp_policy s)"] set_delete_subset by fast
  have um: "umap_ok ?m"
    using evict_sub [where f = fst] u umap.ok_del [OF u] by (fastforce simp: umap_ok_def)
  have lt: "length ?m < max_sessions (gp_policy s)"
    using p by (intro length_evict) (simp add: policy_valid_def)
  have e: "entries_ok eng (gp_access s) ?m"
    using assms(1) by (intro entries_ok_subset [OF _ sub um]) (simp add: gemma_ok_def)
  have ok: "gemma_ok eng ?s" using e p lt assms(2) by (simp add: gemma_ok_def)
  have room: "room_ok eng key (?s\<lparr>gp_sessions := AList.update key d ?m\<rparr>)" for d
  proof -
    have "entries_ok eng (gp_access s) (AList.delete key ?m)"
      by (rule entries_ok_subset [OF e set_delete_subset umap.ok_del [OF um]])
    moreover have "length (AList.delete key ?m) < max_sessions (gp_policy s)"
      using lt length_delete_le [of key ?m] by linarith
    ultimately show ?thesis
      using p assms(2) umap.ok_put [OF um, of key d] by (simp add: room_ok_def delete_update_same)
  qed
  show ?thesis
    using assms(3) ok room unfolding obtain_session_def Let_def option.case
    by (auto simp: validateBudget_Inr split: sum.splits)
qed

lemma generateImpl_ok:
  assumes "engine_ok eng" "gemma_ok eng s"
  shows "gemma_ok eng (snd (snd (generateImpl eng key prompt history on_token t max_tokens now now' s)))"
proof (cases "gp_loaded s")
  case True
  define s1 where "s1 = pruneExpiredLocked now s"
  have s1: "gemma_ok eng s1" "gp_loaded s1" using prune_ok [OF assms(2)] True by (simp_all add: s1_def)
  define reused where "reused = (if can_reuse history (map_of (gp_sessions s1) key)
    then map_of (gp_sessions s1) key else None)"
  define start where "start = (case reused of Some d \<Rightarrow> abs_pos d | None \<Rightarrow> 0)"
  have main: "gemma_ok eng (snd (snd (case obtain_session eng key (length toks) max_tokens reused s1 of
       (Inl e, s2) \<Rightarrow> (Inl e, [], s2)
     | (Inr d, s2) \<Rightarrow> run_session eng key toks start history on_token (the t) max_tokens now' d s2)))"
    if "validateBudget start (length toks) max_tokens
       (case reused of Some d \<Rightarrow> eng_SeqLen eng (kv_cache d) | None \<Rightarrow> sequence_tokens (gp_policy s1)) = Inr u" for toks u
  proof (cases reused)
    case None
    obtain r s2 where o: "obtain_session eng key (length toks) max_tokens None s1 = (r, s2)" by fastforce
    from obtain_session_ok [OF s1 o] None show ?thesis
      by (cases r) (auto simp: start_def o intro: run_session_ok [OF assms(1)])
  next
    case (Some d)
    then have "map_of (gp_sessions s1) key \<noteq> None" by (auto simp: reused_def split: if_splits)
    then have "room_ok eng key s1" using room_ok_reuse s1 by blast
    then show ?thesis
      using Some that run_session_ok [OF assms(1)] by (auto simp: obtain_session_def validateBudget_Inr)
  qed
  show ?thesis
    using True assms(2) s1(1) main
    unfolding generateImpl_def Let_def s1_def [symmetric] reused_def [symmetric] start_def [symmetric]
    by (auto split: sum.split)
qed (simp add: generateImpl_def assms(2))

lemma gemma_initialize_ok:
  "gemma_ok eng s \<Longrightarrow> gemma_ok eng (snd (gemma_initialize fs load weights tokenizer policy s))"
  by (auto simp: gemma_initialize_def gemma_ok_def split: sum.splits)

lemma gemma_shutdown_ok: "gemma_ok eng (gemma_shutdown s)"
  by (simp add: gemma_ok_def gemma_shutdown_def entries_ok_def)

section \<open>Runs of the pool\<close>

inductive gemma_reachable :: "'kv engine \<Rightarrow> 'kv gemma_pool \<Rightarrow> bool" for eng where
  gemma_start: "gemma_reachable eng new_gemma_pool"
| gemma_load: "gemma_reachable eng s \<Longrightarrow>
    gemma_reachable eng (snd (gemma_initialize fs load weights tokenizer policy s))"
| gemma_prompt: "gemma_reachable eng s \<Longrightarrow>
    gemma_reachable eng (snd (snd (gemma_generate eng key prompt on_token t max_tokens now now' s)))"
| gemma_history: "gemma_reachable eng s \<Longrightarrow>
    gemma_reachable eng (snd (snd (generateFromHistory eng key h on_token t max_tokens now now' s)))"
| gemma_clear: "gemma_reachable eng s \<Longrightarrow> gemma_reachable eng (clearSession key s)"
| gemma_down: "gemma_reachable eng s \<Longrightarrow> gemma_reachable eng (gemma_shutdown s)"

lemma gemma_reachable_ok:
  "gemma_reachable eng s \<Longrightarrow> engine_ok eng \<Longrightarrow> gemma_ok eng s"
proof (induction rule: gemma_reachable.induct)
  case gemma_start
  show ?case by (simp add: gemma_ok_def new_gemma_pool_def entries_ok_def)
qed (simp_all add: gemma_initialize_ok gemma_generate_def generateFromHistory_def generateImpl_ok
      clearSession_ok gemma_shutdown_ok)

text \<open>
  C38. The memory of the local model is bounded: in every run of the pool there is at most one cache per
  conversation and never more caches than the policy allows, whatever mixture of requests, failures, expiries and
  reloads happened, no conversation has advanced past the end of its cache, and no two caches
  claim the same place in the order of use.
\<close>

theorem gemma_cache_bounded:
  assumes "gemma_reachable eng s" "engine_ok eng"
  shows "distinct (map fst (gp_sessions s)) \<and> length (gp_sessions s) \<le> max_sessions (gp_policy s) \<and>
    (\<forall>e\<in>set (gp_sessions s). abs_pos (snd e) \<le> eng_SeqLen eng (kv_cache (snd e))) \<and>
    distinct (map (\<lambda>e. access_order (snd e)) (gp_sessions s))"
  using gemma_reachable_ok [OF assms]
  by (auto simp: gemma_ok_def entries_ok_def umap_ok_def split: if_splits)

section \<open>Context\<close>

lemma same_messages_iff: "length prior + 1 = length h \<Longrightarrow> same_messages prior h \<longleftrightarrow> prior = map fst (butlast h)"
proof (induction prior h rule: same_messages.induct)
  case (1 h)
  then show ?case by (cases h) auto
next
  case (2 p prior h)
  then show ?case by (cases h) auto
qed

lemma can_reuse_Some:
  "can_reuse (Some h) (Some d) \<longleftrightarrow> h \<noteq> [] \<and> transcript d \<noteq> [] \<and> transcript d = map fst (butlast h)"
  using same_messages_iff [of "transcript d" h] by (cases h) (auto simp: can_reuse_def)

lemma map_of_prune:
  "umap_ok (gp_sessions s) \<Longrightarrow> map_of (gp_sessions (pruneExpiredLocked now s)) k = Some d \<Longrightarrow>
     map_of (gp_sessions s) k = Some d"
  unfolding pruneExpiredLocked_def
  using map_of_filter_umap [of "gp_sessions s" "\<lambda>k d. \<not> now - last_used d \<ge> idle_ttl (gp_policy s)" k]
  by (auto split: option.splits if_splits)

lemma umap_ok_prune: "umap_ok (gp_sessions s) \<Longrightarrow> umap_ok (gp_sessions (pruneExpiredLocked now s))"
  by (simp add: pruneExpiredLocked_def umap_ok_filter)

lemma map_of_sub:
  "umap_ok m \<Longrightarrow> umap_ok m' \<Longrightarrow> set m' \<subseteq> set m \<Longrightarrow> map_of m' k = Some d \<Longrightarrow> map_of m k = Some d"
  unfolding umap_ok_def by (meson map_of_SomeD map_of_is_SomeI subsetD)

lemma evict_umap: "umap_ok m \<Longrightarrow> umap_ok (evict limit m)"
  using evict_sub [of limit m fst] by (simp add: umap_ok_def)

text \<open>The entries a failed attempt to obtain a session leaves, and those of a successful one.\<close>

lemma obtain_session_entries:
  assumes "umap_ok (gp_sessions s)" "obtain_session eng key n limit None s = (r, s')"
    and "map_of (gp_sessions s') k = Some d" "k \<noteq> key \<or> (\<exists>e. r = Inl e)"
  shows "map_of (gp_sessions s) k = Some d"
proof -
  let ?m = "evict (max_sessions (gp_policy s)) (AList.delete key (gp_sessions s))"
  have "map_of ?m k = Some d"
    using assms(2-4) unfolding obtain_session_def Let_def option.case
    by (auto simp: update_conv' split: sum.splits)
  moreover have "umap_ok ?m" using assms(1) by (intro evict_umap umap.ok_del)
  moreover have "set ?m \<subseteq> set (gp_sessions s)" using evict_sub set_delete_subset by fast
  ultimately show ?thesis using map_of_sub [OF assms(1)] by blast
qed

lemma run_session_failed:
  assumes "run_session eng key tokens start_pos history on_token t max_tokens now d s = (Inl e, out, s')"
  shows "s' = s\<lparr>gp_sessions := AList.delete key (gp_sessions s)\<rparr>"
  using assms by (auto simp: run_session_def Let_def split: prod.splits option.splits)

lemma generateImpl_split:
  assumes "generateImpl eng key prompt history on_token t max_tokens now now' s = (r, out, s')"
  obtains (early) e where "r = Inl e" "s' = s \<or> s' = pruneExpiredLocked now s"
  | (room) e reused n where "r = Inl e"
      "obtain_session eng key n max_tokens reused (pruneExpiredLocked now s) = (Inl e, s')"
  | (run) reused start tokens d s2 where
      "reused = (let found = map_of (gp_sessions (pruneExpiredLocked now s)) key
                 in if can_reuse history found then found else None)"
      "start = (case reused of Some d \<Rightarrow> abs_pos d | None \<Rightarrow> 0)"
      "gemma_tokens eng (gp_policy s) (reused \<noteq> None) start prompt history = Inr tokens"
      "obtain_session eng key (length tokens) max_tokens reused (pruneExpiredLocked now s) = (Inr d, s2)"
      "run_session eng key tokens start history on_token (the t) max_tokens now' d s2 = (r, out, s')"
proof -
  define s1 where "s1 = pruneExpiredLocked now s"
  define reused where "reused = (if can_reuse history (map_of (gp_sessions s1) key)
    then map_of (gp_sessions s1) key else None)"
  define start where "start = (case reused of Some d \<Rightarrow> abs_pos d | None \<Rightarrow> 0)"
  have pol: "gp_policy s1 = gp_policy s" by (simp add: s1_def)
  note def = assms [unfolded generateImpl_def Let_def, folded s1_def, folded reused_def, folded start_def, unfolded pol]
  show ?thesis
  proof (cases "gemma_tokens eng (gp_policy s) (reused \<noteq> None) start prompt history")
    case (Inl e)
    with def have "\<exists>e. r = Inl e \<and> (s' = s \<or> s' = s1)" by (auto split: if_splits)
    then show ?thesis using early s1_def by auto
  next
    case (Inr tokens)
    obtain x s2 where o: "obtain_session eng key (length tokens) max_tokens reused s1 = (x, s2)" by fastforce
    obtain vb where vb: "validateBudget start (length tokens) max_tokens
        (case reused of Some d \<Rightarrow> eng_SeqLen eng (kv_cache d) | None \<Rightarrow> sequence_tokens (gp_policy s)) = vb"
      by blast
    from def [unfolded Inr sum.case o vb] have "(\<exists>e. r = Inl e \<and> (s' = s \<or> s' = s1)) \<or>
        (case x of Inl e \<Rightarrow> r = Inl e \<and> s' = s2
         | Inr d \<Rightarrow> run_session eng key tokens start history on_token (the t) max_tokens now' d s2 = (r, out, s'))"
      by (cases vb) (auto split: if_splits sum.splits)
    then consider (a) "\<exists>e. r = Inl e \<and> (s' = s \<or> s' = s1)" | (b) e where "x = Inl e" "r = Inl e" "s' = s2"
      | (c) d where "x = Inr d" "run_session eng key tokens start history on_token (the t) max_tokens now' d s2 = (r, out, s')"
      by (cases x) auto
    then show ?thesis
    proof cases
      case a
      then show ?thesis using early s1_def by auto
    next
      case b
      then show ?thesis using room [OF b(2)] o by (simp add: s1_def)
    next
      case c
      have ru: "reused = (let found = map_of (gp_sessions (pruneExpiredLocked now s)) key
          in if can_reuse history found then found else None)"
        unfolding reused_def s1_def Let_def by (rule refl)
      have ob: "obtain_session eng key (length tokens) max_tokens reused (pruneExpiredLocked now s) = (Inr d, s2)"
        using o c(1) unfolding s1_def by blast
      show ?thesis by (rule run [OF ru start_def Inr ob c(2)])
    qed
  qed
qed

text \<open>
  A failed generation leaves no half-written cache behind: whatever threw (validation, the tokenizer, an exhausted
  budget, the allocation, the engine or the caller's callback), every cache the pool then holds is one it held
  before the call, unchanged.
\<close>

theorem gemma_failure_keeps_caches:
  assumes "generateImpl eng key prompt history on_token t max_tokens now now' s = (Inl e, out, s')"
    and "distinct (map fst (gp_sessions s))" and "map_of (gp_sessions s') k = Some d"
  shows "map_of (gp_sessions s) k = Some d"
proof -
  have u: "umap_ok (gp_sessions s)" using assms(2) by (simp add: umap_ok_def)
  note u1 = umap_ok_prune [OF u]
  from assms(1) show ?thesis
  proof (cases rule: generateImpl_split)
    case early
    then show ?thesis using map_of_prune [OF u] assms(3) by blast
  next
    case (room e reused n)
    then have "reused = None" by (cases reused) (auto simp: obtain_session_def)
    with room obtain_session_entries [OF u1] assms(3) map_of_prune [OF u] show ?thesis by blast
  next
    case (run reused start tokens d' s2)
    have "map_of (AList.delete key (gp_sessions s2)) k = Some d"
      using run_session_failed [OF run(5)] assms(3) by simp
    then have k: "k \<noteq> key" "map_of (gp_sessions s2) k = Some d" by (auto simp: delete_conv' split: if_splits)
    have "map_of (gp_sessions (pruneExpiredLocked now s)) k = Some d"
    proof (cases reused)
      case None
      then show ?thesis using obtain_session_entries [OF u1] run(4) k by blast
    next
      case (Some x)
      then show ?thesis using run(4) k by (simp add: obtain_session_def)
    qed
    then show ?thesis by (rule map_of_prune [OF u])
  qed
qed

text \<open>A small engine: tokens are the characters' codes, the answer is one token, and a high temperature fails.\<close>

definition toy_engine :: "nat engine" where
  "toy_engine = \<lparr>eng_Encode = (\<lambda>m. Some (map (\<lambda>c. int (of_char c)) m)),
     eng_Wrap = (\<lambda>pos m. map (\<lambda>c. int (of_char c)) m),
     eng_Decode = (\<lambda>t. if t = 0 then None else Some ''A''), eng_IsEOS = (\<lambda>t. t = -1),
     eng_new_cache = (\<lambda>p. Inr (sequence_tokens p)), eng_SeqLen = id,
     eng_Generate = (\<lambda>limit t toks start kv.
       (toks @ take (min 1 limit) [65], if t > 1 then Some (Runtime_error ''engine'') else None, kv))\<rparr>"

definition toy_pool :: "nat gemma_pool" where
  "toy_pool = \<lparr>gp_loaded = True, gp_sessions = [], gp_policy = default_cache_policy, gp_access = 0\<rparr>"

lemma toy_engine_ok: "engine_ok toy_engine"
  by (auto simp: engine_ok_def toy_engine_def)

lemma toy_pool_reachable: "gemma_reachable toy_engine toy_pool"
proof -
  let ?fs = "\<lparr>fs_regular = \<lambda>_. True, fs_size = \<lambda>_. Some 1, fs_has_byte = \<lambda>_. Some True\<rparr>"
  have "gemma_reachable toy_engine
      (snd (gemma_initialize ?fs (Inr ()) ''w'' [] default_cache_policy new_gemma_pool))"
    by (intro gemma_load gemma_start)
  then show ?thesis
    by (simp add: gemma_initialize_def validateReadableFile_def policy_valid_def default_cache_policy_def
        new_gemma_pool_def toy_pool_def)
qed

lemmas generate_defs = generateImpl_def pruneExpiredLocked_def can_reuse_def gemma_tokens_def append_part_def
  obtain_session_def run_session_def validateBudget_def

lemma toy_generate:
  "generateFromHistory toy_engine ''k'' [(''q'', 0)] (Some (\<lambda>_. None)) (Some 1) 5 0 1 toy_pool =
     (Inr (), [''A''], toy_pool\<lparr>gp_sessions := [(''k'', \<lparr>kv_cache = 1024, abs_pos = 2, transcript = [''q'', ''A''],
        last_used = 1, access_order = 1\<rparr>)], gp_access := 1\<rparr>)"
  by (simp add: generateFromHistory_def generate_defs Let_def toy_pool_def toy_engine_def
      default_cache_policy_def evict.simps)

theorem gemma_cache_bounded_witness:
  "length (gp_sessions (snd (snd (generateFromHistory toy_engine ''k'' [(''q'', 0)] (Some (\<lambda>_. None)) (Some 1) 5 0 1
     toy_pool)))) \<le> 2"
  using gemma_cache_bounded [OF gemma_history [OF toy_pool_reachable] toy_engine_ok,
      of "''k''" "[(''q'', 0)]" "Some (\<lambda>_. None)" "Some 1" 5 0 1]
  unfolding toy_generate by simp

definition used_pool :: "nat gemma_pool" where
  "used_pool = toy_pool\<lparr>gp_sessions := [(''k'', \<lparr>kv_cache = 1024, abs_pos = 2, transcript = [''q'', ''A''],
     last_used = 1, access_order = 1\<rparr>)], gp_access := 1\<rparr>"

theorem gemma_failure_keeps_caches_witness:
  "map_of (gp_sessions (snd (snd (generateImpl toy_engine ''j'' ''q'' None None (Some 2) 5 2 3 used_pool)))) ''k'' =
     map_of (gp_sessions used_pool) ''k''"
proof -
  let ?g = "generateImpl toy_engine ''j'' ''q'' None None (Some 2) 5 2 3 used_pool"
  have g: "?g = (Inl (Runtime_error ''engine''), [], used_pool)"
    by (simp add: generate_defs Let_def used_pool_def toy_pool_def toy_engine_def default_cache_policy_def
        evict.simps)
  show ?thesis
    using gemma_failure_keeps_caches [OF g, of "''k''" "the (map_of (gp_sessions used_pool) ''k'')"]
    unfolding g by (simp add: used_pool_def)
qed

section \<open>What the model has read\<close>

text \<open>
  What a cache stands for is a matter of the engine: \<open>content\<close> is the tokens it was run on and those it generated, in
  their order. A new cache has none. A run passes the tokens of its prompt to the stream callback, then those it
  generates, and the cache then stands for what it stood for up to the start position, followed by
  all of these. This is how the code uses \<^verbatim>\<open>Generate\<close>, \<^verbatim>\<open>abs_pos\<close> and the first calls of the callback.
\<close>

definition engine_content :: "'kv engine \<Rightarrow> ('kv \<Rightarrow> int list) \<Rightarrow> bool" where
  "engine_content eng content \<longleftrightarrow>
     (\<forall>p kv. eng_new_cache eng p = Inr kv \<longrightarrow> content kv = []) \<and>
     (\<forall>limit t toks start kv out kv'. eng_Generate eng limit t toks start kv = (out, None, kv') \<longrightarrow>
        (\<exists>gen. out = toks @ gen) \<and> content kv' = take start (content kv) @ out)"

text \<open>The text of generated tokens, and the tokens of a conversation that is read from its start.\<close>

definition decoded :: "'kv engine \<Rightarrow> int list \<Rightarrow> string" where
  "decoded eng gen = concat (List.map_filter (\<lambda>t. if eng_IsEOS eng t then None else eng_Decode eng t) gen)"

fun history_tokens :: "'kv engine \<Rightarrow> nat \<Rightarrow> int list \<Rightarrow> string list \<Rightarrow> int list" where
  "history_tokens eng i ts [] = ts"
| "history_tokens eng i ts (m # ms) =
     history_tokens eng (i + 1) (ts @ (if i mod 2 = 0 then eng_Wrap eng (length ts) m else the (eng_Encode eng m))) ms"

text \<open>
  The context of a conversation that ends with a message of the user: its messages in turn and nothing else. It was read
  from its start, or it continues the context of an earlier turn, after which the model had generated the
  answer that follows.
\<close>

inductive context_of :: "'kv engine \<Rightarrow> string list \<Rightarrow> int list \<Rightarrow> bool" for eng where
  context_read: "context_of eng ms (history_tokens eng 0 [] ms)"
| context_turn: "context_of eng ms ts \<Longrightarrow>
    context_of eng (ms @ [decoded eng gen, m]) (ts @ gen @ eng_Wrap eng (length ts + length gen) m)"

definition content_ok :: "'kv engine \<Rightarrow> ('kv \<Rightarrow> int list) \<Rightarrow> 'kv session_data \<Rightarrow> bool" where
  "content_ok eng content d \<longleftrightarrow> abs_pos d = length (content (kv_cache d)) \<and>
     (transcript d \<noteq> [] \<longrightarrow> (\<exists>ms ts gen. transcript d = ms @ [decoded eng gen] \<and> context_of eng ms ts \<and>
        content (kv_cache d) = ts @ gen))"

lemma append_history_tokens:
  "append_history eng policy 0 h i ts = Inr tokens \<Longrightarrow> tokens = history_tokens eng i ts (map fst h)"
proof (induction h arbitrary: i ts)
  case (Cons e h)
  obtain m x where e: "e = (m, x)" by (cases e)
  with Cons.prems obtain ts1 where "append_part eng policy 0 ts m (i mod 2 = 0) = Inr ts1"
    "append_history eng policy 0 h (i + 1) ts1 = Inr tokens" by (auto simp: bind_result_Inr)
  with Cons.IH [of "i + 1" ts1] e show ?case
    by (auto simp: append_part_def Let_def split: option.splits if_splits)
qed simp

lemma decoded_Cons:
  "decoded eng (t # ts) = (if eng_IsEOS eng t then [] else case eng_Decode eng t of None \<Rightarrow> [] | Some x \<Rightarrow> x) @ decoded eng ts"
  by (simp add: decoded_def List.map_filter_simps split: option.split)

lemma stream_loop_decoded:
  "stream_loop eng n on_token toks (k, a, out) = (None, k', a', out') \<Longrightarrow> a' = a @ decoded eng (drop (n - k) toks)"
proof (induction toks arbitrary: k a out)
  case Nil
  then show ?case by (simp add: decoded_def List.map_filter_simps)
next
  case (Cons t toks)
  show ?case
  proof (cases "k + 1 \<le> n")
    case True
    then have "stream_loop eng n on_token toks (k + 1, a, out) = (None, k', a', out')" using Cons.prems by simp
    moreover have "n - k = Suc (n - (k + 1))" using True by simp
    ultimately show ?thesis using Cons.IH by (metis drop_Suc_Cons)
  next
    case False
    then have d: "drop (n - k) (t # toks) = t # toks" "n - (k + 1) = 0" by simp_all
    show ?thesis
    proof (cases "eng_IsEOS eng t \<or> eng_Decode eng t = None")
      case True
      then have "stream_loop eng n on_token toks (k + 1, a, out) = (None, k', a', out')"
        using Cons.prems by (auto split: if_splits)
      from Cons.IH [OF this] True d show ?thesis by (auto simp: decoded_Cons)
    next
      case F: False
      then obtain piece where p: "eng_Decode eng t = Some piece" "\<not> eng_IsEOS eng t" by auto
      with Cons.prems False obtain out1 where "stream_loop eng n on_token toks (k + 1, a @ piece, out1) = (None, k', a', out')"
        by (auto split: option.splits)
      from Cons.IH [OF this] p d show ?thesis by (simp add: decoded_Cons)
    qed
  qed
qed

text \<open>A successful run: what the engine was given, and what the entry says of the cache afterwards.\<close>

lemma run_session_content:
  assumes "engine_content eng content" and "abs_pos d = length (content (kv_cache d))"
    and "run_session eng key tokens (abs_pos d) history on_token t max_tokens now d s = (Inr u, out, s')"
  obtains gen kv' d' where
    "eng_Generate eng max_tokens t tokens (length (content (kv_cache d))) (kv_cache d) = (tokens @ gen, None, kv')"
    and "content kv' = content (kv_cache d) @ tokens @ gen"
    and "map_of (gp_sessions s') key = Some d'" and "kv_cache d' = kv'" and "abs_pos d' = length (content kv')"
    and "transcript d' = (case history of None \<Rightarrow> [] | Some h \<Rightarrow> map fst h @ [decoded eng gen])"
    and "on_token \<noteq> None \<longrightarrow> concat out = decoded eng gen"
    and "\<And>k. k \<noteq> key \<Longrightarrow> map_of (gp_sessions s') k = map_of (gp_sessions s) k"
proof -
  obtain toks exn kv' where g: "eng_Generate eng max_tokens t tokens (abs_pos d) (kv_cache d) = (toks, exn, kv')"
    by (cases "eng_Generate eng max_tokens t tokens (abs_pos d) (kv_cache d)") auto
  obtain cb streamed answer out1 where
    l: "stream_loop eng (length tokens) on_token toks (0, [], []) = (cb, streamed, answer, out1)"
    by (cases "stream_loop eng (length tokens) on_token toks (0, [], [])") auto
  let ?d = "\<lparr>kv_cache = kv', abs_pos = abs_pos d + streamed,
    transcript = (case history of None \<Rightarrow> [] | Some h \<Rightarrow> map fst h @ [answer]), last_used = now, access_order = gp_access s + 1\<rparr>"
  from assms(3) have n: "cb = None" "exn = None" "out1 = out" and s': "gp_sessions s' = AList.update key ?d (gp_sessions s)"
    by (auto simp: run_session_def g l Let_def split: option.splits)
  from assms(1) g n(2) obtain gen where gen: "toks = tokens @ gen"
    and c: "content kv' = take (abs_pos d) (content (kv_cache d)) @ toks" unfolding engine_content_def by metis
  have a: "answer = decoded eng gen" using stream_loop_decoded [of eng _ on_token toks 0] l n(1) gen by fastforce
  have st: "streamed = length toks" "on_token \<noteq> None \<longrightarrow> concat out = answer"
    using stream_loop_result [OF l] n by auto
  show thesis
    by (rule that [of gen kv' ?d]) (use g gen n c a st assms(2) s' in \<open>auto simp: update_conv'\<close>)
qed

lemma content_ok_run:
  assumes "engine_content eng content" "umap_ok (gp_sessions s)"
    and ok: "\<And>k d. map_of (gp_sessions s) k = Some d \<Longrightarrow> content_ok eng content d"
    and run: "generateImpl eng key prompt history on_token t max_tokens now now' s = (Inr u, out, s')"
    and prompt: "\<And>h. history = Some h \<Longrightarrow> h \<noteq> [] \<Longrightarrow> prompt = fst (last h)"
  obtains kv tokens gen kv' d' where
    "eng_Generate eng max_tokens (the t) tokens (length (content kv)) kv = (tokens @ gen, None, kv')"
    and "\<And>h. history = Some h \<Longrightarrow> context_of eng (map fst h) (content kv @ tokens)"
    and "content kv' = content kv @ tokens @ gen"
    and "map_of (gp_sessions s') key = Some d'" and "kv_cache d' = kv'" and "abs_pos d' = length (content kv')"
    and "transcript d' = (case history of None \<Rightarrow> [] | Some h \<Rightarrow> map fst h @ [decoded eng gen])"
    and "on_token \<noteq> None \<longrightarrow> concat out = decoded eng gen"
    and "\<And>k d. k \<noteq> key \<Longrightarrow> map_of (gp_sessions s') k = Some d \<Longrightarrow> content_ok eng content d"
proof -
  let ?s1 = "pruneExpiredLocked now s"
  note u1 = umap_ok_prune [OF assms(2), of now]
  have ok1: "map_of (gp_sessions ?s1) k = Some d \<Longrightarrow> content_ok eng content d" for k d
    using map_of_prune [OF assms(2)] ok by blast
  from run show ?thesis
  proof (cases rule: generateImpl_split)
    case (run reused start tokens d s2)
    show ?thesis
    proof (cases reused)
      case None
      then have d: "content (kv_cache d) = []" "abs_pos d = 0" and start: "start = abs_pos d"
        using run(2,4) assms(1) by (auto simp: obtain_session_def Let_def engine_content_def split: sum.splits)
      have ctx: "context_of eng (map fst h) (content (kv_cache d) @ tokens)" if "history = Some h" for h
      proof -
        have "append_history eng (gp_policy s) 0 h 0 [] = Inr tokens"
          using run(2,3) None that by (simp add: gemma_tokens_def)
        from append_history_tokens [OF this] show ?thesis by (simp add: d context_read)
      qed
      have rest: "k \<noteq> key \<Longrightarrow> map_of (gp_sessions s2) k = Some x \<Longrightarrow> content_ok eng content x" for k x
        using obtain_session_entries [OF u1] run(4) None ok1 by blast
      have p: "abs_pos d = length (content (kv_cache d))" using d by simp
      from run(5) [unfolded start] show ?thesis
        by (rule run_session_content [OF assms(1) p]) (rule that, use ctx rest in auto)
    next
      case (Some x)
      then have x: "map_of (gp_sessions ?s1) key = Some x" "can_reuse history (Some x)"
        using run(1) by (auto simp: Let_def split: if_splits)
      have d: "d = x" "s2 = ?s1" "start = abs_pos d" using run(2,4) Some by (simp_all add: obtain_session_def)
      have cx: "content_ok eng content d" using ok1 [OF x(1)] d by simp
      then have p: "abs_pos d = length (content (kv_cache d))" by (simp add: content_ok_def)
      have ctx: "context_of eng (map fst h) (content (kv_cache d) @ tokens)" if hs: "history = Some h" for h
      proof -
        have h: "h \<noteq> []" "transcript d \<noteq> []" "transcript d = map fst (butlast h)"
          using x(2) hs d can_reuse_Some [of h x] by auto
        obtain ms ts gen where t: "transcript d = ms @ [decoded eng gen]" "context_of eng ms ts"
          "content (kv_cache d) = ts @ gen" using cx h(2) by (auto simp: content_ok_def)
        have tok: "tokens = eng_Wrap eng (abs_pos d) (fst (last h))"
          using run(3) Some hs prompt [OF hs h(1)] d
          by (auto simp: gemma_tokens_def append_part_def Let_def split: option.splits if_splits)
        have "map fst h = map fst (butlast h) @ [fst (last h)]"
          using h(1) by (metis append_butlast_last_id list.simps(8,9) map_append)
        then have "map fst h = ms @ [decoded eng gen, fst (last h)]" using h(3) t(1) by simp
        moreover have "content (kv_cache d) @ tokens = ts @ gen @ eng_Wrap eng (length ts + length gen) (fst (last h))"
          using tok p t(3) by simp
        ultimately show ?thesis using context_turn [OF t(2)] by simp
      qed
      have rest: "k \<noteq> key \<Longrightarrow> map_of (gp_sessions s2) k = Some y \<Longrightarrow> content_ok eng content y" for k y
        using ok1 d(2) by blast
      from run(5) [unfolded d(3)] show ?thesis
        by (rule run_session_content [OF assms(1) p]) (rule that, use ctx rest in auto)
    qed
  qed simp_all
qed

lemma content_ok_generate:
  assumes "engine_content eng content" "umap_ok (gp_sessions s)"
    and ok: "\<And>k d. map_of (gp_sessions s) k = Some d \<Longrightarrow> content_ok eng content d"
    and prompt: "\<And>h. history = Some h \<Longrightarrow> h \<noteq> [] \<Longrightarrow> prompt = fst (last h)"
    and e: "map_of (gp_sessions (snd (snd (generateImpl eng key prompt history on_token t max_tokens now now' s)))) k = Some d"
  shows "content_ok eng content d"
proof -
  obtain r out s' where g: "generateImpl eng key prompt history on_token t max_tokens now now' s = (r, out, s')"
    by (metis prod_cases3)
  show ?thesis
  proof (cases r)
    case (Inl x)
    from gemma_failure_keeps_caches [OF g [unfolded Inl], of k d] assms(2) e g ok show ?thesis
      by (simp add: umap_ok_def)
  next
    case (Inr u)
    show ?thesis
    proof (rule content_ok_run [OF assms(1,2) ok g [unfolded Inr] prompt], goal_cases)
      case (4 kv tokens gen kv' d')
      have c: "content (kv_cache d') = (content kv @ tokens) @ gen" using 4(3,5) by simp
      have "content_ok eng content d'"
      proof (cases history)
        case (Some h)
        with 4(7) have "transcript d' = map fst h @ [decoded eng gen]" by simp
        with c 4(2) [OF Some] show ?thesis unfolding content_ok_def using 4(5,6) by blast
      qed (use 4(5-7) in \<open>simp add: content_ok_def\<close>)
      then show ?case using 4(4,9) e g by (cases "k = key") auto
    qed assumption+
  qed
qed

lemma gemma_reachable_content:
  assumes "gemma_reachable eng s" "engine_ok eng" "engine_content eng content"
  shows "map_of (gp_sessions s) k = Some d \<Longrightarrow> content_ok eng content d"
  using assms(1)
proof (induction arbitrary: k d rule: gemma_reachable.induct)
  case gemma_start
  then show ?case by (simp add: new_gemma_pool_def)
next
  case (gemma_load s fs ld weights tokenizer policy)
  then show ?case by (auto simp: gemma_initialize_def split: if_splits sum.splits)
next
  case (gemma_prompt s key prompt on_token t max_tokens now now')
  have u: "umap_ok (gp_sessions s)" using gemma_reachable_ok [OF gemma_prompt(1) assms(2)] by (simp add: gemma_ok_def entries_ok_def)
  show ?case
    by (rule content_ok_generate [OF assms(3) u gemma_prompt.IH _ gemma_prompt.prems [unfolded gemma_generate_def]]) simp_all
next
  case (gemma_history s key h on_token t max_tokens now now')
  have u: "umap_ok (gp_sessions s)" using gemma_reachable_ok [OF gemma_history(1) assms(2)] by (simp add: gemma_ok_def entries_ok_def)
  show ?case
    by (rule content_ok_generate [OF assms(3) u gemma_history.IH _ gemma_history.prems [unfolded generateFromHistory_def]]) simp_all
next
  case (gemma_clear s key)
  then show ?case by (auto simp: clearSession_def delete_conv' split: if_splits)
qed (simp add: gemma_shutdown_def)

text \<open>
  C39. The model answers in the context of the supplied history and of nothing else. In every run of the pool, when a
  generation from a history succeeds, the cache it ran on, up to the position it ran from, and the tokens it ran on together
  are the context of exactly that history: its messages in turn, read from the start or continued from the turns this
  cache had already seen. The answer is the text of what was generated; it is recorded after the
  history, beside the cache that now stands for both, and a next request that extends this conversation
  continues the cache.
\<close>

theorem gemma_answers_in_context:
  assumes "gemma_reachable eng s" "engine_ok eng" "engine_content eng content"
    and "generateSyncFromHistory eng key h t max_tokens now now' s = (Inr answer, s')"
  shows "\<exists>kv tokens gen kv' d'.
    eng_Generate eng max_tokens (the t) tokens (length (content kv)) kv = (tokens @ gen, None, kv') \<and>
    context_of eng (map fst h) (content kv @ tokens) \<and> answer = decoded eng gen \<and>
    map_of (gp_sessions s') key = Some d' \<and> kv_cache d' = kv' \<and> content kv' = content kv @ tokens @ gen \<and>
    abs_pos d' = length (content kv') \<and> transcript d' = map fst h @ [answer] \<and>
    can_reuse (Some (h @ [(answer, t1), (q, t2)])) (map_of (gp_sessions s') key)"
proof -
  have u: "umap_ok (gp_sessions s)" using gemma_reachable_ok [OF assms(1,2)] by (simp add: gemma_ok_def entries_ok_def)
  obtain out where out: "answer = concat out"
    and g: "generateImpl eng key (if h = [] then [] else fst (last h)) (Some h) (Some (\<lambda>_. None)) t max_tokens
      now now' s = (Inr (), out, s')"
    using assms(4) by (auto simp: generateSyncFromHistory_def generateFromHistory_def split: prod.splits sum.splits)
  show ?thesis
  proof (rule content_ok_run [OF assms(3) u gemma_reachable_content [OF assms(1-3)] g], goal_cases)
    case (3 kv tokens gen kv' d')
    then have "transcript d' = map fst h @ [answer]" "answer = decoded eng gen" using out by simp_all
    moreover from this have "can_reuse (Some (h @ [(answer, t1), (q, t2)])) (map_of (gp_sessions s') key)"
      using 3(4) by (simp add: can_reuse_Some butlast_append)
    ultimately show ?case using 3 by blast
  qed simp_all
qed

text \<open>An engine whose caches are tapes: the tokens of the texts, and one token for an answer.\<close>

definition tape_engine :: "(nat \<times> int list) engine" where
  "tape_engine = \<lparr>eng_Encode = (\<lambda>m. Some (map (\<lambda>c. int (of_char c)) m)),
     eng_Wrap = (\<lambda>pos m. map (\<lambda>c. int (of_char c)) m),
     eng_Decode = (\<lambda>t. if t = 0 then None else Some ''A''), eng_IsEOS = (\<lambda>t. t = -1),
     eng_new_cache = (\<lambda>p. Inr (sequence_tokens p, [])), eng_SeqLen = fst,
     eng_Generate = (\<lambda>limit t toks start kv.
       (toks @ take (min 1 limit) [65], None, (fst kv, take start (snd kv) @ toks @ take (min 1 limit) [65])))\<rparr>"

lemma tape_engine_ok: "engine_ok tape_engine" "engine_content tape_engine snd"
  by (auto simp: engine_ok_def engine_content_def tape_engine_def)

definition tape_pool :: "(nat \<times> int list) gemma_pool" where
  "tape_pool = \<lparr>gp_loaded = True, gp_sessions = [], gp_policy = default_cache_policy, gp_access = 0\<rparr>"

lemma tape_pool_reachable: "gemma_reachable tape_engine tape_pool"
proof -
  let ?fs = "\<lparr>fs_regular = \<lambda>_. True, fs_size = \<lambda>_. Some 1, fs_has_byte = \<lambda>_. Some True\<rparr>"
  have "gemma_reachable tape_engine
      (snd (gemma_initialize ?fs (Inr ()) ''w'' [] default_cache_policy new_gemma_pool))"
    by (intro gemma_load gemma_start)
  then show ?thesis
    by (simp add: gemma_initialize_def validateReadableFile_def policy_valid_def default_cache_policy_def
        new_gemma_pool_def tape_pool_def)
qed

abbreviation first_turn :: "(nat \<times> int list) gemma_pool" where
  "first_turn \<equiv> snd (snd (generateFromHistory tape_engine ''k'' [(''q'', 0)] (Some (\<lambda>_. None)) (Some 1) 5 0 1 tape_pool))"

lemma tape_turns:
  "first_turn = tape_pool\<lparr>gp_sessions := [(''k'', \<lparr>kv_cache = (1024, [113, 65]), abs_pos = 2, transcript = [''q'', ''A''],
     last_used = 1, access_order = 1\<rparr>)], gp_access := 1\<rparr>"
  "\<exists>s'. generateSyncFromHistory tape_engine ''k'' [(''q'', 0), (''A'', 1), (''r'', 2)] (Some 1) 5 2 3 first_turn = (Inr ''A'', s')"
  by (simp_all add: generateSyncFromHistory_def generateFromHistory_def generate_defs Let_def tape_pool_def tape_engine_def
      default_cache_policy_def evict.simps)

theorem gemma_answers_in_context_witness:
  "\<exists>s' kv tokens. generateSyncFromHistory tape_engine ''k'' [(''q'', 0), (''A'', 1), (''r'', 2)] (Some 1) 5 2 3 first_turn = (Inr ''A'', s') \<and>
     context_of tape_engine [''q'', ''A'', ''r''] (snd kv @ tokens) \<and>
     can_reuse (Some [(''q'', 0), (''A'', 1), (''r'', 2), (''A'', 3), (''x'', 4)]) (map_of (gp_sessions s') ''k'')"
proof -
  obtain s' where g: "generateSyncFromHistory tape_engine ''k'' [(''q'', 0), (''A'', 1), (''r'', 2)] (Some 1) 5 2 3 first_turn =
      (Inr ''A'', s')" using tape_turns(2) by blast
  have "gemma_reachable tape_engine first_turn" by (rule gemma_history [OF tape_pool_reachable])
  from gemma_answers_in_context [OF this tape_engine_ok g, of 3 "''x''" 4] g show ?thesis by auto
qed

end
