(* ===== verification/MQ_Manager.thy ===== *)
theory MQ_Manager
  imports Cpp_Prelude
begin

text \<open>
  \<^verbatim>\<open>AIApps/ChatServer/include/AIUtil/MQManager.h\<close> and \<^verbatim>\<open>AIApps/ChatServer/src/AIUtil/MQManager.cpp\<close>: the client of the
  message broker. Everything but the admission of a message runs on one event loop, so the
  model is a state machine whose steps are the callbacks: the state holds the queue of tasks and the
  timers the handler has put on the loop. What AMQP-CPP does is an argument (whether \<^verbatim>\<open>publish\<close> and
  connecting succeed) or an event (confirmations, losses, deliveries); what the handler asks of the
  broker is recorded in a list of actions. The JSON library is a parameter: how often a job was tried, and
  the job with that number replaced. The descriptors watched for the connection are in \<open>MQ_Channels\<close>, the steps by which its channels are made ready in \<open>MQ_Setup\<close>;
  publish tags are unbounded numbers.
\<close>

section \<open>Data\<close>

datatype disposition = Disp_Ack | Disp_Retry | Disp_Reject

text \<open>A publication; its completion, if any, answers the delivery with that generation and tag.\<close>

record publication =
  pub_queue :: string
  pub_body :: string
  pub_completion :: "(nat \<times> nat) option"

datatype mq_task =
    Task_recover
  | Task_push publication
  | Task_complete nat nat disposition string

datatype mq_timer =
    Timer_reconnect nat
  | Timer_republish nat nat nat string string

datatype mq_action =
    Act_publish string string
  | Act_ack nat
  | Act_requeue nat

record mq_handler =
  mq_queueName :: string
  mq_alive :: bool
  mq_shuttingDown :: bool
  mq_producerReady :: bool
  mq_recovering :: bool
  mq_reconnectScheduled :: bool
  mq_connection :: bool
  mq_producer :: bool
  mq_consumer :: bool
  mq_pending :: "publication list"
  mq_inflight :: "(nat, publication) smap"
  mq_outstanding :: nat
  mq_generation :: nat
  mq_nextTag :: nat
  mq_delay :: nat
  mq_tasks :: "mq_task list"
  mq_timers :: "mq_timer list"
  mq_actions :: "mq_action list"

definition MaxPending :: nat where "MaxPending = 10000"
definition MaxInflight :: nat where "MaxInflight = 128"

definition new_handler :: "string \<Rightarrow> mq_handler" where
  "new_handler queue = \<lparr>mq_queueName = queue, mq_alive = True, mq_shuttingDown = False,
     mq_producerReady = False, mq_recovering = False, mq_reconnectScheduled = False,
     mq_connection = False, mq_producer = False, mq_consumer = False, mq_pending = [], mq_inflight = [],
     mq_outstanding = 0, mq_generation = 0, mq_nextTag = 1, mq_delay = 5, mq_tasks = [], mq_timers = [],
     mq_actions = []\<rparr>"

section \<open>Losing and regaining the connection\<close>

definition connectionFailed :: "mq_handler \<Rightarrow> mq_handler" where
  "connectionFailed h =
     (if mq_shuttingDown h \<or> mq_recovering h then h
      else h\<lparr>mq_recovering := True, mq_producerReady := False, mq_tasks := mq_tasks h @ [Task_recover]\<rparr>)"

definition mq_connect :: "bool \<Rightarrow> mq_handler \<Rightarrow> mq_handler" where
  "mq_connect constructs h =
     (let h1 = h\<lparr>mq_recovering := False\<rparr>
      in if constructs then h1\<lparr>mq_connection := True\<rparr> else connectionFailed h1)"

text \<open>Unconfirmed sends go back to the front of the queue, in their order.\<close>

definition disconnect :: "mq_handler \<Rightarrow> mq_handler" where
  "disconnect h =
     h\<lparr>mq_generation := mq_generation h + 1, mq_producerReady := False,
       mq_pending := foldl (\<lambda>pending e. snd e # pending) (mq_pending h) (rev (mq_inflight h)),
       mq_inflight := [], mq_nextTag := 1, mq_consumer := False, mq_producer := False,
       mq_connection := False\<rparr>"

definition scheduleReconnect :: "mq_handler \<Rightarrow> mq_handler" where
  "scheduleReconnect h =
     (if mq_shuttingDown h \<or> mq_reconnectScheduled h then h
      else h\<lparr>mq_reconnectScheduled := True, mq_timers := mq_timers h @ [Timer_reconnect (mq_delay h)]\<rparr>)"

definition mq_stop :: "mq_handler \<Rightarrow> mq_handler" where
  "mq_stop h =
     disconnect (h\<lparr>mq_shuttingDown := True, mq_alive := False,
                   mq_timers := filter (\<lambda>t. case t of Timer_reconnect _ \<Rightarrow> False | _ \<Rightarrow> True) (mq_timers h)\<rparr>)"

section \<open>Publishing\<close>

function drainPending :: "(publication \<Rightarrow> bool) \<Rightarrow> mq_handler \<Rightarrow> mq_handler" where
  "drainPending accepts h =
     (if \<not> mq_producerReady h \<or> mq_recovering h \<or> \<not> mq_producer h then h
      else case mq_pending h of
          [] \<Rightarrow> h
        | item # rest \<Rightarrow>
            (if length (mq_inflight h) < MaxInflight
             then if \<not> accepts item then connectionFailed h
                  else drainPending accepts
                         (h\<lparr>mq_actions := mq_actions h @ [Act_publish (pub_queue item) (pub_body item)],
                            mq_inflight := smap_put (mq_nextTag h) item (mq_inflight h),
                            mq_nextTag := mq_nextTag h + 1, mq_pending := rest\<rparr>)
             else h))"
  by pat_completeness auto
termination
  by (relation "measure (\<lambda>(a, h). length (mq_pending h))") auto

declare drainPending.simps [simp del]

definition schedulePublish ::
  "string \<Rightarrow> string \<Rightarrow> (nat \<times> nat) option \<Rightarrow> mq_handler \<Rightarrow> bool \<times> mq_handler" where
  "schedulePublish queue body completion h =
     (if \<not> mq_alive h then (False, h)
      else if mq_outstanding h \<ge> MaxPending then (False, h)
      else (True, h\<lparr>mq_outstanding := mq_outstanding h + 1,
                    mq_tasks := mq_tasks h @
                      [Task_push \<lparr>pub_queue = queue, pub_body = body, pub_completion = completion\<rparr>]\<rparr>))"

text \<open>The completion of a replacement: answer the original delivery, if it is still of this connection.\<close>

definition confirmed :: "(nat \<times> nat) option \<Rightarrow> bool \<Rightarrow> mq_handler \<Rightarrow> mq_handler" where
  "confirmed completion ok h =
     (case completion of
        None \<Rightarrow> h
      | Some (generation, tag) \<Rightarrow>
          (if mq_alive h \<and> generation = mq_generation h \<and> mq_consumer h
           then h\<lparr>mq_actions := mq_actions h @ [if ok then Act_ack tag else Act_requeue tag]\<rparr>
           else h))"

fun confirm_loop :: "nat \<Rightarrow> bool \<Rightarrow> (nat, publication) smap \<Rightarrow> mq_handler \<Rightarrow> mq_handler" where
  "confirm_loop tag multiple [] h = h"
| "confirm_loop tag multiple ((k, item) # rest) h =
     (if (\<not> multiple \<and> k \<noteq> tag) \<or> (multiple \<and> k > tag) then confirm_loop tag multiple rest h
      else confirm_loop tag multiple rest
             (confirmed (pub_completion item) True
               (h\<lparr>mq_inflight := smap_del k (mq_inflight h), mq_outstanding := mq_outstanding h - 1\<rparr>)))"

definition confirm :: "(publication \<Rightarrow> bool) \<Rightarrow> nat \<Rightarrow> bool \<Rightarrow> bool \<Rightarrow> mq_handler \<Rightarrow> mq_handler" where
  "confirm accepts tag multiple accepted h =
     (if mq_recovering h \<or> mq_shuttingDown h then h
      else if \<not> accepted then connectionFailed h
      else drainPending accepts (confirm_loop tag multiple (mq_inflight h) h))"

section \<open>The connection's callbacks\<close>

definition onConnected :: "mq_handler \<Rightarrow> mq_handler" where
  "onConnected h = h\<lparr>mq_delay := 5, mq_producer := True, mq_consumer := True\<rparr>"

text \<open>Both queues are declared and confirmations are on.\<close>

definition producer_confirms :: "(publication \<Rightarrow> bool) \<Rightarrow> mq_handler \<Rightarrow> mq_handler" where
  "producer_confirms accepts h = drainPending accepts (h\<lparr>mq_producerReady := True\<rparr>)"

section \<open>Deliveries\<close>

text \<open>The answer of a message handler, the first time it is given.\<close>

definition answer_delivery :: "nat \<Rightarrow> nat \<Rightarrow> disposition \<Rightarrow> string \<Rightarrow> mq_handler \<Rightarrow> mq_handler" where
  "answer_delivery generation tag result body h =
     h\<lparr>mq_tasks := mq_tasks h @ [Task_complete generation tag result body]\<rparr>"

text \<open>
  \<^verbatim>\<open>onConsumerMessage\<close>: \<open>handler\<close> is what the message handler does before it returns; \<open>Inl\<close> is an
  exception, \<open>Inr None\<close> an answer that comes later, \<open>None\<close> is no handler at all. An answer
  given before an exception counts, a second one does not.
\<close>

definition onConsumerMessage ::
  "(disposition option + disposition option) option \<Rightarrow> string \<Rightarrow> nat \<Rightarrow> mq_handler \<Rightarrow> mq_handler" where
  "onConsumerMessage handler body tag h =
     (case handler of
        None \<Rightarrow> answer_delivery (mq_generation h) tag Disp_Retry body h
      | Some (Inl None) \<Rightarrow> answer_delivery (mq_generation h) tag Disp_Retry body h
      | Some (Inl (Some d)) \<Rightarrow> answer_delivery (mq_generation h) tag d body h
      | Some (Inr None) \<Rightarrow> h
      | Some (Inr (Some d)) \<Rightarrow> answer_delivery (mq_generation h) tag d body h)"

definition retry_delay :: "nat \<Rightarrow> nat" where
  "retry_delay attempt = min 30 (2 ^ attempt)"

text \<open>Where an unfinished delivery goes: back to its queue after a pause, or to the dead-letter queue.\<close>

definition republication ::
  "(string \<Rightarrow> int option) \<Rightarrow> (string \<Rightarrow> int \<Rightarrow> string option) \<Rightarrow> string \<Rightarrow> disposition \<Rightarrow> string \<Rightarrow>
   nat \<times> string \<times> string" where
  "republication job_attempt job_bump queueName result body =
     (let dead = (0, queueName @ ''.dead'', body)
      in if result = Disp_Retry
         then case job_attempt body of
                None \<Rightarrow> dead
              | Some attempt \<Rightarrow>
                  (if attempt \<ge> 0 \<and> attempt < 5
                   then case job_bump body (attempt + 1) of
                          None \<Rightarrow> dead
                        | Some b \<Rightarrow> (retry_delay (nat attempt), queueName, b)
                   else dead)
         else dead)"

definition completeDelivery ::
  "(string \<Rightarrow> int option) \<Rightarrow> (string \<Rightarrow> int \<Rightarrow> string option) \<Rightarrow>
   nat \<Rightarrow> nat \<Rightarrow> disposition \<Rightarrow> string \<Rightarrow> mq_handler \<Rightarrow> mq_handler" where
  "completeDelivery job_attempt job_bump generation tag result body h =
     (if generation \<noteq> mq_generation h \<or> \<not> mq_consumer h \<or> mq_recovering h then h
      else if result = Disp_Ack then h\<lparr>mq_actions := mq_actions h @ [Act_ack tag]\<rparr>
      else let (delay, target, body') = republication job_attempt job_bump (mq_queueName h) result body
           in h\<lparr>mq_timers := mq_timers h @ [Timer_republish delay generation tag target body']\<rparr>)"

section \<open>The event loop\<close>

definition run_task ::
  "(string \<Rightarrow> int option) \<Rightarrow> (string \<Rightarrow> int \<Rightarrow> string option) \<Rightarrow> (publication \<Rightarrow> bool) \<Rightarrow>
   mq_task \<Rightarrow> mq_handler \<Rightarrow> mq_handler" where
  "run_task job_attempt job_bump accepts t h =
     (if \<not> mq_alive h then h
      else case t of
          Task_recover \<Rightarrow> scheduleReconnect (disconnect h)
        | Task_push item \<Rightarrow> drainPending accepts (h\<lparr>mq_pending := mq_pending h @ [item]\<rparr>)
        | Task_complete generation tag result body \<Rightarrow>
            completeDelivery job_attempt job_bump generation tag result body h)"

definition fire_timer :: "bool \<Rightarrow> mq_timer \<Rightarrow> mq_handler \<Rightarrow> mq_handler" where
  "fire_timer constructs t h =
     (if \<not> mq_alive h then h
      else case t of
          Timer_reconnect d \<Rightarrow>
            mq_connect constructs (h\<lparr>mq_reconnectScheduled := False, mq_delay := min 60 (mq_delay h * 2)\<rparr>)
        | Timer_republish d generation tag target body \<Rightarrow>
            (if generation \<noteq> mq_generation h then h
             else case schedulePublish target body (Some (generation, tag)) h of
                    (True, h') \<Rightarrow> h'
                  | (False, h') \<Rightarrow> confirmed (Some (generation, tag)) False h'))"

text \<open>The manager around the handler: \<open>None\<close> before \<^verbatim>\<open>start\<close> and after \<^verbatim>\<open>shutdown\<close>.\<close>

definition mq_start :: "string \<Rightarrow> bool \<Rightarrow> mq_handler option \<Rightarrow> mq_handler option result" where
  "mq_start queue constructs manager =
     (case manager of
        Some h \<Rightarrow> throw (Logic_error ''MQManager already started'')
      | None \<Rightarrow> return (Some (mq_connect constructs (new_handler queue))))"

definition mq_publish :: "string \<Rightarrow> string \<Rightarrow> mq_handler option \<Rightarrow> bool \<times> mq_handler option" where
  "mq_publish queue body manager =
     (case manager of
        None \<Rightarrow> (False, None)
      | Some h \<Rightarrow> (case schedulePublish queue body None h of (ok, h') \<Rightarrow> (ok, Some h')))"

definition mq_shutdown :: "mq_handler option \<Rightarrow> mq_handler option" where
  "mq_shutdown manager = (case manager of None \<Rightarrow> None | Some h \<Rightarrow> (let h' = mq_stop h in None))"

section \<open>Runs\<close>

inductive mq_step ::
  "(string \<Rightarrow> int option) \<Rightarrow> (string \<Rightarrow> int \<Rightarrow> string option) \<Rightarrow> mq_handler \<Rightarrow> mq_handler \<Rightarrow> bool"
  for job_attempt job_bump where
  mq_admit: "mq_step job_attempt job_bump h (snd (schedulePublish queue body None h))"
| mq_task: "mq_tasks h = t # ts \<Longrightarrow>
    mq_step job_attempt job_bump h (run_task job_attempt job_bump accepts t (h\<lparr>mq_tasks := ts\<rparr>))"
| mq_timer: "mq_timers h = ts1 @ t # ts2 \<Longrightarrow>
    mq_step job_attempt job_bump h (fire_timer constructs t (h\<lparr>mq_timers := ts1 @ ts2\<rparr>))"
| mq_lost: "mq_alive h \<Longrightarrow> mq_step job_attempt job_bump h (connectionFailed h)"
| mq_up: "mq_alive h \<Longrightarrow> mq_connection h \<Longrightarrow> mq_step job_attempt job_bump h (onConnected h)"
| mq_ready: "mq_alive h \<Longrightarrow> mq_producer h \<Longrightarrow>
    mq_step job_attempt job_bump h (producer_confirms accepts h)"
| mq_confirm: "mq_alive h \<Longrightarrow> mq_producer h \<Longrightarrow>
    mq_step job_attempt job_bump h (confirm accepts tag multiple accepted h)"
| mq_writable: "mq_alive h \<Longrightarrow> mq_step job_attempt job_bump h (drainPending accepts h)"
| mq_deliver: "mq_alive h \<Longrightarrow> mq_consumer h \<Longrightarrow>
    mq_step job_attempt job_bump h (onConsumerMessage handler body tag h)"
| mq_answer: "mq_step job_attempt job_bump h (answer_delivery generation tag result body h)"
| mq_stopping: "mq_step job_attempt job_bump h (mq_stop h)"

inductive mq_reachable ::
  "(string \<Rightarrow> int option) \<Rightarrow> (string \<Rightarrow> int \<Rightarrow> string option) \<Rightarrow> mq_handler \<Rightarrow> bool"
  for job_attempt job_bump where
  mq_init: "mq_reachable job_attempt job_bump (mq_connect constructs (new_handler queue))"
| mq_next: "mq_reachable job_attempt job_bump h \<Longrightarrow> mq_step job_attempt job_bump h h' \<Longrightarrow>
    mq_reachable job_attempt job_bump h'"

section \<open>The messages the handler is responsible for\<close>

fun pushes :: "mq_task list \<Rightarrow> publication list" where
  "pushes [] = []"
| "pushes (Task_push p # ts) = p # pushes ts"
| "pushes (_ # ts) = pushes ts"

lemma pushes_append [simp]: "pushes (ts @ us) = pushes ts @ pushes us"
  by (induction ts rule: pushes.induct) auto

text \<open>In the order of their admission: sent and unconfirmed, waiting to be sent, still on the loop.\<close>

definition backlog :: "mq_handler \<Rightarrow> publication list" where
  "backlog h = map snd (mq_inflight h) @ mq_pending h @ pushes (mq_tasks h)"

definition mq_ok :: "mq_handler \<Rightarrow> bool" where
  "mq_ok h \<longleftrightarrow> smap_ok (mq_inflight h) \<and> (\<forall>k\<in>fst ` set (mq_inflight h). k < mq_nextTag h) \<and>
     length (mq_inflight h) \<le> MaxInflight \<and> 5 \<le> mq_delay h \<and> mq_delay h \<le> 60 \<and>
     mq_outstanding h \<le> MaxPending \<and> mq_shuttingDown h = (\<not> mq_alive h) \<and>
     (mq_alive h \<longrightarrow> mq_outstanding h = length (backlog h) \<and>
        (mq_connection h \<or> mq_recovering h \<or> mq_reconnectScheduled h) \<and>
        (mq_recovering h \<longrightarrow> Task_recover \<in> set (mq_tasks h) \<or> mq_reconnectScheduled h) \<and>
        (mq_reconnectScheduled h \<longrightarrow> (\<exists>d. Timer_reconnect d \<in> set (mq_timers h))))"

lemma smap_put_last: "(\<forall>k\<in>fst ` set m. k < t) \<Longrightarrow> smap_put t x m = m @ [(t, x)]"
  by (induction t x m rule: smap_put.induct) auto

lemma disconnect_pending:
  "foldl (\<lambda>pending e. snd e # pending) ps (rev m) = map snd m @ ps"
  by (induction m) simp_all

lemma backlog_disconnect: "backlog (disconnect h) = backlog h"
  by (simp add: backlog_def disconnect_def disconnect_pending)

lemma connectionFailed_ok [simp]: "mq_ok h \<Longrightarrow> mq_ok (connectionFailed h)"
  by (auto simp: mq_ok_def connectionFailed_def backlog_def)

lemma backlog_connectionFailed [simp]: "backlog (connectionFailed h) = backlog h"
  by (simp add: backlog_def connectionFailed_def)

subsection \<open>Draining\<close>

lemma drainPending_backlog:
  "smap_ok (mq_inflight h) \<Longrightarrow> \<forall>k\<in>fst ` set (mq_inflight h). k < mq_nextTag h \<Longrightarrow>
     backlog (drainPending accepts h) = backlog h"
proof (induction accepts h rule: drainPending.induct)
  case (1 accepts h)
  show ?case
  proof (cases "mq_producerReady h \<and> \<not> mq_recovering h \<and> mq_producer h \<and> mq_pending h \<noteq> [] \<and>
      length (mq_inflight h) < MaxInflight \<and> accepts (hd (mq_pending h))")
    case True
    obtain item rest where p: "mq_pending h = item # rest" using True by (cases "mq_pending h") auto
    let ?h = "h\<lparr>mq_actions := mq_actions h @ [Act_publish (pub_queue item) (pub_body item)],
                mq_inflight := smap_put (mq_nextTag h) item (mq_inflight h),
                mq_nextTag := mq_nextTag h + 1, mq_pending := rest\<rparr>"
    have step: "drainPending accepts h = drainPending accepts ?h"
      using True p by (subst drainPending.simps) simp
    note last = smap_put_last [OF "1.prems"(2)]
    have "backlog (drainPending accepts ?h) = backlog ?h"
      using True p "1.prems" smap_ok_put [OF "1.prems"(1), of "mq_nextTag h" item]
      by (intro "1.IH") (auto simp: last)
    moreover have "backlog ?h = backlog h" by (simp add: backlog_def p last)
    ultimately show ?thesis using step by simp
  next
    case False
    then show ?thesis by (subst drainPending.simps) (auto split: list.split)
  qed
qed

lemma drainPending_ok: "mq_ok h \<Longrightarrow> mq_ok (drainPending accepts h)"
proof (induction accepts h rule: drainPending.induct)
  case (1 accepts h)
  show ?case
  proof (cases "mq_producerReady h \<and> \<not> mq_recovering h \<and> mq_producer h \<and> mq_pending h \<noteq> [] \<and>
      length (mq_inflight h) < MaxInflight \<and> accepts (hd (mq_pending h))")
    case True
    obtain item rest where p: "mq_pending h = item # rest" using True by (cases "mq_pending h") auto
    let ?h = "h\<lparr>mq_actions := mq_actions h @ [Act_publish (pub_queue item) (pub_body item)],
                mq_inflight := smap_put (mq_nextTag h) item (mq_inflight h),
                mq_nextTag := mq_nextTag h + 1, mq_pending := rest\<rparr>"
    have step: "drainPending accepts h = drainPending accepts ?h"
      using True p by (subst drainPending.simps) simp
    have last: "smap_put (mq_nextTag h) item (mq_inflight h) = mq_inflight h @ [(mq_nextTag h, item)]"
      using "1.prems" by (intro smap_put_last) (simp add: mq_ok_def)
    have "smap_ok (mq_inflight h @ [(mq_nextTag h, item)])"
      using "1.prems" smap_ok_put [of "mq_inflight h" "mq_nextTag h" item] by (simp add: mq_ok_def last)
    with "1.prems" True have "mq_ok ?h"
      by (auto simp: mq_ok_def last backlog_def p MaxInflight_def)
    with True p have "mq_ok (drainPending accepts ?h)" by (intro "1.IH") simp_all
    with step show ?thesis by simp
  next
    case False
    with "1.prems" show ?thesis by (subst drainPending.simps) (auto split: list.split)
  qed
qed

subsection \<open>Confirmations\<close>

definition settled :: "nat \<Rightarrow> bool \<Rightarrow> nat \<times> publication \<Rightarrow> bool" where
  "settled tag multiple e \<longleftrightarrow> (if multiple then fst e \<le> tag else fst e = tag)"

definition acks :: "mq_handler \<Rightarrow> publication \<Rightarrow> mq_action list" where
  "acks h item =
     (case pub_completion item of
        Some (generation, t) \<Rightarrow>
          if mq_alive h \<and> generation = mq_generation h \<and> mq_consumer h then [Act_ack t] else []
      | None \<Rightarrow> [])"

lemma confirm_loop_eq:
  "confirm_loop tag multiple xs h =
     h\<lparr>mq_inflight := filter (\<lambda>e. fst e \<notin> fst ` set (filter (settled tag multiple) xs)) (mq_inflight h),
       mq_outstanding := mq_outstanding h - length (filter (settled tag multiple) xs),
       mq_actions := mq_actions h @
         concat (map (\<lambda>e. acks h (snd e)) (filter (settled tag multiple) xs))\<rparr>"
proof (induction tag multiple xs h rule: confirm_loop.induct)
  case (2 tag multiple k item rest h)
  have c: "confirmed (pub_completion item) True h' = h'\<lparr>mq_actions := mq_actions h' @ acks h' item\<rparr>" for h'
    by (auto simp: confirmed_def acks_def split: option.split)
  show ?case
  proof (cases "settled tag multiple (k, item)")
    case True
    let ?h = "h\<lparr>mq_inflight := smap_del k (mq_inflight h), mq_outstanding := mq_outstanding h - 1\<rparr>"
    let ?g = "h\<lparr>mq_inflight := filter (\<lambda>e. fst e \<noteq> k) (mq_inflight h),
      mq_outstanding := mq_outstanding h - 1, mq_actions := mq_actions h @ acks h item\<rparr>"
    have "acks ?h item = acks h item" by (simp add: acks_def split: option.split)
    then have g: "confirmed (pub_completion item) True ?h = ?g" unfolding c by (simp add: smap_del_def)
    have a: "acks (h\<lparr>mq_inflight := i, mq_outstanding := n, mq_actions := as\<rparr>) x = acks h x" for i n as x
      by (simp add: acks_def split: option.split)
    have go: "\<not> ((\<not> multiple \<and> k \<noteq> tag) \<or> (multiple \<and> k > tag))"
      using True by (auto simp: settled_def split: if_splits)
    have "confirm_loop tag multiple ((k, item) # rest) h = confirm_loop tag multiple rest ?g"
      using go g by (simp only: confirm_loop.simps if_False)
    also have "\<dots> = ?g\<lparr>mq_inflight := filter (\<lambda>e. fst e \<notin> fst ` set (filter (settled tag multiple) rest)) (mq_inflight ?g),
       mq_outstanding := mq_outstanding ?g - length (filter (settled tag multiple) rest),
       mq_actions := mq_actions ?g @ concat (map (\<lambda>e. acks ?g (snd e)) (filter (settled tag multiple) rest))\<rparr>"
      using 2(2) [OF go] unfolding g .
    finally show ?thesis by (rule trans) (use True in \<open>simp add: a\<close>)
  next
    case False
    then have "(\<not> multiple \<and> k \<noteq> tag) \<or> (multiple \<and> k > tag)"
      by (auto simp: settled_def split: if_splits)
    with 2(1) False show ?thesis by simp
  qed
qed simp

lemma confirm_loop_inflight:
  assumes "smap_ok (mq_inflight h)"
  shows "mq_inflight (confirm_loop tag multiple (mq_inflight h) h) =
    filter (\<lambda>e. \<not> settled tag multiple e) (mq_inflight h)"
proof -
  have "fst e \<in> fst ` set (filter (settled tag multiple) (mq_inflight h)) \<longleftrightarrow> settled tag multiple e"
    if "e \<in> set (mq_inflight h)" for e
    using that by (force simp: settled_def split: if_splits)
  then show ?thesis unfolding confirm_loop_eq by (simp cong: filter_cong)
qed

lemma confirm_loop_ok:
  assumes "mq_ok h"
  shows "mq_ok (confirm_loop tag multiple (mq_inflight h) h)" (is "mq_ok ?h")
proof -
  let ?m = "mq_inflight h"
  let ?keep = "filter (\<lambda>e. \<not> settled tag multiple e) ?m"
  have i: "mq_inflight ?h = ?keep" using assms by (intro confirm_loop_inflight) (simp add: mq_ok_def)
  have len: "length ?m = length (filter (settled tag multiple) ?m) + length ?keep"
    by (simp add: sum_length_filter_compl)
  have "smap_ok ?keep" using assms by (simp add: mq_ok_def smap_ok_def sorted_wrt_filter sorted_wrt_map)
  moreover have "length ?keep \<le> MaxInflight"
  proof -
    have "length ?m \<le> MaxInflight" using assms by (simp add: mq_ok_def)
    with len show ?thesis by linarith
  qed
  moreover have "mq_outstanding ?h = length (backlog ?h)" if "mq_alive h"
    using assms len that i by (simp add: mq_ok_def backlog_def) (simp add: confirm_loop_eq)
  ultimately show ?thesis
    using assms i by (simp add: mq_ok_def) (auto simp: confirm_loop_eq)
qed

lemma confirm_ok: "mq_ok h \<Longrightarrow> mq_ok (confirm accepts tag multiple accepted h)"
  by (simp add: confirm_def drainPending_ok confirm_loop_ok)

subsection \<open>The other callbacks\<close>

lemma connect_ok: "mq_ok (h\<lparr>mq_connection := True, mq_recovering := False\<rparr>) \<Longrightarrow> mq_ok (mq_connect b h)"
  by (auto simp: mq_connect_def connectionFailed_def mq_ok_def backlog_def Let_def)

lemma recover_ok: "mq_ok (h\<lparr>mq_tasks := Task_recover # mq_tasks h\<rparr>) \<Longrightarrow> mq_ok (scheduleReconnect (disconnect h))"
  using backlog_disconnect [of h]
  by (auto simp: mq_ok_def scheduleReconnect_def backlog_def disconnect_def)

lemma schedulePublish_ok: "mq_ok h \<Longrightarrow> mq_ok (snd (schedulePublish q b c h))"
  by (auto simp: schedulePublish_def mq_ok_def backlog_def)

lemma confirmed_ok: "mq_ok (confirmed c ok h) = mq_ok h"
  by (simp add: confirmed_def mq_ok_def backlog_def split: option.split)

lemma stop_ok: "mq_ok h \<Longrightarrow> mq_ok (mq_stop h)"
  by (auto simp: mq_stop_def disconnect_def mq_ok_def)

lemma completeDelivery_ok:
  assumes "mq_ok h"
  shows "mq_ok (completeDelivery ja jb g t r b h)"
proof -
  have upd: "mq_ok (h\<lparr>mq_timers := mq_timers h @ ts\<rparr>)" "mq_ok (h\<lparr>mq_actions := a\<rparr>)" for a ts
    using assms by (auto simp: mq_ok_def backlog_def)
  show ?thesis unfolding completeDelivery_def Let_def split_beta using assms upd by simp
qed

lemma run_task_ok:
  assumes "mq_ok h" and "mq_tasks h = t # ts"
  shows "mq_ok (run_task ja jb accepts t (h\<lparr>mq_tasks := ts\<rparr>))"
proof (cases "mq_alive h")
  case False
  with assms show ?thesis by (auto simp: run_task_def mq_ok_def)
next
  case True
  show ?thesis
  proof (cases t)
    case Task_recover
    have "mq_ok ((h\<lparr>mq_tasks := ts\<rparr>)\<lparr>mq_tasks := Task_recover # mq_tasks (h\<lparr>mq_tasks := ts\<rparr>)\<rparr>)"
      using assms Task_recover by (simp add: mq_ok_def backlog_def)
    from recover_ok [OF this] True Task_recover show ?thesis by (simp add: run_task_def)
  next
    case (Task_push item)
    have "mq_ok (h\<lparr>mq_tasks := ts, mq_pending := mq_pending h @ [item]\<rparr>)"
      using assms Task_push by (auto simp: mq_ok_def backlog_def)
    then show ?thesis using True Task_push by (simp add: run_task_def drainPending_ok)
  next
    case (Task_complete g tag d b)
    have "mq_ok (h\<lparr>mq_tasks := ts\<rparr>)" using assms Task_complete by (auto simp: mq_ok_def backlog_def)
    then show ?thesis using True Task_complete by (simp add: run_task_def completeDelivery_ok)
  qed
qed

lemma fire_timer_ok:
  assumes "mq_ok h" and "mq_timers h = ts1 @ t # ts2"
  shows "mq_ok (fire_timer constructs t (h\<lparr>mq_timers := ts1 @ ts2\<rparr>))"
proof (cases "mq_alive h")
  case False
  with assms show ?thesis by (auto simp: fire_timer_def mq_ok_def)
next
  case True
  show ?thesis
  proof (cases t)
    case (Timer_reconnect d)
    have "mq_ok (h\<lparr>mq_timers := ts1 @ ts2, mq_reconnectScheduled := False, mq_delay := min 60 (mq_delay h * 2),
        mq_connection := True, mq_recovering := False\<rparr>)"
      using assms(1) by (auto simp: mq_ok_def backlog_def)
    then show ?thesis using True Timer_reconnect
      by (simp add: fire_timer_def connect_ok)
  next
    case (Timer_republish d g tag target body)
    have ok: "mq_ok (h\<lparr>mq_timers := ts1 @ ts2\<rparr>)"
      using assms Timer_republish by (auto simp: mq_ok_def backlog_def)
    obtain b h' where p: "schedulePublish target body (Some (g, tag)) (h\<lparr>mq_timers := ts1 @ ts2\<rparr>) = (b, h')"
      by (cases "schedulePublish target body (Some (g, tag)) (h\<lparr>mq_timers := ts1 @ ts2\<rparr>)")
    with schedulePublish_ok [OF ok, of target body "Some (g, tag)"] have "mq_ok h'" by simp
    with ok p True Timer_republish show ?thesis
      by (cases "g = mq_generation h"; cases b) (simp_all add: fire_timer_def confirmed_ok)
  qed
qed

lemma mq_step_ok: "mq_step ja jb h h' \<Longrightarrow> mq_ok h \<Longrightarrow> mq_ok h'"
proof (induction rule: mq_step.induct)
  case (mq_admit h queue body)
  then show ?case by (rule schedulePublish_ok)
next
  case (mq_task h t ts accepts)
  then show ?case by (intro run_task_ok)
next
  case (mq_timer h ts1 t ts2 constructs)
  then show ?case by (intro fire_timer_ok)
next
  case (mq_up h)
  then show ?case by (simp add: onConnected_def mq_ok_def backlog_def)
next
  case (mq_ready h accepts)
  have "mq_ok (h\<lparr>mq_producerReady := True\<rparr>)" using mq_ready(3) by (simp add: mq_ok_def backlog_def)
  then show ?case by (simp add: producer_confirms_def drainPending_ok)
next
  case (mq_deliver h handler body tag)
  then show ?case
    by (auto simp: onConsumerMessage_def answer_delivery_def mq_ok_def backlog_def
        split: option.split sum.split)
next
  case (mq_answer h generation tag result body)
  then show ?case by (auto simp: answer_delivery_def mq_ok_def backlog_def)
qed (simp_all add: confirm_ok drainPending_ok stop_ok)

lemma mq_reachable_ok: "mq_reachable ja jb h \<Longrightarrow> mq_ok h"
proof (induction rule: mq_reachable.induct)
  case (mq_init constructs queue)
  have "mq_ok ((new_handler queue)\<lparr>mq_connection := True, mq_recovering := False\<rparr>)"
    by (simp add: mq_ok_def new_handler_def backlog_def MaxPending_def)
  then show ?case by (rule connect_ok)
qed (rule mq_step_ok)

section \<open>What a step does to the backlog and to the broker\<close>

lemma drainPending_actions:
  "\<exists>ps. mq_actions (drainPending accepts h) = mq_actions h @ ps \<and> (\<forall>t. Act_ack t \<notin> set ps)"
proof (induction accepts h rule: drainPending.induct)
  case (1 accepts h)
  show ?case
  proof (cases "mq_producerReady h \<and> \<not> mq_recovering h \<and> mq_producer h \<and> mq_pending h \<noteq> [] \<and>
      length (mq_inflight h) < MaxInflight \<and> accepts (hd (mq_pending h))")
    case True
    obtain item rest where p: "mq_pending h = item # rest" using True by (cases "mq_pending h") auto
    from "1.IH" [OF _ p] True p show ?thesis
      by (subst drainPending.simps) (auto simp: p)
  next
    case False
    then show ?thesis
      by (subst drainPending.simps) (auto simp: connectionFailed_def split: list.split)
  qed
qed

lemma schedulePublish_effect:
  "\<exists>new. backlog (snd (schedulePublish q b c h)) = backlog h @ new"
  "mq_actions (snd (schedulePublish q b c h)) = mq_actions h"
  by (simp_all add: schedulePublish_def backlog_def)

lemma completeDelivery_effect:
  "backlog (completeDelivery ja jb g t r b h) = backlog h"
  "mq_actions (completeDelivery ja jb g t r b h) =
     mq_actions h @ (if r = Disp_Ack \<and> g = mq_generation h \<and> mq_consumer h \<and> \<not> mq_recovering h
                     then [Act_ack t] else [])"
  by (simp_all add: completeDelivery_def backlog_def split_beta)

lemma confirmed_effect:
  "backlog (confirmed c ok h) = backlog h"
  "\<not> ok \<Longrightarrow> \<exists>a. mq_actions (confirmed c ok h) = mq_actions h @ a \<and> (\<forall>t. Act_ack t \<notin> set a)"
  by (auto simp: confirmed_def backlog_def split: option.split)

lemma mq_ok_inflight: "mq_ok h \<Longrightarrow> smap_ok (mq_inflight h) \<and> (\<forall>k\<in>fst ` set (mq_inflight h). k < mq_nextTag h)"
  by (simp add: mq_ok_def)

lemma run_task_backlog:
  assumes "mq_ok h" and "mq_tasks h = t # ts" and "mq_alive h"
  shows "backlog (run_task ja jb accepts t (h\<lparr>mq_tasks := ts\<rparr>)) = backlog h"
proof (cases t)
  case Task_recover
  have "backlog (scheduleReconnect x) = backlog x" for x
    by (simp add: scheduleReconnect_def backlog_def)
  with assms Task_recover backlog_disconnect [of "h\<lparr>mq_tasks := ts\<rparr>"] show ?thesis
    by (simp add: run_task_def) (simp add: backlog_def)
next
  case (Task_push item)
  have "backlog (drainPending accepts (h\<lparr>mq_tasks := ts, mq_pending := mq_pending h @ [item]\<rparr>)) =
      backlog (h\<lparr>mq_tasks := ts, mq_pending := mq_pending h @ [item]\<rparr>)"
    using mq_ok_inflight [OF assms(1)] by (intro drainPending_backlog) simp_all
  with assms Task_push show ?thesis by (simp add: run_task_def) (simp add: backlog_def)
next
  case (Task_complete g tag d b)
  with assms show ?thesis by (simp add: run_task_def completeDelivery_effect) (simp add: backlog_def)
qed

lemma fire_timer_backlog:
  "\<exists>new. backlog (fire_timer constructs t h) = backlog h @ new"
proof (cases t)
  case (Timer_reconnect d)
  have "backlog (mq_connect constructs x) = backlog x" for x
    by (simp add: mq_connect_def connectionFailed_def backlog_def Let_def)
  with Timer_reconnect show ?thesis by (simp add: fire_timer_def) (simp add: backlog_def)
next
  case (Timer_republish d g tag target body)
  with schedulePublish_effect(1) [of target body "Some (g, tag)" h] show ?thesis
    by (auto simp: fire_timer_def confirmed_effect split_beta split: bool.split)
qed

lemma confirm_backlog:
  assumes "mq_ok h"
  shows "backlog (confirm accepts tag multiple accepted h) =
    (if accepted \<and> \<not> mq_recovering h \<and> \<not> mq_shuttingDown h
     then map snd (filter (\<lambda>e. \<not> settled tag multiple e) (mq_inflight h)) @ mq_pending h @ pushes (mq_tasks h)
     else backlog h)"
proof -
  let ?h = "confirm_loop tag multiple (mq_inflight h) h"
  have "backlog (drainPending accepts ?h) = backlog ?h"
    using mq_ok_inflight [OF confirm_loop_ok [OF assms]] by (intro drainPending_backlog) simp_all
  moreover have "backlog ?h =
      map snd (filter (\<lambda>e. \<not> settled tag multiple e) (mq_inflight h)) @ mq_pending h @ pushes (mq_tasks h)"
    using confirm_loop_inflight [of h tag multiple] mq_ok_inflight [OF assms]
    by (simp add: backlog_def) (simp add: confirm_loop_eq)
  ultimately show ?thesis by (simp add: confirm_def)
qed

lemma mq_step_backlog:
  assumes "mq_step ja jb h h'" and "mq_ok h" and "mq_alive h'"
  shows "(\<exists>new. backlog h' = backlog h @ new) \<or>
    (\<exists>accepts tag multiple. h' = confirm accepts tag multiple True h \<and>
       mq_producer h \<and> \<not> mq_recovering h \<and> \<not> mq_shuttingDown h \<and>
       backlog h' = map snd (filter (\<lambda>e. \<not> settled tag multiple e) (mq_inflight h)) @
         mq_pending h @ pushes (mq_tasks h))"
  using assms
proof (induction rule: mq_step.induct)
  case (mq_admit h queue body)
  then show ?case using schedulePublish_effect(1) by blast
next
  case (mq_task h t ts accepts)
  show ?case
  proof (cases "mq_alive h")
    case True
    with run_task_backlog [OF mq_task(2,1)] show ?thesis by simp
  next
    case False
    with mq_task(3) show ?thesis by (simp add: run_task_def)
  qed
next
  case (mq_timer h ts1 t ts2 constructs)
  have "backlog (h\<lparr>mq_timers := ts1 @ ts2\<rparr>) = backlog h" by (simp add: backlog_def)
  with fire_timer_backlog [of constructs t "h\<lparr>mq_timers := ts1 @ ts2\<rparr>"] show ?case by simp
next
  case (mq_up h)
  then show ?case by (simp add: onConnected_def backlog_def)
next
  case (mq_ready h accepts)
  have "backlog (drainPending accepts (h\<lparr>mq_producerReady := True\<rparr>)) = backlog (h\<lparr>mq_producerReady := True\<rparr>)"
    using mq_ok_inflight [OF mq_ready(3)] by (intro drainPending_backlog) simp_all
  then show ?case by (simp add: producer_confirms_def) (simp add: backlog_def)
next
  case (mq_confirm h accepts tag multiple accepted)
  show ?case
  proof (cases "accepted \<and> \<not> mq_recovering h \<and> \<not> mq_shuttingDown h")
    case True
    with confirm_backlog [OF mq_confirm(3), of accepts tag multiple True] mq_confirm(2) show ?thesis by auto
  next
    case False
    with confirm_backlog [OF mq_confirm(3), of accepts tag multiple accepted] show ?thesis by auto
  qed
next
  case (mq_writable h accepts)
  with drainPending_backlog mq_ok_inflight show ?case by (metis append_Nil2)
next
  case (mq_deliver h handler body tag)
  then show ?case
    by (auto simp: onConsumerMessage_def answer_delivery_def backlog_def split: option.split sum.split)
next
  case (mq_answer h generation tag result body)
  then show ?case by (simp add: answer_delivery_def backlog_def)
qed (simp_all add: mq_stop_def disconnect_def)

text \<open>The only steps that acknowledge a delivery.\<close>

lemma run_task_acks:
  "\<exists>new. mq_actions (run_task ja jb accepts t h) = mq_actions h @ new \<and>
     (\<forall>k. Act_ack k \<in> set new \<longrightarrow>
        (\<exists>b. t = Task_complete (mq_generation h) k Disp_Ack b) \<and> mq_consumer h \<and> \<not> mq_recovering h)"
proof (cases t)
  case Task_recover
  then show ?thesis by (simp add: run_task_def scheduleReconnect_def disconnect_def)
next
  case (Task_push item)
  from drainPending_actions [of accepts "h\<lparr>mq_pending := mq_pending h @ [item]\<rparr>"] Task_push
  show ?thesis by (auto simp: run_task_def)
next
  case (Task_complete g tag d b)
  then show ?thesis by (auto simp: run_task_def completeDelivery_effect)
qed

lemma fire_timer_acks:
  "\<exists>new. mq_actions (fire_timer constructs t h) = mq_actions h @ new \<and> (\<forall>k. Act_ack k \<notin> set new)"
proof (cases t)
  case (Timer_reconnect d)
  then show ?thesis by (simp add: fire_timer_def mq_connect_def connectionFailed_def Let_def)
next
  case (Timer_republish d g tag target body)
  obtain ok h' where p: "schedulePublish target body (Some (g, tag)) h = (ok, h')"
    by (cases "schedulePublish target body (Some (g, tag)) h")
  with schedulePublish_effect(2) [of target body "Some (g, tag)" h] have "mq_actions h' = mq_actions h" by simp
  with p Timer_republish confirmed_effect(2) [of False "Some (g, tag)" h'] show ?thesis
    by (cases "g = mq_generation h"; cases ok) (auto simp: fire_timer_def)
qed

lemma confirm_acks:
  "\<exists>new. mq_actions (confirm accepts tag multiple accepted h) = mq_actions h @ new \<and>
     (\<forall>k. Act_ack k \<in> set new \<longrightarrow>
        accepted \<and> \<not> mq_recovering h \<and> \<not> mq_shuttingDown h \<and>
        (\<exists>e\<in>set (mq_inflight h). settled tag multiple e \<and>
           pub_completion (snd e) = Some (mq_generation h, k)))"
proof -
  let ?h = "confirm_loop tag multiple (mq_inflight h) h"
  obtain ps where ps: "mq_actions (drainPending accepts ?h) = mq_actions ?h @ ps" "\<forall>t. Act_ack t \<notin> set ps"
    using drainPending_actions [of accepts ?h] by blast
  have "Act_ack k \<in> set (acks h item) \<Longrightarrow> pub_completion item = Some (mq_generation h, k)" for k item
    by (cases "pub_completion item") (auto simp: acks_def split: if_splits)
  with ps show ?thesis
    by (auto simp: confirm_def confirm_loop_eq connectionFailed_def)
qed

lemma mq_step_acks:
  assumes "mq_step ja jb h h'"
  shows "\<exists>new. mq_actions h' = mq_actions h @ new \<and>
    (\<forall>k. Act_ack k \<in> set new \<longrightarrow>
       \<not> mq_recovering h \<and>
       ((\<exists>b ts. mq_tasks h = Task_complete (mq_generation h) k Disp_Ack b # ts) \<or>
        (\<exists>accepts tag multiple. h' = confirm accepts tag multiple True h \<and>
           (\<exists>e\<in>set (mq_inflight h). settled tag multiple e \<and>
              pub_completion (snd e) = Some (mq_generation h, k)))))"
  using assms
proof (induction rule: mq_step.induct)
  case (mq_task h t ts accepts)
  with run_task_acks [of ja jb accepts t "h\<lparr>mq_tasks := ts\<rparr>"] show ?case by auto
next
  case (mq_timer h ts1 t ts2 constructs)
  with fire_timer_acks [of constructs t "h\<lparr>mq_timers := ts1 @ ts2\<rparr>"] show ?case by auto
next
  case (mq_ready h accepts)
  with drainPending_actions [of accepts "h\<lparr>mq_producerReady := True\<rparr>"] show ?case
    by (auto simp: producer_confirms_def)
next
  case (mq_confirm h accepts tag multiple accepted)
  show ?case
  proof (cases accepted)
    case True
    with confirm_acks [of accepts tag multiple True h] show ?thesis by fastforce
  next
    case False
    with confirm_acks [of accepts tag multiple False h] show ?thesis by auto
  qed
next
  case (mq_writable h accepts)
  with drainPending_actions [of accepts h] show ?case by auto
next
  case (mq_deliver h handler body tag)
  then show ?case
    by (auto simp: onConsumerMessage_def answer_delivery_def split: option.split sum.split)
qed (simp_all add: schedulePublish_effect connectionFailed_def onConnected_def answer_delivery_def
    mq_stop_def disconnect_def)

section \<open>Properties\<close>

text \<open>
  C26. The client is bounded and never stuck. In every run, at most 10000 messages are admitted and
  unconfirmed, the counter that enforces this is exact while the handler lives, at most 128 are in
  flight, the pause before reconnecting stays between 5 and 60 seconds, and a handler that is neither
  connected nor connecting has its recovery on the event loop or its reconnect timer running.
\<close>

theorem mq_bounded_and_recovering:
  assumes "mq_reachable job_attempt job_bump h"
  shows "mq_outstanding h \<le> 10000 \<and> length (mq_inflight h) \<le> 128 \<and> 5 \<le> mq_delay h \<and> mq_delay h \<le> 60 \<and>
    (mq_alive h \<longrightarrow>
       mq_outstanding h = length (mq_inflight h) + length (mq_pending h) + length (pushes (mq_tasks h)) \<and>
       (mq_connection h \<and> \<not> mq_recovering h \<or> Task_recover \<in> set (mq_tasks h) \<or>
        (\<exists>d. Timer_reconnect d \<in> set (mq_timers h))))"
  using mq_reachable_ok [OF assms]
  by (auto simp: mq_ok_def backlog_def MaxPending_def MaxInflight_def)

definition no_attempt :: "string \<Rightarrow> int option" where
  "no_attempt s = None"

definition no_bump :: "string \<Rightarrow> int \<Rightarrow> string option" where
  "no_bump s n = None"

text \<open>A message is admitted while the first attempt to connect has failed.\<close>

definition down_handler :: mq_handler where
  "down_handler = snd (schedulePublish ''sql'' ''m'' None (mq_connect False (new_handler ''sql'')))"

lemma down_handler_reachable: "mq_reachable no_attempt no_bump down_handler"
  unfolding down_handler_def by (rule mq_next [OF mq_init mq_admit])

theorem mq_bounded_and_recovering_witness:
  "mq_outstanding down_handler = 1 \<and> (mq_connection down_handler \<and> \<not> mq_recovering down_handler \<or>
     Task_recover \<in> set (mq_tasks down_handler) \<or> (\<exists>d. Timer_reconnect d \<in> set (mq_timers down_handler)))"
proof -
  have "mq_alive down_handler" "mq_outstanding down_handler = 1" by code_simp+
  with mq_bounded_and_recovering [OF down_handler_reachable] show ?thesis by blast
qed

text \<open>
  A delivery the handler answers with \<^verbatim>\<open>Reject\<close>: its copy goes to the dead-letter queue and is sent there,
  waiting for the broker; \<open>settled_handler\<close> is the state once the broker has confirmed it.
\<close>

definition up_handler :: mq_handler where
  "up_handler = producer_confirms (\<lambda>p. True) (onConnected (mq_connect True (new_handler ''sql'')))"

definition rejecting_handler :: mq_handler where
  "rejecting_handler = onConsumerMessage (Some (Inr (Some Disp_Reject))) ''job'' 7 up_handler"

definition waiting_handler :: mq_handler where
  "waiting_handler = run_task no_attempt no_bump (\<lambda>p. True) (Task_complete 0 7 Disp_Reject ''job'')
     (rejecting_handler\<lparr>mq_tasks := []\<rparr>)"

definition republishing_handler :: mq_handler where
  "republishing_handler = fire_timer True (Timer_republish 0 0 7 ''sql.dead'' ''job'') (waiting_handler\<lparr>mq_timers := [] @ []\<rparr>)"

definition replaced_handler :: mq_handler where
  "replaced_handler = run_task no_attempt no_bump (\<lambda>p. True)
     (Task_push \<lparr>pub_queue = ''sql.dead'', pub_body = ''job'', pub_completion = Some (0, 7)\<rparr>)
     (republishing_handler\<lparr>mq_tasks := []\<rparr>)"

definition settled_handler :: mq_handler where
  "settled_handler = confirm (\<lambda>p. True) 1 False True replaced_handler"

lemma up_handler_reachable: "mq_reachable no_attempt no_bump up_handler"
proof -
  have "mq_reachable no_attempt no_bump (onConnected (mq_connect True (new_handler ''sql'')))"
    by (rule mq_next [OF mq_init mq_up]) code_simp+
  then show ?thesis unfolding up_handler_def by (rule mq_next [OF _ mq_ready]) code_simp+
qed

lemma waiting_handler_reachable: "mq_reachable no_attempt no_bump waiting_handler"
proof -
  have "mq_reachable no_attempt no_bump rejecting_handler"
    unfolding rejecting_handler_def by (rule mq_next [OF up_handler_reachable mq_deliver]) code_simp+
  then show ?thesis unfolding waiting_handler_def by (rule mq_next [OF _ mq_task]) code_simp
qed

lemma replaced_handler_reachable: "mq_reachable no_attempt no_bump replaced_handler"
proof -
  have "mq_reachable no_attempt no_bump republishing_handler"
    unfolding republishing_handler_def by (rule mq_next [OF waiting_handler_reachable mq_timer]) code_simp
  then show ?thesis unfolding replaced_handler_def by (rule mq_next [OF _ mq_task]) code_simp
qed

lemma settled_handler_step: "mq_step no_attempt no_bump replaced_handler settled_handler"
  unfolding settled_handler_def by (rule mq_confirm) code_simp+

text \<open>
  C27. No admitted message is lost, duplicated in the books or overtaken while the handler lives: every
  step leaves the sequence of messages it is responsible for (sent and unconfirmed, waiting, still on
  the loop, in the order of admission) as it is or extends it at the end; the only exception
  is the handling of a positive confirmation by the broker on a connection that has not failed, which
  removes exactly the sent messages it covers. A negative confirmation removes nothing, and in particular
  a lost connection puts unconfirmed messages back in order.
\<close>

theorem mq_backlog_kept:
  assumes "mq_reachable job_attempt job_bump h" and "mq_step job_attempt job_bump h h'" and "mq_alive h'"
  shows "((\<exists>new. backlog h' = backlog h @ new) \<or>
      (\<exists>accepts tag multiple. h' = confirm accepts tag multiple True h \<and>
         mq_producer h \<and> \<not> mq_recovering h \<and> \<not> mq_shuttingDown h \<and>
         backlog h' = map snd (filter (\<lambda>e. \<not> settled tag multiple e) (mq_inflight h)) @
           mq_pending h @ pushes (mq_tasks h))) \<and>
    (\<forall>accepts tag multiple. backlog (confirm accepts tag multiple False h) = backlog h)"
  using mq_step_backlog [OF assms(2) mq_reachable_ok [OF assms(1)] assms(3)]
    confirm_backlog [OF mq_reachable_ok [OF assms(1)], where accepted = False]
  by simp

theorem mq_backlog_kept_witness:
  "length (backlog replaced_handler) = 1 \<and> backlog settled_handler = [] \<and>
   (\<exists>accepts tag multiple. settled_handler = confirm accepts tag multiple True replaced_handler \<and>
      mq_producer replaced_handler \<and> \<not> mq_recovering replaced_handler \<and> \<not> mq_shuttingDown replaced_handler \<and>
      backlog settled_handler = map snd (filter (\<lambda>e. \<not> settled tag multiple e) (mq_inflight replaced_handler)) @
        mq_pending replaced_handler @ pushes (mq_tasks replaced_handler)) \<and>
   backlog (confirm (\<lambda>p. True) 1 False False replaced_handler) = backlog replaced_handler"
proof -
  have v: "length (backlog replaced_handler) = 1" "backlog settled_handler = []" "mq_alive settled_handler"
    by code_simp+
  then have "\<nexists>new. backlog settled_handler = backlog replaced_handler @ new" by auto
  with v mq_backlog_kept [OF replaced_handler_reachable settled_handler_step v(3)] show ?thesis by blast
qed

text \<open>
  C28. A delivery is acknowledged only when its work is safe: a step that acknowledges a delivery runs the
  completion of a delivery of the current connection whose handler answered \<^verbatim>\<open>Ack\<close>, or handles a positive
  confirmation by the broker that covers a sent message which replaces the delivery (a retry or
  the quarantined copy), on a connection that has not failed. A negative confirmation acknowledges nothing.
\<close>

theorem mq_ack_after_confirm:
  assumes "mq_step job_attempt job_bump h h'"
  shows "(\<exists>new. mq_actions h' = mq_actions h @ new \<and>
      (\<forall>k. Act_ack k \<in> set new \<longrightarrow>
         \<not> mq_recovering h \<and>
         ((\<exists>b ts. mq_tasks h = Task_complete (mq_generation h) k Disp_Ack b # ts) \<or>
          (\<exists>accepts tag multiple. h' = confirm accepts tag multiple True h \<and>
             (\<exists>e\<in>set (mq_inflight h). settled tag multiple e \<and>
                pub_completion (snd e) = Some (mq_generation h, k)))))) \<and>
    (\<forall>accepts tag multiple. \<exists>new. mq_actions (confirm accepts tag multiple False h) = mq_actions h @ new \<and>
      (\<forall>k. Act_ack k \<notin> set new))"
  using mq_step_acks [OF assms] confirm_acks [where accepted = False and h = h] by simp

theorem mq_ack_after_confirm_witness:
  "mq_actions settled_handler = mq_actions replaced_handler @ [Act_ack 7] \<and>
   (\<exists>accepts tag multiple. settled_handler = confirm accepts tag multiple True replaced_handler \<and>
      (\<exists>e. e \<in> set (mq_inflight replaced_handler) \<and> settled tag multiple e \<and>
         pub_completion (snd e) = Some (mq_generation replaced_handler, 7)))"
proof -
  have v: "mq_actions settled_handler = mq_actions replaced_handler @ [Act_ack 7]" "mq_tasks replaced_handler = []"
    by code_simp+
  obtain new where "mq_actions settled_handler = mq_actions replaced_handler @ new"
    and "\<forall>k. Act_ack k \<in> set new \<longrightarrow> \<not> mq_recovering replaced_handler \<and>
      ((\<exists>b ts. mq_tasks replaced_handler = Task_complete (mq_generation replaced_handler) k Disp_Ack b # ts) \<or>
       (\<exists>accepts tag multiple. settled_handler = confirm accepts tag multiple True replaced_handler \<and>
          (\<exists>e\<in>set (mq_inflight replaced_handler). settled tag multiple e \<and>
             pub_completion (snd e) = Some (mq_generation replaced_handler, k))))"
    using mq_ack_after_confirm [OF settled_handler_step] by blast
  with v have "\<exists>accepts tag multiple. settled_handler = confirm accepts tag multiple True replaced_handler \<and>
      (\<exists>e\<in>set (mq_inflight replaced_handler). settled tag multiple e \<and>
         pub_completion (snd e) = Some (mq_generation replaced_handler, 7))" by simp
  with v(1) show ?thesis by blast
qed

text \<open>The pauses of a job that keeps asking for a retry, until it is quarantined.\<close>

fun pauses :: "(string \<Rightarrow> int option) \<Rightarrow> (string \<Rightarrow> int \<Rightarrow> string option) \<Rightarrow> string \<Rightarrow> nat \<Rightarrow> string \<Rightarrow> nat list" where
  "pauses ja jb queue 0 body = []"
| "pauses ja jb queue (Suc n) body =
     (case republication ja jb queue Disp_Retry body of
        (delay, target, body') \<Rightarrow>
          if target = queue then delay # pauses ja jb queue n body' else [])"

lemma republication_retry:
  assumes "ja body = Some (int n)" and "\<forall>b k b'. jb b k = Some b' \<longrightarrow> ja b' = Some k"
  shows "case republication ja jb queue Disp_Retry body of (delay, target, body') \<Rightarrow>
    target = queue \<and> n < 5 \<and> delay = retry_delay n \<and> ja body' = Some (int (Suc n)) \<or>
    target = queue @ ''.dead'' \<and> delay = 0"
  using assms by (auto simp: republication_def Let_def add.commute split: option.split)

text \<open>
  Retries end: a job that keeps failing is put back at most five times, after pauses of 1, 2, 4, 8 and 16
  seconds, and then goes to the dead-letter queue, provided the stored attempt number is read back.
\<close>

theorem retries_bounded:
  assumes "\<forall>b k b'. job_bump b k = Some b' \<longrightarrow> job_attempt b' = Some k"
    and "job_attempt body = Some 0"
  shows "\<exists>rest. pauses job_attempt job_bump queue n body @ rest = [1, 2, 4, 8, 16]"
proof -
  have gen: "\<exists>rest. pauses job_attempt job_bump queue n b @ rest = map retry_delay [k..<5]"
    if "k \<le> 5" "job_attempt b = Some (int k)" for n k b
    using that
  proof (induction n arbitrary: k b)
    case (Suc n)
    obtain d t b' where r: "republication job_attempt job_bump queue Disp_Retry b = (d, t, b')"
      by (cases "republication job_attempt job_bump queue Disp_Retry b")
    show ?case
    proof (cases "t = queue")
      case True
      with republication_retry [OF Suc.prems(2) assms(1), of queue] r
      have k: "k < 5" "d = retry_delay k" "job_attempt b' = Some (int (Suc k))" by auto
      from Suc.IH [OF _ k(3)] k(1) obtain rest
        where "pauses job_attempt job_bump queue n b' @ rest = map retry_delay [Suc k..<5]" by auto
      with r True k show ?thesis by (auto simp: upt_conv_Cons)
    qed (use r in simp)
  qed simp
  have "map retry_delay [0..<5] = [1, 2, 4, 8, 16]" by code_simp
  with gen [of 0 body n] assms(2) show ?thesis by simp
qed

definition sample_attempt :: "string \<Rightarrow> int option" where
  "sample_attempt s = Some (int (length s))"

definition sample_bump :: "string \<Rightarrow> int \<Rightarrow> string option" where
  "sample_bump s n = Some (replicate (nat n) CHR ''x'')"

definition sample_bump_ok :: "string \<Rightarrow> int \<Rightarrow> string option" where
  "sample_bump_ok s n = (if n < 0 then None else sample_bump s n)"

theorem retries_bounded_witness:
  "pauses sample_attempt sample_bump_ok ''sql'' 7 [] = [1, 2, 4, 8, 16] \<and>
   (\<exists>rest. pauses sample_attempt sample_bump_ok ''sql'' 7 [] @ rest = [1, 2, 4, 8, 16])"
proof -
  have "\<forall>b k b'. sample_bump_ok b k = Some b' \<longrightarrow> sample_attempt b' = Some k"
    by (auto simp: sample_bump_ok_def sample_bump_def sample_attempt_def split: if_splits)
  moreover have "sample_attempt [] = Some 0" by (simp add: sample_attempt_def)
  moreover have "pauses sample_attempt sample_bump_ok ''sql'' 7 [] = [1, 2, 4, 8, 16]" by code_simp
  ultimately show ?thesis using retries_bounded [of sample_bump_ok sample_attempt "[]" "''sql''" 7] by blast
qed

end
