(* ===== verification/AI_Helper.thy ===== *)
theory AI_Helper
  imports AI_Stream AI_Config Chat_Exchange Gemma_Pool MQ_Manager
begin

text \<open>
  \<^verbatim>\<open>AIApps/ChatServer/include/AIUtil/AIHelper.h\<close> and \<^verbatim>\<open>AIApps/ChatServer/src/AIUtil/AIHelper.cpp\<close>: one conversation. The helper's lock covers every
  operation, so each is a function on its state together with the two services it shares with
  other conversations, the local model and the queue. Everything outside the repository is in the
  record \<open>services\<close>: the JSON library, the environment, libcurl (what a transfer yields), the engine, files, the
  clock and random bytes. A result \<open>None\<close> is undefined behaviour.
\<close>

section \<open>Data\<close>

record 'j ai_helper =
  hp_strategy :: "'j strategy option"
  hp_messages :: messages
  hp_roles :: "bool list"

record ('j, 'kv) ai_state =
  as_helper :: "'j ai_helper"
  as_gemma :: "'kv gemma_pool"
  as_mq :: "mq_handler option"

record ('j, 'kv) services =
  sv_json :: "'j json_lib"
  sv_env :: getenv
  sv_engine :: "'kv engine"
  sv_file :: "string \<Rightarrow> string option"
  sv_tools :: tool_world
  sv_expand :: "string \<Rightarrow> nat \<Rightarrow> string"
  sv_curl :: "nat \<Rightarrow> outgoing \<Rightarrow> curl_outcome"
  sv_stream :: "outgoing \<Rightarrow> curl_stream"
  sv_gemma_now :: int
  sv_gemma_later :: int
  sv_now :: int
  sv_random :: "nat list option"

section \<open>The stored conversation\<close>

definition new_helper :: "'j ai_helper" where
  "new_helper = \<lparr>hp_strategy = None, hp_messages = [], hp_roles = []\<rparr>"

definition setStrategy :: "'j strategy \<Rightarrow> 'j ai_helper \<Rightarrow> 'j ai_helper" where
  "setStrategy strat h = h\<lparr>hp_strategy := Some strat\<rparr>"

definition restoreMessage_legacy :: "string \<Rightarrow> int \<Rightarrow> 'j ai_helper \<Rightarrow> 'j ai_helper" where
  "restoreMessage_legacy userInput ms h =
     h\<lparr>hp_roles := hp_roles h @ [length (hp_messages h) mod 2 = 0], hp_messages := hp_messages h @ [(userInput, ms)]\<rparr>"

definition restoreMessage :: "string \<Rightarrow> int \<Rightarrow> bool \<Rightarrow> 'j ai_helper \<Rightarrow> 'j ai_helper" where
  "restoreMessage content ms isUser h =
     h\<lparr>hp_roles := hp_roles h @ [isUser], hp_messages := hp_messages h @ [(content, ms)]\<rparr>"

fun roles_from :: "nat \<Rightarrow> bool list \<Rightarrow> bool" where
  "roles_from i [] = True"
| "roles_from i (r # rs) = (r = (i mod 2 = 0) \<and> roles_from (i + 1) rs)"

definition validateCanonicalHistory :: "'j ai_helper \<Rightarrow> unit result" where
  "validateCanonicalHistory h =
     (if length (hp_messages h) \<noteq> length (hp_roles h)
      then throw (Logic_error ''Inconsistent stored chat history metadata'')
      else if length (hp_messages h) mod 2 \<noteq> 0
      then throw (Runtime_error ''Stored chat history has an incomplete exchange; start a new session to continue'')
      else if \<not> roles_from 0 (hp_roles h)
      then throw (Runtime_error ''Stored chat history has incompatible roles; start a new session to continue'')
      else return ())"

definition GetMessages :: "'j ai_helper \<Rightarrow> messages" where
  "GetMessages h = hp_messages h"

definition GetHistorySnapshot :: "'j ai_helper \<Rightarrow> (string \<times> int \<times> bool) list result" where
  "GetHistorySnapshot h =
     (if length (hp_messages h) \<noteq> length (hp_roles h)
      then throw (Logic_error ''Inconsistent stored chat history metadata'')
      else return (map (\<lambda>((c, t), r). (c, t, r)) (zip (hp_messages h) (hp_roles h))))"

section \<open>Committing an exchange\<close>

text \<open>
  The exchange is validated and admitted to the queue before the conversation is changed. The clock
  and the stored time stamps are 64-bit values; the guard keeps their successors in range.
\<close>

definition commitExchange ::
  "('j, 'kv) services \<Rightarrow> int \<Rightarrow> string \<Rightarrow> string \<Rightarrow> string \<Rightarrow> string \<Rightarrow> ('j, 'kv) ai_state \<Rightarrow>
   unit result \<times> ('j, 'kv) ai_state" where
  "commitExchange sv userId userName sessionId question answer s =
     (let h = as_helper s; ms = hp_messages h
      in if ms \<noteq> [] \<and> snd (last ms) \<ge> LLONG_MAX - 2
         then (throw (Overflow_error ''Invalid restored chat timestamp''), s)
         else
           let ts = (if ms = [] then sv_now sv else max (sv_now sv) (snd (last ms) + 1))
           in case secureId (sv_random sv) of
                Inl e \<Rightarrow> (Inl e, s)
              | Inr mid \<Rightarrow>
                  (case serialize (sv_json sv)
                          \<lparr>ex_message_id = mid, ex_user_id = userId, ex_username = userName, ex_session_id = sessionId,
                           ex_question = question, ex_answer = answer, ex_ts = ts\<rparr> of
                     Inl e \<Rightarrow> (Inl e, s)
                   | Inr body \<Rightarrow>
                       (case parse_exchange (sv_json sv) body of
                          Inl e \<Rightarrow> (Inl e, s)
                        | Inr _ \<Rightarrow>
                            (case mq_publish ''sql_queue'' body (as_mq s) of
                               (False, mq) \<Rightarrow>
                                 (throw (Runtime_error ''Chat history queue unavailable or full; exchange not accepted''),
                                  s\<lparr>as_mq := mq\<rparr>)
                             | (True, mq) \<Rightarrow>
                                 (return (),
                                  s\<lparr>as_mq := mq,
                                    as_helper := h\<lparr>hp_messages := ms @ [(question, ts), (answer, ts + 1)],
                                                   hp_roles := hp_roles h @ [True, False]\<rparr>\<rparr>)))))"

section \<open>Asking a model\<close>

definition session_key :: "int \<Rightarrow> string \<Rightarrow> string" where
  "session_key userId sessionId = to_string_int userId @ '':'' @ sessionId"

definition ask ::
  "('j, 'kv) services \<Rightarrow> nat \<Rightarrow> 'j strategy \<Rightarrow> messages \<Rightarrow> string checked" where
  "ask sv n strat request =
     bind_checked (Some (executeCurl (sv_json sv) (sv_curl sv n) strat (st_buildRequest strat request)))
       (st_parseResponse strat)"

definition ask_with_tools ::
  "('j, 'kv) services \<Rightarrow> 'j strategy \<Rightarrow> messages \<Rightarrow> string \<Rightarrow> string checked" where
  "ask_with_tools sv strat ms question =
     (case loadFromFile (sv_json sv) (sv_file sv ''../AIApps/ChatServer/resource/config.json'') new_config of
        Inl e \<Rightarrow> Some (Inl e)
      | Inr (False, cfg) \<Rightarrow> Some (throw (Runtime_error ''Tool configuration unavailable''))
      | Inr (True, cfg) \<Rightarrow>
          bind_checked (ask sv 0 strat (ms @ [(buildPrompt (sv_expand sv) cfg question, 0)])) (\<lambda>aiResult.
            let call = parseAIResponse (sv_json sv) aiResult
            in if \<not> call_isToolCall call then Some (return aiResult)
               else bind_checked
                      (Some (tool_invoke (AIToolRegistry (sv_json sv) (sv_tools sv)) (call_toolName call) (call_args call)))
                      (\<lambda>toolResult.
                    bind_checked
                      (Some (buildToolResultPrompt (sv_json sv) question (call_toolName call) (call_args call) toolResult))
                      (\<lambda>prompt. ask sv 1 strat (ms @ [(prompt, 0)])))))"

definition chat_answer ::
  "('j, 'kv) services \<Rightarrow> 'j strategy \<Rightarrow> int \<Rightarrow> string \<Rightarrow> string \<Rightarrow> messages \<Rightarrow> 'kv gemma_pool \<Rightarrow>
   string checked \<times> 'kv gemma_pool" where
  "chat_answer sv strat userId sessionId question ms pool =
     (if st_isLocal strat
      then if \<not> isLoaded pool then (Some (throw (Runtime_error ''Gemma model not loaded'')), pool)
           else case generateSyncFromHistory (sv_engine sv) (session_key userId sessionId) (ms @ [(question, 0)])
                       (Some (7 / 10)) 256 (sv_gemma_now sv) (sv_gemma_later sv) pool of
                  (r, pool') \<Rightarrow> (Some r, pool')
      else if \<not> st_isMCPModel strat then (ask sv 0 strat (ms @ [(question, 0)]), pool)
      else (ask_with_tools sv strat ms question, pool))"

text \<open>\<^verbatim>\<open>AIHelper::chat\<close>\<close>

definition chat ::
  "('j, 'kv) services \<Rightarrow> int \<Rightarrow> string \<Rightarrow> string \<Rightarrow> string \<Rightarrow> string \<Rightarrow> ('j, 'kv) ai_state \<Rightarrow>
   string checked \<times> ('j, 'kv) ai_state" where
  "chat sv userId userName sessionId question modelType s =
     (case validateCanonicalHistory (as_helper s) of
        Inl e \<Rightarrow> (Some (Inl e), s)
      | Inr _ \<Rightarrow>
          (case create_strategy (sv_json sv) (sv_env sv) modelType of
             Inl e \<Rightarrow> (Some (Inl e), s)
           | Inr strat \<Rightarrow>
               (let s1 = s\<lparr>as_helper := setStrategy strat (as_helper s)\<rparr>
                in case chat_answer sv strat userId sessionId question (hp_messages (as_helper s1)) (as_gemma s1) of
                     (None, pool) \<Rightarrow> (None, s1\<lparr>as_gemma := pool\<rparr>)
                   | (Some (Inl e), pool) \<Rightarrow> (Some (Inl e), s1\<lparr>as_gemma := pool\<rparr>)
                   | (Some (Inr answer), pool) \<Rightarrow>
                       (let s2 = s1\<lparr>as_gemma := pool\<rparr>
                        in if answer = [] then (Some (throw (Runtime_error ''Empty model response'')), s2)
                           else case commitExchange sv userId userName sessionId question answer s2 of
                                  (Inl e, s3) \<Rightarrow> (Some (Inl e), s3)
                                | (Inr _, s3) \<Rightarrow> (Some (return answer), s3)))))"

text \<open>\<^verbatim>\<open>AIHelper::request\<close>\<close>

definition helper_request ::
  "('j, 'kv) services \<Rightarrow> 'j \<Rightarrow> 'j ai_helper \<Rightarrow> 'j result \<times> 'j ai_helper" where
  "helper_request sv payload h =
     (case hp_strategy h of
        Some strat \<Rightarrow> (executeCurl (sv_json sv) (sv_curl sv 0) strat payload, h)
      | None \<Rightarrow>
          (case create_strategy (sv_json sv) (sv_env sv) ''1'' of
             Inl e \<Rightarrow> (Inl e, h)
           | Inr strat \<Rightarrow> (executeCurl (sv_json sv) (sv_curl sv 0) strat payload, setStrategy strat h)))"

section \<open>Streaming an answer\<close>

datatype stream_call = On_token string | On_done string | On_error string

text \<open>
  The calls \<^verbatim>\<open>chatStream\<close> makes, in their order. \<open>cb\<close> says whether the token callback throws, given the texts
  it has got; \<open>cb_done\<close> the same of the final callback. The texts are followed by the outcome: the
  whole answer, or an error.
\<close>

definition stream_answer ::
  "('j, 'kv) services \<Rightarrow> 'j strategy \<Rightarrow> (string list \<Rightarrow> cpp_exn option) \<Rightarrow> int \<Rightarrow> string \<Rightarrow> string \<Rightarrow> messages \<Rightarrow>
   'kv gemma_pool \<Rightarrow> string list \<times> unit result \<times> 'kv gemma_pool" where
  "stream_answer sv strat cb userId sessionId question ms pool =
     (let request = ms @ [(question, 0)]
      in if st_isLocal strat
         then if \<not> isLoaded pool then ([], throw (Runtime_error ''Gemma model not loaded''), pool)
              else case generateFromHistory (sv_engine sv) (session_key userId sessionId) request (Some cb)
                          (Some (7 / 10)) 256 (sv_gemma_now sv) (sv_gemma_later sv) pool of
                     (r, out, pool') \<Rightarrow> (out, r, pool')
         else case executeCurlStream (sv_json sv) (sv_stream sv) strat cb (st_buildStreamRequest strat request) of
                Inl e \<Rightarrow> ([], Inl e, pool)
              | Inr (out, None) \<Rightarrow> (out, return (), pool)
              | Inr (out, Some failure) \<Rightarrow> (out, throw (Runtime_error failure), pool))"

definition finish_stream ::
  "(string \<Rightarrow> cpp_exn option) \<Rightarrow> string list \<Rightarrow> string \<Rightarrow> stream_call list" where
  "finish_stream cb_done out full =
     map On_token out @ [On_done full] @ (case cb_done full of None \<Rightarrow> [] | Some e \<Rightarrow> [On_error (what e)])"

definition chatStream ::
  "('j, 'kv) services \<Rightarrow> (string list \<Rightarrow> cpp_exn option) \<Rightarrow> (string \<Rightarrow> cpp_exn option) \<Rightarrow> int \<Rightarrow> string \<Rightarrow>
   string \<Rightarrow> string \<Rightarrow> string \<Rightarrow> ('j, 'kv) ai_state \<Rightarrow> stream_call list option \<times> ('j, 'kv) ai_state" where
  "chatStream sv cb cb_done userId userName sessionId question modelType s =
     (case validateCanonicalHistory (as_helper s) of
        Inl e \<Rightarrow> (Some [On_error (what e)], s)
      | Inr _ \<Rightarrow>
          (case create_strategy (sv_json sv) (sv_env sv) modelType of
             Inl e \<Rightarrow> (Some [On_error (what e)], s)
           | Inr strat \<Rightarrow>
               (let s1 = s\<lparr>as_helper := setStrategy strat (as_helper s)\<rparr>
                in if st_isMCPModel strat
                   then case chat sv userId userName sessionId question modelType s1 of
                          (None, s2) \<Rightarrow> (None, s2)
                        | (Some (Inl e), s2) \<Rightarrow> (Some [On_error (what e)], s2)
                        | (Some (Inr answer), s2) \<Rightarrow>
                            (case cb [answer] of
                               Some e \<Rightarrow> (Some [On_token answer, On_error (what e)], s2)
                             | None \<Rightarrow> (Some (finish_stream cb_done [answer] answer), s2))
                   else case stream_answer sv strat cb userId sessionId question (hp_messages (as_helper s1)) (as_gemma s1) of
                          (out, Inl e, pool) \<Rightarrow>
                            (Some (map On_token out @ [On_error (what e)]), s1\<lparr>as_gemma := pool\<rparr>)
                        | (out, Inr _, pool) \<Rightarrow>
                            (let s2 = s1\<lparr>as_gemma := pool\<rparr>; full = concat out
                             in if full = []
                                then (Some (map On_token out @ [On_error ''Empty model response'']), s2)
                                else case commitExchange sv userId userName sessionId question full s2 of
                                       (Inl e, s3) \<Rightarrow> (Some (map On_token out @ [On_error (what e)]), s3)
                                     | (Inr _, s3) \<Rightarrow> (Some (finish_stream cb_done out full), s3)))))"

section \<open>The conversation stays canonical\<close>

lemma roles_from_append: "roles_from i (rs @ qs) \<longleftrightarrow> roles_from i rs \<and> roles_from (i + length rs) qs"
  by (induction i rs rule: roles_from.induct) auto

lemma validate_iff:
  "validateCanonicalHistory h = Inr u \<longleftrightarrow>
     length (hp_messages h) = length (hp_roles h) \<and> even (length (hp_messages h)) \<and> roles_from 0 (hp_roles h)"
  by (auto simp: validateCanonicalHistory_def even_iff_mod_2_eq_zero)

lemma mq_publish_refused: "mq_publish queue body m = (False, m') \<Longrightarrow> m' = m"
  by (auto simp: mq_publish_def schedulePublish_def split: option.splits if_splits)

text \<open>The exchange recorded by a commit, and the time stamp it gets.\<close>

definition next_ts :: "int \<Rightarrow> messages \<Rightarrow> int" where
  "next_ts now ms = (if ms = [] then now else max now (snd (last ms) + 1))"

definition committed ::
  "('j, 'kv) services \<Rightarrow> int \<Rightarrow> string \<Rightarrow> string \<Rightarrow> string \<Rightarrow> string \<Rightarrow> ('j, 'kv) ai_state \<Rightarrow> ('j, 'kv) ai_state \<Rightarrow> bool" where
  "committed sv userId userName sessionId question answer s s' \<longleftrightarrow>
     (\<exists>ts body x. hp_messages (as_helper s') = hp_messages (as_helper s) @ [(question, ts), (answer, ts + 1)] \<and>
        hp_roles (as_helper s') = hp_roles (as_helper s) @ [True, False] \<and>
        (hp_messages (as_helper s) \<noteq> [] \<longrightarrow> snd (last (hp_messages (as_helper s))) < ts) \<and>
        mq_publish ''sql_queue'' body (as_mq s) = (True, as_mq s') \<and>
        parse_exchange (sv_json sv) body = Inr x \<and> ex_user_id x = userId \<and> ex_username x = userName \<and>
        ex_session_id x = sessionId \<and> ex_question x = question \<and> ex_answer x = answer \<and> ex_ts x = ts)"

definition unchanged :: "('j, 'kv) ai_state \<Rightarrow> ('j, 'kv) ai_state \<Rightarrow> bool" where
  "unchanged s s' \<longleftrightarrow> hp_messages (as_helper s') = hp_messages (as_helper s) \<and>
     hp_roles (as_helper s') = hp_roles (as_helper s) \<and> as_mq s' = as_mq s"

definition services_ok :: "('j, 'kv) services \<Rightarrow> int \<Rightarrow> bool" where
  "services_ok sv userId \<longleftrightarrow> json_ok (sv_json sv) \<and> 0 \<le> sv_now sv \<and> sv_now sv < 2 ^ 63 \<and>
     - (2 ^ 31) \<le> userId \<and> userId < 2 ^ 31"

lemma commitExchange_cases:
  assumes "services_ok sv userId"
    and "commitExchange sv userId userName sessionId question answer s = (r, s')"
  shows "case r of Inl e \<Rightarrow> unchanged s s' \<and> as_gemma s' = as_gemma s
     | Inr _ \<Rightarrow> committed sv userId userName sessionId question answer s s'"
proof -
  let ?ms = "hp_messages (as_helper s)"
  define ts where "ts = next_ts (sv_now sv) ?ms"
  show ?thesis
  proof (cases r)
    case (Inl e)
    have "unchanged s s' \<and> as_gemma s' = as_gemma s"
      using assms(2) Inl
      by (auto simp: commitExchange_def Let_def unchanged_def dest!: mq_publish_refused
          split: if_splits sum.splits prod.splits bool.splits)
    then show ?thesis using Inl by simp
  next
    case (Inr u)
    from assms(2) Inr obtain mid body y mq where
      g: "\<not> (?ms \<noteq> [] \<and> snd (last ?ms) \<ge> LLONG_MAX - 2)"
      and ser: "serialize (sv_json sv) \<lparr>ex_message_id = mid, ex_user_id = userId, ex_username = userName,
        ex_session_id = sessionId, ex_question = question, ex_answer = answer, ex_ts = ts\<rparr> = Inr body"
      and par: "parse_exchange (sv_json sv) body = Inr y"
      and pub: "mq_publish ''sql_queue'' body (as_mq s) = (True, mq)"
      and s': "s' = s\<lparr>as_mq := mq, as_helper := as_helper s\<lparr>hp_messages := ?ms @ [(question, ts), (answer, ts + 1)],
        hp_roles := hp_roles (as_helper s) @ [True, False]\<rparr>\<rparr>"
      unfolding commitExchange_def Let_def ts_def next_ts_def
      by (auto split: if_splits sum.splits prod.splits bool.splits)
    have "0 \<le> ts" "ts < 2 ^ 63" and mono: "?ms \<noteq> [] \<longrightarrow> snd (last ?ms) < ts"
      using assms(1) g by (auto simp: ts_def next_ts_def services_ok_def LLONG_MAX_def)
    then have y: "y = \<lparr>ex_message_id = mid, ex_user_id = userId, ex_username = userName,
        ex_session_id = sessionId, ex_question = question, ex_answer = answer, ex_ts = ts\<rparr>"
      using parse_serialize [OF _ ser] par assms(1) by (auto simp: services_ok_def split: if_splits)
    have "committed sv userId userName sessionId question answer s s'"
      unfolding committed_def
      by (intro exI [of _ ts] exI [of _ body] exI [of _ y]) (use mono pub par in \<open>simp add: s' y\<close>)
    then show ?thesis using Inr by simp
  qed
qed

lemma committed_canonical:
  assumes "committed sv userId userName sessionId question answer s s'" "validateCanonicalHistory (as_helper s) = Inr u"
  shows "validateCanonicalHistory (as_helper s') = Inr ()"
proof -
  let ?h = "as_helper s" and ?h' = "as_helper s'"
  obtain ts where m: "hp_messages ?h' = hp_messages ?h @ [(question, ts), (answer, ts + 1)]"
    and r: "hp_roles ?h' = hp_roles ?h @ [True, False]"
    using assms(1) unfolding committed_def by blast
  have h: "length (hp_messages ?h) = length (hp_roles ?h)" "even (length (hp_roles ?h))" "roles_from 0 (hp_roles ?h)"
    using assms(2) unfolding validate_iff by metis+
  have "length (hp_roles ?h) mod 2 = 0" "Suc (length (hp_roles ?h)) mod 2 = 1"
    using h(2) by presburger+
  then have "roles_from 0 (hp_roles ?h')" unfolding r roles_from_append using h(3) by simp
  then show ?thesis unfolding validate_iff m r using h by simp
qed

lemma chat_cases:
  assumes "services_ok sv userId"
    and "chat sv userId userName sessionId question modelType s = (r, s')"
  shows "(\<forall>answer. r = Some (Inr answer) \<longrightarrow> answer \<noteq> [] \<and> validateCanonicalHistory (as_helper s) = Inr () \<and>
        committed sv userId userName sessionId question answer s s') \<and>
    ((\<forall>answer. r \<noteq> Some (Inr answer)) \<longrightarrow> unchanged s s')"
proof (cases "validateCanonicalHistory (as_helper s)")
  case (Inl e)
  then show ?thesis using assms(2) by (auto simp: chat_def unchanged_def)
next
  case (Inr u)
  show ?thesis
  proof (cases "create_strategy (sv_json sv) (sv_env sv) modelType")
    case (Inl e)
    then show ?thesis using assms(2) Inr by (auto simp: chat_def unchanged_def)
  next
    case S: (Inr strat)
    let ?s1 = "s\<lparr>as_helper := setStrategy strat (as_helper s)\<rparr>"
    obtain a pool where a: "chat_answer sv strat userId sessionId question (hp_messages (as_helper s)) (as_gemma s) = (a, pool)"
      by fastforce
    have same: "hp_messages (setStrategy strat h) = hp_messages h" "hp_roles (setStrategy strat h) = hp_roles h" for h
      by (simp_all add: setStrategy_def)
    let ?s2 = "?s1\<lparr>as_gemma := pool\<rparr>"
    have u2: "unchanged s ?s2" by (simp add: unchanged_def same)
    show ?thesis
    proof (cases "\<exists>answer. a = Some (Inr answer) \<and> answer \<noteq> []")
      case True
      then obtain answer where answer: "a = Some (Inr answer)" "answer \<noteq> []" by blast
      obtain c s3 where c: "commitExchange sv userId userName sessionId question answer ?s2 = (c, s3)" by fastforce
      have res: "s' = s3" "r = (case c of Inl e \<Rightarrow> Some (Inl e) | Inr _ \<Rightarrow> Some (Inr answer))"
        using assms(2) Inr S a answer c by (auto simp: chat_def Let_def same split: sum.splits)
      show ?thesis
        using commitExchange_cases [OF assms(1) c] res answer Inr
        by (cases c) (auto simp: unchanged_def committed_def same)
    next
      case False
      then have "s' = ?s2 \<and> (\<forall>answer. r \<noteq> Some (Inr answer))"
        using assms(2) Inr S a by (auto simp: chat_def Let_def same split: option.splits sum.splits)
      then show ?thesis using u2 by simp
    qed
  qed
qed

text \<open>
  C9. A turn of a conversation happens completely or not at all. When \<^verbatim>\<open>chat\<close> returns an answer, it is not empty, the
  question and the answer were appended to the conversation with roles and increasing time stamps, so that the
  conversation is canonical again, and exactly one message was admitted to the queue, which reads back as
  this exchange of this user and session. When it throws (or the code is undefined on the provider's
  response), the conversation and the queue are as before.
\<close>

theorem chat_all_or_nothing:
  assumes "services_ok sv userId"
    and "chat sv userId userName sessionId question modelType s = (r, s')"
  shows "(\<forall>answer. r = Some (Inr answer) \<longrightarrow> answer \<noteq> [] \<and> validateCanonicalHistory (as_helper s') = Inr () \<and>
        committed sv userId userName sessionId question answer s s') \<and>
    ((\<forall>answer. r \<noteq> Some (Inr answer)) \<longrightarrow> unchanged s s')"
proof -
  note c = chat_cases [OF assms]
  have "validateCanonicalHistory (as_helper s') = Inr ()" if r: "r = Some (Inr answer)" for answer
  proof (rule committed_canonical)
    show "committed sv userId userName sessionId question answer s s'" using conjunct1 [OF c] r by simp
    show "validateCanonicalHistory (as_helper s) = Inr ()" using conjunct1 [OF c] r by simp
  qed
  then show ?thesis using c by simp
qed

definition sample_turn :: jval where
  "sample_turn = J_obj [(''v'', J_int 1), (''message_id'', J_str (replicate 32 CHR ''0'')), (''user_id'', J_int 7),
      (''username'', J_str ''u''), (''session_id'', J_str ''s''), (''question'', J_str ''q''), (''answer'', J_str ''A''),
      (''ts'', J_int 1000)]"

definition sample_services :: "(jval, nat) services" where
  "sample_services = \<lparr>sv_json = table_json [(''body'', sample_turn)], sv_env = (\<lambda>_. None), sv_engine = toy_engine,
     sv_file = (\<lambda>_. None), sv_tools = \<lparr>tw_escape = (\<lambda>_. None), tw_curl_init = False, tw_fetch = (\<lambda>_. None), tw_localtime = []\<rparr>,
     sv_expand = (\<lambda>_ _. []), sv_curl = (\<lambda>_ _. Curl_no_handle),
     sv_stream = (\<lambda>_. \<lparr>cs_handle = False, cs_header = False, cs_pieces = [], cs_result = None, cs_status = 0\<rparr>),
     sv_gemma_now = 0, sv_gemma_later = 1, sv_now = 1000, sv_random = Some (replicate 16 0)\<rparr>"

definition sample_state :: "(jval, nat) ai_state" where
  "sample_state = \<lparr>as_helper = new_helper, as_gemma = toy_pool, as_mq = Some (new_handler ''sql_queue'')\<rparr>"

lemma sample_services_ok: "services_ok sample_services 7"
  by (simp add: services_ok_def sample_services_def table_json_ok)

lemma sample_generate:
  "generateFromHistory toy_engine key [(''q'', 0)] (Some (\<lambda>_. None)) (Some (7 / 10)) 256 0 1 toy_pool =
     (if key = [] then (Inl (Invalid_argument ''Invalid Gemma generation request''), [], toy_pool)
      else (Inr (), [''A''], toy_pool\<lparr>gp_sessions := [(key, \<lparr>kv_cache = 1024, abs_pos = 2, transcript = [''q'', ''A''],
        last_used = 1, access_order = 1\<rparr>)], gp_access := 1\<rparr>))"
  by (simp add: generateFromHistory_def generate_defs Let_def toy_pool_def toy_engine_def
      default_cache_policy_def evict.simps)

lemma sample_strategy_created:
  "create_strategy js env ''5'' = GemmaStrategy js env"
  by (simp add: create_strategy_def strategy_factory_def registerStrategy_def)

lemma sample_chat_answer:
  "fst (chat_answer sample_services (the (case GemmaStrategy js env of Inr x \<Rightarrow> Some x | Inl _ \<Rightarrow> None)) 7 ''s'' ''q'' [] toy_pool) =
     Some (Inr ''A'')"
proof -
  have "session_key 7 ''s'' \<noteq> []" by (simp add: session_key_def)
  then show ?thesis
    by (simp add: chat_answer_def GemmaStrategy_def isLoaded_def sample_services_def generateSyncFromHistory_def
        sample_generate) (simp add: toy_pool_def)
qed

lemma concat_pairs: "concat (replicate n [a, a]) = replicate (2 * n) a"
  by (induction n) auto

lemma sample_secure: "secureId (Some (replicate 16 0)) = Inr (replicate 32 CHR ''0'')"
  by (simp add: secureId_def hex_digits_def map_replicate_const concat_pairs)

lemma sample_parse: "parse_exchange (table_json [(''body'', sample_turn)]) ''body'' =
    Inr \<lparr>ex_message_id = replicate 32 CHR ''0'', ex_user_id = 7, ex_username = ''u'', ex_session_id = ''s'',
      ex_question = ''q'', ex_answer = ''A'', ex_ts = 1000\<rparr>"
  by (simp add: parse_exchange_def parse_fields_def schema_ok_def js_int_field_def js_string_field_def table_json_def
      sample_turn_def fields_valid_def list_all_iff id_char_def INT_MAX_def LLONG_MAX_def)

lemma sample_serialized: "serialize (table_json [(''body'', sample_turn)])
    \<lparr>ex_message_id = replicate 32 CHR ''0'', ex_user_id = 7, ex_username = ''u'', ex_session_id = ''s'',
      ex_question = ''q'', ex_answer = ''A'', ex_ts = 1000\<rparr> = Inr ''body''"
  by (simp add: serialize_def exchange_fields_def sample_turn_def table_json_def)

lemma sample_chat: "\<exists>s'. chat sample_services 7 ''u'' ''s'' ''q'' ''5'' sample_state = (Some (Inr ''A''), s')"
proof -
  have pub: "\<exists>mq. mq_publish ''sql_queue'' ''body'' (Some (new_handler ''sql_queue'')) = (True, mq)"
    by (simp add: mq_publish_def schedulePublish_def new_handler_def MaxPending_def)
  then obtain mq where mq: "mq_publish ''sql_queue'' ''body'' (Some (new_handler ''sql_queue'')) = (True, mq)" by blast
  obtain strat where st: "GemmaStrategy (sv_json sample_services) (sv_env sample_services) = Inr strat"
    by (simp add: GemmaStrategy_def)
  obtain pool where a: "chat_answer sample_services strat 7 ''s'' ''q'' [] toy_pool = (Some (Inr ''A''), pool)"
    using sample_chat_answer [of "sv_json sample_services" "sv_env sample_services"] st
    by (cases "chat_answer sample_services strat 7 ''s'' ''q'' [] toy_pool") auto
  have h: "as_helper sample_state = new_helper" "as_gemma sample_state = toy_pool"
    "as_mq sample_state = Some (new_handler ''sql_queue'')" by (simp_all add: sample_state_def)
  have "validateCanonicalHistory (as_helper sample_state) = Inr ()"
    by (simp add: validateCanonicalHistory_def new_helper_def h)
  then show ?thesis
    by (simp add: chat_def h sample_strategy_created st Let_def setStrategy_def new_helper_def a commitExchange_def)
      (simp add: sample_services_def sample_secure sample_serialized sample_parse mq h)
qed

theorem chat_all_or_nothing_witness:
  "\<exists>s'. chat sample_services 7 ''u'' ''s'' ''q'' ''5'' sample_state = (Some (Inr ''A''), s') \<and>
     validateCanonicalHistory (as_helper s') = Inr () \<and> length (hp_messages (as_helper s')) = 2"
proof -
  obtain s' where c: "chat sample_services 7 ''u'' ''s'' ''q'' ''5'' sample_state = (Some (Inr ''A''), s')"
    using sample_chat by blast
  have "hp_messages (as_helper sample_state) = []" by (simp add: sample_state_def new_helper_def)
  with c chat_all_or_nothing [OF sample_services_ok c] show ?thesis by (auto simp: committed_def)
qed

lemma committed_setStrategy:
  "committed sv u n i q a (s\<lparr>as_helper := setStrategy strat (as_helper s), as_gemma := g\<rparr>) s' = committed sv u n i q a s s'"
  "committed sv u n i q a (s\<lparr>as_helper := setStrategy strat (as_helper s)\<rparr>) s' = committed sv u n i q a s s'"
  "unchanged (s\<lparr>as_helper := setStrategy strat (as_helper s), as_gemma := g\<rparr>) s' = unchanged s s'"
  "unchanged (s\<lparr>as_helper := setStrategy strat (as_helper s)\<rparr>) s' = unchanged s s'"
  by (simp_all add: committed_def unchanged_def setStrategy_def)

lemma unchanged_refl: "unchanged s s" "unchanged s (s\<lparr>as_helper := setStrategy strat (as_helper s), as_gemma := g\<rparr>)"
  by (simp_all add: unchanged_def setStrategy_def)

text \<open>The token callback threw on none of the texts, each of which it got after the ones before it.\<close>

definition accepted :: "(string list \<Rightarrow> cpp_exn option) \<Rightarrow> string list \<Rightarrow> bool" where
  "accepted cb out \<longleftrightarrow> (\<forall>n<length out. cb (take (Suc n) out) = None)"

lemma accepted_Nil [simp]: "accepted cb []"
  by (simp add: accepted_def)

lemma accepted_snoc: "accepted cb (out @ [t]) \<longleftrightarrow> accepted cb out \<and> cb (out @ [t]) = None"
  by (auto simp: accepted_def less_Suc_eq)

lemma accepted_butlast: "accepted cb out \<Longrightarrow> accepted cb (butlast out)"
  by (cases out rule: rev_cases) (simp_all add: accepted_snoc)

lemma stream_loop_accepted:
  "stream_loop eng n (Some f) toks (k, a, out) = (cb, k', a', out') \<Longrightarrow> accepted f out \<Longrightarrow>
     (cb = None \<longrightarrow> accepted f out') \<and> accepted f (butlast out')"
proof (induction toks arbitrary: k a out)
  case Nil
  then show ?case by (auto intro: accepted_butlast)
next
  case (Cons t toks)
  show ?case
  proof (cases "k + 1 \<le> n \<or> eng_IsEOS eng t \<or> eng_Decode eng t = None")
    case True
    then have "stream_loop eng n (Some f) toks (k + 1, a, out) = (cb, k', a', out')"
      using Cons.prems(1) by (auto split: if_splits)
    from Cons.IH [OF this Cons.prems(2)] show ?thesis .
  next
    case False
    then obtain piece where piece: "eng_Decode eng t = Some piece" by auto
    show ?thesis
    proof (cases "f (out @ [piece])")
      case None
      then have "stream_loop eng n (Some f) toks (k + 1, a @ piece, out @ [piece]) = (cb, k', a', out')"
        using Cons.prems(1) False piece by simp
      from Cons.IH [OF this] Cons.prems(2) None show ?thesis by (simp add: accepted_snoc)
    qed (use Cons.prems False piece in auto)
  qed
qed

lemma run_session_accepted:
  assumes "run_session eng key tokens start history (Some f) t limit now d s = (r, out, s')"
  shows "accepted f (butlast out) \<and> ((\<exists>u. r = Inr u) \<longrightarrow> accepted f out)"
proof -
  obtain toks exn kv where g: "eng_Generate eng limit t tokens start (kv_cache d) = (toks, exn, kv)" by (metis prod_cases3)
  obtain cb n a out1 where l: "stream_loop eng (length tokens) (Some f) toks (0, [], []) = (cb, n, a, out1)"
    by (metis prod_cases4)
  have "out1 = out \<and> ((\<exists>u. r = Inr u) \<longrightarrow> cb = None)"
    using assms by (auto simp: run_session_def g l Let_def split: option.splits)
  with stream_loop_accepted [OF l] show ?thesis by simp
qed

lemma generateFromHistory_accepted:
  assumes "generateFromHistory eng key h (Some f) t limit now now' s = (r, out, s')"
  shows "accepted f (butlast out) \<and> ((\<exists>u. r = Inr u) \<longrightarrow> accepted f out)"
  using assms unfolding generateFromHistory_def generateImpl_def Let_def
  by (auto dest!: run_session_accepted split: if_splits sum.splits prod.splits)

text \<open>The state of a stream: while it goes on every text was accepted; once it is refused there is an error.\<close>

definition sse_fine :: "(string list \<Rightarrow> cpp_exn option) \<Rightarrow> bool \<times> sse_state \<Rightarrow> bool" where
  "sse_fine f r \<longleftrightarrow> accepted f (butlast (sse_out (snd r))) \<and>
     (if fst r then accepted f (sse_out (snd r)) else sse_error (snd r) \<noteq> [])"

lemma sse_event_fine: "accepted f (sse_out st) \<Longrightarrow> sse_fine f (sse_event js strat f event st)"
  by (auto simp: sse_event_def sse_fine_def sse_failed_def Let_def accepted_snoc accepted_butlast split: option.splits sum.splits)

lemma sse_line_fine: "accepted f (sse_out st) \<Longrightarrow> sse_fine f (sse_line js strat f line st)"
proof (cases "take 5 (strip_cr line) = ''data:''")
  case True
  then show "accepted f (sse_out st) \<Longrightarrow> ?thesis" by (simp add: sse_line_def Let_def sse_event_fine)
next
  case False
  then show "accepted f (sse_out st) \<Longrightarrow> ?thesis" by (simp add: sse_line_def Let_def sse_fine_def accepted_butlast)
qed

lemma sse_loop_fine: "accepted f (sse_out st) \<Longrightarrow> sse_fine f (sse_loop js strat f buf st)"
proof (induction js strat f buf st rule: sse_loop.induct)
  case (1 js strat f buf st)
  show ?case
  proof (cases "find_char LF buf")
    case None
    then show ?thesis using "1.prems" by (subst sse_loop.simps) (simp add: sse_fine_def accepted_butlast)
  next
    case (Some pos)
    obtain ok st' where l: "sse_line js strat f (take pos buf) st = (ok, st')" by fastforce
    note fine = sse_line_fine [OF "1.prems", of js strat "take pos buf", unfolded l]
    show ?thesis
    proof (cases ok)
      case True
      with fine have "accepted f (sse_out st')" by (simp add: sse_fine_def)
      from "1.IH" [OF Some l [symmetric] eqTrueI [OF True] this] show ?thesis
        using Some l True by (subst sse_loop.simps) simp
    next
      case False
      with fine Some l show ?thesis by (subst sse_loop.simps) (simp add: sse_fine_def)
    qed
  qed
qed

lemma sse_pieces_fine: "accepted f (sse_out st) \<Longrightarrow> sse_fine f (sse_pieces js strat f ps st)"
proof (induction ps arbitrary: st)
  case (Cons p ps)
  obtain ok st' where w: "sse_write js strat f p st = (ok, st')" by fastforce
  then have fine: "sse_fine f (ok, st')"
    using sse_loop_fine [OF Cons.prems, of js strat "sse_buffer st @ p"] by (simp add: sse_write_def)
  then show ?case using Cons.IH [of st'] w by (cases ok) (simp_all add: sse_fine_def)
qed (simp add: sse_fine_def accepted_butlast)

lemma executeCurlStream_accepted:
  assumes "executeCurlStream js stream strat f payload = Inr (out, failure)"
  shows "accepted f (butlast out) \<and> (failure = None \<longrightarrow> accepted f out)"
proof -
  have "sse_fine f (sse_pieces js strat f ps new_sse)" for ps
    by (rule sse_pieces_fine) (simp add: new_sse_def)
  with assms show ?thesis
    by (fastforce simp: executeCurlStream_def bind_result_Inr Let_def sse_fine_def split: if_splits option.splits)
qed

lemma stream_answer_accepted:
  assumes "stream_answer sv strat cb userId sessionId question ms pool = (out, r, pool')"
  shows "accepted cb (butlast out) \<and> ((\<exists>u. r = Inr u) \<longrightarrow> accepted cb out)"
proof (cases "st_isLocal strat")
  case True
  with assms show ?thesis
    by (auto simp: stream_answer_def Let_def dest!: generateFromHistory_accepted split: if_splits prod.splits)
next
  case False
  with assms show ?thesis
    by (auto simp: stream_answer_def Let_def dest!: executeCurlStream_accepted split: sum.splits prod.splits option.splits)
qed

text \<open>
  How a streamed turn can end: with the final call, after the commit, followed by an error only if that call itself
  throws; with an error and nothing changed; or, for a model with tools, whose answer is committed before it
  is passed on, with the error of a token callback that threw on it.
\<close>

definition stream_ended ::
  "('j, 'kv) services \<Rightarrow> (string list \<Rightarrow> cpp_exn option) \<Rightarrow> (string \<Rightarrow> cpp_exn option) \<Rightarrow> bool \<Rightarrow> int \<Rightarrow> string \<Rightarrow> string \<Rightarrow> string \<Rightarrow>
   stream_call list \<Rightarrow> ('j, 'kv) ai_state \<Rightarrow> ('j, 'kv) ai_state \<Rightarrow> bool" where
  "stream_ended sv cb cb_done tools userId userName sessionId question calls s s' \<longleftrightarrow>
     (\<exists>out. calls = map On_token out @ [On_done (concat out)] @
              (case cb_done (concat out) of None \<Rightarrow> [] | Some e \<Rightarrow> [On_error (what e)]) \<and>
            concat out \<noteq> [] \<and> accepted cb out \<and> committed sv userId userName sessionId question (concat out) s s') \<or>
     (\<exists>out msg. calls = map On_token out @ [On_error msg] \<and> accepted cb (butlast out) \<and> unchanged s s') \<or>
     (\<exists>answer e. tools \<and> calls = [On_token answer, On_error (what e)] \<and> cb [answer] = Some e \<and>
            committed sv userId userName sessionId question answer s s')"

lemma stream_ended_error:
  "unchanged s s' \<Longrightarrow> accepted cb (butlast out) \<Longrightarrow>
     stream_ended sv cb cb_done tools userId userName sessionId question (map On_token out @ [On_error msg]) s s'"
  unfolding stream_ended_def by blast

lemma stream_ended_done:
  "concat out \<noteq> [] \<Longrightarrow> accepted cb out \<Longrightarrow> committed sv userId userName sessionId question (concat out) s s' \<Longrightarrow>
     stream_ended sv cb cb_done tools userId userName sessionId question (finish_stream cb_done out (concat out)) s s'"
  unfolding stream_ended_def finish_stream_def by blast

lemma stream_ended_tools:
  assumes sv: "services_ok sv userId"
    and ch: "chat sv userId userName sessionId question modelType (s\<lparr>as_helper := setStrategy strat (as_helper s)\<rparr>) =
      (Some x, s')"
    and calls: "calls = (case x of Inl e \<Rightarrow> [On_error (what e)]
      | Inr answer \<Rightarrow> (case cb [answer] of Some e \<Rightarrow> [On_token answer, On_error (what e)]
          | None \<Rightarrow> finish_stream cb_done [answer] answer))"
  shows "stream_ended sv cb cb_done True userId userName sessionId question calls s s'"
proof (cases x)
  case (Inl e)
  then show ?thesis
    using chat_cases [OF sv ch, unfolded committed_setStrategy] calls stream_ended_error [of s s' cb "[]"] by simp
next
  case (Inr answer)
  then have c: "answer \<noteq> []" "committed sv userId userName sessionId question answer s s'"
    using chat_cases [OF sv ch, unfolded committed_setStrategy] by simp_all
  show ?thesis
  proof (cases "cb [answer]")
    case None
    then have "accepted cb [answer]" by (simp add: accepted_def)
    then show ?thesis
      using calls Inr None c stream_ended_done [of "[answer]" cb sv userId userName sessionId question s s' cb_done True] by simp
  next
    case (Some e)
    with calls Inr c show ?thesis unfolding stream_ended_def by auto
  qed
qed

lemma stream_ended_commit:
  assumes sv: "services_ok sv userId" and out: "concat out \<noteq> []" and acc: "accepted cb out"
    and k: "commitExchange sv userId userName sessionId question (concat out)
      (s\<lparr>as_helper := setStrategy strat (as_helper s), as_gemma := pool\<rparr>) = (k, s')"
    and calls: "calls = (case k of Inl e \<Rightarrow> map On_token out @ [On_error (what e)]
      | Inr _ \<Rightarrow> finish_stream cb_done out (concat out))"
  shows "stream_ended sv cb cb_done tools userId userName sessionId question calls s s'"
proof (cases k)
  case (Inl e)
  then show ?thesis
    using commitExchange_cases [OF sv k] calls stream_ended_error [OF _ accepted_butlast [OF acc], of s s']
    by (simp add: committed_setStrategy)
next
  case (Inr u)
  then show ?thesis
    using commitExchange_cases [OF sv k] calls stream_ended_done [OF out acc]
    by (simp add: committed_setStrategy)
qed

definition uses_tools :: "('j, 'kv) services \<Rightarrow> string \<Rightarrow> bool" where
  "uses_tools sv modelType \<longleftrightarrow>
     (\<exists>strat. create_strategy (sv_json sv) (sv_env sv) modelType = Inr strat \<and> st_isMCPModel strat)"

lemma chatStream_ended:
  assumes sv: "services_ok sv userId"
    and c: "chatStream sv cb cb_done userId userName sessionId question modelType s = (r, s')"
  shows "case r of Some calls \<Rightarrow>
      stream_ended sv cb cb_done (uses_tools sv modelType) userId userName sessionId question calls s s'
    | None \<Rightarrow> uses_tools sv modelType \<and> unchanged s s'"
proof (cases "\<exists>e. validateCanonicalHistory (as_helper s) = Inl e \<or> create_strategy (sv_json sv) (sv_env sv) modelType = Inl e")
  case True
  then have "\<exists>m. r = Some (map On_token [] @ [On_error m]) \<and> s' = s"
    using c by (auto simp: chatStream_def split: sum.splits)
  then show ?thesis using stream_ended_error [of s s cb "[]"] unchanged_refl by fastforce
next
  case False
  then obtain u strat where V: "validateCanonicalHistory (as_helper s) = Inr u"
    and S: "create_strategy (sv_json sv) (sv_env sv) modelType = Inr strat"
    by (metis sum.exhaust)
  let ?s1 = "s\<lparr>as_helper := setStrategy strat (as_helper s)\<rparr>"
  show ?thesis
  proof (cases "st_isMCPModel strat")
    case True
    then have tools: "uses_tools sv modelType" using S by (auto simp: uses_tools_def)
    obtain x s2 where ch: "chat sv userId userName sessionId question modelType ?s1 = (x, s2)" by fastforce
    show ?thesis
    proof (cases x)
      case None
      with c V S True ch have "r = None" "s' = s2" by (auto simp: chatStream_def Let_def)
      with None chat_cases [OF sv ch, unfolded committed_setStrategy] tools show ?thesis by simp
    next
      case (Some y)
      with c V S True ch have "s' = s2" "r = Some (case y of Inl e \<Rightarrow> [On_error (what e)]
        | Inr answer \<Rightarrow> (case cb [answer] of Some e \<Rightarrow> [On_token answer, On_error (what e)]
            | None \<Rightarrow> finish_stream cb_done [answer] answer))"
        by (auto simp: chatStream_def Let_def split: option.splits sum.splits)
      then show ?thesis using stream_ended_tools [OF sv ch [unfolded Some]] tools by simp
    qed
  next
    case False
    obtain out x pool where st: "stream_answer sv strat cb userId sessionId question (hp_messages (as_helper ?s1))
        (as_gemma ?s1) = (out, x, pool)" by (metis prod_cases3)
    note acc = stream_answer_accepted [OF st]
    let ?s2 = "?s1\<lparr>as_gemma := pool\<rparr>"
    obtain k s3 where k: "commitExchange sv userId userName sessionId question (concat out) ?s2 = (k, s3)" by fastforce
    show ?thesis
    proof (cases "(\<exists>e. x = Inl e) \<or> concat out = []")
      case True
      then have "(\<exists>msg. r = Some (map On_token out @ [On_error msg])) \<and> s' = ?s2"
        using c V S False st by (auto simp: chatStream_def Let_def split: sum.splits)
      then show ?thesis using stream_ended_error unchanged_refl acc by fastforce
    next
      case ok: False
      then have "s' = s3" "r = Some (case k of Inl e \<Rightarrow> map On_token out @ [On_error (what e)]
          | Inr _ \<Rightarrow> finish_stream cb_done out (concat out))"
        using c V S False st k by (auto simp: chatStream_def Let_def simp del: concat_eq_Nil_conv split: sum.splits)
      moreover have "accepted cb out" using acc ok by (cases x) auto
      ultimately show ?thesis using stream_ended_commit [OF sv _ _ k] ok by simp
    qed
  qed
qed

text \<open>
  C36. A streamed turn reports how it ended, truthfully. The calls \<^verbatim>\<open>chatStream\<close> makes are the texts in their order, all but the last accepted
  by the token callback, and then one of three endings: \<^verbatim>\<open>on_done\<close> with the concatenation of the texts, which is not empty, after
  exactly this exchange was committed, followed by \<^verbatim>\<open>on_error\<close> if and only if \<^verbatim>\<open>on_done\<close> itself throws; one \<^verbatim>\<open>on_error\<close>, with the
  conversation and the queue untouched; or, only for a model with tools, whose answer is committed before it
  is passed on, one \<^verbatim>\<open>on_error\<close> with the exception of the token callback that refused the committed answer. Where the code is
  undefined on the provider's response (a model with tools), conversation and queue are untouched.
\<close>

theorem chatStream_one_outcome:
  assumes sv: "services_ok sv userId"
    and c: "chatStream sv cb cb_done userId userName sessionId question modelType s = (r, s')"
  shows "case r of
      None \<Rightarrow> uses_tools sv modelType \<and> unchanged s s'
    | Some calls \<Rightarrow>
        (\<exists>out. calls = map On_token out @ [On_done (concat out)] @
              (case cb_done (concat out) of None \<Rightarrow> [] | Some e \<Rightarrow> [On_error (what e)]) \<and>
            concat out \<noteq> [] \<and> accepted cb out \<and> committed sv userId userName sessionId question (concat out) s s') \<or>
        (\<exists>out msg. calls = map On_token out @ [On_error msg] \<and> accepted cb (butlast out) \<and> unchanged s s') \<or>
        (\<exists>answer e. uses_tools sv modelType \<and> calls = [On_token answer, On_error (what e)] \<and> cb [answer] = Some e \<and>
            committed sv userId userName sessionId question answer s s')"
  using chatStream_ended [OF assms] unfolding stream_ended_def by (cases r) simp_all

lemma sample_stream:
  "\<exists>s'. chatStream sample_services (\<lambda>_. None) (\<lambda>_. None) 7 ''u'' ''s'' ''q'' ''5'' sample_state =
     (Some [On_token ''A'', On_done ''A''], s')"
proof -
  obtain mq where mq: "mq_publish ''sql_queue'' ''body'' (Some (new_handler ''sql_queue'')) = (True, mq)"
    by (simp add: mq_publish_def schedulePublish_def new_handler_def MaxPending_def)
  obtain strat where st: "GemmaStrategy (sv_json sample_services) (sv_env sample_services) = Inr strat"
    by (simp add: GemmaStrategy_def)
  have key: "session_key 7 ''s'' \<noteq> []" by (simp add: session_key_def)
  have local: "st_isLocal strat" "\<not> st_isMCPModel strat" using st by (auto simp: GemmaStrategy_def)
  obtain pool where a: "stream_answer sample_services strat (\<lambda>_. None) 7 ''s'' ''q'' [] toy_pool = ([''A''], Inr (), pool)"
  proof -
    have "gp_loaded toy_pool" by (simp add: toy_pool_def)
    then have "\<exists>pool. stream_answer sample_services strat (\<lambda>_. None) 7 ''s'' ''q'' [] toy_pool = ([''A''], Inr (), pool)"
      using key local by (simp add: stream_answer_def isLoaded_def sample_services_def sample_generate)
    then show ?thesis using that by blast
  qed
  have h: "as_helper sample_state = new_helper" "as_gemma sample_state = toy_pool"
    "as_mq sample_state = Some (new_handler ''sql_queue'')" by (simp_all add: sample_state_def)
  have "validateCanonicalHistory (as_helper sample_state) = Inr ()"
    by (simp add: validateCanonicalHistory_def new_helper_def h)
  then show ?thesis
    by (simp add: chatStream_def h sample_strategy_created st local Let_def setStrategy_def new_helper_def a commitExchange_def)
      (simp add: sample_services_def sample_secure sample_serialized sample_parse mq h finish_stream_def)
qed

theorem chatStream_one_outcome_witness:
  "\<exists>s'. chatStream sample_services (\<lambda>_. None) (\<lambda>_. None) 7 ''u'' ''s'' ''q'' ''5'' sample_state =
       (Some [On_token ''A'', On_done ''A''], s') \<and>
     committed sample_services 7 ''u'' ''s'' ''q'' ''A'' sample_state s'"
proof -
  obtain s' where c: "chatStream sample_services (\<lambda>_. None) (\<lambda>_. None) 7 ''u'' ''s'' ''q'' ''5'' sample_state =
      (Some [On_token ''A'', On_done ''A''], s')" using sample_stream by blast
  have "map On_token out @ [On_done (concat out)] = [On_token ''A'', On_done ''A''] \<Longrightarrow> concat out = ''A''" for out
    by (cases out rule: rev_cases) auto
  moreover have "map On_token out @ [On_error m] \<noteq> [On_token ''A'', On_done ''A'']" for out m
    by (cases out rule: rev_cases) auto
  ultimately show ?thesis using chatStream_one_outcome [OF sample_services_ok c] c by auto
qed

end
