(* ===== verification/Chat_Server.thy ===== *)
theory Chat_Server
  imports Http_Server Session Password_Util AI_Helper
begin

text \<open>
  \<^verbatim>\<open>AIApps/ChatServer/include/ChatServer.h\<close>, \<^verbatim>\<open>AIApps/ChatServer/src/ChatServer.cpp\<close>, \<^verbatim>\<open>HttpServer/include/utils/MysqlUtil.h\<close> and
  \<^verbatim>\<open>HttpServer/include/utils/db/DbConnection.h\<close>: what the handlers of the chat server share. Conversations are
  objects the maps and running threads point to, so they live in an explicit heap. The database is a
  parameter: the answer to a statement with its bound parameters.

  The theorems show that restoring the history is all or nothing and rebuilds every stored conversation,
  and give the invariant of the two maps that handlers keep.
\<close>

section \<open>Reading numbers\<close>

definition is_space :: "char \<Rightarrow> bool" where
  "is_space c \<longleftrightarrow> byte_of c = 32 \<or> (9 \<le> byte_of c \<and> byte_of c \<le> 13)"

text \<open>\<^verbatim>\<open>std::stoi\<close>\<close>

definition stoi :: "string \<Rightarrow> int result" where
  "stoi s =
     (let t = dropWhile is_space s;
          neg = (t \<noteq> [] \<and> hd t = CHR ''-'');
          u = (if t \<noteq> [] \<and> (hd t = CHR ''-'' \<or> hd t = CHR ''+'') then tl t else t);
          ds = takeWhile is_digit u;
          v = (if neg then - int (decimal ds) else int (decimal ds))
      in if ds = [] then throw (Invalid_argument ''stoi'')
         else if v < - 2147483648 \<or> v > 2147483647 then throw (Out_of_range ''stoi'')
         else return v)"

lemma stoi_to_string:
  assumes "- 2147483648 \<le> i" and "i \<le> 2147483647"
  shows "stoi (to_string_int i) = Inr i"
proof -
  have d: "takeWhile is_digit (to_string n) = to_string n" for n
    using to_string_digits [of n] by (simp add: takeWhile_eq_all_conv list_all_iff)
  obtain c s where c: "to_string (nat i) = c # s" "is_digit c"
    using to_string_digits [of "nat i"] to_string_nonempty [of "nat i"]
    by (cases "to_string (nat i)") auto
  have "\<not> is_space c" "c \<noteq> CHR ''-''" "c \<noteq> CHR ''+''"
    using c(2) by (auto simp: is_digit_def is_space_def)
  then have pos: "dropWhile is_space (to_string (nat i)) = to_string (nat i)"
    "hd (to_string (nat i)) \<noteq> CHR ''-''" "hd (to_string (nat i)) \<noteq> CHR ''+''" by (simp_all add: c(1))
  show ?thesis
  proof (cases "i < 0")
    case True
    have "\<not> is_space CHR ''-''" by (simp add: is_space_def)
    with True assms show ?thesis by (simp add: stoi_def to_string_int_def d Let_def)
  next
    case False
    with assms show ?thesis by (simp add: stoi_def to_string_int_def pos d Let_def)
  qed
qed

section \<open>The database\<close>

text \<open>
  The columns of a row; a result \<open>None\<close> of a computation on rows is an \<^verbatim>\<open>sql::SQLException\<close>. Parameters are
  bound as strings. \<open>db_lease\<close> is what \<^verbatim>\<open>DbConnectionPool::getConnection\<close> comes to, with the message of the \<^verbatim>\<open>DbException\<close> when it throws.
\<close>

type_synonym row = "string \<Rightarrow> sql_value option"
type_synonym 'a sql = "'a result option"

record 'd db_ops =
  db_lease :: "'d \<Rightarrow> string option \<times> 'd"
  db_query :: "string \<Rightarrow> string list \<Rightarrow> 'd \<Rightarrow> row list option \<times> 'd"
  db_update :: "string \<Rightarrow> string list \<Rightarrow> 'd \<Rightarrow> int option \<times> 'd"

definition getInt :: "string \<Rightarrow> row \<Rightarrow> int sql" where
  "getInt column r = (case r column of Some (Sql_int i) \<Rightarrow> Some (return i) | _ \<Rightarrow> None)"

definition getString :: "string \<Rightarrow> row \<Rightarrow> string sql" where
  "getString column r = (case r column of Some (Sql_text t) \<Rightarrow> Some (return t) | _ \<Rightarrow> None)"

fun bindParam :: "sql_value \<Rightarrow> string" where
  "bindParam (Sql_text s) = s"
| "bindParam (Sql_int i) = to_string_int i"

definition conn_consumeQuery ::
  "'d db_ops \<Rightarrow> string \<Rightarrow> (row list \<Rightarrow> 'a sql) \<Rightarrow> string list \<Rightarrow> 'd \<Rightarrow> 'a result \<times> 'd" where
  "conn_consumeQuery db query consume args d =
     (case db_query db query args d of
        (None, d1) \<Rightarrow> (throw (Db_exception ''Database query failed''), d1)
      | (Some rows, d1) \<Rightarrow>
          (case consume rows of
             None \<Rightarrow> (throw (Db_exception ''Database query failed''), d1)
           | Some r \<Rightarrow> (r, d1)))"

definition conn_executeUpdate :: "'d db_ops \<Rightarrow> string \<Rightarrow> string list \<Rightarrow> 'd \<Rightarrow> int result \<times> 'd" where
  "conn_executeUpdate db query args d =
     (case db_update db query args d of
        (None, d1) \<Rightarrow> (throw (Db_exception ''Database update failed''), d1)
      | (Some n, d1) \<Rightarrow> (return n, d1))"

definition consumeQuery ::
  "'d db_ops \<Rightarrow> string \<Rightarrow> (row list \<Rightarrow> 'a sql) \<Rightarrow> string list \<Rightarrow> 'd \<Rightarrow> 'a result \<times> 'd" where
  "consumeQuery db query consume args d =
     (case db_lease db d of
        (Some message, d1) \<Rightarrow> (throw (Db_exception message), d1)
      | (None, d1) \<Rightarrow> conn_consumeQuery db query consume args d1)"

definition executeUpdate :: "'d db_ops \<Rightarrow> string \<Rightarrow> string list \<Rightarrow> 'd \<Rightarrow> int result \<times> 'd" where
  "executeUpdate db query args d =
     (case db_lease db d of
        (Some message, d1) \<Rightarrow> (throw (Db_exception message), d1)
      | (None, d1) \<Rightarrow> conn_executeUpdate db query args d1)"

section \<open>The state of the server\<close>

text \<open>The conversations: \<^verbatim>\<open>chatInformation\<close>, \<^verbatim>\<open>sessionsIdsMap\<close> and the objects they point to.\<close>

record 'j chat_maps =
  cm_chats :: "(int, (string, nat) umap) umap"
  cm_ids :: "(int, string list) umap"
  cm_heap :: "nat \<Rightarrow> 'j ai_helper option"
  cm_fresh :: nat

text \<open>A detached thread of the streaming handlers that has not run yet.\<close>

record stream_job =
  job_helper :: nat
  job_userId :: int
  job_username :: string
  job_sessionId :: string
  job_question :: string
  job_modelType :: string
  job_conn :: nat

text \<open>What an image recognizer of a user keeps: the model it has opened and the labels.\<close>

record recognizer =
  rg_model :: string
  rg_labels :: "string list"

record ('r, 'j, 'kv, 'd) chat_server =
  ch_sessions :: "'r session_state"
  ch_onlineUsers :: "(int, bool) umap"
  ch_maps :: "'j chat_maps"
  ch_recognizers :: "(int, recognizer) umap"
  ch_gemma :: "'kv gemma_pool"
  ch_mq :: "mq_handler option"
  ch_db :: 'd
  ch_net :: "(nat \<times> conn_action) list"
  ch_jobs :: "stream_job list"

definition inner :: "int \<Rightarrow> 'j chat_maps \<Rightarrow> (string, nat) umap" where
  "inner u m = (case map_of (cm_chats m) u of Some c \<Rightarrow> c | None \<Rightarrow> [])"

definition session_ids :: "int \<Rightarrow> 'j chat_maps \<Rightarrow> string list" where
  "session_ids u m = (case map_of (cm_ids m) u of Some l \<Rightarrow> l | None \<Rightarrow> [])"

text \<open>\<^verbatim>\<open>std::make_shared<AIHelper>()\<close>, entered under a key the map does not have yet.\<close>

definition new_conversation :: "int \<Rightarrow> string \<Rightarrow> 'j chat_maps \<Rightarrow> 'j chat_maps" where
  "new_conversation u sid m =
     m\<lparr>cm_chats := AList.update u (AList.update sid (cm_fresh m) (inner u m)) (cm_chats m),
       cm_ids := AList.update u (session_ids u m @ [sid]) (cm_ids m),
       cm_heap := (cm_heap m)(cm_fresh m \<mapsto> new_helper), cm_fresh := Suc (cm_fresh m)\<rparr>"

definition helper_at :: "nat \<Rightarrow> 'j chat_maps \<Rightarrow> 'j ai_helper" where
  "helper_at a m = (case cm_heap m a of Some h \<Rightarrow> h | None \<Rightarrow> new_helper)"

definition put_helper :: "nat \<Rightarrow> 'j ai_helper \<Rightarrow> 'j chat_maps \<Rightarrow> 'j chat_maps" where
  "put_helper a h m = m\<lparr>cm_heap := (cm_heap m)(a \<mapsto> h)\<rparr>"

section \<open>Restoring the history\<close>

definition history_query :: string where
  "history_query = ''SELECT id, username, session_id, is_user, content, ts FROM chat_message ORDER BY ts ASC, id ASC''"

definition restore_row :: "row \<Rightarrow> 'j chat_maps \<Rightarrow> 'j chat_maps sql" where
  "restore_row r m =
     bind_checked (getInt ''id'' r) (\<lambda>storedUserId.
     bind_checked (getString ''session_id'' r) (\<lambda>sessionId.
     bind_checked (getString ''content'' r) (\<lambda>content.
     bind_checked (getInt ''ts'' r) (\<lambda>ts.
     bind_checked (getInt ''is_user'' r) (\<lambda>role.
       if storedUserId \<le> 0 \<or> storedUserId > INT_MAX
       then Some (throw (Runtime_error ''Stored chat history has an invalid user id''))
       else if role \<noteq> 0 \<and> role \<noteq> 1
       then Some (throw (Runtime_error ''Stored chat history has an invalid message role''))
       else
         let m1 = (case map_of (inner storedUserId m) sessionId of
                     Some _ \<Rightarrow> m | None \<Rightarrow> new_conversation storedUserId sessionId m)
         in case map_of (inner storedUserId m1) sessionId of
              None \<Rightarrow> None
            | Some a \<Rightarrow>
                Some (return (put_helper a (restoreMessage content ts (role = 1) (helper_at a m1)) m1)))))))"

fun restore_rows :: "row list \<Rightarrow> 'j chat_maps \<Rightarrow> 'j chat_maps sql" where
  "restore_rows [] m = Some (return m)"
| "restore_rows (r # rs) m = bind_checked (restore_row r m) (restore_rows rs)"

definition readDataFromMySQL ::
  "'d db_ops \<Rightarrow> ('r, 'j, 'kv, 'd) chat_server \<Rightarrow> unit result \<times> ('r, 'j, 'kv, 'd) chat_server" where
  "readDataFromMySQL db w =
     (case consumeQuery db history_query
             (\<lambda>rows. restore_rows rows ((ch_maps w)\<lparr>cm_chats := [], cm_ids := []\<rparr>)) [] (ch_db w) of
        (Inl e, d) \<Rightarrow> (Inl e, w\<lparr>ch_db := d\<rparr>)
      | (Inr m, d) \<Rightarrow> (return (), w\<lparr>ch_db := d, ch_maps := m\<rparr>))"

text \<open>\<^verbatim>\<open>waitForDependencies\<close>: \<open>n\<close> attempts, \<open>attempt\<close> being one of them; the answer is whether one succeeded.\<close>

fun waitForDependencies ::
  "(('r, 'j, 'kv, 'd) chat_server \<Rightarrow> unit result \<times> ('r, 'j, 'kv, 'd) chat_server) \<Rightarrow> nat \<Rightarrow>
   ('r, 'j, 'kv, 'd) chat_server \<Rightarrow> bool \<times> ('r, 'j, 'kv, 'd) chat_server" where
  "waitForDependencies attempt 0 w = (False, w)"
| "waitForDependencies attempt (Suc n) w =
     (case attempt w of
        (Inr _, w1) \<Rightarrow> (True, w1)
      | (Inl _, w1) \<Rightarrow> waitForDependencies attempt n w1)"

section \<open>Consuming the queue\<close>

definition executeMysql :: "'j json_lib \<Rightarrow> 'd db_ops \<Rightarrow> string \<Rightarrow> 'd \<Rightarrow> disposition \<times> 'd" where
  "executeMysql js db body d =
     (case parse_exchange js body of
        Inl e \<Rightarrow> ((case e of Invalid_argument _ \<Rightarrow> Disp_Reject | _ \<Rightarrow> Disp_Retry), d)
      | Inr x \<Rightarrow>
          (case persist x of
             (sql, args) \<Rightarrow>
               (case executeUpdate db sql (map bindParam args) d of
                  (Inl e, d1) \<Rightarrow> ((case e of Invalid_argument _ \<Rightarrow> Disp_Reject | _ \<Rightarrow> Disp_Retry), d1)
                | (Inr _, d1) \<Rightarrow> (Disp_Ack, d1))))"

section \<open>Invariant of the maps\<close>

text \<open>
  The identifiers listed for a user are exactly those of the user's conversations, each once;
  no two conversations share an object.
\<close>

definition maps_ok :: "'j chat_maps \<Rightarrow> bool" where
  "maps_ok m \<longleftrightarrow>
     (\<forall>u. distinct (session_ids u m) \<and> set (session_ids u m) = dom (map_of (inner u m))) \<and>
     (\<forall>u i a. map_of (inner u m) i = Some a \<longrightarrow> cm_heap m a \<noteq> None) \<and>
     (\<forall>u i u' i' a. map_of (inner u m) i = Some a \<and> map_of (inner u' m) i' = Some a \<longrightarrow> u = u' \<and> i = i') \<and>
     (\<forall>a. cm_heap m a \<noteq> None \<longrightarrow> a < cm_fresh m)"

text \<open>The conversation of a user under an identifier.\<close>

definition conversation :: "'j chat_maps \<Rightarrow> int \<Rightarrow> string \<Rightarrow> 'j ai_helper option" where
  "conversation m u i = Option.bind (map_of (inner u m) i) (cm_heap m)"

lemma inner_new: "inner v (new_conversation u i m) =
    (if v = u then AList.update i (cm_fresh m) (inner u m) else inner v m)"
  by (simp add: inner_def new_conversation_def update_conv')

lemma session_ids_new: "session_ids v (new_conversation u i m) =
    (if v = u then session_ids u m @ [i] else session_ids v m)"
  by (simp add: session_ids_def new_conversation_def update_conv')

lemma maps_ok_new:
  assumes "maps_ok m" and "map_of (inner u m) i = None"
  shows "maps_ok (new_conversation u i m)"
proof -
  have fresh: "map_of (inner v m) j \<noteq> Some (cm_fresh m)" for v j
    using assms(1) unfolding maps_ok_def by (metis less_irrefl)
  have ids: "distinct (session_ids v m)" "set (session_ids v m) = dom (map_of (inner v m))" for v
    using assms(1) by (simp_all add: maps_ok_def)
  have upd: "map_of (AList.update i (cm_fresh m) (inner u m)) = (map_of (inner u m))(i \<mapsto> cm_fresh m)"
    by (simp add: update_conv')
  have bound: "cm_heap m a \<noteq> None \<Longrightarrow> a < cm_fresh m" for a using assms(1) by (simp add: maps_ok_def)
  have inj: "map_of (inner v m) j = Some a \<Longrightarrow> map_of (inner v' m) j' = Some a \<Longrightarrow> v = v' \<and> j = j'" for v j v' j' a
    using assms(1) unfolding maps_ok_def by blast
  have live: "map_of (inner v m) j = Some a \<Longrightarrow> cm_heap m a \<noteq> None" for v j a
    using assms(1) unfolding maps_ok_def by blast
  show ?thesis
    unfolding maps_ok_def inner_new session_ids_new
  proof (intro conjI allI impI)
    fix v show "distinct (if v = u then session_ids u m @ [i] else session_ids v m)"
      using ids assms(2) by auto
    show "set (if v = u then session_ids u m @ [i] else session_ids v m) =
        dom (map_of (if v = u then AList.update i (cm_fresh m) (inner u m) else inner v m))"
      using ids by (auto simp: upd)
  next
    fix v j a assume "map_of (if v = u then AList.update i (cm_fresh m) (inner u m) else inner v m) j = Some a"
    then show "cm_heap (new_conversation u i m) a \<noteq> None"
      using live by (auto simp: upd new_conversation_def split: if_splits)
  next
    fix v j v' j' a
    assume "map_of (if v = u then AList.update i (cm_fresh m) (inner u m) else inner v m) j = Some a \<and>
      map_of (if v' = u then AList.update i (cm_fresh m) (inner u m) else inner v' m) j' = Some a"
    then show "v = v'" "j = j'" using fresh inj by (auto simp: upd split: if_splits)
  next
    fix a assume "cm_heap (new_conversation u i m) a \<noteq> None"
    then show "a < cm_fresh (new_conversation u i m)"
      using bound [of a] by (auto simp: new_conversation_def split: if_splits)
  qed
qed

lemma put_helper_simps [simp]:
  "inner u (put_helper a h m) = inner u m" "session_ids u (put_helper a h m) = session_ids u m"
  "cm_chats (put_helper a h m) = cm_chats m" "cm_ids (put_helper a h m) = cm_ids m"
  "cm_fresh (put_helper a h m) = cm_fresh m"
  by (simp_all add: put_helper_def inner_def session_ids_def)

lemma maps_ok_put: "maps_ok m \<Longrightarrow> cm_heap m a \<noteq> None \<Longrightarrow> maps_ok (put_helper a h m)"
  unfolding maps_ok_def put_helper_simps by (auto simp: put_helper_def)

lemma conversation_new:
  assumes "maps_ok m" and "map_of (inner u m) i = None"
  shows "conversation (new_conversation u i m) v j =
    (if v = u \<and> j = i then Some new_helper else conversation m v j)"
proof -
  have n: "map_of (inner v m) j \<noteq> Some (cm_fresh m)"
    using assms(1) unfolding maps_ok_def by (metis less_irrefl)
  have h: "cm_heap (new_conversation u i m) = (cm_heap m)(cm_fresh m \<mapsto> new_helper)"
    by (simp add: new_conversation_def)
  show ?thesis
    using n unfolding conversation_def inner_new h
    by (cases "map_of (inner v m) j") (auto simp: update_conv')
qed

lemma conversation_put:
  assumes "maps_ok m" and "map_of (inner u m) i = Some a"
  shows "conversation (put_helper a h m) v j = (if v = u \<and> j = i then Some h else conversation m v j)"
proof -
  have "map_of (inner v m) j = Some a \<Longrightarrow> v = u \<and> j = i"
    using assms unfolding maps_ok_def by blast
  moreover have "cm_heap (put_helper a h m) = (cm_heap m)(a \<mapsto> h)" by (simp add: put_helper_def)
  ultimately show ?thesis
    unfolding conversation_def put_helper_simps
    using assms(2) by (cases "map_of (inner v m) j") auto
qed

section \<open>What a restoration rebuilds\<close>

text \<open>The message a row holds, when it is a valid one.\<close>

definition row_entry :: "row \<Rightarrow> (int \<times> string \<times> string \<times> int \<times> bool) option" where
  "row_entry r =
     (case (r ''id'', r ''session_id'', r ''content'', r ''ts'', r ''is_user'') of
        (Some (Sql_int u), Some (Sql_text sid), Some (Sql_text c), Some (Sql_int t), Some (Sql_int k)) \<Rightarrow>
          if 0 < u \<and> u \<le> INT_MAX \<and> (k = 0 \<or> k = 1) then Some (u, sid, c, t, k = 1) else None
      | _ \<Rightarrow> None)"

text \<open>The messages of one conversation, in the order of the rows.\<close>

fun stored_messages :: "row list \<Rightarrow> int \<Rightarrow> string \<Rightarrow> ((string \<times> int) \<times> bool) list" where
  "stored_messages [] u i = []"
| "stored_messages (r # rs) u i =
     (case row_entry r of
        Some (v, j, c, t, k) \<Rightarrow> (if v = u \<and> j = i then [((c, t), k)] else []) @ stored_messages rs u i
      | None \<Rightarrow> stored_messages rs u i)"

text \<open>A conversation as the list of its messages with their roles.\<close>

definition transcript_of :: "'j ai_helper \<Rightarrow> ((string \<times> int) \<times> bool) list" where
  "transcript_of h = zip (hp_messages h) (hp_roles h)"

definition stored_in :: "'j chat_maps \<Rightarrow> int \<Rightarrow> string \<Rightarrow> ((string \<times> int) \<times> bool) list" where
  "stored_in m u i = (case conversation m u i of None \<Rightarrow> [] | Some h \<Rightarrow> transcript_of h)"

text \<open>Every object has as many roles as messages, and none of them is empty in a restored snapshot.\<close>

definition snapshot_ok :: "'j chat_maps \<Rightarrow> bool" where
  "snapshot_ok m \<longleftrightarrow> maps_ok m \<and> (\<forall>u i h. conversation m u i = Some h \<longrightarrow>
     length (hp_messages h) = length (hp_roles h) \<and> hp_messages h \<noteq> [])"

lemma row_entry_cases:
  assumes "restore_row r m = Some (Inr m1)"
  obtains u sid c t k where "row_entry r = Some (u, sid, c, t, k)"
    and "m1 = (let m2 = (case map_of (inner u m) sid of Some _ \<Rightarrow> m | None \<Rightarrow> new_conversation u sid m);
                   a = the (map_of (inner u m2) sid)
               in put_helper a (restoreMessage c t k (helper_at a m2)) m2)"
  using assms
  by (auto simp: restore_row_def row_entry_def getInt_def getString_def bind_checked_def Let_def
      split: option.splits sql_value.splits if_splits)

lemma restore_row_ok:
  assumes "snapshot_ok m" and "restore_row r m = Some (Inr m1)"
  shows "snapshot_ok m1 \<and> row_entry r \<noteq> None \<and> stored_in m1 v j = stored_in m v j @ stored_messages [r] v j"
proof -
  obtain u sid c t k where e: "row_entry r = Some (u, sid, c, t, k)"
    and m1: "m1 = (let m2 = (case map_of (inner u m) sid of Some _ \<Rightarrow> m | None \<Rightarrow> new_conversation u sid m);
                   a = the (map_of (inner u m2) sid)
               in put_helper a (restoreMessage c t k (helper_at a m2)) m2)"
    by (rule row_entry_cases [OF assms(2)])
  define m2 where "m2 = (case map_of (inner u m) sid of Some _ \<Rightarrow> m | None \<Rightarrow> new_conversation u sid m)"
  have ok: "maps_ok m" using assms(1) by (simp add: snapshot_ok_def)
  have m2: "maps_ok m2" "map_of (inner u m2) sid \<noteq> None"
    using ok maps_ok_new [OF ok] by (auto simp: m2_def inner_new update_conv' split: option.splits)
  have c2: "conversation m2 w i = (if w = u \<and> i = sid \<and> map_of (inner u m) sid = None then Some new_helper
      else conversation m w i)" for w i
    using conversation_new [OF ok] by (auto simp: m2_def split: option.splits)
  obtain a where a: "map_of (inner u m2) sid = Some a" using m2(2) by auto
  have live: "cm_heap m2 a \<noteq> None" using m2(1) a unfolding maps_ok_def by blast
  have h: "conversation m2 u sid = Some (helper_at a m2)"
    using live by (auto simp: conversation_def a helper_at_def)
  have eq: "m1 = put_helper a (restoreMessage c t k (helper_at a m2)) m2"
    using m1 a by (simp add: Let_def m2_def)
  note cp = conversation_put [OF m2(1) a]
  have len: "length (hp_messages (helper_at a m2)) = length (hp_roles (helper_at a m2))"
  proof -
    from h have "helper_at a m2 = new_helper \<or> conversation m u sid = Some (helper_at a m2)"
      unfolding c2 by (auto split: if_splits)
    then show ?thesis using assms(1) by (auto simp: snapshot_ok_def new_helper_def)
  qed
  have "snapshot_ok m1"
    unfolding snapshot_ok_def eq cp
    using maps_ok_put [OF m2(1) live] assms(1) len
    by (auto simp: snapshot_ok_def restoreMessage_def c2 split: if_splits)
  moreover have "stored_in m2 v j = stored_in m v j"
    unfolding stored_in_def c2
    by (auto simp: transcript_of_def new_helper_def conversation_def split: option.splits)
  moreover have "stored_in m1 v j = stored_in m2 v j @ stored_messages [r] v j"
    using len h unfolding stored_in_def eq cp
    by (auto simp: e transcript_of_def restoreMessage_def)
  ultimately show ?thesis using e by simp
qed

lemma restore_rows_ok:
  "snapshot_ok m \<Longrightarrow> restore_rows rs m = Some (Inr m1) \<Longrightarrow>
     snapshot_ok m1 \<and> (\<forall>r\<in>set rs. row_entry r \<noteq> None) \<and> stored_in m1 v j = stored_in m v j @ stored_messages rs v j"
proof (induction rs arbitrary: m)
  case (Cons r rs)
  then obtain m2 where r: "restore_row r m = Some (Inr m2)" and rs: "restore_rows rs m2 = Some (Inr m1)"
    by (auto simp: bind_checked_def split: option.splits sum.splits)
  from restore_row_ok [OF Cons.prems(1) r, of v j] Cons.IH [OF _ rs] show ?case
    by (auto split: option.splits)
qed simp

text \<open>A restoration that succeeds has read and decoded every row.\<close>

lemma restore_snapshot:
  assumes "maps_ok (ch_maps w)" and "readDataFromMySQL db w = (Inr (), w')"
  obtains rows d0 d where "db_lease db (ch_db w) = (None, d0)" and "db_query db history_query [] d0 = (Some rows, d)"
    and "\<forall>x\<in>set rows. row_entry x \<noteq> None" and "snapshot_ok (ch_maps w')"
    and "\<And>u i. stored_in (ch_maps w') u i = stored_messages rows u i"
proof -
  let ?m = "(ch_maps w)\<lparr>cm_chats := [], cm_ids := []\<rparr>"
  from assms(2) obtain rows d0 d m where q: "db_lease db (ch_db w) = (None, d0)" "db_query db history_query [] d0 = (Some rows, d)"
    and m: "restore_rows rows ?m = Some (Inr m)" "ch_maps w' = m"
    by (auto simp: readDataFromMySQL_def consumeQuery_def conn_consumeQuery_def split: prod.splits sum.splits option.splits)
  have empty: "inner u ?m = []" "session_ids u ?m = []" for u by (simp_all add: inner_def session_ids_def)
  have "snapshot_ok ?m" using assms(1) unfolding snapshot_ok_def maps_ok_def conversation_def empty by simp
  note all = restore_rows_ok [OF this m(1)]
  have "stored_in m u i = stored_messages rows u i" for u i
    using all [of u i] by (simp add: stored_in_def conversation_def empty)
  with that q m(2) all show ?thesis by blast
qed

text \<open>In a snapshot the sessions of a user are those with messages.\<close>

lemma snapshot_listed:
  assumes "snapshot_ok m"
  shows "i \<in> set (session_ids u m) \<longleftrightarrow> stored_in m u i \<noteq> []"
proof -
  have ok: "maps_ok m" using assms by (simp add: snapshot_ok_def)
  have snap: "conversation m u i = Some h \<Longrightarrow> hp_messages h \<noteq> [] \<and> hp_roles h \<noteq> []" for h
    using assms unfolding snapshot_ok_def by (metis length_0_conv)
  have "i \<in> set (session_ids u m) \<longleftrightarrow> map_of (inner u m) i \<noteq> None" using ok by (auto simp: maps_ok_def)
  also have "\<dots> \<longleftrightarrow> conversation m u i \<noteq> None"
    using ok unfolding maps_ok_def conversation_def by (cases "map_of (inner u m) i") auto
  also have "\<dots> \<longleftrightarrow> stored_in m u i \<noteq> []"
    using snap by (cases "conversation m u i") (auto simp: stored_in_def transcript_of_def)
  finally show ?thesis .
qed

section \<open>Properties\<close>

text \<open>
  Restoring the history is all or nothing. If reading or decoding fails, the conversations in memory stay
  as they were. If it succeeds, every row was valid, and for every user and session the conversation holds
  exactly the messages of the rows of that user and session, in their order with their roles;
  a conversation exists exactly when it has rows, and the list of a user's sessions names each of the user's
  conversations once.
\<close>

theorem restore_rebuilds_history:
  assumes "maps_ok (ch_maps w)" and "readDataFromMySQL db w = (r, w')"
  shows "(\<forall>e. r = Inl e \<longrightarrow> ch_maps w' = ch_maps w) \<and>
    (r = Inr () \<longrightarrow> (\<exists>rows d0 d. db_lease db (ch_db w) = (None, d0) \<and> db_query db history_query [] d0 = (Some rows, d) \<and>
       (\<forall>x\<in>set rows. row_entry x \<noteq> None) \<and> maps_ok (ch_maps w') \<and>
       (\<forall>u i. stored_in (ch_maps w') u i = stored_messages rows u i \<and>
              (i \<in> set (session_ids u (ch_maps w')) \<longleftrightarrow> stored_messages rows u i \<noteq> []))))"
proof (intro conjI allI impI)
  fix e assume "r = Inl e"
  then show "ch_maps w' = ch_maps w"
    using assms(2) by (auto simp: readDataFromMySQL_def split: prod.splits sum.splits)
next
  assume "r = Inr ()"
  with assms(2) have "readDataFromMySQL db w = (Inr (), w')" by simp
  from restore_snapshot [OF assms(1) this] obtain rows d0 d
    where r: "db_lease db (ch_db w) = (None, d0)" "db_query db history_query [] d0 = (Some rows, d)" "\<forall>x\<in>set rows. row_entry x \<noteq> None"
      "snapshot_ok (ch_maps w')" "\<And>u i. stored_in (ch_maps w') u i = stored_messages rows u i" by metis
  from r(4) have "maps_ok (ch_maps w')" by (simp add: snapshot_ok_def)
  with r show "\<exists>rows d0 d. db_lease db (ch_db w) = (None, d0) \<and> db_query db history_query [] d0 = (Some rows, d) \<and>
       (\<forall>x\<in>set rows. row_entry x \<noteq> None) \<and> maps_ok (ch_maps w') \<and>
       (\<forall>u i. stored_in (ch_maps w') u i = stored_messages rows u i \<and>
              (i \<in> set (session_ids u (ch_maps w')) \<longleftrightarrow> stored_messages rows u i \<noteq> []))"
    by (auto simp: snapshot_listed)
qed

text \<open>Two rows of one conversation and one of another, and a database that returns them.\<close>

definition message_row :: "int \<Rightarrow> string \<Rightarrow> int \<Rightarrow> string \<Rightarrow> int \<Rightarrow> row" where
  "message_row u sid isUser content ts =
     [''id'' \<mapsto> Sql_int u, ''session_id'' \<mapsto> Sql_text sid, ''is_user'' \<mapsto> Sql_int isUser,
      ''content'' \<mapsto> Sql_text content, ''ts'' \<mapsto> Sql_int ts]"

definition sample_rows :: "row list" where
  "sample_rows = [message_row 7 ''s'' 1 ''q'' 10, message_row 8 ''t'' 1 ''x'' 10, message_row 7 ''s'' 0 ''a'' 11]"

definition sample_db :: "row list db_ops" where
  "sample_db = \<lparr>db_lease = (\<lambda>d. (None, d)), db_query = (\<lambda>sql args d. (Some d, d)), db_update = (\<lambda>sql args d. (Some 1, d))\<rparr>"

definition empty_maps :: "'j chat_maps" where
  "empty_maps = \<lparr>cm_chats = [], cm_ids = [], cm_heap = Map.empty, cm_fresh = 0\<rparr>"

lemma maps_ok_empty: "maps_ok empty_maps"
  by (simp add: maps_ok_def empty_maps_def session_ids_def inner_def)

definition sample_chat_server :: "'d \<Rightarrow> (nat, jval, nat, 'd) chat_server" where
  "sample_chat_server d = \<lparr>ch_sessions = full_storage, ch_onlineUsers = [], ch_maps = empty_maps, ch_recognizers = [],
     ch_gemma = toy_pool, ch_mq = Some (new_handler ''sql_queue''), ch_db = d, ch_net = [], ch_jobs = []\<rparr>"

lemma sample_restore:
  "\<exists>w'. readDataFromMySQL sample_db (sample_chat_server sample_rows) = (Inr (), w')"
  by (simp add: readDataFromMySQL_def consumeQuery_def conn_consumeQuery_def sample_db_def sample_chat_server_def sample_rows_def
      message_row_def restore_row_def getInt_def getString_def INT_MAX_def Let_def inner_def empty_maps_def
      new_conversation_def put_helper_def)

theorem restore_rebuilds_history_witness:
  "\<exists>w'. readDataFromMySQL sample_db (sample_chat_server sample_rows) = (Inr (), w') \<and>
     stored_in (ch_maps w') 7 ''s'' = [((''q'', 10), True), ((''a'', 11), False)]"
proof -
  obtain w' where w': "readDataFromMySQL sample_db (sample_chat_server sample_rows) = (Inr (), w')"
    using sample_restore by blast
  have m: "maps_ok (ch_maps (sample_chat_server sample_rows))"
    by (simp add: sample_chat_server_def maps_ok_empty)
  have q: "db_lease sample_db (ch_db (sample_chat_server sample_rows)) = (None, d0) \<Longrightarrow>
      db_query sample_db history_query [] d0 = (Some rows, d) \<Longrightarrow>
      rows = sample_rows" for rows d0 d by (simp add: sample_db_def sample_chat_server_def)
  have "stored_messages sample_rows 7 ''s'' = [((''q'', 10), True), ((''a'', 11), False)]"
    by (simp add: sample_rows_def message_row_def row_entry_def INT_MAX_def)
  with w' restore_rebuilds_history [OF m w', THEN conjunct2] q show ?thesis by metis
qed

text \<open>
  The queue consumer settles every delivery by what happened to it: it acknowledges exactly
  when the insertion of the parsed exchange, with its seven values for each of the two messages, was
  carried out; it rejects exactly the bodies that are not valid exchanges, without touching the database;
  and a delivery whose insertion fails, or for which no connection is available, is retried.
\<close>

theorem consumer_dispositions:
  "executeMysql js db body d =
     (case parse_exchange js body of
        Inl _ \<Rightarrow> (Disp_Reject, d)
      | Inr x \<Rightarrow>
          (case db_lease db d of (Some _, d0) \<Rightarrow> (Disp_Retry, d0) | (None, d0) \<Rightarrow>
           case db_update db insert_exchange_sql
              [ex_message_id x @ ''/u'', to_string_int (ex_user_id x), ex_username x, ex_session_id x, ''1'',
               ex_question x, to_string_int (ex_ts x),
               ex_message_id x @ ''/a'', to_string_int (ex_user_id x), ex_username x, ex_session_id x, ''0'',
               ex_answer x, to_string_int (ex_ts x + 1)] d0 of
             (Some _, d1) \<Rightarrow> (Disp_Ack, d1)
           | (None, d1) \<Rightarrow> (Disp_Retry, d1)))"
proof -
  have p: "parse_exchange js body = Inl e \<Longrightarrow> \<exists>m. e = Invalid_argument m" for e
    by (auto simp: parse_exchange_def split: option.splits)
  have n: "to_string_int 1 = ''1''" "to_string_int 0 = ''0''"
    by code_simp+
  show ?thesis
    using p
    by (cases "parse_exchange js body")
      (auto simp: executeMysql_def persist_def executeUpdate_def conn_executeUpdate_def n Let_def split: prod.splits option.splits)
qed

end
