(* ===== verification/Speech.thy ===== *)
theory Speech
  imports Json_Lib
begin

text \<open>
  \<^verbatim>\<open>AIApps/ChatServer/include/AIUtil/AISpeechProcessor.h\<close> and \<^verbatim>\<open>AIApps/ChatServer/src/AIUtil/AISpeechProcessor.cpp\<close>: the client of the
  speech service. libcurl and the service are the parameter \<open>net\<close>: whether a handle could be created for the
  \<open>n\<close>-th request, and its answer, given its address and body (\<open>None\<close> when the transfer fails). Every function returns the number of requests made so far with its
  result, so that the theorems can bound them.
\<close>

record network =
  net_handle :: "nat \<Rightarrow> bool"
  net_perform :: "nat \<Rightarrow> string \<Rightarrow> string \<Rightarrow> string option"

record speech_processor =
  sp_client_id :: string
  sp_client_secret :: string
  sp_cuid :: string
  sp_token :: string

section \<open>Reading answers\<close>

text \<open>\<^verbatim>\<open>j.contains(k) && j[k].is_string()\<close>, then the string.\<close>

definition string_at :: "'j json_lib \<Rightarrow> 'j \<Rightarrow> string \<Rightarrow> string option" where
  "string_at js j k =
     (if js_contains js j k
      then Option.bind (js_at js j k) (\<lambda>x. if js_is_string js x then js_as_string js x else None)
      else None)"

text \<open>\<^verbatim>\<open>j.contains(k) && j[k].is_array() && !j[k].empty()\<close>, then the first element.\<close>

definition first_at :: "'j json_lib \<Rightarrow> 'j \<Rightarrow> string \<Rightarrow> 'j option" where
  "first_at js j k =
     (if js_contains js j k
      then Option.bind (Option.bind (js_at js j k) (js_elements js)) (\<lambda>xs. if xs = [] then None else Some (hd xs))
      else None)"

definition access_token :: "'j json_lib \<Rightarrow> string \<Rightarrow> string" where
  "access_token js result =
     (case js_parse js result of
        None \<Rightarrow> []
      | Some j \<Rightarrow> (case string_at js j ''access_token'' of None \<Rightarrow> [] | Some t \<Rightarrow> t))"

definition recognized :: "'j json_lib \<Rightarrow> string \<Rightarrow> string" where
  "recognized js result =
     (case js_parse js result of
        None \<Rightarrow> []
      | Some root \<Rightarrow>
          (case first_at js root ''result'' of
             None \<Rightarrow> []
           | Some x \<Rightarrow> if js_is_string js x then (case js_as_string js x of None \<Rightarrow> [] | Some t \<Rightarrow> t) else []))"

text \<open>The task identifier of the creation's answer; \<open>None\<close> is an exception, empty is a missing one.\<close>

definition task_id_of :: "'j json_lib \<Rightarrow> string \<Rightarrow> string option" where
  "task_id_of js response =
     (case js_parse js response of
        None \<Rightarrow> None
      | Some j \<Rightarrow>
          (case string_at js j ''task_id'' of
             Some t \<Rightarrow> Some t
           | None \<Rightarrow>
               (case first_at js j ''tasks_info'' of
                  Some x \<Rightarrow> if js_contains js x ''task_id''
                            then Option.bind (js_at js x ''task_id'') (js_as_string js) else Some []
                | None \<Rightarrow> Some [])))"

text \<open>What one answer to a query means: go on, stop without a result, or the address of the speech.\<close>

datatype poll = Poll_again | Poll_stop | Poll_url string

definition poll_result :: "'j json_lib \<Rightarrow> string \<Rightarrow> poll" where
  "poll_result js response =
     (case js_parse js response of
        None \<Rightarrow> Poll_stop
      | Some q \<Rightarrow>
          (case first_at js q ''tasks_info'' of
             None \<Rightarrow> Poll_again
           | Some task \<Rightarrow>
               (case string_at js task ''task_status'' of
                  None \<Rightarrow> Poll_again
                | Some status \<Rightarrow>
                    if status = ''Success'' \<and> js_contains js task ''task_result''
                    then (case js_at js task ''task_result'' of
                            None \<Rightarrow> Poll_stop
                          | Some r \<Rightarrow>
                              if js_contains js r ''speech_url''
                              then (case Option.bind (js_at js r ''speech_url'') (js_as_string js) of
                                      None \<Rightarrow> Poll_stop | Some url \<Rightarrow> Poll_url url)
                              else Poll_again)
                    else Poll_again)))"

section \<open>The operations\<close>

definition getAccessToken :: "'j json_lib \<Rightarrow> network \<Rightarrow> nat \<Rightarrow> string \<Rightarrow> string \<Rightarrow> string \<times> nat" where
  "getAccessToken js net n client_id client_secret =
     (if \<not> net_handle net n then ([], n)
      else case net_perform net n ''https://aip.baidubce.com/oauth/2.0/token''
             (''grant_type=client_credentials&client_id='' @ client_id @ ''&client_secret='' @ client_secret) of
          None \<Rightarrow> ([], n + 1)
        | Some result \<Rightarrow> (access_token js result, n + 1))"

definition AISpeechProcessor ::
  "'j json_lib \<Rightarrow> network \<Rightarrow> nat \<Rightarrow> string \<Rightarrow> string \<Rightarrow> string \<Rightarrow> speech_processor \<times> nat" where
  "AISpeechProcessor js net n clientId clientSecret cuid =
     (let (token, n1) = getAccessToken js net n clientId clientSecret
      in (\<lparr>sp_client_id = clientId, sp_client_secret = clientSecret, sp_cuid = cuid, sp_token = token\<rparr>, n1))"

definition recognize ::
  "'j json_lib \<Rightarrow> network \<Rightarrow> nat \<Rightarrow> speech_processor \<Rightarrow> string \<Rightarrow> string \<Rightarrow> int \<Rightarrow> int \<Rightarrow> string result \<times> nat" where
  "recognize js net n sp speechData format rate channel =
     (let body = js_dump js (js_object js
            [(''format'', js_string js format), (''rate'', js_int js rate), (''channel'', js_int js channel),
             (''cuid'', js_string js (sp_cuid sp)), (''token'', js_string js (sp_token sp)),
             (''len'', js_int js (int (length speechData))), (''speech'', js_string js speechData)]);
          url = ''https://vop.baidu.com/server_api''
      in if \<not> net_handle net n then (return [], n)
         else case body of
             None \<Rightarrow> (throw (Json_exception ''json''), n)
           | Some data \<Rightarrow>
               (case net_perform net n url data of
                  Some result \<Rightarrow> (return (recognized js result), n + 1)
                | None \<Rightarrow> (return [], n + 1)))"

text \<open>
  The polling loop, with the rounds that are left. The query is printed in every round; printing can throw.
\<close>

fun poll_loop ::
  "'j json_lib \<Rightarrow> network \<Rightarrow> string \<Rightarrow> 'j \<Rightarrow> nat \<Rightarrow> nat \<Rightarrow> string result \<times> nat" where
  "poll_loop js net query_url query n 0 = (return [], n)"
| "poll_loop js net query_url query n (Suc loops) =
     (if \<not> net_handle net n then (return [], n)
      else case js_dump js query of
          None \<Rightarrow> (throw (Json_exception ''json''), n)
        | Some data \<Rightarrow>
            (case net_perform net n query_url data of
               Some response \<Rightarrow>
                 (case poll_result js response of
                    Poll_url url \<Rightarrow> (return url, n + 1)
                  | Poll_stop \<Rightarrow> (return [], n + 1)
                  | Poll_again \<Rightarrow> poll_loop js net query_url query (n + 1) loops)
             | None \<Rightarrow> (return [], n + 1)))"

definition max_loops :: nat where "max_loops = 60"

definition synthesize ::
  "'j json_lib \<Rightarrow> network \<Rightarrow> nat \<Rightarrow> speech_processor \<Rightarrow> string \<Rightarrow> string \<Rightarrow> string \<Rightarrow> int \<Rightarrow> int \<Rightarrow> int \<Rightarrow>
   string result \<times> nat" where
  "synthesize js net n sp speech format lang speed pitch volume =
     (let create_url = ''https://aip.baidubce.com/rpc/2.0/tts/v1/create?access_token='' @ sp_token sp;
          query_url = ''https://aip.baidubce.com/rpc/2.0/tts/v1/query?access_token='' @ sp_token sp;
          body = js_dump js (js_object js
            [(''text'', js_string js speech), (''format'', js_string js format), (''lang'', js_string js lang),
             (''speed'', js_int js speed), (''pitch'', js_int js pitch), (''volume'', js_int js volume),
             (''enable_subtitle'', js_int js 0)])
      in if \<not> net_handle net n then (return [], n)
         else case body of
             None \<Rightarrow> (throw (Json_exception ''json''), n)
           | Some data \<Rightarrow>
               (case net_perform net n create_url data of
                  Some response \<Rightarrow>
                    (case task_id_of js response of
                       None \<Rightarrow> (return [], n + 1)
                     | Some task_id \<Rightarrow>
                         if task_id = [] then (return [], n + 1)
                         else poll_loop js net query_url
                                (js_object js [(''task_ids'', js_array js [js_string js task_id])])
                                (n + 1) max_loops)
                | None \<Rightarrow> (return [], n + 1)))"

section \<open>Properties\<close>

lemma poll_loop_bounded:
  "poll_loop js net url query n loops = (r, n') \<Longrightarrow>
     n \<le> n' \<and> n' \<le> n + loops \<and>
     (\<forall>u. r = Inr u \<and> u \<noteq> [] \<longrightarrow> (\<exists>k data response. n \<le> k \<and> k < n' \<and> js_dump js query = Some data \<and>
        net_perform net k url data = Some response \<and> poll_result js response = Poll_url u))"
proof (induction loops arbitrary: n)
  case (Suc loops)
  show ?case
  proof (cases "net_handle net n")
    case h: True
    show ?thesis
    proof (cases "js_dump js query")
      case d: (Some data)
      show ?thesis
      proof (cases "net_perform net n url data")
        case p: (Some response)
        show ?thesis
        proof (cases "poll_result js response")
          case Poll_again
          with Suc.prems h d p have "poll_loop js net url query (n + 1) loops = (r, n')" by simp
          from Suc.IH [OF this] show ?thesis by (auto, meson Suc_leD)
        next
          case (Poll_url u)
          with Suc.prems h d p show ?thesis by (intro conjI allI impI) auto
        qed (use Suc.prems [symmetric] h d p in auto)
      qed (use Suc.prems [symmetric] h d in auto)
    qed (use Suc.prems [symmetric] h in auto)
  qed (use Suc.prems [symmetric] in auto)
qed (cases r, auto)

text \<open>
  Speech synthesis ends after at most 61 requests to the service, one that creates the task and one for each
  of at most 60 rounds of polling, whatever the service answers; and an address it returns is the one
  the service gave in a successful answer to a query for the task.
\<close>

theorem synthesize_bounded:
  assumes "synthesize js net n sp speech format lang speed pitch volume = (r, n')"
  shows "n' \<le> n + 61 \<and> (\<forall>u. r = Inr u \<and> u \<noteq> [] \<longrightarrow>
    (\<exists>k data response. k < n' \<and>
       net_perform net k (''https://aip.baidubce.com/rpc/2.0/tts/v1/query?access_token='' @ sp_token sp) data = Some response \<and>
       poll_result js response = Poll_url u))"
proof (cases "n' \<le> n + 1 \<and> (\<forall>u. r = Inr u \<longrightarrow> u = [])")
  case True
  then show ?thesis by auto
next
  case False
  with assms obtain query where "poll_loop js net
      (''https://aip.baidubce.com/rpc/2.0/tts/v1/query?access_token='' @ sp_token sp) query (n + 1) max_loops = (r, n')"
    unfolding synthesize_def Let_def
    by (auto split: if_splits option.splits)
  from poll_loop_bounded [OF this] show ?thesis unfolding max_loops_def by (auto, blast)
qed

text \<open>A service that finishes the task when it is asked for the third time.\<close>

definition speech_json :: "jval json_lib" where
  "speech_json = table_json
     [(''created'', J_obj [(''task_id'', J_str ''t1'')]),
      (''running'', J_obj [(''tasks_info'', J_arr [J_obj [(''task_status'', J_str ''Running'')]])]),
      (''done'', J_obj [(''tasks_info'', J_arr [J_obj [(''task_status'', J_str ''Success''),
         (''task_result'', J_obj [(''speech_url'', J_str ''http://x'')])]])]),
      (''query'', J_obj [(''task_ids'', J_arr [J_str ''t1''])]),
      (''create'', J_obj [(''text'', J_str ''hi''), (''format'', J_str ''mp3-16k''), (''lang'', J_str ''zh''),
         (''speed'', J_int 5), (''pitch'', J_int 5), (''volume'', J_int 5), (''enable_subtitle'', J_int 0)])]"

definition speech_net :: network where
  "speech_net = \<lparr>net_handle = (\<lambda>_. True),
     net_perform = (\<lambda>n url data. Some (if n = 0 then ''created'' else if n < 3 then ''running'' else ''done''))\<rparr>"

definition sample_processor :: speech_processor where
  "sample_processor = \<lparr>sp_client_id = ''i'', sp_client_secret = ''s'', sp_cuid = [], sp_token = ''tok''\<rparr>"

theorem synthesize_bounded_witness:
  "synthesize speech_json speech_net 0 sample_processor ''hi'' ''mp3-16k'' ''zh'' 5 5 5 = (Inr ''http://x'', 4) \<and>
   (\<exists>response. poll_result speech_json response = Poll_url ''http://x'')"
proof -
  have "synthesize speech_json speech_net 0 sample_processor ''hi'' ''mp3-16k'' ''zh'' 5 5 5 = (Inr ''http://x'', 4)"
  proof -
    let ?js = speech_json
    have l: "poll_loop ?js speech_net url (js_object ?js [(''task_ids'', js_array ?js [js_string ?js ''t1''])]) (Suc 0)
        (Suc (Suc (Suc k))) = (Inr ''http://x'', 4)" for url k
      by (simp add: poll_result_def string_at_def first_at_def speech_json_def table_json_def speech_net_def)
    have t: "task_id_of ?js ''created'' = Some ''t1''"
      by (simp add: task_id_of_def string_at_def speech_json_def table_json_def)
    have d: "js_dump ?js (js_object ?js [(''text'', js_string ?js ''hi''), (''format'', js_string ?js ''mp3-16k''),
        (''lang'', js_string ?js ''zh''), (''speed'', js_int ?js 5), (''pitch'', js_int ?js 5), (''volume'', js_int ?js 5),
        (''enable_subtitle'', js_int ?js 0)]) = Some ''create''"
      by (simp add: speech_json_def table_json_def)
    have n: "net_handle speech_net m" "net_perform speech_net 0 url data = Some ''created''" for m url data
      by (simp_all add: speech_net_def)
    have m: "poll_loop ?js speech_net url (js_object ?js [(''task_ids'', js_array ?js [js_string ?js ''t1''])]) (Suc 0)
        max_loops = (Inr ''http://x'', 4)" for url
      using l [of url 57] by (simp add: max_loops_def del: poll_loop.simps)
    show ?thesis unfolding synthesize_def Let_def d by (simp add: n t m)
  qed
  with synthesize_bounded [OF this, THEN conjunct2, rule_format, of "''http://x''"] show ?thesis by auto
qed

end
