(* ===== verification/Chat_Handlers.thy ===== *)
theory Chat_Handlers
  imports Chat_Server Speech
begin

text \<open>
  \<^verbatim>\<open>AIApps/ChatServer/src/handlers/*.cpp\<close> except the image upload: accounts, pages and conversations. A handler is a
  function on the response and the state of the server that ends normally, throws, or is undefined; the
  blocks of a handler are composed with \<open>act_bind\<close>, and \<open>catch_std\<close> is its \<^verbatim>\<open>catch (const std::exception&)\<close>.
  Everything a handler gets from outside the repository is in the record \<open>app\<close>.

  The theorems show who may do what: nothing but the session store changes for a client that is not logged in, a session becomes
  logged in only with a verified password, and a user only ever reaches the user's own conversations.
\<close>

section \<open>Actions\<close>

type_synonym ('a, 'w) act = "http_response \<Rightarrow> 'w \<Rightarrow> 'a outcome \<times> http_response \<times> 'w"

definition act_return :: "'a \<Rightarrow> ('a, 'w) act" where
  "act_return x resp w = (Done x, resp, w)"

definition act_bind :: "('a, 'w) act \<Rightarrow> ('a \<Rightarrow> ('b, 'w) act) \<Rightarrow> ('b, 'w) act" where
  "act_bind a f resp w =
     (case a resp w of
        (Done x, resp1, w1) \<Rightarrow> f x resp1 w1
      | (Threw e, resp1, w1) \<Rightarrow> (Threw e, resp1, w1)
      | (Crashed, resp1, w1) \<Rightarrow> (Crashed, resp1, w1))"

definition act_result :: "'a result \<Rightarrow> ('a, 'w) act" where
  "act_result r resp w = (case r of Inl e \<Rightarrow> (Threw (Std_exception e), resp, w) | Inr x \<Rightarrow> (Done x, resp, w))"

definition act_response :: "(http_response \<Rightarrow> http_response) \<Rightarrow> (unit, 'w) act" where
  "act_response f resp w = (Done (), f resp, w)"

definition act_state :: "('w \<Rightarrow> 'w) \<Rightarrow> (unit, 'w) act" where
  "act_state f resp w = (Done (), resp, f w)"

definition act_get :: "('w \<Rightarrow> 'a) \<Rightarrow> ('a, 'w) act" where
  "act_get f resp w = (Done (f w), resp, w)"

definition catch_std :: "(unit, 'w) act \<Rightarrow> (cpp_exn \<Rightarrow> (unit, 'w) act) \<Rightarrow> (unit, 'w) act" where
  "catch_std a h resp w =
     (case a resp w of
        (Threw (Std_exception e), resp1, w1) \<Rightarrow> h e resp1 w1
      | r \<Rightarrow> r)"

section \<open>The parameters\<close>

text \<open>\<^verbatim>\<open>SessionManager\<close> is created with its default maximum age.\<close>

definition sessionMaxAge :: int where "sessionMaxAge = 3600"

record ('r, 'j, 'kv, 'd) app =
  ap_services :: "('j, 'kv) services"
  ap_dist :: "'r \<Rightarrow> nat \<times> 'r"
  ap_clk :: "nat \<Rightarrow> int"
  ap_db :: "'d db_ops"
  ap_files :: "string \<Rightarrow> string option"
  ap_pbkdf2 :: pbkdf2_fun
  ap_salt :: "8 word list option"
  ap_session_random :: "nat list option"
  ap_network :: network

type_synonym ('r, 'j, 'kv, 'd) server_handler = "('r, 'j, 'kv, 'd) chat_server handler"

abbreviation ap_json :: "('r, 'j, 'kv, 'd) app \<Rightarrow> 'j json_lib" where
  "ap_json app \<equiv> sv_json (ap_services app)"

section \<open>Answers\<close>

definition answer_with :: "string \<Rightarrow> nat \<Rightarrow> string \<Rightarrow> bool \<Rightarrow> string \<Rightarrow> string \<Rightarrow> http_response \<Rightarrow> http_response" where
  "answer_with version status message close contentType body resp =
     resp_setBody body (resp_setContentLength (length body) (setContentType contentType
       (setCloseConnection close (setStatusLine version status message resp))))"

text \<open>\<^verbatim>\<open>packageResp\<close>; the response pointer of a handler is never null and none of the setters throws.\<close>

definition packageResp ::
  "string \<Rightarrow> nat \<Rightarrow> string \<Rightarrow> bool \<Rightarrow> string \<Rightarrow> nat \<Rightarrow> string \<Rightarrow> http_response \<Rightarrow> http_response" where
  "packageResp version statusCode statusMsg close contentType contentLen body resp =
     resp_setBody body (resp_setContentLength contentLen (setContentType contentType
       (setCloseConnection close (setStatusMessage statusMsg (setStatusCode statusCode
         (resp_setVersion version resp))))))"

definition dump4 :: "'j json_lib \<Rightarrow> (string \<times> 'j) list \<Rightarrow> (string, 'w) act" where
  "dump4 js kvs = act_result (js_get (js_pretty js (js_object js kvs)))"

definition error_fields :: "'j json_lib \<Rightarrow> string \<Rightarrow> (string \<times> 'j) list" where
  "error_fields js m = [(''status'', js_string js ''error''), (''message'', js_string js m)]"

text \<open>The \<^verbatim>\<open>catch\<close> block most handlers end with.\<close>

definition fail_400 :: "'j json_lib \<Rightarrow> http_request \<Rightarrow> cpp_exn \<Rightarrow> (unit, 'w) act" where
  "fail_400 js req e =
     act_bind (dump4 js (error_fields js (what e))) (\<lambda>body.
       act_response (answer_with (req_version req) k400BadRequest ''Bad Request'' True ''application/json'' body))"

text \<open>The answer to a request with the wrong content type or without a body.\<close>

definition bad_request :: "http_request \<Rightarrow> (unit, 'w) act" where
  "bad_request req = act_response (answer_with (req_version req) k400BadRequest ''Bad Request'' True ''application/json'' [])"

definition json_request :: "http_request \<Rightarrow> bool" where
  "json_request req \<longleftrightarrow> getHeader req ''Content-Type'' = ''application/json'' \<and> req_content req \<noteq> []"

section \<open>Sessions\<close>

definition app_getSession :: "('r, 'j, 'kv, 'd) app \<Rightarrow> http_request \<Rightarrow> (nat, ('r, 'j, 'kv, 'd) chat_server) act" where
  "app_getSession app req resp w =
     (case getSession memory_ops (ap_dist app) (ap_clk app) sessionMaxAge req resp (ch_sessions w) of
        (oc, resp1, s) \<Rightarrow> (oc, resp1, w\<lparr>ch_sessions := s\<rparr>))"

definition app_getValue :: "nat \<Rightarrow> string \<Rightarrow> (string, ('r, 'j, 'kv, 'd) chat_server) act" where
  "app_getValue a key = act_get (\<lambda>w. getValue a key (ch_sessions w))"

definition app_setValue ::
  "('r, 'j, 'kv, 'd) app \<Rightarrow> nat \<Rightarrow> string \<Rightarrow> string \<Rightarrow> (unit, ('r, 'j, 'kv, 'd) chat_server) act" where
  "app_setValue app a key value =
     act_state (\<lambda>w. w\<lparr>ch_sessions := setValue memory_ops (ap_clk app) a key value (ch_sessions w)\<rparr>)"

definition unauthorized :: "'j json_lib \<Rightarrow> http_request \<Rightarrow> (unit, 'w) act" where
  "unauthorized js req =
     act_bind (dump4 js (error_fields js ''Unauthorized'')) (\<lambda>errorBody.
       act_response (packageResp (req_version req) k401Unauthorized ''Unauthorized'' True ''application/json''
         (length errorBody) errorBody))"

text \<open>
  How every protected handler begins and ends: the session, the check that it is logged in, the user's
  number and name, then the handler's own work, and the \<^verbatim>\<open>catch\<close> block around all of it.
\<close>

definition logged_in ::
  "('r, 'j, 'kv, 'd) app \<Rightarrow> http_request \<Rightarrow> (int \<Rightarrow> string \<Rightarrow> (unit, ('r, 'j, 'kv, 'd) chat_server) act) \<Rightarrow>
   (unit, ('r, 'j, 'kv, 'd) chat_server) act" where
  "logged_in app req work =
     act_bind (app_getSession app req) (\<lambda>session.
     act_bind (app_getValue session ''isLoggedIn'') (\<lambda>isLoggedIn.
       if isLoggedIn \<noteq> ''true'' then unauthorized (ap_json app) req
       else act_bind (app_getValue session ''userId'') (\<lambda>uid.
            act_bind (act_result (stoi uid)) (\<lambda>userId.
            act_bind (app_getValue session ''username'') (\<lambda>username. work userId username)))))"

definition protected ::
  "('r, 'j, 'kv, 'd) app \<Rightarrow> http_request \<Rightarrow> (int \<Rightarrow> string \<Rightarrow> (unit, ('r, 'j, 'kv, 'd) chat_server) act) \<Rightarrow>
   (unit, ('r, 'j, 'kv, 'd) chat_server) act" where
  "protected app req work = catch_std (logged_in app req work) (fail_400 (ap_json app) req)"

section \<open>Accounts\<close>

text \<open>\<^verbatim>\<open>j["k"]\<close> of a non-constant value, converted to a string: a missing field is a null, which does not convert.\<close>

definition field_string :: "'j json_lib \<Rightarrow> 'j \<Rightarrow> string \<Rightarrow> string result" where
  "field_string js j k = js_get (Option.bind (js_at js j k) (js_as_string js))"

text \<open>The account of a name: \<open>-1\<close> when there is none.\<close>

definition account_of :: "row list \<Rightarrow> (int \<times> string) sql" where
  "account_of rows =
     (case rows of
        [] \<Rightarrow> Some (return (-1, []))
      | r # _ \<Rightarrow> bind_checked (getInt ''id'' r) (\<lambda>i. bind_checked (getString ''password'' r) (\<lambda>p. Some (return (i, p)))))"

definition queryUserId :: "('r, 'j, 'kv, 'd) app \<Rightarrow> string \<Rightarrow> string \<Rightarrow> 'd \<Rightarrow> int result \<times> 'd" where
  "queryUserId app username password d =
     (case consumeQuery (ap_db app) ''SELECT id, password FROM users WHERE username = ?'' account_of [username] d of
        (Inl e, d1) \<Rightarrow> (Inl e, d1)
      | (Inr (i, stored), d1) \<Rightarrow>
          if i = -1 then (return (-1), d1)
          else if isHash stored
          then (return (if verify (ap_pbkdf2 app) password stored then i else -1), d1)
          else if \<not> verifyLegacy password stored then (return (-1), d1)
          else (case Password_Util.hash (ap_pbkdf2 app) (ap_salt app) password of
                  Inl e \<Rightarrow> (Inl e, d1)
                | Inr encoded \<Rightarrow>
                    (case executeUpdate (ap_db app) ''UPDATE users SET password = ? WHERE id = ? AND BINARY password = ?''
                            [encoded, to_string_int i, stored] d1 of
                       (Inl e, d2) \<Rightarrow> (Inl e, d2)
                     | (Inr changed, d2) \<Rightarrow> (return (if changed = 1 then i else -1), d2))))"

definition act_db :: "('d \<Rightarrow> 'a result \<times> 'd) \<Rightarrow> ('a, ('r, 'j, 'kv, 'd) chat_server) act" where
  "act_db f resp w = (case f (ch_db w) of (r, d) \<Rightarrow> act_result r resp (w\<lparr>ch_db := d\<rparr>))"

definition login_success ::
  "('r, 'j, 'kv, 'd) app \<Rightarrow> http_request \<Rightarrow> string \<Rightarrow> int \<Rightarrow> (unit, ('r, 'j, 'kv, 'd) chat_server) act" where
  "login_success app req username userId =
     act_bind (app_getSession app req) (\<lambda>session.
     act_bind (app_setValue app session ''userId'' (to_string_int userId)) (\<lambda>_.
     act_bind (app_setValue app session ''username'' username) (\<lambda>_.
     act_bind (app_setValue app session ''isLoggedIn'' ''true'') (\<lambda>_.
     act_bind (act_state (\<lambda>w. w\<lparr>ch_onlineUsers := AList.update userId True (ch_onlineUsers w)\<rparr>)) (\<lambda>_.
     act_bind (dump4 (ap_json app)
         [(''success'', js_bool (ap_json app) True), (''userId'', js_int (ap_json app) userId)]) (\<lambda>body.
       act_response (answer_with (req_version req) k200Ok ''OK'' False ''application/json'' body)))))))"

definition login_failure :: "('r, 'j, 'kv, 'd) app \<Rightarrow> http_request \<Rightarrow> (unit, ('r, 'j, 'kv, 'd) chat_server) act" where
  "login_failure app req =
     act_bind (dump4 (ap_json app) (error_fields (ap_json app) ''Invalid username or password'')) (\<lambda>body.
       act_response (answer_with (req_version req) k401Unauthorized ''Unauthorized'' False ''application/json'' body))"

text \<open>The \<^verbatim>\<open>try\<close> block of the login.\<close>

definition login_attempt :: "('r, 'j, 'kv, 'd) app \<Rightarrow> http_request \<Rightarrow> (unit, ('r, 'j, 'kv, 'd) chat_server) act" where
  "login_attempt app req =
     (let js = ap_json app
      in act_bind (act_result (js_get (js_parse js (req_content req)))) (\<lambda>parsed.
         act_bind (act_result (field_string js parsed ''username'')) (\<lambda>username.
         act_bind (act_result (field_string js parsed ''password'')) (\<lambda>password.
         act_bind (act_db (queryUserId app username password)) (\<lambda>userId.
           if userId \<noteq> -1 then login_success app req username userId else login_failure app req)))))"

definition ChatLoginHandler :: "('r, 'j, 'kv, 'd) app \<Rightarrow> ('r, 'j, 'kv, 'd) server_handler" where
  "ChatLoginHandler app req =
     (if \<not> json_request req then bad_request req
      else catch_std (login_attempt app req) (\<lambda>e. fail_400 (ap_json app) req (Runtime_error ''Login failed'')))"

definition id_of :: "row list \<Rightarrow> int sql" where
  "id_of rows = (case rows of [] \<Rightarrow> Some (return (-1)) | r # _ \<Rightarrow> getInt ''id'' r)"

definition isUserExist :: "('r, 'j, 'kv, 'd) app \<Rightarrow> string \<Rightarrow> 'd \<Rightarrow> bool result \<times> 'd" where
  "isUserExist app username d =
     consumeQuery (ap_db app) ''SELECT id FROM users WHERE username = ?'' (\<lambda>rows. Some (return (rows \<noteq> []))) [username] d"

definition insertUser :: "('r, 'j, 'kv, 'd) app \<Rightarrow> string \<Rightarrow> string \<Rightarrow> 'd \<Rightarrow> int result \<times> 'd" where
  "insertUser app username password d =
     (case isUserExist app username d of
        (Inl e, d1) \<Rightarrow> (Inl e, d1)
      | (Inr True, d1) \<Rightarrow> (return (-1), d1)
      | (Inr False, d1) \<Rightarrow>
          (case Password_Util.hash (ap_pbkdf2 app) (ap_salt app) password of
             Inl e \<Rightarrow> (Inl e, d1)
           | Inr encoded \<Rightarrow>
               (case executeUpdate (ap_db app) ''INSERT INTO users (username, password) VALUES (?, ?)'' [username, encoded] d1 of
                  (Inl e, d2) \<Rightarrow> (Inl e, d2)
                | (Inr _, d2) \<Rightarrow>
                    consumeQuery (ap_db app) ''SELECT id FROM users WHERE username = ?'' id_of [username] d2)))"

definition ChatRegisterHandler :: "('r, 'j, 'kv, 'd) app \<Rightarrow> ('r, 'j, 'kv, 'd) server_handler" where
  "ChatRegisterHandler app req =
     (let js = ap_json app
      in act_bind (act_result (js_get (js_parse js (req_content req)))) (\<lambda>parsed.
         act_bind (act_result (field_string js parsed ''username'')) (\<lambda>username.
         act_bind (act_result (field_string js parsed ''password'')) (\<lambda>password.
         act_bind (act_db (insertUser app username password)) (\<lambda>userId.
           if userId \<noteq> -1
           then act_bind (dump4 js [(''status'', js_string js ''success''),
                    (''message'', js_string js ''Register successful''), (''userId'', js_int js userId)]) (\<lambda>body.
                  act_response (answer_with (req_version req) k200Ok ''OK'' False ''application/json'' body))
           else act_bind (dump4 js (error_fields js ''username already exists'')) (\<lambda>body.
                  act_response (answer_with (req_version req) k409Conflict ''Conflict'' False ''application/json'' body)))))))"

definition logout_attempt :: "('r, 'j, 'kv, 'd) app \<Rightarrow> http_request \<Rightarrow> (unit, ('r, 'j, 'kv, 'd) chat_server) act" where
  "logout_attempt app req =
     (let js = ap_json app
      in act_bind (app_getSession app req) (\<lambda>session.
         act_bind (app_getValue session ''userId'') (\<lambda>uid.
         act_bind (act_result (stoi uid)) (\<lambda>userId.
         act_bind (act_state (\<lambda>w. w\<lparr>ch_sessions := clear_session session (ch_sessions w)\<rparr>)) (\<lambda>_.
         act_bind (act_state (\<lambda>w. w\<lparr>ch_sessions :=
             destroySession memory_ops (ses_id (obj (ch_sessions w) session)) (ch_sessions w)\<rparr>)) (\<lambda>_.
         act_bind (act_result (js_get (js_parse js (req_content req)))) (\<lambda>parsed.
         act_bind (act_state (\<lambda>w. w\<lparr>ch_onlineUsers := AList.delete userId (ch_onlineUsers w)\<rparr>)) (\<lambda>_.
         act_bind (dump4 js [(''message'', js_string js ''logout successful'')]) (\<lambda>body.
           act_response (answer_with (req_version req) k200Ok ''OK'' True ''application/json'' body))))))))))"

definition ChatLogoutHandler :: "('r, 'j, 'kv, 'd) app \<Rightarrow> ('r, 'j, 'kv, 'd) server_handler" where
  "ChatLogoutHandler app req =
     (if \<not> json_request req then bad_request req
      else catch_std (logout_attempt app req) (fail_400 (ap_json app) req))"

section \<open>Pages\<close>

text \<open>
  \<^verbatim>\<open>FileUtil\<close>: the page, or the default file when it cannot be opened. The size of a stream that is not open is
  the largest 64-bit number, which no vector can have.
\<close>

definition default_file :: string where
  "default_file = ''/Gomoku/GomokuServer/resource/NotFound.html''"

definition read_page :: "(string \<Rightarrow> string option) \<Rightarrow> string \<Rightarrow> string result" where
  "read_page files path =
     (case files path of
        Some content \<Rightarrow> return content
      | None \<Rightarrow>
          (case files default_file of
             Some content \<Rightarrow> return content
           | None \<Rightarrow> throw (Length_error ''cannot create std::vector larger than max_size()'')))"

definition send_page :: "('r, 'j, 'kv, 'd) app \<Rightarrow> http_request \<Rightarrow> string \<Rightarrow> (unit, ('r, 'j, 'kv, 'd) chat_server) act" where
  "send_page app req path =
     act_bind (act_result (read_page (ap_files app) path)) (\<lambda>content.
       act_response (answer_with (req_version req) k200Ok ''OK'' False ''text/html'' content))"

definition ChatEntryHandler :: "('r, 'j, 'kv, 'd) app \<Rightarrow> ('r, 'j, 'kv, 'd) server_handler" where
  "ChatEntryHandler app req = send_page app req ''../AIApps/ChatServer/resource/entry.html''"

definition ChatHandler :: "('r, 'j, 'kv, 'd) app \<Rightarrow> ('r, 'j, 'kv, 'd) server_handler" where
  "ChatHandler app req = protected app req (\<lambda>_ _. send_page app req ''../AIApps/ChatServer/resource/AI.html'')"

definition AIMenuHandler :: "('r, 'j, 'kv, 'd) app \<Rightarrow> ('r, 'j, 'kv, 'd) server_handler" where
  "AIMenuHandler app req = protected app req (\<lambda>_ _. send_page app req ''../AIApps/ChatServer/resource/menu.html'')"

definition AIUploadHandler :: "('r, 'j, 'kv, 'd) app \<Rightarrow> ('r, 'j, 'kv, 'd) server_handler" where
  "AIUploadHandler app req = protected app req (\<lambda>_ _. send_page app req ''../AIApps/ChatServer/resource/upload.html'')"

section \<open>Conversations\<close>

record chat_body =
  cb_question :: string
  cb_sessionId :: string
  cb_modelType :: string
  cb_stream :: bool

definition optional_string :: "'j json_lib \<Rightarrow> 'j \<Rightarrow> string \<Rightarrow> string \<Rightarrow> string result" where
  "optional_string js j k dflt = (if js_contains js j k then field_string js j k else return dflt)"

text \<open>\<^verbatim>\<open>j.value(k, dflt)\<close> for a boolean: values that are not objects, and fields that are not booleans, throw.\<close>

definition value_bool :: "'j json_lib \<Rightarrow> 'j \<Rightarrow> string \<Rightarrow> bool \<Rightarrow> bool result" where
  "value_bool js j k dflt =
     (if \<not> js_is_object js j then throw (Json_exception ''json'')
      else if js_contains js j k then js_get (Option.bind (js_at js j k) (js_as_bool js))
      else return dflt)"

definition parse_chat :: "'j json_lib \<Rightarrow> bool \<Rightarrow> string \<Rightarrow> chat_body result" where
  "parse_chat js with_session body =
     (if body = [] then return \<lparr>cb_question = [], cb_sessionId = [], cb_modelType = [], cb_stream = False\<rparr>
      else bind_result (js_get (js_parse js body)) (\<lambda>j.
           bind_result (optional_string js j ''question'' []) (\<lambda>question.
           bind_result (if with_session then optional_string js j ''sessionId'' [] else return []) (\<lambda>sessionId.
           bind_result (optional_string js j ''modelType'' ''1'') (\<lambda>modelType.
           bind_result (value_bool js j ''stream'' False) (\<lambda>stream.
             return \<lparr>cb_question = question, cb_sessionId = sessionId, cb_modelType = modelType, cb_stream = stream\<rparr>))))))"

text \<open>An operation on the conversation an address points to, with the services conversations share.\<close>

definition run_helper ::
  "nat \<Rightarrow> (('j, 'kv) ai_state \<Rightarrow> 'x \<times> ('j, 'kv) ai_state) \<Rightarrow> ('r, 'j, 'kv, 'd) chat_server \<Rightarrow> 'x \<times> ('r, 'j, 'kv, 'd) chat_server" where
  "run_helper a f w =
     (case f \<lparr>as_helper = helper_at a (ch_maps w), as_gemma = ch_gemma w, as_mq = ch_mq w\<rparr> of
        (x, s) \<Rightarrow> (x, w\<lparr>ch_maps := put_helper a (as_helper s) (ch_maps w), ch_gemma := as_gemma s, ch_mq := as_mq s\<rparr>))"

definition act_chat ::
  "('r, 'j, 'kv, 'd) app \<Rightarrow> nat \<Rightarrow> int \<Rightarrow> string \<Rightarrow> string \<Rightarrow> string \<Rightarrow> string \<Rightarrow> (string, ('r, 'j, 'kv, 'd) chat_server) act" where
  "act_chat app a userId username sessionId question modelType resp w =
     (case run_helper a (chat (ap_services app) userId username sessionId question modelType) w of
        (None, w1) \<Rightarrow> (Crashed, resp, w1)
      | (Some r, w1) \<Rightarrow> act_result r resp w1)"

definition find_conversation :: "int \<Rightarrow> string \<Rightarrow> (nat, ('r, 'j, 'kv, 'd) chat_server) act" where
  "find_conversation userId sessionId resp w =
     act_result (case map_of (inner userId (ch_maps w)) sessionId of
                   None \<Rightarrow> throw (Invalid_argument ''Unknown chat session'')
                 | Some a \<Rightarrow> return a) resp w"

definition send_raw :: "nat \<Rightarrow> string \<Rightarrow> (unit, ('r, 'j, 'kv, 'd) chat_server) act" where
  "send_raw conn s = act_state (\<lambda>w. w\<lparr>ch_net := ch_net w @ [(conn, Sent s)]\<rparr>)"

definition sse_frame :: "string \<Rightarrow> string" where
  "sse_frame payload = ''data: '' @ payload @ [LF, LF]"

text \<open>The streaming branch: the head goes out at once, the rest is left to a thread. No connection is a null pointer.\<close>

definition start_stream ::
  "('r, 'j, 'kv, 'd) app \<Rightarrow> http_request \<Rightarrow> (string \<times> 'j) list option \<Rightarrow> (nat \<Rightarrow> stream_job) \<Rightarrow>
   (unit, ('r, 'j, 'kv, 'd) chat_server) act" where
  "start_stream app req first job =
     act_bind (act_response (\<lambda>resp. setupSSEHeaders (setStatusLine (req_version req) k200Ok ''OK'' resp))) (\<lambda>_.
       case req_connection req of
         None \<Rightarrow> (\<lambda>resp w. (Crashed, resp, w))
       | Some conn \<Rightarrow>
           act_bind (\<lambda>resp w. send_raw conn (appendToBuffer resp []) resp w) (\<lambda>_.
           act_bind (case first of
                       None \<Rightarrow> act_return ()
                     | Some kvs \<Rightarrow>
                         act_bind (act_result (js_get (js_dump (ap_json app) (js_object (ap_json app) kvs)))) (\<lambda>d.
                           send_raw conn (sse_frame d))) (\<lambda>_.
             act_state (\<lambda>w. w\<lparr>ch_jobs := ch_jobs w @ [job conn]\<rparr>))))"

definition chat_answer_fields :: "'j json_lib \<Rightarrow> string \<Rightarrow> (string \<times> 'j) list" where
  "chat_answer_fields js answer = [(''success'', js_bool js True), (''Information'', js_string js answer)]"

definition make_job :: "nat \<Rightarrow> int \<Rightarrow> string \<Rightarrow> string \<Rightarrow> chat_body \<Rightarrow> nat \<Rightarrow> stream_job" where
  "make_job a userId username sessionId b conn =
     \<lparr>job_helper = a, job_userId = userId, job_username = username, job_sessionId = sessionId,
      job_question = cb_question b, job_modelType = cb_modelType b, job_conn = conn\<rparr>"

definition send_work :: "('r, 'j, 'kv, 'd) app \<Rightarrow> http_request \<Rightarrow> int \<Rightarrow> string \<Rightarrow> (unit, ('r, 'j, 'kv, 'd) chat_server) act" where
  "send_work app req userId username =
     (let js = ap_json app
      in act_bind (act_result (parse_chat js True (req_content req))) (\<lambda>b.
         act_bind (if cb_sessionId b = [] then act_result (throw (Invalid_argument ''Unknown chat session''))
                   else find_conversation userId (cb_sessionId b)) (\<lambda>a.
           if cb_stream b
           then start_stream app req None (make_job a userId username (cb_sessionId b) b)
           else act_bind (act_chat app a userId username (cb_sessionId b) (cb_question b) (cb_modelType b)) (\<lambda>answer.
                act_bind (dump4 js (chat_answer_fields js answer)) (\<lambda>body.
                  act_response (answer_with (req_version req) k200Ok ''OK'' False ''application/json'' body))))))"

definition ChatSendHandler :: "('r, 'j, 'kv, 'd) app \<Rightarrow> ('r, 'j, 'kv, 'd) server_handler" where
  "ChatSendHandler app req = protected app req (send_work app req)"

text \<open>The block under both locks: the conversation is created unless the identifier is taken.\<close>

definition obtain_conversation :: "int \<Rightarrow> string \<Rightarrow> 'j chat_maps \<Rightarrow> 'j chat_maps" where
  "obtain_conversation userId sessionId m =
     (case map_of (inner userId m) sessionId of Some _ \<Rightarrow> m | None \<Rightarrow> new_conversation userId sessionId m)"

definition create_work :: "('r, 'j, 'kv, 'd) app \<Rightarrow> http_request \<Rightarrow> int \<Rightarrow> string \<Rightarrow> (unit, ('r, 'j, 'kv, 'd) chat_server) act" where
  "create_work app req userId username =
     (let js = ap_json app
      in act_bind (act_result (parse_chat js False (req_content req))) (\<lambda>b.
         act_bind (act_result (secureId (ap_session_random app))) (\<lambda>sessionId.
         act_bind (act_state (\<lambda>w. w\<lparr>ch_maps := obtain_conversation userId sessionId (ch_maps w)\<rparr>)) (\<lambda>_.
         act_bind (find_conversation userId sessionId) (\<lambda>a.
           if cb_stream b
           then start_stream app req (Some [(''sessionId'', js_string js sessionId)]) (make_job a userId username sessionId b)
           else act_bind (act_chat app a userId username sessionId (cb_question b) (cb_modelType b)) (\<lambda>answer.
                act_bind (dump4 js (chat_answer_fields js answer @ [(''sessionId'', js_string js sessionId)])) (\<lambda>body.
                  act_response (answer_with (req_version req) k200Ok ''OK'' False ''application/json'' body))))))))"

definition ChatCreateAndSendHandler :: "('r, 'j, 'kv, 'd) app \<Rightarrow> ('r, 'j, 'kv, 'd) server_handler" where
  "ChatCreateAndSendHandler app req = protected app req (create_work app req)"

definition history_work :: "('r, 'j, 'kv, 'd) app \<Rightarrow> http_request \<Rightarrow> int \<Rightarrow> (unit, ('r, 'j, 'kv, 'd) chat_server) act" where
  "history_work app req userId =
     (let js = ap_json app
      in act_bind (act_result (if req_content req = [] then return []
                    else bind_result (js_get (js_parse js (req_content req))) (\<lambda>j. optional_string js j ''sessionId'' []))) (\<lambda>sessionId.
         act_bind (find_conversation userId sessionId) (\<lambda>a.
         act_bind (act_get (\<lambda>w. helper_at a (ch_maps w))) (\<lambda>helper.
         act_bind (act_result (GetHistorySnapshot helper)) (\<lambda>messages.
         act_bind (dump4 js [(''success'', js_bool js True), (''history'', js_array js (map (\<lambda>(content, ts, isUser).
             js_object js [(''is_user'', js_bool js isUser), (''content'', js_string js content), (''ts'', js_int js ts)])
             messages))]) (\<lambda>body.
           act_response (answer_with (req_version req) k200Ok ''OK'' False ''application/json'' body)))))))"

definition ChatHistoryHandler :: "('r, 'j, 'kv, 'd) app \<Rightarrow> ('r, 'j, 'kv, 'd) server_handler" where
  "ChatHistoryHandler app req = protected app req (\<lambda>userId _. history_work app req userId)"

text \<open>The name prefix of the source is three bytes of UTF-8 and a blank. Reading the map enters an empty list for a new user.\<close>

definition session_name :: "string \<Rightarrow> string" where
  "session_name sid = [CHR 0xE1, CHR 0xBB, CHR 0xB0, SP] @ sid"

definition sessions_work :: "('r, 'j, 'kv, 'd) app \<Rightarrow> http_request \<Rightarrow> int \<Rightarrow> (unit, ('r, 'j, 'kv, 'd) chat_server) act" where
  "sessions_work app req userId =
     (let js = ap_json app
      in act_bind (act_get (\<lambda>w. session_ids userId (ch_maps w))) (\<lambda>sessions.
         act_bind (act_state (\<lambda>w. w\<lparr>ch_maps := (ch_maps w)\<lparr>cm_ids := AList.update userId sessions (cm_ids (ch_maps w))\<rparr>\<rparr>)) (\<lambda>_.
         act_bind (dump4 js [(''success'', js_bool js True), (''sessions'', js_array js (map (\<lambda>sid.
             js_object js [(''sessionId'', js_string js sid), (''name'', js_string js (session_name sid))]) sessions))]) (\<lambda>body.
           act_response (answer_with (req_version req) k200Ok ''OK'' False ''application/json'' body)))))"

definition ChatSessionsHandler :: "('r, 'j, 'kv, 'd) app \<Rightarrow> ('r, 'j, 'kv, 'd) server_handler" where
  "ChatSessionsHandler app req = protected app req (\<lambda>userId _. sessions_work app req userId)"

definition default_cuid :: string where "default_cuid = ''RZjSQGzNaA8EFWf6rvuHEKDh9i4XJIV9''"

definition speech_work :: "('r, 'j, 'kv, 'd) app \<Rightarrow> http_request \<Rightarrow> (unit, ('r, 'j, 'kv, 'd) chat_server) act" where
  "speech_work app req =
     (let js = ap_json app; env = sv_env (ap_services app)
      in act_bind (act_result (if req_content req = [] then return []
                    else bind_result (js_get (js_parse js (req_content req))) (\<lambda>j. optional_string js j ''text'' []))) (\<lambda>speech.
         case env ''BAIDU_CLIENT_SECRET'' of
           None \<Rightarrow> act_result (throw (Runtime_error ''BAIDU_CLIENT_SECRET not found!''))
         | Some clientSecret \<Rightarrow>
             (case env ''BAIDU_CLIENT_ID'' of
                None \<Rightarrow> act_result (throw (Runtime_error ''BAIDU_CLIENT_ID not found!''))
              | Some clientId \<Rightarrow>
                  let (sp, n) = AISpeechProcessor js (ap_network app) 0 clientId clientSecret default_cuid
                  in act_bind (act_result (fst (synthesize js (ap_network app) n sp speech ''mp3-16k'' ''zh'' 5 5 5))) (\<lambda>url.
                     act_bind (dump4 js [(''success'', js_bool js True), (''url'', js_string js url)]) (\<lambda>body.
                       act_response (answer_with (req_version req) k200Ok ''OK'' False ''application/json'' body))))))"

definition ChatSpeechHandler :: "('r, 'j, 'kv, 'd) app \<Rightarrow> ('r, 'j, 'kv, 'd) server_handler" where
  "ChatSpeechHandler app req = protected app req (\<lambda>_ _. speech_work app req)"

section \<open>The streaming thread\<close>

definition token_event :: "'j json_lib \<Rightarrow> string \<Rightarrow> 'j" where
  "token_event js token =
     js_object js [(''choices'', js_array js [js_object js
       [(''delta'', js_object js [(''content'', js_string js token)]), (''index'', js_int js 0)]])]"

text \<open>
  What one callback puts on the connection. Printing a token that is not valid UTF-8 throws out of the token
  callback, before anything is sent; an exception in the error callback leaves the thread, which ends the process.
\<close>

definition done_event :: string where "done_event = sse_frame ''[DONE]''"

fun emit :: "'j json_lib \<Rightarrow> stream_call \<Rightarrow> conn_action list option" where
  "emit js (On_token token) =
     Some (case js_dump js (token_event js token) of None \<Rightarrow> [] | Some d \<Rightarrow> [Sent (sse_frame d)])"
| "emit js (On_done _) = Some [Sent done_event, Shut]"
| "emit js (On_error err) =
     map_option (\<lambda>d. [Sent (sse_frame d), Sent done_event, Shut])
       (js_dump js (js_object js [(''error'', js_string js err)]))"

fun emit_all :: "'j json_lib \<Rightarrow> stream_call list \<Rightarrow> bool \<times> conn_action list" where
  "emit_all js [] = (True, [])"
| "emit_all js (c # cs) =
     (case emit js c of
        None \<Rightarrow> (False, [])
      | Some acts \<Rightarrow> (case emit_all js cs of (ok, rest) \<Rightarrow> (ok, acts @ rest)))"

definition token_callback :: "'j json_lib \<Rightarrow> string list \<Rightarrow> cpp_exn option" where
  "token_callback js tokens =
     (case js_dump js (token_event js (last tokens)) of None \<Rightarrow> Some (Json_exception ''json'') | Some _ \<Rightarrow> None)"

definition run_job ::
  "('r, 'j, 'kv, 'd) app \<Rightarrow> stream_job \<Rightarrow> ('r, 'j, 'kv, 'd) chat_server \<Rightarrow> unit outcome \<times> ('r, 'j, 'kv, 'd) chat_server" where
  "run_job app job w =
     (case run_helper (job_helper job)
             (chatStream (ap_services app) (token_callback (ap_json app)) (\<lambda>_. None) (job_userId job) (job_username job)
                (job_sessionId job) (job_question job) (job_modelType job)) w of
        (None, w1) \<Rightarrow> (Crashed, w1)
      | (Some calls, w1) \<Rightarrow>
          (case emit_all (ap_json app) calls of
             (ok, acts) \<Rightarrow>
               (if ok then Done () else Crashed, w1\<lparr>ch_net := ch_net w1 @ map (Pair (job_conn job)) acts\<rparr>)))"

end
