(* ===== verification/Chat_Security.thy ===== *)
theory Chat_Security
  imports Chat_Handlers
begin

text \<open>
  What the handlers keep and whom they serve. Handlers are reasoned about with triples on actions; the locale
  \<open>chat_invariant\<close> lists what a property of the state has to tolerate (sessions being looked up, one
  user's conversations being extended, threads being started, bytes being written to the request's connection) and gives that every
  protected handler keeps it. It is interpreted here twice, on the well-formedness of the server's state and on the statement
  that other users' conversations are as they were.
\<close>

named_theorems act_rules \<open>rules for the actions handlers are composed of\<close>

section \<open>Triples\<close>

text \<open>From a state with \<open>P\<close>, the action ends normally in a state with \<open>Q\<close>, or otherwise in one with \<open>E\<close>.\<close>

definition triple ::
  "('w \<Rightarrow> bool) \<Rightarrow> ('a, 'w) act \<Rightarrow> ('a \<Rightarrow> 'w \<Rightarrow> bool) \<Rightarrow> ('w \<Rightarrow> bool) \<Rightarrow> bool" where
  "triple P a Q E \<longleftrightarrow> (\<forall>resp w. P w \<longrightarrow>
     (case a resp w of (Done x, _, w') \<Rightarrow> Q x w' | (Threw _, _, w') \<Rightarrow> E w' | (Crashed, _, w') \<Rightarrow> E w'))"

abbreviation inv_act :: "('w \<Rightarrow> bool) \<Rightarrow> ('a, 'w) act \<Rightarrow> bool" where
  "inv_act I a \<equiv> triple I a (\<lambda>_. I) I"

lemma triple_bind:
  "triple P a Q E \<Longrightarrow> (\<And>x. triple (Q x) (f x) R E) \<Longrightarrow> triple P (act_bind a f) R E"
  unfolding triple_def act_bind_def
  by (fastforce split: prod.splits outcome.splits)

lemma inv_bind [act_rules]:
  "triple P a (\<lambda>_. P) E \<Longrightarrow> (\<And>x. triple P (f x) R E) \<Longrightarrow> triple P (act_bind a f) R E"
  by (rule triple_bind)

lemma triple_pre: "triple P a Q E \<Longrightarrow> (\<And>w. P' w \<Longrightarrow> P w) \<Longrightarrow> triple P' a Q E"
  by (auto simp: triple_def)

lemma triple_post:
  assumes "triple P a Q E" and "\<And>x w. Q x w \<Longrightarrow> Q' x w" and "\<And>w. E w \<Longrightarrow> E' w"
  shows "triple P a Q' E'"
  unfolding triple_def
proof (intro allI impI)
  fix resp w assume "P w"
  with assms(1) have "case a resp w of (Done x, _, w') \<Rightarrow> Q x w' | (Threw _, _, w') \<Rightarrow> E w' | (Crashed, _, w') \<Rightarrow> E w'"
    by (simp add: triple_def)
  with assms(2,3) show "case a resp w of (Done x, _, w') \<Rightarrow> Q' x w' | (Threw _, _, w') \<Rightarrow> E' w' | (Crashed, _, w') \<Rightarrow> E' w'"
    by (cases "a resp w"; cases "fst (a resp w)") auto
qed

lemma triple_simple [act_rules]:
  "inv_act P (act_return x)" "inv_act P (act_result r)" "inv_act P (act_response g)" "inv_act P (act_get h)"
  "inv_act P (dump4 js kvs)"
  by (auto simp: triple_def act_return_def act_result_def act_response_def act_get_def dump4_def split: sum.splits)

lemma triple_state: "(\<And>w. P w \<Longrightarrow> Q () (f w)) \<Longrightarrow> triple P (act_state f) Q E"
  by (simp add: triple_def act_state_def)

lemma triple_if [act_rules]:
  "(b \<Longrightarrow> triple P a1 Q E) \<Longrightarrow> (\<not> b \<Longrightarrow> triple P a2 Q E) \<Longrightarrow> triple P (if b then a1 else a2) Q E"
  by simp

lemma triple_catch [act_rules]:
  "triple P a Q E \<Longrightarrow> (\<And>e. triple E (h e) Q E) \<Longrightarrow> triple P (catch_std a h) Q E"
  unfolding triple_def catch_std_def
  by (fastforce split: prod.splits outcome.splits thrown.splits)

lemma triple_db [act_rules]:
  "(\<And>w d. P w \<Longrightarrow> P (w\<lparr>ch_db := d\<rparr>)) \<Longrightarrow> inv_act P (act_db f)"
  by (auto simp: triple_def act_db_def act_result_def split: prod.splits sum.splits)

lemma triple_run: "triple P a Q E \<Longrightarrow> P w \<Longrightarrow> a resp w = (oc, resp', w') \<Longrightarrow> (case oc of Done x \<Rightarrow> Q x w' | _ \<Rightarrow> E w')"
  unfolding triple_def by (cases oc) (fastforce split: prod.splits)+

lemma inv_run: "inv_act I a \<Longrightarrow> I w \<Longrightarrow> a resp w = (oc, resp', w') \<Longrightarrow> I w'"
  using triple_run [of I a "\<lambda>_. I" I w resp oc resp' w'] by (cases oc) auto

lemma inv_answers [act_rules]:
  "inv_act P (fail_400 js req e)" "inv_act P (bad_request req)" "inv_act P (unauthorized js req)"
  "inv_act P (send_page app req path)" "inv_act P (login_failure app req)" "inv_act P (app_getValue a k)"
  by (auto simp: fail_400_def bad_request_def unauthorized_def send_page_def login_failure_def app_getValue_def
      intro!: act_rules)

section \<open>The contract of the protected handlers\<close>

text \<open>
  The handlers that begin and end like \<open>protected\<close>, and the work each does after the login. The handler of image
  uploads makes the same check and has a \<^verbatim>\<open>catch\<close> block of its own; it is in \<open>Image_Upload\<close>.
\<close>

definition protected_handlers :: "('r, 'j, 'kv, 'd) app \<Rightarrow> ('r, 'j, 'kv, 'd) server_handler list" where
  "protected_handlers app = [ChatHandler app, AIMenuHandler app, AIUploadHandler app, ChatSendHandler app,
     ChatCreateAndSendHandler app, ChatHistoryHandler app, ChatSessionsHandler app, ChatSpeechHandler app]"

definition works ::
  "('r, 'j, 'kv, 'd) app \<Rightarrow> http_request \<Rightarrow> (int \<Rightarrow> string \<Rightarrow> (unit, ('r, 'j, 'kv, 'd) chat_server) act) list" where
  "works app req =
     [\<lambda>_ _. send_page app req ''../AIApps/ChatServer/resource/AI.html'',
      \<lambda>_ _. send_page app req ''../AIApps/ChatServer/resource/menu.html'',
      \<lambda>_ _. send_page app req ''../AIApps/ChatServer/resource/upload.html'',
      send_work app req, create_work app req, \<lambda>userId _. history_work app req userId,
      \<lambda>userId _. sessions_work app req userId, \<lambda>_ _. speech_work app req]"

lemma protected_handlers_works:
  "h \<in> set (protected_handlers app) \<Longrightarrow> \<exists>work\<in>set (works app req). h req = protected app req work"
  by (auto simp: protected_handlers_def works_def ChatHandler_def AIMenuHandler_def AIUploadHandler_def
      ChatSendHandler_def ChatCreateAndSendHandler_def ChatHistoryHandler_def ChatSessionsHandler_def
      ChatSpeechHandler_def)

locale chat_invariant =
  fixes I :: "('r, 'j, 'kv, 'd) chat_server \<Rightarrow> bool" and app :: "('r, 'j, 'kv, 'd) app" and u :: int
    and conn :: nat
  assumes net: "I w \<Longrightarrow> I (w\<lparr>ch_net := ch_net w @ [(conn, x)]\<rparr>)"
    and talk: "I w \<Longrightarrow> map_of (inner u (ch_maps w)) i = Some a \<Longrightarrow>
      I (w\<lparr>ch_maps := put_helper a h (ch_maps w), ch_gemma := g, ch_mq := q\<rparr>)"
    and job: "I w \<Longrightarrow> map_of (inner u (ch_maps w)) i = Some (job_helper j) \<Longrightarrow> job_conn j = conn \<Longrightarrow>
      I (w\<lparr>ch_jobs := ch_jobs w @ [j]\<rparr>)"
    and fresh: "I w \<Longrightarrow> I (w\<lparr>ch_maps := obtain_conversation u i (ch_maps w)\<rparr>)"
    and listed: "I w \<Longrightarrow> I (w\<lparr>ch_maps := (ch_maps w)\<lparr>cm_ids := AList.update u (session_ids u (ch_maps w)) (cm_ids (ch_maps w))\<rparr>\<rparr>)"
begin

definition held :: "string \<Rightarrow> nat \<Rightarrow> ('r, 'j, 'kv, 'd) chat_server \<Rightarrow> bool" where
  "held i a w \<longleftrightarrow> I w \<and> map_of (inner u (ch_maps w)) i = Some a"

lemma find_held: "triple I (find_conversation u i) (held i) I"
  by (auto simp: triple_def find_conversation_def act_result_def held_def split: option.splits)

lemma chat_held: "triple (held i a) (act_chat app a uid un sid q m) (\<lambda>_. I) I"
  unfolding triple_def act_chat_def run_helper_def act_result_def
  using talk by (auto simp: held_def split: prod.splits option.splits sum.splits)

lemma held_simple: "triple (held i a) b (\<lambda>_. held i a) (held i a) \<Longrightarrow> triple (held i a) b (\<lambda>_. held i a) I"
  by (erule triple_post) (simp_all add: held_def)

lemma raw_held: "triple (held i a) (send_raw conn s) (\<lambda>_. held i a) I"
  unfolding send_raw_def by (rule triple_state) (simp add: held_def net)

lemma stream_held:
  assumes "\<And>k. job_helper (mk k) = a \<and> job_conn (mk k) = k" and own: "\<And>k. req_connection req = Some k \<Longrightarrow> k = conn"
  shows "triple (held i a) (start_stream app req first mk) (\<lambda>_. I) I"
proof -
  have j: "triple (held i a) (act_state (\<lambda>w. w\<lparr>ch_jobs := ch_jobs w @ [mk conn]\<rparr>)) (\<lambda>_. I) I"
    unfolding held_def using job assms(1) by (intro triple_state) metis
  have f: "triple (held i a) (case first of None \<Rightarrow> act_return ()
      | Some kvs \<Rightarrow> act_bind (act_result (js_get (js_dump (ap_json app) (js_object (ap_json app) kvs))))
          (\<lambda>d. send_raw conn (sse_frame d))) (\<lambda>_. held i a) I"
    by (cases first) (auto intro: held_simple triple_simple triple_bind [OF held_simple [OF triple_simple(2)] raw_held])
  have c: "triple (held i a) (\<lambda>resp w. (Crashed, resp, w)) (\<lambda>_. I) I"
    by (simp add: triple_def held_def)
  have h: "triple (held i a) (\<lambda>resp w. send_raw conn (appendToBuffer resp []) resp w) (\<lambda>_. held i a) I"
    using net by (simp add: triple_def send_raw_def act_state_def held_def)
  show ?thesis
    unfolding start_stream_def
    by (rule triple_bind, rule held_simple, rule triple_simple)
      (cases "req_connection req"; auto dest!: own intro!: c triple_bind [OF h] triple_bind [OF f] j)
qed

lemma answer_ok:
  "inv_act I (act_bind (dump4 js kvs) (\<lambda>body. act_response (answer_with v st m cl ct body)))"
  by (intro act_rules)

text \<open>The end of both message handlers, once the conversation has been found.\<close>

lemma deliver_keeps:
  assumes own: "\<And>k. req_connection req = Some k \<Longrightarrow> k = conn"
  shows "triple (held i a)
     (if stream then start_stream app req first (make_job a uid un sid b)
      else act_bind (act_chat app a uid un sid q m) (\<lambda>answer.
           act_bind (dump4 js (kvs answer)) (\<lambda>body. act_response (answer_with v st ms cl ct body))))
     (\<lambda>_. I) I"
proof -
  have "triple (held i a) (start_stream app req first (make_job a uid un sid b)) (\<lambda>_. I) I"
    by (rule stream_held [OF _ own]) (simp_all add: make_job_def)
  then show ?thesis by (auto intro: triple_bind [OF chat_held] answer_ok)
qed

lemma send_work_keeps:
  assumes own: "\<And>k. req_connection req = Some k \<Longrightarrow> k = conn"
  shows "inv_act I (send_work app req u username)"
proof -
  have "triple I (if i = [] then act_result (throw e) else find_conversation u i) (held i) I" for i e
    using find_held by (simp add: triple_def act_result_def)
  then show ?thesis
    unfolding send_work_def Let_def by (blast intro: inv_bind triple_simple triple_bind deliver_keeps [OF own])
qed

lemma create_work_keeps:
  assumes own: "\<And>k. req_connection req = Some k \<Longrightarrow> k = conn"
  shows "inv_act I (create_work app req u username)"
proof -
  have "inv_act I (act_state (\<lambda>w. w\<lparr>ch_maps := obtain_conversation u sid (ch_maps w)\<rparr>))" for sid
    by (rule triple_state) (rule fresh)
  note fresh_state = this
  show ?thesis
    unfolding create_work_def Let_def
    by (rule inv_bind, rule triple_simple, rule inv_bind, rule triple_simple, rule inv_bind, rule fresh_state,
        rule triple_bind [OF find_held], rule deliver_keeps [OF own])
qed

lemma history_work_keeps: "inv_act I (history_work app req u)"
proof -
  have "inv_act I (find_conversation u i)" for i
    by (rule triple_post [OF find_held]) (simp_all add: held_def)
  then show ?thesis unfolding history_work_def Let_def by (intro act_rules)
qed

lemma sessions_work_keeps: "inv_act I (sessions_work app req u)"
proof -
  have "triple I (act_get (\<lambda>w. session_ids u (ch_maps w))) (\<lambda>l w. I w \<and> l = session_ids u (ch_maps w)) I"
    by (simp add: triple_def act_get_def)
  moreover have "triple (\<lambda>w. I w \<and> l = session_ids u (ch_maps w))
      (act_state (\<lambda>w. w\<lparr>ch_maps := (ch_maps w)\<lparr>cm_ids := AList.update u l (cm_ids (ch_maps w))\<rparr>\<rparr>)) (\<lambda>_. I) I" for l
    by (rule triple_state) (use listed in blast)
  ultimately show ?thesis
    unfolding sessions_work_def Let_def by (blast intro: triple_bind answer_ok)
qed

lemma speech_work_keeps: "inv_act I (speech_work app req)"
  unfolding speech_work_def Let_def
  by (intro triple_bind triple_simple) (auto intro!: act_rules split: option.split prod.split)

lemma works_keep:
  assumes own: "\<And>k. req_connection req = Some k \<Longrightarrow> k = conn" and "work \<in> set (works app req)"
  shows "inv_act I (work u username)"
  using assms(2)
  by (auto simp: works_def intro: inv_answers send_work_keeps [OF own] create_work_keeps [OF own] history_work_keeps
      sessions_work_keeps speech_work_keeps)

end

section \<open>Well-formed servers\<close>

text \<open>The invariants of the session store and of the conversations, and that waiting threads point to live objects.\<close>

definition server_ok :: "('r, 'j, 'kv, 'd) chat_server \<Rightarrow> bool" where
  "server_ok w \<longleftrightarrow> storage_ok (ch_sessions w) \<and> maps_ok (ch_maps w) \<and>
     (\<forall>j\<in>set (ch_jobs w). cm_heap (ch_maps w) (job_helper j) \<noteq> None)"

lemma server_ok_simps [simp]:
  "server_ok (w\<lparr>ch_net := n\<rparr>) = server_ok w" "server_ok (w\<lparr>ch_db := d\<rparr>) = server_ok w"
  "server_ok (w\<lparr>ch_onlineUsers := x\<rparr>) = server_ok w"
  by (simp_all add: server_ok_def)

lemma maps_live: "maps_ok m \<Longrightarrow> map_of (inner u m) i = Some a \<Longrightarrow> cm_heap m a \<noteq> None"
  unfolding maps_ok_def by blast

lemma heap_put: "cm_heap (put_helper a h m) b = (if b = a then Some h else cm_heap m b)"
  by (simp add: put_helper_def)

lemma heap_obtain: "cm_heap m b \<noteq> None \<Longrightarrow> cm_heap (obtain_conversation u i m) b \<noteq> None"
  by (auto simp: obtain_conversation_def new_conversation_def split: option.splits)

lemma maps_ok_obtain: "maps_ok m \<Longrightarrow> maps_ok (obtain_conversation u i m)"
  by (auto simp: obtain_conversation_def maps_ok_new split: option.splits)

definition touch_ids :: "int \<Rightarrow> 'j chat_maps \<Rightarrow> 'j chat_maps" where
  "touch_ids u m = m\<lparr>cm_ids := AList.update u (session_ids u m) (cm_ids m)\<rparr>"

lemma touch_ids_simps [simp]:
  "inner v (touch_ids u m) = inner v m" "session_ids v (touch_ids u m) = session_ids v m"
  "cm_heap (touch_ids u m) = cm_heap m" "cm_fresh (touch_ids u m) = cm_fresh m"
  "conversation (touch_ids u m) v i = conversation m v i"
  by (simp_all add: touch_ids_def inner_def session_ids_def update_conv' conversation_def)

lemma maps_ok_touch [simp]: "maps_ok (touch_ids u m) = maps_ok m"
  by (simp add: maps_ok_def)

interpretation ok: chat_invariant server_ok app u conn for app u conn
proof
  fix w :: "('a, 'b, 'c, 'd) chat_server" and i a h g q
  assume w: "server_ok w" and a: "map_of (inner u (ch_maps w)) i = Some a"
  then show "server_ok (w\<lparr>ch_maps := put_helper a h (ch_maps w), ch_gemma := g, ch_mq := q\<rparr>)"
    using maps_live [of "ch_maps w"] by (auto simp: server_ok_def heap_put intro: maps_ok_put)
next
  fix w :: "('a, 'b, 'c, 'd) chat_server" and i and j :: stream_job
  assume "server_ok w" "map_of (inner u (ch_maps w)) i = Some (job_helper j)"
  then show "server_ok (w\<lparr>ch_jobs := ch_jobs w @ [j]\<rparr>)"
    using maps_live [of "ch_maps w"] by (auto simp: server_ok_def)
next
  fix w :: "('a, 'b, 'c, 'd) chat_server" and i
  assume "server_ok w"
  then show "server_ok (w\<lparr>ch_maps := obtain_conversation u i (ch_maps w)\<rparr>)"
    using heap_obtain [of "ch_maps w"] by (simp add: server_ok_def maps_ok_obtain)
next
  fix w :: "('a, 'b, 'c, 'd) chat_server"
  assume "server_ok w"
  then show "server_ok (w\<lparr>ch_maps := (ch_maps w)\<lparr>cm_ids := AList.update u (session_ids u (ch_maps w)) (cm_ids (ch_maps w))\<rparr>\<rparr>)"
    unfolding touch_ids_def [symmetric] by (simp add: server_ok_def)
qed simp

section \<open>Other users\<close>

definition others_same :: "int \<Rightarrow> 'j chat_maps \<Rightarrow> 'j chat_maps \<Rightarrow> bool" where
  "others_same u m m' \<longleftrightarrow> (\<forall>v. v \<noteq> u \<longrightarrow>
     (\<forall>i. conversation m' v i = conversation m v i) \<and> session_ids v m' = session_ids v m)"

interpretation others: chat_invariant "\<lambda>w. maps_ok (ch_maps w) \<and> others_same u m (ch_maps w)" app u conn for app u m conn
proof
  fix w :: "('a, 'b, 'c, 'd) chat_server" and i a h g q
  assume w: "maps_ok (ch_maps w) \<and> others_same u m (ch_maps w)" and a: "map_of (inner u (ch_maps w)) i = Some a"
  then show "maps_ok (ch_maps (w\<lparr>ch_maps := put_helper a h (ch_maps w), ch_gemma := g, ch_mq := q\<rparr>)) \<and>
      others_same u m (ch_maps (w\<lparr>ch_maps := put_helper a h (ch_maps w), ch_gemma := g, ch_mq := q\<rparr>))"
    using maps_live [of "ch_maps w"] conversation_put [of "ch_maps w" u i a h]
    by (auto simp: others_same_def intro: maps_ok_put)
next
  fix w :: "('a, 'b, 'c, 'd) chat_server" and i
  assume w: "maps_ok (ch_maps w) \<and> others_same u m (ch_maps w)"
  then show "maps_ok (ch_maps (w\<lparr>ch_maps := obtain_conversation u i (ch_maps w)\<rparr>)) \<and>
      others_same u m (ch_maps (w\<lparr>ch_maps := obtain_conversation u i (ch_maps w)\<rparr>))"
    using maps_ok_obtain [of "ch_maps w" u i]
    by (auto simp: others_same_def obtain_conversation_def conversation_new session_ids_new split: option.splits)
next
  fix w :: "('a, 'b, 'c, 'd) chat_server"
  assume "maps_ok (ch_maps w) \<and> others_same u m (ch_maps w)"
  then show "maps_ok (ch_maps (w\<lparr>ch_maps := (ch_maps w)\<lparr>cm_ids := AList.update u (session_ids u (ch_maps w)) (cm_ids (ch_maps w))\<rparr>\<rparr>)) \<and>
      others_same u m (ch_maps (w\<lparr>ch_maps := (ch_maps w)\<lparr>cm_ids := AList.update u (session_ids u (ch_maps w)) (cm_ids (ch_maps w))\<rparr>\<rparr>))"
    unfolding touch_ids_def [symmetric] by (simp add: others_same_def)
qed simp_all

section \<open>Sessions and accounts\<close>

lemma getSession_live:
  assumes "storage_ok s" and "getSession memory_ops dst clk m req resp s = (Done a, resp', s')"
  shows "st_heap s' a \<noteq> None"
proof -
  let ?i = "getSessionIdFromCookie req"
  obtain found s1 where f: "(if ?i = [] then (None, s) else sop_loadAndRefresh memory_ops clk ?i s) = (found, s1)"
    by (cases "if ?i = [] then (None, s) else sop_loadAndRefresh memory_ops clk ?i s")
  have s1: "storage_ok s1" using f assms(1) memory.loaded [OF assms(1), of clk ?i] by (auto simp del: memory_ops_simps split: if_splits)
  show ?thesis
  proof (cases found)
    case (Some b)
    with f assms(2) show ?thesis by (auto simp: getSession_def setManager_def Let_def simp del: memory_ops_simps)
  next
    case None
    obtain sid s2 where g: "generateSessionId dst s1 = (sid, s2)" by fastforce
    have s2: "storage_ok s2" using g s1 by (auto simp: generateSessionId_def split: prod.splits)
    obtain b s3 where k: "make_session clk sid True m s2 = (b, s3)" by fastforce
    have k3: "b = st_next s2" "storage_ok s3" "st_heap s3 b \<noteq> None"
      using make_session_ok(1,2,4) [OF s2, of clk sid True m] k by simp_all
    obtain r s4 where ad: "sop_admit memory_ops clk (Some b) s3 = (r, s4)" by fastforce
    have "st_heap s4 = st_heap s3"
      using memory.admitted [OF k3(2,3), of clk] ad by (simp del: memory_ops_simps)
    with assms(2) f None g k ad k3(3) show ?thesis
      by (auto simp: getSession_def Let_def simp del: memory_ops_simps split: sum.splits bool.splits)
  qed
qed

definition session_live :: "nat \<Rightarrow> ('r, 'j, 'kv, 'd) chat_server \<Rightarrow> bool" where
  "session_live a w \<longleftrightarrow> server_ok w \<and> st_heap (ch_sessions w) a \<noteq> None"

lemma getSession_keeps: "triple server_ok (app_getSession app req) session_live server_ok"
  unfolding triple_def
proof (intro allI impI)
  fix resp and w :: "('a, 'b, 'c, 'd) chat_server"
  assume w: "server_ok w"
  obtain oc resp' s where g: "getSession memory_ops (ap_dist app) (ap_clk app) sessionMaxAge req resp (ch_sessions w) =
      (oc, resp', s)" by (metis prod_cases3)
  have ok: "storage_ok (ch_sessions w)" using w by (simp add: server_ok_def)
  have "storage_ok s" using memory.getSession_sound [OF ok g] by blast
  then have "server_ok (w\<lparr>ch_sessions := s\<rparr>)" using w by (simp add: server_ok_def)
  moreover have "oc = Done a \<Longrightarrow> st_heap s a \<noteq> None" for a using getSession_live [OF ok] g by blast
  ultimately show "case app_getSession app req resp w of (Done x, _, w') \<Rightarrow> session_live x w'
      | (Threw _, _, w') \<Rightarrow> server_ok w' | (Crashed, _, w') \<Rightarrow> server_ok w'"
    by (cases oc) (auto simp: app_getSession_def g session_live_def)
qed

lemma live_simple: "triple (session_live a) b (\<lambda>_. session_live a) (session_live a) \<Longrightarrow>
    triple (session_live a) b (\<lambda>_. session_live a) server_ok"
  by (erule triple_post) (simp_all add: session_live_def)

lemma live_end: "triple (session_live a) b (\<lambda>_. session_live a) (session_live a) \<Longrightarrow>
    triple (session_live a) b (\<lambda>_. server_ok) server_ok"
  by (erule triple_post) (simp_all add: session_live_def)

lemma live_ok: "inv_act server_ok b \<Longrightarrow> triple (session_live a) b (\<lambda>_. server_ok) server_ok"
  by (erule triple_pre) (simp add: session_live_def)

lemma setValue_live: "triple (session_live a) (app_setValue app a k v) (\<lambda>_. session_live a) server_ok"
  unfolding app_setValue_def
proof (rule triple_state)
  fix w :: "('a, 'b, 'c, 'd) chat_server"
  assume w: "session_live a w"
  have "st_heap (setValue memory_ops (ap_clk app) a k v (ch_sessions w)) a \<noteq> None"
    by (simp add: setValue_def Let_def updateExisting_def)
  with w setValue_ok [of "ch_sessions w" a "ap_clk app" k v] show "session_live a (w\<lparr>ch_sessions := setValue memory_ops (ap_clk app) a k v (ch_sessions w)\<rparr>)"
    by (simp add: session_live_def server_ok_def)
qed

lemma logged_in_keeps:
  assumes "\<And>u n. inv_act server_ok (work u n)"
  shows "inv_act server_ok (logged_in app req work)"
  unfolding logged_in_def
  by (rule triple_bind [OF getSession_keeps], rule live_ok) (intro act_rules assms)

lemma protected_keeps:
  assumes "h \<in> set (protected_handlers app)"
  shows "inv_act server_ok (h req)"
proof -
  obtain work where work: "work \<in> set (works app req)" "h req = protected app req work"
    using protected_handlers_works [OF assms] by blast
  show ?thesis unfolding work(2) protected_def
    by (rule triple_catch)
      (rule logged_in_keeps ok.works_keep [of req "the (req_connection req)"] work inv_answers | simp)+
qed

lemma login_keeps: "inv_act server_ok (ChatLoginHandler app req)"
proof -
  have online: "triple (session_live a) (act_state (\<lambda>w. w\<lparr>ch_onlineUsers := AList.update u True (ch_onlineUsers w)\<rparr>))
      (\<lambda>_. session_live a) server_ok" for a u
    by (rule triple_state) (simp add: session_live_def)
  have "inv_act server_ok (login_success app req n u)" for n u
    unfolding login_success_def
    by (rule triple_bind [OF getSession_keeps], (rule triple_bind [OF setValue_live])+, rule triple_bind [OF online],
        rule live_ok) (intro act_rules)
  then show ?thesis
    unfolding ChatLoginHandler_def login_attempt_def Let_def by (intro act_rules) simp_all
qed

lemma logout_keeps: "inv_act server_ok (ChatLogoutHandler app req)"
proof -
  have c: "triple (session_live a) (act_state (\<lambda>w. w\<lparr>ch_sessions := clear_session a (ch_sessions w)\<rparr>))
      (\<lambda>_. session_live a) server_ok" for a
    by (rule triple_state) (auto simp: session_live_def server_ok_def clear_session_def intro!: storage_ok_put)
  have d: "triple (session_live a) (act_state (\<lambda>w. w\<lparr>ch_sessions :=
      destroySession memory_ops (ses_id (obj (ch_sessions w) a)) (ch_sessions w)\<rparr>)) (\<lambda>_. server_ok) server_ok" for a
    by (rule triple_state) (simp add: session_live_def server_ok_def destroySession_def)
  have o: "inv_act server_ok (act_state (\<lambda>w. w\<lparr>ch_onlineUsers := AList.delete u (ch_onlineUsers w)\<rparr>))" for u
    by (rule triple_state) simp
  have "inv_act server_ok (logout_attempt app req)"
    unfolding logout_attempt_def Let_def
    by (rule triple_bind [OF getSession_keeps], rule triple_bind [OF live_simple [OF inv_answers(6)]],
        rule triple_bind [OF live_simple [OF triple_simple(2)]], rule triple_bind [OF c], rule triple_bind [OF d])
      (intro act_rules o)
  then show ?thesis unfolding ChatLogoutHandler_def by (intro act_rules)
qed

lemma register_keeps: "inv_act server_ok (ChatRegisterHandler app req)"
  unfolding ChatRegisterHandler_def Let_def by (intro act_rules) simp

section \<open>Restorations and threads\<close>

lemma restore_row_heap:
  assumes "maps_ok m" and "restore_row r m = Some (Inr m1)"
  shows "maps_ok m1 \<and> (\<forall>a. cm_heap m a \<noteq> None \<longrightarrow> cm_heap m1 a \<noteq> None)"
proof -
  obtain u sid c t k where "m1 = (let m2 = (case map_of (inner u m) sid of Some _ \<Rightarrow> m | None \<Rightarrow> new_conversation u sid m);
      a = the (map_of (inner u m2) sid) in put_helper a (restoreMessage c t k (helper_at a m2)) m2)"
    using row_entry_cases [OF assms(2)] by metis
  then have m1: "m1 = put_helper (the (map_of (inner u (obtain_conversation u sid m)) sid))
      (restoreMessage c t k (helper_at (the (map_of (inner u (obtain_conversation u sid m)) sid)) (obtain_conversation u sid m)))
      (obtain_conversation u sid m)"
    by (simp add: obtain_conversation_def Let_def)
  have some: "map_of (inner u (obtain_conversation u sid m)) sid \<noteq> None"
    by (auto simp: obtain_conversation_def inner_new update_conv' split: option.splits)
  have ok: "maps_ok (obtain_conversation u sid m)" by (rule maps_ok_obtain [OF assms(1)])
  from some maps_live [OF ok] have "cm_heap (obtain_conversation u sid m)
      (the (map_of (inner u (obtain_conversation u sid m)) sid)) \<noteq> None" by force
  with maps_ok_put [OF ok this] heap_obtain [of m] show ?thesis unfolding m1 heap_put by simp
qed

lemma restore_rows_heap:
  "maps_ok m \<Longrightarrow> restore_rows rs m = Some (Inr m1) \<Longrightarrow>
     maps_ok m1 \<and> (\<forall>a. cm_heap m a \<noteq> None \<longrightarrow> cm_heap m1 a \<noteq> None)"
proof (induction rs arbitrary: m)
  case (Cons r rs)
  then obtain m2 where "restore_row r m = Some (Inr m2)" "restore_rows rs m2 = Some (Inr m1)"
    by (auto simp: bind_checked_def split: option.splits sum.splits)
  with Cons.IH [of m2] restore_row_heap [OF Cons.prems(1)] show ?case by blast
qed simp

lemma server_ok_restore:
  assumes "server_ok w" and "readDataFromMySQL db w = (r, w')"
  shows "server_ok w'"
proof -
  let ?m = "(ch_maps w)\<lparr>cm_chats := [], cm_ids := []\<rparr>"
  have m: "maps_ok ?m" using assms(1) by (simp add: server_ok_def maps_ok_def inner_def session_ids_def)
  show ?thesis
  proof (cases r)
    case (Inl e)
    with assms show ?thesis by (auto simp: readDataFromMySQL_def split: prod.splits sum.splits)
  next
    case (Inr u)
    with assms(2) obtain rows d m1 where "restore_rows rows ?m = Some (Inr m1)" "w' = w\<lparr>ch_db := d, ch_maps := m1\<rparr>"
      by (auto simp: readDataFromMySQL_def consumeQuery_def conn_consumeQuery_def split: prod.splits sum.splits option.splits)
    with restore_rows_heap [OF m] assms(1) show ?thesis by (auto simp: server_ok_def)
  qed
qed

lemma run_helper_ok:
  assumes "server_ok w" and "cm_heap (ch_maps w) a \<noteq> None" and "run_helper a f w = (x, w')"
  shows "server_ok w'"
  using assms maps_ok_put [OF _ assms(2)]
  by (auto simp: run_helper_def server_ok_def heap_put split: prod.splits)

lemma run_job_ok:
  assumes "server_ok w" and "cm_heap (ch_maps w) (job_helper job) \<noteq> None" and "run_job app job w = (oc, w')"
  shows "server_ok w'"
  using assms run_helper_ok [OF assms(1,2)]
  by (auto simp: run_job_def split: prod.splits option.splits)

section \<open>Logging in\<close>

text \<open>The password is right for the account the database returns; a password stored in clear was replaced by its hash.\<close>

definition credentials_ok :: "('r, 'j, 'kv, 'd) app \<Rightarrow> string \<Rightarrow> string \<Rightarrow> 'd \<Rightarrow> int \<Rightarrow> bool" where
  "credentials_ok app username password d i \<longleftrightarrow>
     (\<exists>stored d1. consumeQuery (ap_db app) ''SELECT id, password FROM users WHERE username = ?'' account_of [username] d =
          (Inr (i, stored), d1) \<and> i \<noteq> -1 \<and>
        (if isHash stored then verify (ap_pbkdf2 app) password stored
         else password = stored \<and> (\<exists>encoded d2.
            Password_Util.hash (ap_pbkdf2 app) (ap_salt app) password = Inr encoded \<and>
            executeUpdate (ap_db app) ''UPDATE users SET password = ? WHERE id = ? AND BINARY password = ?''
              [encoded, to_string_int i, stored] d1 = (Inr 1, d2))))"

lemma queryUserId_credentials:
  assumes "queryUserId app username password d = (Inr i, d')" and "i \<noteq> -1"
  shows "credentials_ok app username password d i"
  using assms
  by (auto simp: queryUserId_def credentials_ok_def verifyLegacy_def split: prod.splits sum.splits if_splits)

text \<open>What a login leaves in the session it was given.\<close>

definition session_of :: "nat \<Rightarrow> string \<Rightarrow> int \<Rightarrow> 'r session_state \<Rightarrow> bool" where
  "session_of a username i s \<longleftrightarrow> getValue a ''isLoggedIn'' s = ''true'' \<and> getValue a ''userId'' s = to_string_int i \<and>
     getValue a ''username'' s = username"

lemma getValue_setValue:
  "getValue a k (setValue memory_ops clk a k' v s) = (if k = k' then v else getValue a k s)"
  by (simp add: setValue_def Let_def updateExisting_def getValue_def update_conv')

lemma login_success_session:
  assumes "login_success app req username i resp w = (Done (), resp', w')"
  shows "\<exists>a. session_of a username i (ch_sessions w')"
proof -
  obtain oc resp1 w1 where g: "app_getSession app req resp w = (oc, resp1, w1)" by (metis prod_cases3)
  with assms obtain a where oc: "oc = Done a" by (cases oc) (auto simp: login_success_def act_bind_def)
  have "ch_sessions w' = setValue memory_ops (ap_clk app) a ''isLoggedIn'' ''true''
      (setValue memory_ops (ap_clk app) a ''username'' username
        (setValue memory_ops (ap_clk app) a ''userId'' (to_string_int i) (ch_sessions w1)))"
    using assms g oc
    by (auto simp: login_success_def act_bind_def app_setValue_def act_state_def dump4_def act_result_def
        act_response_def split: sum.splits)
  then have "session_of a username i (ch_sessions w')" by (simp add: session_of_def getValue_setValue)
  then show ?thesis by blast
qed

lemma fail_400_result:
  "fail_400 js req e resp w = (oc, resp', w') \<Longrightarrow>
     w' = w \<and> (oc = Done () \<longrightarrow> resp_statusCode resp' = 400 \<and> resp_closeConnection resp')"
  by (auto simp: fail_400_def act_bind_def dump4_def act_result_def act_response_def answer_with_def
      resp_setBody_def resp_setContentLength_def setContentType_def resp_addHeader_def setCloseConnection_def
      setStatusLine_def split: sum.splits)

lemma login_failure_result:
  "login_failure app req resp w = (oc, resp', w') \<Longrightarrow> w' = w \<and> (oc = Done () \<longrightarrow> resp_statusCode resp' = 401)"
  by (auto simp: login_failure_def act_bind_def dump4_def act_result_def act_response_def answer_with_def
      resp_setBody_def resp_setContentLength_def setContentType_def resp_addHeader_def setCloseConnection_def
      setStatusLine_def split: sum.splits)

text \<open>Everything a login attempt can do: fail before the account is known, refuse, or succeed.\<close>

lemma login_attempt_cases:
  assumes "login_attempt app req resp w = (oc, resp', w')"
  obtains (early) e d where "oc = Threw e" "w' = w\<lparr>ch_db := d\<rparr>" "resp' = resp"
    | (refused) d where "login_failure app req resp (w\<lparr>ch_db := d\<rparr>) = (oc, resp', w')"
    | (accepted) parsed username password i d where
        "js_parse (ap_json app) (req_content req) = Some parsed"
        "field_string (ap_json app) parsed ''username'' = Inr username"
        "field_string (ap_json app) parsed ''password'' = Inr password"
        "queryUserId app username password (ch_db w) = (Inr i, d)" "i \<noteq> -1"
        "login_success app req username i resp (w\<lparr>ch_db := d\<rparr>) = (oc, resp', w')"
proof -
  let ?js = "ap_json app"
  have db: "w = w\<lparr>ch_db := ch_db w\<rparr>" by simp
  show thesis
  proof (cases "js_parse ?js (req_content req)")
    case None
    with assms db early [of _ "ch_db w"] show ?thesis
      by (auto simp: login_attempt_def Let_def act_bind_def act_result_def)
  next
    case p: (Some parsed)
    show ?thesis
    proof (cases "field_string ?js parsed ''username''")
      case (Inl e)
      with assms p db early [of _ "ch_db w"] show ?thesis
        by (auto simp: login_attempt_def Let_def act_bind_def act_result_def)
    next
      case u: (Inr username)
      show ?thesis
      proof (cases "field_string ?js parsed ''password''")
        case (Inl e)
        with assms p u db early [of _ "ch_db w"] show ?thesis
          by (auto simp: login_attempt_def Let_def act_bind_def act_result_def)
      next
        case pw: (Inr password)
        obtain r d where q: "queryUserId app username password (ch_db w) = (r, d)" by fastforce
        show ?thesis
          using assms p u pw q early [of _ d] refused [of d] accepted [OF p u pw, of _ d]
          by (cases r) (auto simp: login_attempt_def Let_def act_bind_def act_result_def act_db_def split: if_splits)
      qed
    qed
  qed
qed

section \<open>Properties\<close>

text \<open>The cookie of the request names a stored session that has not expired and is logged in.\<close>

definition has_login :: "(nat \<Rightarrow> int) \<Rightarrow> http_request \<Rightarrow> 'r session_state \<Rightarrow> bool" where
  "has_login clk req s \<longleftrightarrow> (\<exists>a. getSessionIdFromCookie req \<noteq> [] \<and>
     map_of (st_sessions s) (getSessionIdFromCookie req) = Some a \<and> now clk s < ses_expiry (obj s a) \<and>
     getValue a ''isLoggedIn'' s = ''true'')"

text \<open>
  What a handler may do for a client that is not logged in: touch the session store, and answer 401 (or 400
  when the library cannot write the answer), closing the connection, or give up because the store is
  full.
\<close>

definition writes_refusal :: "'j json_lib \<Rightarrow> bool" where
  "writes_refusal js \<longleftrightarrow> js_pretty js (js_object js (error_fields js ''Unauthorized'')) \<noteq> None"

definition refusal :: "'j json_lib \<Rightarrow> unit outcome \<Rightarrow> http_response \<Rightarrow> bool" where
  "refusal js oc resp \<longleftrightarrow>
     (case oc of
        Done _ \<Rightarrow> resp_closeConnection resp \<and> (if writes_refusal js then resp_statusCode resp = 401 else resp_statusCode resp = 400)
      | Threw (Response_thrown r) \<Rightarrow> r = unavailable_response
      | Threw (Std_exception e) \<Rightarrow> \<not> writes_refusal js
      | Crashed \<Rightarrow> False)"

lemma unauthorized_refuses:
  assumes "unauthorized js req resp w = (oc, resp', w')"
  shows "w' = w \<and> (if writes_refusal js then oc = Done () \<and> resp_statusCode resp' = 401 \<and> resp_closeConnection resp'
    else oc = Threw (Std_exception (Json_exception ''json'')))"
  using assms
  by (cases "js_pretty js (js_object js (error_fields js ''Unauthorized''))")
    (auto simp: writes_refusal_def unauthorized_def act_bind_def dump4_def act_result_def act_response_def packageResp_def
      resp_setBody_def resp_setContentLength_def setContentType_def resp_addHeader_def setCloseConnection_def
      setStatusMessage_def setStatusCode_def status_text_def resp_setVersion_def)

lemma logged_in_refuses:
  assumes ok: "storage_ok (ch_sessions w)" and no: "\<not> has_login (ap_clk app) req (ch_sessions w)"
    and run: "logged_in app req work resp w = (oc, resp', w')"
  shows "w' = w\<lparr>ch_sessions := ch_sessions w'\<rparr> \<and>
    (oc = Threw (Response_thrown unavailable_response) \<or>
     (if writes_refusal (ap_json app) then oc = Done () \<and> resp_statusCode resp' = 401 \<and> resp_closeConnection resp'
      else oc = Threw (Std_exception (Json_exception ''json''))))"
proof -
  obtain g resp1 s1 where g: "getSession memory_ops (ap_dist app) (ap_clk app) sessionMaxAge req resp (ch_sessions w) =
      (g, resp1, s1)" by (metis prod_cases3)
  note sound = memory.getSession_sound [OF ok g]
  show ?thesis
  proof (cases g)
    case (Done a)
    with sound no have "getValue a ''isLoggedIn'' s1 \<noteq> ''true''"
      by (auto simp: memory.authentic_def memory.live_cookie_def has_login_def getValue_def)
    with Done g run have "unauthorized (ap_json app) req resp1 (w\<lparr>ch_sessions := s1\<rparr>) = (oc, resp', w')"
      by (simp add: logged_in_def act_bind_def app_getSession_def app_getValue_def act_get_def)
    from unauthorized_refuses [OF this] show ?thesis by auto
  next
    case (Threw e)
    with sound g run show ?thesis by (auto simp: logged_in_def act_bind_def app_getSession_def)
  qed (use sound in simp)
qed

lemma catch_refuses:
  assumes ok: "storage_ok (ch_sessions w)" and no: "\<not> has_login (ap_clk app) req (ch_sessions w)"
    and run: "catch_std (logged_in app req work) h resp w = (oc, resp', w')"
    and h: "\<And>p w1 q p' w2. h (Json_exception ''json'') p w1 = (q, p', w2) \<Longrightarrow> w2 = w1 \<and>
      (case q of Done _ \<Rightarrow> resp_statusCode p' = 400 \<and> resp_closeConnection p' | Threw (Std_exception e) \<Rightarrow> True | _ \<Rightarrow> False)"
  shows "w' = w\<lparr>ch_sessions := ch_sessions w'\<rparr> \<and> refusal (ap_json app) oc resp'"
proof -
  obtain oc1 resp1 w1 where l: "logged_in app req work resp w = (oc1, resp1, w1)" by (metis prod_cases3)
  note r = logged_in_refuses [OF ok no l]
  show ?thesis
  proof (cases "\<exists>e. oc1 = Threw (Std_exception e)")
    case True
    with r have n: "\<not> writes_refusal (ap_json app)" "oc1 = Threw (Std_exception (Json_exception ''json''))"
      by (auto split: if_splits)
    with run l have "h (Json_exception ''json'') resp1 w1 = (oc, resp', w')" by (simp add: catch_std_def)
    from h [OF this] r n show ?thesis by (auto simp: refusal_def split: outcome.splits thrown.splits)
  next
    case False
    with run l have "(oc, resp', w') = (oc1, resp1, w1)"
      by (cases oc1) (auto simp: catch_std_def split: thrown.splits)
    with r False show ?thesis by (auto simp: refusal_def split: if_splits)
  qed
qed

lemma fail_400_refuses:
  "fail_400 js req e resp w = (oc, resp', w') \<Longrightarrow> w' = w \<and>
     (case oc of Done _ \<Rightarrow> resp_statusCode resp' = 400 \<and> resp_closeConnection resp'
      | Threw (Std_exception e) \<Rightarrow> True | _ \<Rightarrow> False)"
  by (auto simp: fail_400_def act_bind_def dump4_def act_result_def act_response_def answer_with_def
      resp_setBody_def resp_setContentLength_def setContentType_def resp_addHeader_def setCloseConnection_def
      setStatusLine_def split: sum.splits)

lemma protected_refuses:
  assumes "storage_ok (ch_sessions w)" and h: "h \<in> set (protected_handlers app)"
    and run: "h req resp w = (oc, resp', w')" and "\<not> has_login (ap_clk app) req (ch_sessions w)"
  shows "w' = w\<lparr>ch_sessions := ch_sessions w'\<rparr> \<and> refusal (ap_json app) oc resp'"
proof -
  obtain work where "h req = protected app req work" using protected_handlers_works [OF h] by blast
  with run have "catch_std (logged_in app req work) (fail_400 (ap_json app) req) resp w = (oc, resp', w')"
    by (simp add: protected_def)
  then show ?thesis by (rule catch_refuses [OF assms(1,4) _ fail_400_refuses])
qed

text \<open>
  C4. A user's requests never touch another user's conversations: when a protected handler runs for a session of
  the user \<open>u\<close>, every conversation of every other user, and the list of that user's sessions, are the same afterwards.
\<close>

theorem users_isolated:
  fixes w w1 w' :: "('r, 'j, 'kv, 'd) chat_server"
  assumes ok: "maps_ok (ch_maps w)" and h: "h \<in> set (protected_handlers app)" and run: "h req resp w = (oc, resp', w')"
    and ses: "app_getSession app req resp w = (Done a, resp1, w1)"
    and uid: "stoi (getValue a ''userId'' (ch_sessions w1)) = Inr u" and v: "v \<noteq> u"
  shows "conversation (ch_maps w') v i = conversation (ch_maps w) v i \<and>
    session_ids v (ch_maps w') = session_ids v (ch_maps w)"
proof -
  let ?I = "\<lambda>x :: ('r, 'j, 'kv, 'd) chat_server. maps_ok (ch_maps x) \<and> others_same u (ch_maps w) (ch_maps x)"
  obtain work where work: "work \<in> set (works app req)" "h req = protected app req work"
    using protected_handlers_works [OF h] by blast
  have w1: "ch_maps w1 = ch_maps w" using ses by (auto simp: app_getSession_def split: prod.splits)
  obtain oc2 resp2 w2 where l: "logged_in app req work resp w = (oc2, resp2, w2)" by (metis prod_cases3)
  have I1: "?I w1" using ok by (simp add: w1 others_same_def)
  have "?I w2"
  proof (cases "getValue a ''isLoggedIn'' (ch_sessions w1) = ''true''")
    case True
    have "work u (getValue a ''username'' (ch_sessions w1)) resp1 w1 = (oc2, resp2, w2)"
      using l ses True uid
      by (simp add: logged_in_def act_bind_def app_getValue_def act_get_def act_result_def)
    with inv_run [OF others.works_keep [of req "the (req_connection req)", OF _ work(1)] I1] show ?thesis by simp
  next
    case False
    then have "unauthorized (ap_json app) req resp1 w1 = (oc2, resp2, w2)"
      using l ses by (simp add: logged_in_def act_bind_def app_getValue_def act_get_def)
    with inv_run [of ?I, OF inv_answers(3) I1] show ?thesis by blast
  qed
  moreover have "w' = w2"
    using run l by (cases oc2)
      (auto simp: work(2) protected_def catch_std_def split: thrown.splits dest: fail_400_result)
  ultimately show ?thesis using v by (simp add: others_same_def)
qed

text \<open>
  C6. Nobody is logged in without the right password. If a login request changes the session store or the set of users online, or
  is answered with status 200, its body has a user name and a password, the database returned an account for
  that name, and the password matches what is stored there: a hash is verified, a password stored in
  clear is equal and exactly that row was replaced by a hash. A status of 200 comes with a session that
  carries the number of that account.
\<close>

theorem login_checks_password:
  assumes run: "ChatLoginHandler app req resp w = (oc, resp', w')"
    and effect: "ch_sessions w' \<noteq> ch_sessions w \<or> ch_onlineUsers w' \<noteq> ch_onlineUsers w \<or>
      oc = Done () \<and> resp_statusCode resp' = 200"
  shows "\<exists>parsed username password i. js_parse (ap_json app) (req_content req) = Some parsed \<and>
    field_string (ap_json app) parsed ''username'' = Inr username \<and>
    field_string (ap_json app) parsed ''password'' = Inr password \<and>
    credentials_ok app username password (ch_db w) i \<and>
    (oc = Done () \<and> resp_statusCode resp' = 200 \<longrightarrow> (\<exists>a. session_of a username i (ch_sessions w')))"
proof (cases "json_request req")
  case False
  with run have "w' = w" "resp_statusCode resp' = 400"
    by (auto simp: ChatLoginHandler_def bad_request_def act_response_def answer_with_def resp_setBody_def
        resp_setContentLength_def setContentType_def resp_addHeader_def setCloseConnection_def setStatusLine_def)
  with effect show ?thesis by simp
next
  case True
  obtain oc1 resp1 w1 where l: "login_attempt app req resp w = (oc1, resp1, w1)" by (metis prod_cases3)
  have res: "w' = w1 \<and> (oc = Done () \<and> resp_statusCode resp' = 200 \<longrightarrow> oc1 = Done () \<and> resp' = resp1)"
    using run l True fail_400_result
    by (cases oc1) (fastforce simp: ChatLoginHandler_def catch_std_def split: thrown.splits)+
  from l show ?thesis
  proof (cases rule: login_attempt_cases)
    case early
    with res effect show ?thesis by auto
  next
    case refused
    from login_failure_result [OF this] res effect show ?thesis by auto
  next
    case (accepted parsed username password i d)
    have s: "oc1 = Done () \<Longrightarrow> \<exists>a. session_of a username i (ch_sessions w1)"
      using login_success_session accepted(6) by blast
    have "credentials_ok app username password (ch_db w) i" using queryUserId_credentials accepted(4,5) .
    with accepted(1-3) res s show ?thesis by blast
  qed
qed

text \<open>An account with a password in clear, and a client that knows it.\<close>

definition account_db :: "bool db_ops" where
  "account_db = \<lparr>db_lease = (\<lambda>d. (None, d)),
     db_query = (\<lambda>sql args d. (Some (if args = [''ann''] then [[''id'' \<mapsto> Sql_int 7, ''password'' \<mapsto> Sql_text ''pw'']] else []), d)),
     db_update = (\<lambda>sql args d. (Some 1, True))\<rparr>"

definition login_json :: "jval json_lib" where
  "login_json = table_json
     [(''login'', J_obj [(''username'', J_str ''ann''), (''password'', J_str ''pw'')]),
      (''ok'', J_obj [(''success'', J_bool True), (''userId'', J_int 7)]),
      (''no'', J_obj [(''status'', J_str ''error''), (''message'', J_str ''Unauthorized'')]),
      (''sessions'', J_obj [(''success'', J_bool True), (''sessions'', J_arr [])])]"

definition sample_app :: "(nat, jval, nat, bool) app" where
  "sample_app = \<lparr>ap_services = sample_services\<lparr>sv_json := login_json\<rparr>, ap_dist = sample_dist, ap_clk = sample_clock,
     ap_db = account_db, ap_files = (\<lambda>_. None), ap_pbkdf2 = sample_pbkdf2, ap_salt = Some (replicate 16 0),
     ap_session_random = Some (replicate 16 0), ap_network = speech_net\<rparr>"

definition login_request :: http_request where
  "login_request = new_request\<lparr>req_headers := [(''content-type'', ''application/json''), (''cookie'', ''sessionId=x'')],
     req_content := ''login''\<rparr>"

lemma sample_login:
  "\<exists>resp' w'. ChatLoginHandler sample_app login_request (new_response False) (sample_chat_server False) =
     (Done (), resp', w') \<and> resp_statusCode resp' = 200"
proof -
  have hdr: "json_request login_request" by code_simp
  have pr: "js_parse (ap_json sample_app) (req_content login_request) =
      Some (J_obj [(''username'', J_str ''ann''), (''password'', J_str ''pw'')])"
    by (simp add: sample_app_def login_json_def table_json_def login_request_def)
  have f: "field_string (ap_json sample_app) (J_obj [(''username'', J_str ''ann''), (''password'', J_str ''pw'')]) ''username'' = Inr ''ann''"
    "field_string (ap_json sample_app) (J_obj [(''username'', J_str ''ann''), (''password'', J_str ''pw'')]) ''password'' = Inr ''pw''"
    by (simp_all add: field_string_def sample_app_def login_json_def table_json_def)
  have hash: "\<exists>e. Password_Util.hash sample_pbkdf2 (Some (replicate 16 0)) ''pw'' = Inr e"
    by (simp add: Password_Util.hash_def derive_def sample_pbkdf2_def)
  have clear: "\<not> isHash ''pw''" "verifyLegacy ''pw'' ''pw''" by code_simp+
  have q: "queryUserId sample_app ''ann'' ''pw'' d = (Inr 7, True)" for d
    using hash clear
    by (auto simp: queryUserId_def consumeQuery_def conn_consumeQuery_def account_of_def getInt_def getString_def executeUpdate_def conn_executeUpdate_def
        sample_app_def account_db_def split: sum.splits)
  have c: "getSessionIdFromCookie login_request = ''x''" by code_simp
  have g: "\<exists>s. getSession memory_ops sample_dist sample_clock sessionMaxAge login_request (new_response False) full_storage =
      (Done 0, new_response False, s)"
    by (simp add: getSession_def c loadAndRefresh_def Let_def full_storage_def sample_storage_def obj_def sample_clock_def)
  then obtain s where s: "getSession memory_ops (ap_dist sample_app) (ap_clk sample_app) sessionMaxAge login_request
      (new_response False) full_storage = (Done 0, new_response False, s)" by (auto simp: sample_app_def)
  have d: "js_pretty (ap_json sample_app) (js_object (ap_json sample_app)
      [(''success'', js_bool (ap_json sample_app) True), (''userId'', js_int (ap_json sample_app) 7)]) = Some ''ok''"
    by (simp add: sample_app_def login_json_def table_json_def)
  have w: "ch_sessions ((sample_chat_server False)\<lparr>ch_db := b\<rparr>) = full_storage" "ch_db (sample_chat_server False) = False" for b
    by (simp_all add: sample_chat_server_def)
  show ?thesis
    by (simp add: ChatLoginHandler_def hdr catch_std_def login_attempt_def Let_def act_bind_def act_result_def pr f act_db_def q
        w login_success_def app_getSession_def s app_setValue_def act_state_def dump4_def d act_response_def answer_with_def
        resp_setBody_def resp_setContentLength_def setContentType_def resp_addHeader_def setCloseConnection_def setStatusLine_def)
qed

theorem login_checks_password_witness:
  "\<exists>a w'. session_of a ''ann'' 7 (ch_sessions w') \<and>
     w' = snd (snd (ChatLoginHandler sample_app login_request (new_response False) (sample_chat_server False)))"
proof -
  obtain resp' w' where r: "ChatLoginHandler sample_app login_request (new_response False) (sample_chat_server False) =
     (Done (), resp', w')" "resp_statusCode resp' = 200" using sample_login by blast
  have pr: "js_parse (ap_json sample_app) (req_content login_request) = Some p \<Longrightarrow>
      p = J_obj [(''username'', J_str ''ann''), (''password'', J_str ''pw'')]" for p
    by (simp add: sample_app_def login_json_def table_json_def login_request_def)
  have u: "field_string (ap_json sample_app) (J_obj [(''username'', J_str ''ann''), (''password'', J_str ''pw'')]) ''username'' = Inr n
      \<Longrightarrow> n = ''ann''" for n
    by (simp add: field_string_def sample_app_def login_json_def table_json_def)
  have i: "credentials_ok sample_app ''ann'' pw d i \<Longrightarrow> i = 7" for pw d i
    by (auto simp: credentials_ok_def consumeQuery_def conn_consumeQuery_def account_of_def getInt_def getString_def sample_app_def account_db_def)
  from login_checks_password [OF r(1)] r pr u i show ?thesis by (metis snd_conv)
qed

text \<open>A server that was just started, and one that has restored two users' conversations.\<close>

definition started_server :: "row list \<Rightarrow> (nat, jval, nat, row list) chat_server" where
  "started_server d = (sample_chat_server d)\<lparr>ch_sessions := \<lparr>st_heap = Map.empty, st_next = 0, st_capacity = 10000,
     st_sessions = [], st_tick = 0, st_rng = 0\<rparr>\<rparr>"

definition restored_maps :: "jval chat_maps" where
  "restored_maps = (case restore_rows sample_rows empty_maps of Some (Inr m) \<Rightarrow> m | _ \<Rightarrow> empty_maps)"

lemma sample_rows_restored:
  "restore_rows sample_rows empty_maps = Some (Inr restored_maps)"
  "session_ids 7 restored_maps = [''s'']" "session_ids 8 restored_maps = [''t'']"
  "conversation restored_maps 8 ''t'' = Some \<lparr>hp_strategy = None, hp_messages = [(''x'', 10)], hp_roles = [True]\<rparr>"
  by (simp_all add: restored_maps_def sample_rows_def message_row_def restore_row_def getInt_def getString_def INT_MAX_def
      Let_def inner_def session_ids_def empty_maps_def new_conversation_def put_helper_def helper_at_def restoreMessage_def
      new_helper_def conversation_def)

lemma restored_maps_ok: "maps_ok restored_maps"
  using restore_rows_heap [OF maps_ok_empty sample_rows_restored(1)] by simp

definition sample_app_rows :: "(nat, jval, nat, row list) app" where
  "sample_app_rows = \<lparr>ap_services = sample_services\<lparr>sv_json := login_json\<rparr>, ap_dist = sample_dist, ap_clk = sample_clock,
     ap_db = sample_db, ap_files = (\<lambda>_. None), ap_pbkdf2 = sample_pbkdf2, ap_salt = None,
     ap_session_random = None, ap_network = speech_net\<rparr>"

text \<open>The session \<open>x\<close> of the user 7.\<close>

definition user_server :: "(nat, jval, nat, row list) chat_server" where
  "user_server = (sample_chat_server [])\<lparr>ch_maps := restored_maps, ch_sessions := full_storage\<lparr>st_heap :=
     [0 \<mapsto> \<lparr>ses_id = ''x'', ses_data = [(''isLoggedIn'', ''true''), (''userId'', ''7'')], ses_expiry = 1000, ses_maxAge = 60,
            ses_bound = True\<rparr>]\<rparr>\<rparr>"

theorem users_isolated_witness:
  "\<exists>oc resp' w'. ChatSessionsHandler sample_app_rows (cookie_request ''sessionId=x'') (new_response False) user_server =
       (oc, resp', w') \<and>
     conversation (ch_maps w') 8 ''t'' = Some \<lparr>hp_strategy = None, hp_messages = [(''x'', 10)], hp_roles = [True]\<rparr>"
proof -
  obtain oc resp' w' where r: "ChatSessionsHandler sample_app_rows (cookie_request ''sessionId=x'') (new_response False)
      user_server = (oc, resp', w')" by (metis prod_cases3)
  have m: "ch_maps user_server = restored_maps" by (simp add: user_server_def)
  have ok: "maps_ok (ch_maps user_server)" by (simp add: m restored_maps_ok)
  have c: "getSessionIdFromCookie (cookie_request ''sessionId=x'') = ''x''" by code_simp
  have stoi: "stoi ''7'' = Inr 7" by code_simp
  have "\<exists>w1. app_getSession sample_app_rows (cookie_request ''sessionId=x'') (new_response False) user_server =
      (Done 0, new_response False, w1) \<and> getValue 0 ''userId'' (ch_sessions w1) = ''7''"
    by (simp add: app_getSession_def getSession_def c loadAndRefresh_def Let_def user_server_def full_storage_def
        sample_storage_def obj_def sample_clock_def sample_app_rows_def setManager_def refresh_def put_obj_def getValue_def)
  then obtain w1 where g: "app_getSession sample_app_rows (cookie_request ''sessionId=x'') (new_response False) user_server =
      (Done 0, new_response False, w1)" "getValue 0 ''userId'' (ch_sessions w1) = ''7''" by blast
  have h: "ChatSessionsHandler sample_app_rows \<in> set (protected_handlers sample_app_rows)"
    by (simp add: protected_handlers_def)
  have u: "stoi (getValue 0 ''userId'' (ch_sessions w1)) = Inr 7" by (simp add: g stoi)
  from users_isolated [OF ok h r g(1) u, of 8 "''t''"] r show ?thesis
    by (simp add: m sample_rows_restored)
qed

text \<open>What a thread puts on the wire for its calls, when every text can be written, and when the last cannot.\<close>

definition token_payloads :: "'j json_lib \<Rightarrow> string list \<Rightarrow> string list \<Rightarrow> bool" where
  "token_payloads js out payloads \<longleftrightarrow> map Some payloads = map (\<lambda>t. js_dump js (token_event js t)) out"

lemma token_payloads_snoc:
  "token_payloads js (out @ [t]) payloads \<longleftrightarrow>
     (\<exists>ps p. payloads = ps @ [p] \<and> token_payloads js out ps \<and> js_dump js (token_event js t) = Some p)"
  by (cases payloads rule: rev_cases) (auto simp: token_payloads_def)

lemma accepted_payloads: "accepted (token_callback js) out \<Longrightarrow> \<exists>ps. token_payloads js out ps"
proof (induction out rule: rev_induct)
  case Nil
  show ?case by (simp add: token_payloads_def)
next
  case (snoc t out)
  then obtain ps where "token_payloads js out ps" by (auto simp: accepted_snoc)
  moreover obtain p where "js_dump js (token_event js t) = Some p"
    using snoc.prems by (auto simp: accepted_snoc token_callback_def split: option.splits)
  ultimately show ?case using token_payloads_snoc by blast
qed

lemma emit_append:
  "emit_all js (map On_token out @ calls) =
     (fst (emit_all js calls), snd (emit_all js (map On_token out)) @ snd (emit_all js calls))"
  by (induction out) (auto split: option.splits prod.splits)

lemma emit_payloads: "token_payloads js out ps \<Longrightarrow> emit_all js (map On_token out) = (True, map (Sent \<circ> sse_frame) ps)"
proof (induction out arbitrary: ps)
  case (Cons t out)
  then obtain p qs where "ps = p # qs" "js_dump js (token_event js t) = Some p" "token_payloads js out qs"
    by (cases ps) (auto simp: token_payloads_def)
  with Cons.IH [of qs] show ?case by simp
qed (simp add: token_payloads_def)

lemma emit_refused:
  assumes "accepted (token_callback js) (butlast out)"
  shows "\<exists>sent ps. token_payloads js sent ps \<and> (sent = out \<or> out \<noteq> [] \<and> sent = butlast out) \<and>
    emit_all js (map On_token out) = (True, map (Sent \<circ> sse_frame) ps)"
proof (cases out rule: rev_cases)
  case Nil
  then show ?thesis by (auto simp: token_payloads_def intro: exI [of _ "[]"])
next
  case (snoc ts t)
  with assms obtain ps where ps: "token_payloads js ts ps" using accepted_payloads [of js ts] by auto
  show ?thesis
  proof (cases "js_dump js (token_event js t)")
    case None
    then have "emit_all js (map On_token out) = (True, map (Sent \<circ> sse_frame) ps)"
      using emit_append [of js ts "[On_token t]"] emit_payloads [OF ps] snoc by simp
    with ps snoc show ?thesis by (intro exI [of _ ts] exI [of _ ps]) simp
  next
    case (Some p)
    with ps have "token_payloads js out (ps @ [p])" using snoc token_payloads_snoc by blast
    with emit_payloads [OF this] show ?thesis by blast
  qed
qed

text \<open>The payloads are JSON texts, so none of them is the end marker.\<close>

lemma payloads_not_done:
  assumes "json_ok js" "js_parse js ''[DONE]'' = None"
  shows "token_payloads js out ps \<Longrightarrow> ''[DONE]'' \<notin> set ps"
    and "js_dump js (js_object js [(''error'', js_string js err)]) = Some d \<Longrightarrow> d \<noteq> ''[DONE]''"
proof -
  have d: "d \<noteq> ''[DONE]''" if "js_plain js j" "js_dump js j = Some d" for j d
    using json_okD(1) [OF assms(1) that] assms(2) by auto
  have "js_plain js (js_object js [(''error'', js_string js err)])" by (intro plain_object) (auto intro: plain_string)
  with d show "js_dump js (js_object js [(''error'', js_string js err)]) = Some d \<Longrightarrow> d \<noteq> ''[DONE]''" by blast
  have token: "js_plain js (token_event js t)" for t
    by (auto simp: token_event_def intro!: plain_object plain_array plain_string plain_int)
  show "''[DONE]'' \<notin> set ps" if ps: "token_payloads js out ps"
  proof
    assume "''[DONE]'' \<in> set ps"
    then have "Some ''[DONE]'' \<in> set (map Some ps)" by simp
    then have "Some ''[DONE]'' \<in> set (map (\<lambda>t. js_dump js (token_event js t)) out)"
      using ps by (simp only: token_payloads_def)
    then obtain t where "js_dump js (token_event js t) = Some ''[DONE]''" by fastforce
    with d token show False by blast
  qed
qed

text \<open>The part of the server that a thread's conversation is.\<close>

definition job_state :: "stream_job \<Rightarrow> ('r, 'j, 'kv, 'd) chat_server \<Rightarrow> ('j, 'kv) ai_state" where
  "job_state job w = \<lparr>as_helper = helper_at (job_helper job) (ch_maps w), as_gemma = ch_gemma w, as_mq = ch_mq w\<rparr>"

lemma run_job_calls:
  assumes "run_job app job w = (Done (), w')"
  obtains calls acts where "chatStream (ap_services app) (token_callback (ap_json app)) (\<lambda>_. None) (job_userId job) (job_username job)
      (job_sessionId job) (job_question job) (job_modelType job) (job_state job w) = (Some calls, job_state job w')"
    and "emit_all (ap_json app) calls = (True, acts)" and "ch_net w' = ch_net w @ map (Pair (job_conn job)) acts"
    and "\<And>a. a \<noteq> job_helper job \<Longrightarrow> cm_heap (ch_maps w') a = cm_heap (ch_maps w) a"
proof -
  obtain r s' where c: "chatStream (ap_services app) (token_callback (ap_json app)) (\<lambda>_. None) (job_userId job) (job_username job)
      (job_sessionId job) (job_question job) (job_modelType job) (job_state job w) = (r, s')" by fastforce
  from assms c obtain calls acts where r: "r = Some calls" and e: "emit_all (ap_json app) calls = (True, acts)"
    and w': "ch_net w' = ch_net w @ map (Pair (job_conn job)) acts"
      "ch_maps w' = put_helper (job_helper job) (as_helper s') (ch_maps w)" "ch_gemma w' = as_gemma s'" "ch_mq w' = as_mq s'"
    by (auto simp: run_job_def run_helper_def job_state_def split: option.splits prod.splits if_splits)
  have "job_state job w' = s'" by (simp add: job_state_def w' helper_at_def put_helper_def)
  with c r e w' show ?thesis by (intro that) (simp_all add: put_helper_def)
qed

text \<open>
  C18. A streamed answer is well formed on the wire and ends exactly once. When the thread of a streaming request ends normally, what it put
  on its connection is a sequence of events, each \<^verbatim>\<open>data: \<close>, a payload and two line feeds, none of them the end marker, then the
  event \<^verbatim>\<open>[DONE]\<close>, then the shutdown. If the turn succeeded, so that the exchange was committed, the payloads are exactly the token
  events of the texts of the answer, in their order, and there is no error event. If it failed, so that nothing was
  changed, they are token events followed by exactly one error event. (An answer of a model with tools
  that the JSON library cannot write is the one exception: it is committed, and an error event is sent.)
  Other connections got nothing, and the thread changed no conversation but its own.
\<close>

theorem stream_wire_format:
  assumes "services_ok (ap_services app) (job_userId job)" and "js_parse (ap_json app) ''[DONE]'' = None"
    and "run_job app job w = (Done (), w')"
  shows "\<exists>payloads. ch_net w' = ch_net w @ map (Pair (job_conn job))
      (map (\<lambda>p. Sent (''data: '' @ p @ [LF, LF])) payloads @ [Sent (''data: [DONE]'' @ [LF, LF]), Shut]) \<and>
    ''[DONE]'' \<notin> set payloads \<and>
    ((\<exists>out. token_payloads (ap_json app) out payloads \<and> concat out \<noteq> [] \<and>
        committed (ap_services app) (job_userId job) (job_username job) (job_sessionId job) (job_question job) (concat out)
          (job_state job w) (job_state job w')) \<or>
     (\<exists>sent out msg d. payloads = sent @ [d] \<and> token_payloads (ap_json app) out sent \<and>
        js_dump (ap_json app) (js_object (ap_json app) [(''error'', js_string (ap_json app) msg)]) = Some d \<and>
        unchanged (job_state job w) (job_state job w')) \<or>
     (\<exists>answer msg d. payloads = [d] \<and> uses_tools (ap_services app) (job_modelType job) \<and>
        js_dump (ap_json app) (token_event (ap_json app) answer) = None \<and>
        js_dump (ap_json app) (js_object (ap_json app) [(''error'', js_string (ap_json app) msg)]) = Some d \<and>
        committed (ap_services app) (job_userId job) (job_username job) (job_sessionId job) (job_question job) answer
          (job_state job w) (job_state job w'))) \<and>
    (\<forall>a. a \<noteq> job_helper job \<longrightarrow> cm_heap (ch_maps w') a = cm_heap (ch_maps w) a)"
proof -
  let ?js = "ap_json app" and ?sv = "ap_services app" and ?s = "job_state job w" and ?s' = "job_state job w'"
  let ?err = "\<lambda>msg. js_dump ?js (js_object ?js [(''error'', js_string ?js msg)])"
  let ?com = "committed ?sv (job_userId job) (job_username job) (job_sessionId job) (job_question job)"
  let ?R = "\<lambda>ps. (\<exists>out. token_payloads ?js out ps \<and> concat out \<noteq> [] \<and> ?com (concat out) ?s ?s') \<or>
     (\<exists>sent out msg d. ps = sent @ [d] \<and> token_payloads ?js out sent \<and> ?err msg = Some d \<and> unchanged ?s ?s') \<or>
     (\<exists>answer msg d. ps = [d] \<and> uses_tools ?sv (job_modelType job) \<and> js_dump ?js (token_event ?js answer) = None \<and>
        ?err msg = Some d \<and> ?com answer ?s ?s')"
  have ok: "json_ok ?js" using assms(1) by (simp add: services_ok_def)
  from assms(3) obtain calls acts where c: "chatStream ?sv (token_callback ?js) (\<lambda>_. None) (job_userId job) (job_username job)
      (job_sessionId job) (job_question job) (job_modelType job) ?s = (Some calls, ?s')"
    and e: "emit_all ?js calls = (True, acts)" and net: "ch_net w' = ch_net w @ map (Pair (job_conn job)) acts"
    and heap: "\<And>a. a \<noteq> job_helper job \<Longrightarrow> cm_heap (ch_maps w') a = cm_heap (ch_maps w) a"
    by (erule run_job_calls)
  have "\<exists>ps. acts = map (\<lambda>p. Sent (sse_frame p)) ps @ [Sent done_event, Shut] \<and> ''[DONE]'' \<notin> set ps \<and> ?R ps"
    using chatStream_ended [OF assms(1) c] unfolding option.case stream_ended_def
  proof (elim disjE exE conjE)
    fix out assume o: "calls = map On_token out @ [On_done (concat out)] @ []" "concat out \<noteq> []"
      "accepted (token_callback ?js) out" "?com (concat out) ?s ?s'"
    from accepted_payloads [OF o(3)] obtain ps where ps: "token_payloads ?js out ps" by blast
    have "acts = map (\<lambda>p. Sent (sse_frame p)) ps @ [Sent done_event, Shut]"
      using e emit_append [of ?js out "[On_done (concat out)]"] emit_payloads [OF ps] o(1) by (simp add: comp_def)
    then show ?thesis using ps o payloads_not_done(1) [OF ok assms(2) ps] by blast
  next
    fix out msg assume o: "calls = map On_token out @ [On_error msg]" "accepted (token_callback ?js) (butlast out)" "unchanged ?s ?s'"
    from emit_refused [OF o(2)] obtain sent ps where ps: "token_payloads ?js sent ps"
      "emit_all ?js (map On_token out) = (True, map (Sent \<circ> sse_frame) ps)" by blast
    obtain d where d: "?err msg = Some d"
      using e emit_append [of ?js out "[On_error msg]"] o(1) by (cases "?err msg") auto
    have "acts = map (\<lambda>p. Sent (sse_frame p)) (ps @ [d]) @ [Sent done_event, Shut]"
      using e emit_append [of ?js out "[On_error msg]"] ps(2) o(1) d by (simp add: comp_def)
    moreover have "''[DONE]'' \<notin> set (ps @ [d])"
      using payloads_not_done(1) [OF ok assms(2) ps(1)] payloads_not_done(2) [OF ok assms(2) d] by auto
    ultimately show ?thesis using ps(1) d o(3) by blast
  next
    fix answer x assume o: "uses_tools ?sv (job_modelType job)" "calls = [On_token answer, On_error (what x)]"
      "token_callback ?js [answer] = Some x" "?com answer ?s ?s'"
    have n: "js_dump ?js (token_event ?js answer) = None"
      using o(3) by (simp add: token_callback_def split: option.splits)
    obtain d where d: "?err (what x) = Some d" using e o(2) n by (cases "?err (what x)") auto
    have "acts = map (\<lambda>p. Sent (sse_frame p)) [d] @ [Sent done_event, Shut]" using e o(2) n d by simp
    moreover have "''[DONE]'' \<notin> set [d]" using payloads_not_done(2) [OF ok assms(2) d] by auto
    ultimately show ?thesis using o n d by blast
  qed
  then obtain ps where ps: "acts = map (\<lambda>p. Sent (sse_frame p)) ps @ [Sent done_event, Shut]" "''[DONE]'' \<notin> set ps" "?R ps"
    by blast
  have "ch_net w' = ch_net w @ map (Pair (job_conn job))
      (map (\<lambda>p. Sent (''data: '' @ p @ [LF, LF])) ps @ [Sent (''data: [DONE]'' @ [LF, LF]), Shut])"
    unfolding net ps(1) by (simp add: sse_frame_def done_event_def)
  with ps(2,3) heap show ?thesis by blast
qed

text \<open>A thread whose conversation cannot be continued reports the error and ends the stream.\<close>

definition incomplete_message :: string where
  "incomplete_message = ''Stored chat history has an incomplete exchange; start a new session to continue''"

definition error_app :: "(nat, jval, nat, row list) app" where
  "error_app = sample_app_rows\<lparr>ap_services := sample_services\<lparr>sv_json :=
     table_json [(''err'', J_obj [(''error'', J_str incomplete_message)])]\<rparr>\<rparr>"

definition error_job :: stream_job where
  "error_job = \<lparr>job_helper = 1, job_userId = 8, job_username = ''bob'', job_sessionId = ''t'', job_question = ''q'',
     job_modelType = ''1'', job_conn = 5\<rparr>"

theorem stream_wire_format_witness:
  "\<exists>w' payloads. run_job error_app error_job user_server = (Done (), w') \<and>
     ch_net w' = map (Pair 5) (map (\<lambda>p. Sent (''data: '' @ p @ [LF, LF])) payloads @ [Sent (''data: [DONE]'' @ [LF, LF]), Shut]) \<and>
     ''[DONE]'' \<notin> set payloads \<and> payloads \<noteq> []"
proof -
  have sv: "services_ok (ap_services error_app) (job_userId error_job)"
    by (simp add: services_ok_def error_app_def error_job_def sample_services_def table_json_ok)
  have h: "helper_at (Suc 0) (ch_maps user_server) = \<lparr>hp_strategy = None, hp_messages = [(''x'', 10)], hp_roles = [True]\<rparr>"
    by (simp add: user_server_def restored_maps_def sample_rows_def message_row_def restore_row_def getInt_def
        getString_def INT_MAX_def Let_def inner_def session_ids_def empty_maps_def new_conversation_def put_helper_def
        helper_at_def restoreMessage_def new_helper_def)
  have net: "ch_net user_server = []" by (simp add: user_server_def sample_chat_server_def)
  have e: "emit_all (ap_json error_app) [On_error incomplete_message] =
      (True, [Sent (sse_frame ''err''), Sent done_event, Shut])"
    by (simp add: error_app_def table_json_def)
  let ?s = "\<lparr>as_helper = helper_at (Suc 0) (ch_maps user_server), as_gemma = ch_gemma user_server, as_mq = ch_mq user_server\<rparr>"
  have v: "validateCanonicalHistory (as_helper ?s) = Inl (Runtime_error incomplete_message)"
    by (simp add: h validateCanonicalHistory_def incomplete_message_def)
  have c: "chatStream sv cb dn u n i q m ?s = (Some [On_error incomplete_message], ?s)"
    for sv :: "(jval, nat) services" and cb dn u n i q m
    unfolding chatStream_def v by simp
  have "\<exists>w'. run_job error_app error_job user_server = (Done (), w')"
    unfolding run_job_def run_helper_def
    by (simp add: error_job_def c e del: emit_all.simps)
  then obtain w' where r: "run_job error_app error_job user_server = (Done (), w')" by blast
  have p: "js_parse (ap_json error_app) ''[DONE]'' = None" by (simp add: error_app_def table_json_def)
  from stream_wire_format [OF sv p r] obtain payloads where
    n: "ch_net w' = map (Pair 5) (map (\<lambda>p. Sent (''data: '' @ p @ [LF, LF])) payloads @ [Sent (''data: [DONE]'' @ [LF, LF]), Shut])"
    "''[DONE]'' \<notin> set payloads" unfolding net by (auto simp: error_job_def)
  moreover have "length (ch_net w') = 3"
    using r net unfolding run_job_def run_helper_def by (auto simp: error_job_def c e simp del: emit_all.simps)
  ultimately have "payloads \<noteq> []" by auto
  with n r show ?thesis by blast
qed

end
