(* ===== verification/Base64.thy ===== *)
theory Base64
  imports Cpp_Prelude "HOL-Library.Word"
begin

text \<open>
  \<^verbatim>\<open>AIApps/ChatServer/src/AIUtil/base64.cpp\<close>: the codec of image uploads. Characters and sextets are
  unsigned numbers, with the source's masks and shifts; \<^verbatim>\<open>std::string::at\<close> past the end and a character
  outside the alphabet are the two exceptions. The encoder counts with a 32-bit \<^verbatim>\<open>unsigned int\<close> against a
  length of type \<^verbatim>\<open>size_t\<close>: its loop keeps that width, and is a partial function, since it does not end for
  an input of $2^{32}$ bytes or more. So is the loop that inserts line breaks, which would not end for a
  distance of zero.
\<close>

unbundle bit_operations_syntax

section \<open>Alphabets\<close>

definition base64_chars :: "bool \<Rightarrow> string" where
  "base64_chars url =
     ''ABCDEFGHIJKLMNOPQRSTUVWXYZ'' @ ''abcdefghijklmnopqrstuvwxyz'' @ ''0123456789'' @
     (if url then ''-_'' else ''+/'')"

definition pos_of_char :: "char \<Rightarrow> nat result" where
  "pos_of_char chr =
     (if byte_of CHR ''A'' \<le> byte_of chr \<and> byte_of chr \<le> byte_of CHR ''Z''
      then return (byte_of chr - byte_of CHR ''A'')
      else if byte_of CHR ''a'' \<le> byte_of chr \<and> byte_of chr \<le> byte_of CHR ''z''
      then return (byte_of chr - byte_of CHR ''a'' + (byte_of CHR ''Z'' - byte_of CHR ''A'') + 1)
      else if byte_of CHR ''0'' \<le> byte_of chr \<and> byte_of chr \<le> byte_of CHR ''9''
      then return (byte_of chr - byte_of CHR ''0'' + (byte_of CHR ''Z'' - byte_of CHR ''A'') +
                   (byte_of CHR ''z'' - byte_of CHR ''a'') + 2)
      else if chr = CHR ''+'' \<or> chr = CHR ''-'' then return 62
      else if chr = CHR ''/'' \<or> chr = CHR ''_'' then return 63
      else throw (Runtime_error ''Input is not valid base64-encoded data.''))"

section \<open>Encoding\<close>

text \<open>The characters one round appends, at the position of the counter.\<close>

definition encode_round :: "string \<Rightarrow> char \<Rightarrow> string \<Rightarrow> 32 word \<Rightarrow> string" where
  "encode_round cs trailing s pos =
     cs ! drop_bit 2 (byte_of (s ! unat pos) AND 0xfc) #
     (if unat (pos + 1) < length s
      then cs ! (push_bit 4 (byte_of (s ! unat pos) AND 0x03) + drop_bit 4 (byte_of (s ! unat (pos + 1)) AND 0xf0)) #
           (if unat (pos + 2) < length s
            then [cs ! (push_bit 2 (byte_of (s ! unat (pos + 1)) AND 0x0f) +
                        drop_bit 6 (byte_of (s ! unat (pos + 2)) AND 0xc0)),
                  cs ! (byte_of (s ! unat (pos + 2)) AND 0x3f)]
            else [cs ! push_bit 2 (byte_of (s ! unat (pos + 1)) AND 0x0f), trailing])
      else [cs ! push_bit 4 (byte_of (s ! unat pos) AND 0x03), trailing, trailing])"

partial_function (option) encode_loop ::
  "string \<Rightarrow> char \<Rightarrow> string \<Rightarrow> 32 word \<Rightarrow> string \<Rightarrow> string option" where
  "encode_loop cs trailing s pos ret =
     (if unat pos < length s
      then encode_loop cs trailing s (pos + 3) (ret @ encode_round cs trailing s pos)
      else Some ret)"

definition base64_encode :: "string \<Rightarrow> bool \<Rightarrow> string option" where
  "base64_encode s url = encode_loop (base64_chars url) (if url then CHR ''.'' else CHR ''='') s 0 []"

partial_function (option) linebreak_loop :: "nat \<Rightarrow> nat \<Rightarrow> string \<Rightarrow> string option" where
  "linebreak_loop distance pos str =
     (if pos < length str
      then linebreak_loop distance (pos + distance + 1) (take pos str @ LF # drop pos str)
      else Some str)"

definition insert_linebreaks :: "string \<Rightarrow> nat \<Rightarrow> string option" where
  "insert_linebreaks str distance =
     (if length str = 0 then Some [] else linebreak_loop distance distance str)"

definition encode_with_line_breaks :: "nat \<Rightarrow> string \<Rightarrow> string option" where
  "encode_with_line_breaks line_length s =
     Option.bind (base64_encode s False) (\<lambda>e. insert_linebreaks e line_length)"

definition base64_encode_pem :: "string \<Rightarrow> string option" where
  "base64_encode_pem s = encode_with_line_breaks 64 s"

definition base64_encode_mime :: "string \<Rightarrow> string option" where
  "base64_encode_mime s = encode_with_line_breaks 76 s"

section \<open>Decoding\<close>

definition padding :: "char \<Rightarrow> bool" where
  "padding c \<longleftrightarrow> c = CHR ''='' \<or> c = CHR ''.''"

definition out_byte :: "nat \<Rightarrow> char" where
  "out_byte n = char_of (n mod 256)"

text \<open>One round of the loop, on the characters from \<^verbatim>\<open>pos\<close> on: the bytes it appends.\<close>

definition decode_chunk :: "string \<Rightarrow> string result" where
  "decode_chunk s =
     (if length s \<le> 1 then throw (Out_of_range ''basic_string::at'')
      else bind_result (pos_of_char (s ! 1)) (\<lambda>p1.
           bind_result (pos_of_char (s ! 0)) (\<lambda>p0.
             let b1 = out_byte (push_bit 2 p0 + drop_bit 4 (p1 AND 0x30))
             in if 2 < length s \<and> \<not> padding (s ! 2)
                then bind_result (pos_of_char (s ! 2)) (\<lambda>p2.
                     let b2 = out_byte (push_bit 4 (p1 AND 0x0f) + drop_bit 2 (p2 AND 0x3c))
                     in if 3 < length s \<and> \<not> padding (s ! 3)
                        then bind_result (pos_of_char (s ! 3)) (\<lambda>p3.
                               return [b1, b2, out_byte (push_bit 6 (p2 AND 0x03) + p3)])
                        else return [b1, b2])
                else return [b1])))"

function decode_loop :: "string \<Rightarrow> string result" where
  "decode_loop s =
     (if s = [] then return []
      else bind_result (decode_chunk s) (\<lambda>bs.
           bind_result (decode_loop (drop 4 s)) (\<lambda>rest. return (bs @ rest))))"
  by pat_completeness auto
termination
  by (relation "measure length") auto

declare decode_loop.simps [simp del]

definition base64_decode :: "string \<Rightarrow> bool \<Rightarrow> string result" where
  "base64_decode encoded remove_linebreaks =
     (if encoded = [] then return []
      else if remove_linebreaks then decode_loop (filter (\<lambda>c. c \<noteq> LF) encoded)
      else decode_loop encoded)"

section \<open>The counter\<close>

text \<open>
  The encoding by groups of three bytes, with no counter: what the loop computes as long as its
  counter does not wrap around.
\<close>

fun encode_groups :: "string \<Rightarrow> char \<Rightarrow> string \<Rightarrow> string" where
  "encode_groups cs trailing [] = []"
| "encode_groups cs trailing [a] =
     [cs ! drop_bit 2 (byte_of a AND 0xfc), cs ! push_bit 4 (byte_of a AND 0x03), trailing, trailing]"
| "encode_groups cs trailing [a, b] =
     [cs ! drop_bit 2 (byte_of a AND 0xfc),
      cs ! (push_bit 4 (byte_of a AND 0x03) + drop_bit 4 (byte_of b AND 0xf0)),
      cs ! push_bit 2 (byte_of b AND 0x0f), trailing]"
| "encode_groups cs trailing (a # b # c # rest) =
     [cs ! drop_bit 2 (byte_of a AND 0xfc),
      cs ! (push_bit 4 (byte_of a AND 0x03) + drop_bit 4 (byte_of b AND 0xf0)),
      cs ! (push_bit 2 (byte_of b AND 0x0f) + drop_bit 6 (byte_of c AND 0xc0)),
      cs ! (byte_of c AND 0x3f)] @ encode_groups cs trailing rest"

lemma unat_add_small: "unat (pos :: 32 word) + n < 2 ^ 32 \<Longrightarrow> unat (pos + of_nat n) = unat pos + n"
  by (simp add: unat_word_ariths unat_of_nat)

lemma encode_round_groups:
  assumes "unat pos < length s" and "length s < 2 ^ 32" and "unat pos mod 3 = 0"
  shows "encode_groups cs t (drop (unat pos) s) =
    encode_round cs t s pos @ encode_groups cs t (drop (unat pos + 3) s)"
    and "unat (pos + 3) = unat pos + 3"
proof -
  define n where "n = unat pos"
  have b: "n + 3 < 2 ^ 32"
  proof -
    have "n \<le> 4294967294" "n mod 3 = 0" using assms by (simp_all add: n_def)
    then have "n + 3 < 4294967296" by presburger
    then show ?thesis by simp
  qed
  have u: "unat (pos + 1) = n + 1" "unat (pos + 2) = n + 2" "unat (pos + 3) = n + 3"
    using b unat_add_small [of pos 1] unat_add_small [of pos 2] unat_add_small [of pos 3] by (simp_all add: n_def)
  then show "unat (pos + 3) = unat pos + 3" by (simp add: n_def)
  have d: "drop k s = s ! k # drop (k + 1) s" if "k < length s" for k
    using that by (simp add: Cons_nth_drop_Suc)
  consider "length s = n + 1" | "length s = n + 2" | "n + 2 < length s" using assms(1) by (fold n_def) linarith
  then show "encode_groups cs t (drop (unat pos) s) =
      encode_round cs t s pos @ encode_groups cs t (drop (unat pos + 3) s)"
  proof cases
    case 1
    then have "drop n s = [s ! n]" "drop (n + 3) s = []" using d [of n] by simp_all
    with 1 u show ?thesis by (simp add: encode_round_def flip: n_def)
  next
    case 2
    then have "drop n s = [s ! n, s ! (n + 1)]" "drop (n + 3) s = []" using d [of n] d [of "n + 1"] by simp_all
    with 2 u show ?thesis by (simp add: encode_round_def flip: n_def)
  next
    case 3
    then have "drop n s = s ! n # s ! (n + 1) # s ! (n + 2) # drop (n + 3) s"
      using d [of n] d [of "n + 1"] d [of "n + 2"] by (simp add: eval_nat_numeral)
    with 3 u show ?thesis by (simp add: encode_round_def flip: n_def)
  qed
qed

text \<open>Below $2^{32}$ bytes the counter never wraps: the loop returns the encoding by groups.\<close>

lemma encode_loop_groups:
  assumes "length s < 2 ^ 32" and "unat pos mod 3 = 0"
  shows "encode_loop cs t s pos ret = Some (ret @ encode_groups cs t (drop (unat pos) s))"
  using assms(2)
proof (induction "length s - unat pos" arbitrary: pos ret rule: less_induct)
  case less
  show ?case
  proof (cases "unat pos < length s")
    case True
    note r = encode_round_groups [OF True assms(1) less.prems]
    have "encode_loop cs t s (pos + 3) (ret @ encode_round cs t s pos) =
        Some ((ret @ encode_round cs t s pos) @ encode_groups cs t (drop (unat (pos + 3)) s))"
      using True less.prems by (intro less.hyps) (simp_all add: r(2))
    then show ?thesis using True by (subst encode_loop.simps) (simp add: r)
  qed (subst encode_loop.simps, simp)
qed

text \<open>From $2^{32}$ bytes on the counter is always below the length.\<close>

lemma encode_loop_diverges:
  assumes "2 ^ 32 \<le> length s"
  shows "encode_loop cs t s pos ret = None"
proof (rule ccontr)
  assume "encode_loop cs t s pos ret \<noteq> None"
  then obtain e where e: "encode_loop cs t s pos ret = Some e" by auto
  have "length s < 2 ^ 32"
  proof (rule encode_loop.raw_induct [where P = "\<lambda>cs t s pos ret e. length s < 2 ^ 32", OF _ e], goal_cases)
    case (1 f cs t s pos ret e)
    have "unat pos < 2 ^ 32" using unsigned_less [of pos] by simp
    with 1 show ?case by (cases "unat pos < length s") auto
  qed
  with assms show False by simp
qed

lemma base64_encode_eq:
  "base64_encode s url =
     (if length s < 2 ^ 32
      then Some (encode_groups (base64_chars url) (if url then CHR ''.'' else CHR ''='') s) else None)"
  using encode_loop_groups [of s 0] encode_loop_diverges [of s] by (simp add: base64_encode_def not_less)

section \<open>The alphabet is read back\<close>

lemma base64_table: "map pos_of_char (base64_chars url) = map Inr [0..<64]"
  by (cases url) (simp_all add: base64_chars_def pos_of_char_def upt_conv_Cons)

lemma base64_table_chars: "list_all (\<lambda>c. \<not> padding c \<and> c \<noteq> LF) (base64_chars url)"
  by (cases url) (simp_all add: base64_chars_def padding_def)

lemma length_base64_chars: "length (base64_chars url) = 64"
  using base64_table [of url, THEN arg_cong [where f = length]] by (simp only: length_map length_upt)

lemma pos_of_base64_char: "n < 64 \<Longrightarrow> pos_of_char (base64_chars url ! n) = Inr n"
  using base64_table [of url, THEN arg_cong [where f = "\<lambda>xs. xs ! n"]]
  by (simp only: nth_map length_base64_chars length_upt nth_upt) simp

lemma base64_char_not: "n < 64 \<Longrightarrow> \<not> padding (base64_chars url ! n) \<and> base64_chars url ! n \<noteq> LF"
  using base64_table_chars [of url] by (simp add: list_all_length length_base64_chars)

text \<open>The masks and shifts as arithmetic.\<close>

lemma and_low:
  "(n :: nat) AND 3 = n mod 4" "(n :: nat) AND 15 = n mod 16" "(n :: nat) AND 63 = n mod 64"
proof -
  have m: "(3 :: nat) = mask 2" "(15 :: nat) = mask 4" "(63 :: nat) = mask 6"
    by (simp_all add: mask_eq_exp_minus_1)
  show "n AND 3 = n mod 4" "n AND 15 = n mod 16" "n AND 63 = n mod 64"
    unfolding m take_bit_eq_mask [symmetric] by (simp_all add: take_bit_eq_mod)
qed

lemma byte_parts:
  assumes "b < 256"
  shows "drop_bit 2 (b AND 0xfc) = b div 4" "push_bit 4 (b AND 0x03) = b mod 4 * 16"
    "drop_bit 4 (b AND 0xf0) = b div 16" "push_bit 2 (b AND 0x0f) = b mod 16 * 4"
    "drop_bit 6 (b AND 0xc0) = b div 64" "b AND 0x3f = b mod (64 :: nat)"
proof -
  have d: "drop_bit 2 (252 :: nat) = 63" "drop_bit 4 (240 :: nat) = 15" "drop_bit 6 (192 :: nat) = 3"
    by (simp_all add: drop_bit_eq_div)
  have "drop_bit 2 (b AND 252) = b div 4 mod 64" "drop_bit 4 (b AND 240) = b div 16 mod 16"
    "drop_bit 6 (b AND 192) = b div 64 mod 4"
    unfolding drop_bit_and d and_low by (simp_all add: drop_bit_eq_div)
  moreover have "b div 4 mod 64 = b div 4" "b div 16 mod 16 = b div 16" "b div 64 mod 4 = b div 64"
    using assms by simp_all
  ultimately show "drop_bit 2 (b AND 0xfc) = b div 4" "drop_bit 4 (b AND 0xf0) = b div 16"
    "drop_bit 6 (b AND 0xc0) = b div 64" by metis+
qed (simp_all add: and_low push_bit_eq_mult)

lemma sextet_parts:
  assumes "p < 64"
  shows "push_bit 2 p = p * 4" "drop_bit 4 (p AND 0x30) = p div 16" "push_bit 4 (p AND 0x0f) = p mod 16 * 16"
    "drop_bit 2 (p AND 0x3c) = p div 4" "push_bit 6 (p AND 0x03) = p mod 4 * (64 :: nat)"
proof -
  have d: "drop_bit 4 (48 :: nat) = 3" "drop_bit 2 (60 :: nat) = 15"
    by (simp_all add: drop_bit_eq_div)
  have "drop_bit 4 (p AND 48) = p div 16 mod 4" "drop_bit 2 (p AND 60) = p div 4 mod 16"
    unfolding drop_bit_and d and_low by (simp_all add: drop_bit_eq_div)
  moreover have "p div 16 mod 4 = p div 16" "p div 4 mod 16 = p div 4" using assms by simp_all
  ultimately show "drop_bit 4 (p AND 0x30) = p div 16" "drop_bit 2 (p AND 0x3c) = p div 4" by metis+
qed (simp_all add: and_low push_bit_eq_mult)

section \<open>Round trip\<close>

lemma out_byte_eq: "n = byte_of c \<Longrightarrow> out_byte n = c"
  using byte_of_less [of c] by (simp add: out_byte_def)

lemma digits_16_4:
  "s < 16 \<Longrightarrow> (r * 16 + s) div 16 = r \<and> (r * 16 + s) mod 16 = (s :: nat)"
  "u < 4 \<Longrightarrow> (t * 4 + u) div 4 = t \<and> (t * 4 + u) mod 4 = (u :: nat)"
  by simp_all

lemma chunk_bytes:
  assumes "a < 256" and "b < 256" and "c < (256 :: nat)"
  shows "a div 4 < 64" "a mod 4 * 16 + b div 16 < 64" "b mod 16 * 4 + c div 64 < 64" "c mod 64 < 64"
    "a mod 4 * 16 < 64" "b mod 16 * 4 < 64"
    "a div 4 * 4 + (a mod 4 * 16 + b div 16) div 16 = a"
    "(a mod 4 * 16 + b div 16) mod 16 * 16 + (b mod 16 * 4 + c div 64) div 4 = b"
    "(b mod 16 * 4 + c div 64) mod 4 * 64 + c mod 64 = c"
    "a div 4 * 4 + a mod 4 * 16 div 16 = a"
    "(a mod 4 * 16 + b div 16) mod 16 * 16 + b mod 16 * 4 div 4 = b"
proof -
  have r: "a mod 4 < 4" "b mod 16 < 16" "b div 16 < 16" "c div 64 < 4" using assms by simp_all
  show "a div 4 < 64" "c mod 64 < 64" using assms by simp_all
  show "a mod 4 * 16 + b div 16 < 64" "b mod 16 * 4 + c div 64 < 64" "a mod 4 * 16 < 64" "b mod 16 * 4 < 64"
    using r by linarith+
  show "a div 4 * 4 + (a mod 4 * 16 + b div 16) div 16 = a"
    "(a mod 4 * 16 + b div 16) mod 16 * 16 + (b mod 16 * 4 + c div 64) div 4 = b"
    "(b mod 16 * 4 + c div 64) mod 4 * 64 + c mod 64 = c"
    "a div 4 * 4 + a mod 4 * 16 div 16 = a"
    "(a mod 4 * 16 + b div 16) mod 16 * 16 + b mod 16 * 4 div 4 = b"
    using r by (simp_all only: digits_16_4 div_mult_mod_eq) simp_all
qed

lemma decode_chunk_quad:
  assumes "p0 < 64" "p1 < 64" "p2 < 64" "p3 < 64"
  shows "decode_chunk ([base64_chars url ! p0, base64_chars url ! p1, base64_chars url ! p2,
      base64_chars url ! p3] @ rest) =
    Inr [out_byte (p0 * 4 + p1 div 16), out_byte (p1 mod 16 * 16 + p2 div 4), out_byte (p2 mod 4 * 64 + p3)]"
  using assms base64_char_not [of _ url]
  by (simp add: decode_chunk_def pos_of_base64_char sextet_parts Let_def del: drop_bit_and push_bit_and)

lemma decode_chunk_padded:
  assumes "p0 < 64" "p1 < 64" "p2 < 64" "padding t"
  shows "decode_chunk [base64_chars url ! p0, base64_chars url ! p1, base64_chars url ! p2, t] =
      Inr [out_byte (p0 * 4 + p1 div 16), out_byte (p1 mod 16 * 16 + p2 div 4)]"
    and "decode_chunk [base64_chars url ! p0, base64_chars url ! p1, t, t] =
      Inr [out_byte (p0 * 4 + p1 div 16)]"
  using assms base64_char_not [of _ url]
  by (simp_all add: decode_chunk_def pos_of_base64_char sextet_parts Let_def del: drop_bit_and push_bit_and)

lemma decode_loop_single: "s \<noteq> [] \<Longrightarrow> length s \<le> 4 \<Longrightarrow> decode_chunk s = Inr bs \<Longrightarrow> decode_loop s = Inr bs"
  by (subst decode_loop.simps) (simp add: decode_loop.simps [of "[]"])

lemma decode_encode_loop:
  assumes "padding t"
  shows "decode_loop (encode_groups (base64_chars url) t s) = Inr s"
  using assms
proof (induction "base64_chars url" t s rule: encode_groups.induct)
  case (1 t)
  show ?case by (simp add: decode_loop.simps)
next
  case (2 t a)
  note b = chunk_bytes [of "byte_of a" "byte_of a" "byte_of a", OF byte_of_less byte_of_less byte_of_less]
  note p = byte_parts [of "byte_of a", OF byte_of_less]
  have "decode_chunk [base64_chars url ! (byte_of a div 4), base64_chars url ! (byte_of a mod 4 * 16), t, t] =
      Inr [a]"
    unfolding decode_chunk_padded(2) [OF b(1,5) b(1) 2] b(10) out_byte_eq [OF refl] ..
  then show ?case unfolding encode_groups.simps p by (intro decode_loop_single) simp_all
next
  case (3 t a c)
  note b = chunk_bytes [of "byte_of a" "byte_of c" "byte_of c", OF byte_of_less byte_of_less byte_of_less]
  note p = byte_parts [of "byte_of a", OF byte_of_less] byte_parts [of "byte_of c", OF byte_of_less]
  have "decode_chunk [base64_chars url ! (byte_of a div 4),
      base64_chars url ! (byte_of a mod 4 * 16 + byte_of c div 16),
      base64_chars url ! (byte_of c mod 16 * 4), t] = Inr [a, c]"
    unfolding decode_chunk_padded(1) [OF b(1,2,6) 3] b(7,11) out_byte_eq [OF refl] ..
  then show ?case unfolding encode_groups.simps p by (intro decode_loop_single) simp_all
next
  case (4 t a c d rest)
  note b = chunk_bytes [of "byte_of a" "byte_of c" "byte_of d", OF byte_of_less byte_of_less byte_of_less]
  note p = byte_parts [of "byte_of a", OF byte_of_less] byte_parts [of "byte_of c", OF byte_of_less]
    byte_parts [of "byte_of d", OF byte_of_less]
  let ?q = "[base64_chars url ! (byte_of a div 4), base64_chars url ! (byte_of a mod 4 * 16 + byte_of c div 16),
      base64_chars url ! (byte_of c mod 16 * 4 + byte_of d div 64), base64_chars url ! (byte_of d mod 64)]"
  have q: "decode_chunk (?q @ r) = Inr [a, c, d]" for r
    unfolding decode_chunk_quad [OF b(1-4)] b(7-9) out_byte_eq [OF refl] ..
  have "decode_loop (?q @ r) = bind_result (decode_loop r) (\<lambda>x. Inr ([a, c, d] @ x))" for r
    by (subst decode_loop.simps) (simp only: q bind_result_simps, simp)
  with 4 show ?case unfolding encode_groups.simps p by (simp only: bind_result_simps) simp
qed

section \<open>Line breaks\<close>

lemma encode_loop_no_LF:
  assumes "t \<noteq> LF"
  shows "LF \<notin> set (encode_groups (base64_chars url) t s)"
  using assms
proof (induction "base64_chars url" t s rule: encode_groups.induct)
  case (2 t a)
  note b = chunk_bytes [of "byte_of a" "byte_of a" "byte_of a", OF byte_of_less byte_of_less byte_of_less]
  note p = byte_parts [of "byte_of a", OF byte_of_less]
  from base64_char_not [OF b(1), of url] base64_char_not [OF b(5), of url] 2
  show ?case unfolding encode_groups.simps p by auto
next
  case (3 t a c)
  note b = chunk_bytes [of "byte_of a" "byte_of c" "byte_of c", OF byte_of_less byte_of_less byte_of_less]
  note p = byte_parts [of "byte_of a", OF byte_of_less] byte_parts [of "byte_of c", OF byte_of_less]
  from base64_char_not [OF b(1), of url] base64_char_not [OF b(2), of url]
    base64_char_not [OF b(6), of url] 3
  show ?case unfolding encode_groups.simps p by auto
next
  case (4 t a c d rest)
  note b = chunk_bytes [of "byte_of a" "byte_of c" "byte_of d", OF byte_of_less byte_of_less byte_of_less]
  note p = byte_parts [of "byte_of a", OF byte_of_less] byte_parts [of "byte_of c", OF byte_of_less]
    byte_parts [of "byte_of d", OF byte_of_less]
  from base64_char_not [OF b(1), of url] base64_char_not [OF b(2), of url]
    base64_char_not [OF b(3), of url] base64_char_not [OF b(4), of url] 4
  show ?case unfolding encode_groups.simps p by auto
qed simp

lemma length_encode_loop: "length (encode_groups cs t s) = (length s + 2) div 3 * 4"
proof (induction cs t s rule: encode_groups.induct)
  case (4 cs t a b c rest)
  have "(length (a # b # c # rest) + 2) div 3 = Suc ((length rest + 2) div 3)" by simp
  with 4 show ?case by (simp only: encode_groups.simps length_append) simp
qed simp_all

text \<open>The positions move faster than the string grows, so the loop ends; it only adds line breaks.\<close>

lemma linebreak_loop_total:
  assumes "distance > 0"
  shows "\<exists>r. linebreak_loop distance pos str = Some r \<and>
    filter (\<lambda>c. c \<noteq> LF) r = filter (\<lambda>c. c \<noteq> LF) str \<and> (str \<noteq> [] \<longrightarrow> r \<noteq> [])"
proof (induction "length str - pos" arbitrary: pos str rule: less_induct)
  case less
  show ?case
  proof (cases "pos < length str")
    case True
    let ?str = "take pos str @ LF # drop pos str"
    have "length ?str - (pos + distance + 1) < length str - pos" using True assms by simp
    from less.hyps [OF this] obtain r where r: "linebreak_loop distance (pos + distance + 1) ?str = Some r"
      "filter (\<lambda>c. c \<noteq> LF) r = filter (\<lambda>c. c \<noteq> LF) ?str" "r \<noteq> []" by auto
    moreover have "filter (\<lambda>c. c \<noteq> LF) ?str = filter (\<lambda>c. c \<noteq> LF) str"
      by simp (metis append_take_drop_id filter_append)
    ultimately show ?thesis using True by (subst linebreak_loop.simps) simp
  next
    case False
    then show ?thesis by (subst linebreak_loop.simps) simp
  qed
qed

lemma decode_with_line_breaks:
  assumes "line_length > 0" and "length s < 2 ^ 32"
  shows "\<exists>r. encode_with_line_breaks line_length s = Some r \<and> base64_decode r True = Inr s"
proof -
  let ?e = "encode_groups (base64_chars False) (CHR ''='') s"
  note enc = base64_encode_eq [of s False] assms(2)
  have nolf: "filter (\<lambda>c. c \<noteq> LF) ?e = ?e"
    using encode_loop_no_LF [of "CHR ''=''" False s] by (auto simp: filter_id_conv)
  have dec: "decode_loop ?e = Inr s"
    using decode_encode_loop [of "CHR ''=''" False s] by (simp add: padding_def)
  show ?thesis
  proof (cases "?e = []")
    case True
    with dec have "s = []" by (simp add: decode_loop.simps)
    with True show ?thesis
      using enc by (simp add: encode_with_line_breaks_def insert_linebreaks_def base64_decode_def)
  next
    case False
    from linebreak_loop_total [OF assms(1), of line_length ?e] False nolf obtain r
      where "linebreak_loop line_length line_length ?e = Some r" "filter (\<lambda>c. c \<noteq> LF) r = ?e" "r \<noteq> []"
      by auto
    with False dec show ?thesis
      using enc by (simp add: encode_with_line_breaks_def insert_linebreaks_def base64_decode_def)
  qed
qed

section \<open>Properties\<close>

text \<open>
  C34. For every byte string of less than $2^{32}$ bytes and both alphabets, encoding returns, the encoded
  string has four characters for every started group of three bytes, and decoding it gives the
  bytes back. From $2^{32}$ bytes on, the loop of the encoder does not end: its 32-bit counter wraps around
  below the length.
\<close>

theorem base64_round_trip:
  "if length s < 2 ^ 32
   then \<exists>e. base64_encode s url = Some e \<and> base64_decode e False = Inr s \<and>
            length e = (length s + 2) div 3 * 4
   else base64_encode s url = None"
proof (cases "length s < 2 ^ 32")
  case True
  define e where "e = encode_groups (base64_chars url) (if url then CHR ''.'' else CHR ''='') s"
  have "decode_loop e = Inr s"
    using decode_encode_loop [of "if url then CHR ''.'' else CHR ''=''" url s]
    by (simp add: e_def padding_def)
  moreover from this have "s = []" if "e = []"
    using that by (simp add: decode_loop.simps)
  ultimately have "base64_decode e False = Inr s" by (auto simp: base64_decode_def)
  moreover have "length e = (length s + 2) div 3 * 4" by (simp only: e_def length_encode_loop)
  ultimately show ?thesis using True by (simp add: base64_encode_eq e_def)
qed (simp add: base64_encode_eq)

text \<open>
  The encoders that break lines return for every input of less than $2^{32}$ bytes, and decoding their
  output with line breaks removed gives the input back.
\<close>

theorem base64_line_breaks_round_trip:
  assumes "length s < 2 ^ 32"
  shows "(\<exists>r. base64_encode_pem s = Some r \<and> base64_decode r True = Inr s) \<and>
   (\<exists>r. base64_encode_mime s = Some r \<and> base64_decode r True = Inr s)"
  using decode_with_line_breaks [of 64 s] decode_with_line_breaks [of 76 s] assms
  by (simp add: base64_encode_pem_def base64_encode_mime_def)

end
