(* ===== verification/Image_Resource.thy ===== *)
theory Image_Resource
  imports Cpp_Prelude "HOL-Library.Word"
begin

text \<open>
  \<^verbatim>\<open>AIApps/ChatServer/include/AIUtil/ImageResource.h\<close>: the checks an uploaded image passes before the decoder of a
  third party sees it. The environment is a function from names to values. Bytes and the integers read from
  them keep their widths. A read outside the vector is undefined behaviour in the source: here every
  read goes through \<open>rd\<close> or \<open>rd_range\<close>, which give \<open>None\<close> outside, so that memory safety of
  \<^verbatim>\<open>Preflight\<close> is the theorem that its result is never \<open>None\<close>. Positions are numbers bounded
  by the size of the vector, which the invariants below show. The permit that limits concurrent jobs is a
  lock-free counter, modelled with one step per atomic operation.
\<close>

unbundle bit_operations_syntax

section \<open>The policy\<close>

type_synonym environment = "string \<Rightarrow> string option"

record policy =
  pol_encoded :: "64 word"
  pol_pixels :: "64 word"
  pol_bgr :: "64 word"
  pol_jobs :: "64 word"

definition default_policy :: policy where
  "default_policy = \<lparr>pol_encoded = 16 * 1024 * 1024, pol_pixels = 16 * 1024 * 1024,
     pol_bgr = 64 * 1024 * 1024, pol_jobs = 2\<rparr>"

definition size_max :: "64 word" where
  "size_max = - 1"

definition int_max :: nat where
  "int_max = 2147483647"

fun setting_loop :: "string \<Rightarrow> 64 word \<Rightarrow> 64 word result" where
  "setting_loop [] r = return r"
| "setting_loop (c # cs) r =
     (if byte_of c < 48 \<or> byte_of c > 57 then throw (Runtime_error ''Invalid image resource configuration'')
      else if r > (size_max - of_nat (byte_of c - 48)) div 10
      then throw (Runtime_error ''Invalid image resource configuration'')
      else setting_loop cs (r * 10 + of_nat (byte_of c - 48)))"

definition Setting :: "environment \<Rightarrow> string \<Rightarrow> 64 word \<Rightarrow> 64 word result" where
  "Setting env name fallback =
     (case env name of
        None \<Rightarrow> return fallback
      | Some v \<Rightarrow>
          (if v = [] then throw (Runtime_error ''Empty image resource configuration'')
           else bind_result (setting_loop v 0)
                  (\<lambda>r. if r = 0 then throw (Runtime_error ''Zero image resource configuration'') else return r)))"

definition GetPolicy :: "environment \<Rightarrow> policy result" where
  "GetPolicy env =
     bind_result (Setting env ''IMAGE_MAX_ENCODED_BYTES'' (pol_encoded default_policy)) (\<lambda>encoded.
     bind_result (Setting env ''IMAGE_MAX_ORIGINAL_PIXELS'' (pol_pixels default_policy)) (\<lambda>pixels.
     bind_result (Setting env ''IMAGE_MAX_BGR_BYTES'' (pol_bgr default_policy)) (\<lambda>bgr.
     bind_result (Setting env ''IMAGE_MAX_CONCURRENT_JOBS'' (pol_jobs default_policy)) (\<lambda>jobs.
       if encoded > of_nat int_max
       then throw (Runtime_error ''Image encoded limit exceeds decoder representation'')
       else return \<lparr>pol_encoded = encoded, pol_pixels = pixels, pol_bgr = bgr, pol_jobs = jobs\<rparr>))))"

section \<open>The checks\<close>

record shape =
  shp_width :: "32 word"
  shp_height :: "32 word"
  shp_jpeg :: bool

definition CheckEncoded :: "environment \<Rightarrow> nat \<Rightarrow> unit result" where
  "CheckEncoded env sz =
     bind_result (GetPolicy env) (\<lambda>p.
       if sz > unat (pol_encoded p) then throw (Resource_error 413 ''Encoded image exceeds resource budget'')
       else if sz = 0 then throw (Resource_error 400 ''Image data is empty'')
       else return ())"

definition CheckShape :: "environment \<Rightarrow> 32 word \<Rightarrow> 32 word \<Rightarrow> unit result" where
  "CheckShape env width height =
     (if width = 0 \<or> height = 0 \<or> width > of_nat int_max \<or> height > of_nat int_max
      then throw (Resource_error 400 ''Invalid image dimensions'')
      else bind_result (GetPolicy env) (\<lambda>p.
        if ucast width > pol_pixels p div ucast height \<or> ucast width > pol_bgr p div 3 div ucast height
        then throw (Resource_error 413 ''Original decoded image exceeds resource budget'')
        else return ()))"

text \<open>The decimal value that \<open>decimal\<close> gives the digits of a setting, from a start value.\<close>

definition setting_value :: "nat \<Rightarrow> string \<Rightarrow> nat" where
  "setting_value n s = foldl (\<lambda>a c. a * 10 + digit_val c) n s"

lemma setting_value_0: "setting_value 0 s = decimal s"
  by (simp add: setting_value_def decimal_def)

lemma setting_value_mono: "n \<le> setting_value n s"
proof (induction s arbitrary: n)
  case (Cons c s)
  have "n \<le> n * 10 + digit_val c" by simp
  also have "\<dots> \<le> setting_value (n * 10 + digit_val c) s" by (rule Cons)
  finally show ?case by (simp add: setting_value_def)
qed (simp add: setting_value_def)

text \<open>The guard of the loop is exactly the absence of overflow.\<close>

lemma setting_guard:
  assumes "d < 10"
  shows "(r > (size_max - of_nat d) div 10) \<longleftrightarrow> 2 ^ 64 \<le> unat r * 10 + d"
    and "unat r * 10 + d < 2 ^ 64 \<Longrightarrow> unat (r * 10 + of_nat d) = unat r * 10 + d"
proof -
  have d: "unat (of_nat d :: 64 word) = d"
    using assms by (simp add: unat_of_nat)
  have m: "unat size_max = 2 ^ 64 - 1"
    by (simp add: size_max_def unat_minus_one mask_eq_exp_minus_1 unsigned_minus_1_eq_mask)
  have le: "(of_nat d :: 64 word) \<le> size_max" by (simp add: size_max_def)
  have "unat ((size_max - of_nat d) div 10) = (2 ^ 64 - 1 - d) div 10"
    unfolding unat_div unat_sub [OF le] m d by simp
  then have "(r > (size_max - of_nat d) div 10) \<longleftrightarrow> (2 ^ 64 - 1 - d) div 10 < unat r"
    by (simp add: word_less_nat_alt)
  also have "\<dots> \<longleftrightarrow> 2 ^ 64 \<le> unat r * 10 + d" using assms by (simp, linarith)
  finally show "(r > (size_max - of_nat d) div 10) \<longleftrightarrow> 2 ^ 64 \<le> unat r * 10 + d" .
  assume "unat r * 10 + d < 2 ^ 64"
  then show "unat (r * 10 + of_nat d) = unat r * 10 + d"
    by (simp add: unat_word_ariths d unat_of_nat)
qed

lemma setting_loop_eq:
  "setting_loop s r =
     (if list_all is_digit s \<and> setting_value (unat r) s < 2 ^ 64
      then Inr (of_nat (setting_value (unat r) s))
      else Inl (Runtime_error ''Invalid image resource configuration''))"
proof (induction s arbitrary: r)
  case Nil
  have "unat r < 2 ^ 64" using unsigned_less [of r] by simp
  then show ?case by (simp add: setting_value_def)
next
  case (Cons c s)
  show ?case
  proof (cases "is_digit c")
    case False
    then show ?thesis by (auto simp: is_digit_def)
  next
    case True
    define d where "d = byte_of c - 48"
    have "d < 10" using True unfolding d_def is_digit_def by linarith
    moreover have "digit_val c = d" by (simp add: d_def digit_val_def)
    ultimately have d: "d < 10" "digit_val c = d" by simp_all
    have st: "setting_value (unat r) (c # s) = setting_value (unat r * 10 + d) s"
      by (simp add: setting_value_def d(2))
    show ?thesis
    proof (cases "2 ^ 64 \<le> unat r * 10 + d")
      case o: True
      then have "\<not> setting_value (unat r) (c # s) < 2 ^ 64"
        using setting_value_mono [of "unat r * 10 + d" s] st by linarith
      moreover have "setting_loop (c # s) r = Inl (Runtime_error ''Invalid image resource configuration'')"
        using o True setting_guard(1) [OF d(1), of r] by (simp add: is_digit_def flip: d_def)
      ultimately show ?thesis by simp
    next
      case False
      then have "unat (r * 10 + of_nat d) = unat r * 10 + d" using setting_guard(2) [OF d(1)] by simp
      moreover have "setting_loop (c # s) r = setting_loop s (r * 10 + of_nat d)"
        using False True setting_guard(1) [OF d(1), of r] by (simp add: is_digit_def flip: d_def)
      ultimately show ?thesis using True by (simp add: Cons.IH st)
    qed
  qed
qed

text \<open>A shape passes exactly when its area is within both budgets, as numbers.\<close>

lemma CheckShape_iff:
  "CheckShape env w h = Inr () \<longleftrightarrow>
     0 < unat w \<and> unat w \<le> int_max \<and> 0 < unat h \<and> unat h \<le> int_max \<and>
     (\<exists>p. GetPolicy env = Inr p \<and> unat w * unat h \<le> unat (pol_pixels p) \<and>
          3 * (unat w * unat h) \<le> unat (pol_bgr p))"
proof (cases "unat h = 0")
  case False
  have i: "unat (of_nat int_max :: 32 word) = int_max" by (simp add: int_max_def unat_of_nat)
  have c: "unat (ucast x :: 64 word) = unat x" for x :: "32 word"
  proof -
    have "unat x < 2 ^ 32" using unsigned_less [of x] by simp
    then show ?thesis by (simp add: unsigned_ucast_eq take_bit_nat_eq_self)
  qed
  have "(ucast w \<le> x div ucast h) = (unat w * unat h \<le> unat x)" for x :: "64 word"
    using False by (simp add: word_le_nat_alt unat_div c less_eq_div_iff_mult_less_eq)
  moreover have "(ucast w \<le> x div 3 div ucast h) = (3 * (unat w * unat h) \<le> unat x)" for x :: "64 word"
    using False by (simp add: word_le_nat_alt unat_div c less_eq_div_iff_mult_less_eq mult.commute)
  moreover have "(x > of_nat int_max) \<longleftrightarrow> \<not> unat x \<le> int_max" for x :: "32 word"
    by (simp add: word_less_nat_alt i not_le)
  ultimately show ?thesis
    using False by (cases "GetPolicy env") (auto simp: CheckShape_def not_less [symmetric] unat_gt_0 unat_eq_zero)
qed (auto simp: CheckShape_def unat_eq_zero)

section \<open>Reading the header\<close>

type_synonym bytes = "8 word list"

definition rd :: "bytes \<Rightarrow> nat \<Rightarrow> (8 word \<Rightarrow> 'b option) \<Rightarrow> 'b option" where
  "rd p i k = (if i < length p then k (p ! i) else None)"

definition rd_range :: "bytes \<Rightarrow> nat \<Rightarrow> nat \<Rightarrow> (bytes \<Rightarrow> 'b option) \<Rightarrow> 'b option" where
  "rd_range p i n k = (if i + n \<le> length p then k (take n (drop i p)) else None)"

lemma rd_cong [fundef_cong]:
  assumes "p = p'" "i = i'" "\<And>b. i' < length p' \<Longrightarrow> b = p' ! i' \<Longrightarrow> k b = k' b"
  shows "rd p i k = rd p' i' k'"
  using assms by (simp add: rd_def)

text \<open>\<^verbatim>\<open>BE32\<close> and \<^verbatim>\<open>CRC\<close>, on the bytes they read.\<close>

definition BE32 :: "bytes \<Rightarrow> 32 word" where
  "BE32 q = push_bit 24 (ucast (q ! 0)) OR push_bit 16 (ucast (q ! 1)) OR push_bit 8 (ucast (q ! 2)) OR ucast (q ! 3)"

definition crc_bit :: "32 word \<Rightarrow> 32 word" where
  "crc_bit crc = drop_bit 1 crc XOR (0xedb88320 AND (0 - (crc AND 1)))"

definition CRC :: "bytes \<Rightarrow> 32 word" where
  "CRC q = foldl (\<lambda>crc b. (crc_bit ^^ 8) (crc XOR ucast b)) 0xffffffff q XOR 0xffffffff"

definition str_bytes :: "string \<Rightarrow> bytes" where
  "str_bytes s = map (\<lambda>c. of_nat (byte_of c)) s"

abbreviation bad :: "string \<Rightarrow> 'a result" where
  "bad m \<equiv> throw (Resource_error 400 m)"

text \<open>What one round of a loop does.\<close>

datatype 'a round =
    Finish "shape result"
  | Break
  | Continue 'a

subsection \<open>PNG\<close>

definition png_magic :: bytes where
  "png_magic = [137, 80, 78, 71, 13, 10, 26, 10]"

definition png_depth_ok :: "8 word \<Rightarrow> 8 word \<Rightarrow> bool" where
  "png_depth_ok color depth \<longleftrightarrow>
     (color = 0 \<and> (depth = 1 \<or> depth = 2 \<or> depth = 4 \<or> depth = 8 \<or> depth = 16)) \<or>
     (color = 3 \<and> (depth = 1 \<or> depth = 2 \<or> depth = 4 \<or> depth = 8)) \<or>
     ((color = 2 \<or> color = 4 \<or> color = 6) \<and> (depth = 8 \<or> depth = 16))"

definition png_round :: "bytes \<Rightarrow> shape \<Rightarrow> bool \<times> nat \<Rightarrow> (bool \<times> nat) round option" where
  "png_round p shape = (\<lambda>(data, pos).
     let n = length p in
     if n - pos < 12 then Some (Finish (bad ''Truncated PNG chunk''))
     else rd_range p pos 4 (\<lambda>q. let len = unat (BE32 q) in
       if len > n - pos - 12 then Some (Finish (bad ''Invalid PNG chunk length''))
       else rd_range p (pos + 4) 4 (\<lambda>type.
         if type = str_bytes ''IHDR'' then Some (Finish (bad ''Duplicate PNG header''))
         else let data = (data \<or> type = str_bytes ''IDAT'') in
           if type = str_bytes ''IEND''
           then if len \<noteq> 0 \<or> \<not> data \<or> pos + 12 \<noteq> n then Some (Finish (bad ''Invalid PNG end''))
                else Some (Finish (return shape))
           else Some (Continue (data, pos + (len + 12))))))"

text \<open>A round either ends the loop or moves on inside the vector.\<close>

lemma png_round_progress:
  "png_round p shape (data, pos) = Some (Continue (data', pos')) \<Longrightarrow> pos < pos' \<and> pos' \<le> length p"
  by (auto simp: png_round_def rd_range_def Let_def split: if_splits)

lemma png_round_safe: "png_round p shape (data, pos) \<noteq> None"
  by (auto simp: png_round_def rd_range_def Let_def)

function png_loop :: "bytes \<Rightarrow> shape \<Rightarrow> bool \<times> nat \<Rightarrow> shape checked" where
  "png_loop p shape (data, pos) =
     (if pos < length p
      then case png_round p shape (data, pos) of
             None \<Rightarrow> None
           | Some (Finish r) \<Rightarrow> Some r
           | Some Break \<Rightarrow> Some (bad ''Truncated PNG image'')
           | Some (Continue s) \<Rightarrow> png_loop p shape s
      else Some (bad ''Truncated PNG image''))"
  by pat_completeness auto
termination
  by (relation "measure (\<lambda>(p, shape, data, pos). length p - pos)") (auto dest!: png_round_progress)

declare png_loop.simps [simp del]

definition preflight_png :: "environment \<Rightarrow> bytes \<Rightarrow> shape checked" where
  "preflight_png env p =
     (let n = length p; header = Some (bad ''Invalid PNG header'') in
      if n < 33 then header
      else rd_range p 8 4 (\<lambda>l. if BE32 l \<noteq> 13 then header
      else rd_range p 12 4 (\<lambda>type. if type \<noteq> str_bytes ''IHDR'' then header
      else rd_range p 12 17 (\<lambda>chunk. rd_range p 29 4 (\<lambda>sum. if CRC chunk \<noteq> BE32 sum then header
      else rd_range p 16 4 (\<lambda>w. rd_range p 20 4 (\<lambda>h.
        let shape = \<lparr>shp_width = BE32 w, shp_height = BE32 h, shp_jpeg = False\<rparr> in
        rd p 24 (\<lambda>depth. rd p 25 (\<lambda>color. rd p 26 (\<lambda>compression. rd p 27 (\<lambda>filtering. rd p 28 (\<lambda>interlace.
          if \<not> png_depth_ok color depth \<or> compression \<noteq> 0 \<or> filtering \<noteq> 0 \<or> interlace > 1
          then Some (bad ''Unsupported PNG header'')
          else case CheckShape env (shp_width shape) (shp_height shape) of
                 Inl e \<Rightarrow> Some (Inl e)
               | Inr _ \<Rightarrow> png_loop p shape (False, 33)))))))))))))"

subsection \<open>JPEG\<close>

text \<open>The bytes 255 before a marker are skipped; the position is tested before the byte is read.\<close>

function skip_fill :: "bytes \<Rightarrow> nat \<Rightarrow> nat option" where
  "skip_fill p pos =
     (if pos < length p then rd p pos (\<lambda>b. if b = 255 then skip_fill p (pos + 1) else Some pos) else Some pos)"
  by pat_completeness auto
termination
  by (relation "measure (\<lambda>(p, pos). length p - pos)") auto

declare skip_fill.simps [simp del]

lemma skip_fill_safe: "pos \<le> length p \<Longrightarrow> \<exists>q. skip_fill p pos = Some q \<and> pos \<le> q \<and> q \<le> length p"
proof (induction p pos rule: skip_fill.induct)
  case (1 p pos)
  then show ?case by (subst (1) skip_fill.simps) (auto simp: rd_def dest: Suc_leD)
qed

lemma skip_fill_ge: "skip_fill p pos = Some q \<Longrightarrow> pos \<le> q"
proof (induction p pos rule: skip_fill.induct)
  case (1 p pos)
  show ?case
    using "1.prems" "1.IH" by (simp add: skip_fill.simps [of p pos] rd_def split: if_splits)
qed

text \<open>The entropy-coded data after a scan header, up to the next marker.\<close>

function scan_loop :: "bytes \<Rightarrow> nat \<Rightarrow> nat option" where
  "scan_loop p pos =
     (if pos < length p
      then rd p pos (\<lambda>b.
             if b \<noteq> 255 then scan_loop p (pos + 1)
             else Option.bind (skip_fill p (pos + 1)) (\<lambda>nxt.
               if nxt = length p then Some (length p)
               else rd p nxt (\<lambda>c. if c = 0 \<or> (c \<ge> 208 \<and> c \<le> 215) then scan_loop p (nxt + 1) else Some pos)))
      else Some pos)"
  by pat_completeness auto
termination
proof (relation "measure (\<lambda>(p, pos). length p - pos)", goal_cases)
  case (3 p pos b nxt c)
  then show ?case using skip_fill_ge [of p "pos + 1" nxt] by auto
qed auto

declare scan_loop.simps [simp del]

lemma scan_loop_safe:
  "pos \<le> length p \<Longrightarrow> \<exists>q. scan_loop p pos = Some q \<and> pos \<le> q \<and> q \<le> length p"
proof (induction p pos rule: scan_loop.induct)
  case (1 p pos)
  show ?case
  proof (cases "pos < length p")
    case True
    obtain nxt where nxt: "skip_fill p (pos + 1) = Some nxt" "pos + 1 \<le> nxt" "nxt \<le> length p"
      using skip_fill_safe [of "pos + 1" p] True by auto
    have a: "\<exists>q. scan_loop p (pos + 1) = Some q \<and> pos + 1 \<le> q \<and> q \<le> length p" if "p ! pos \<noteq> 255"
      using "1.IH"(1) [OF True _ refl] that True by auto
    have b: "\<exists>q. scan_loop p (nxt + 1) = Some q \<and> nxt + 1 \<le> q \<and> q \<le> length p"
      if "p ! pos = 255" "nxt \<noteq> length p" "p ! nxt = 0 \<or> (p ! nxt \<ge> 208 \<and> p ! nxt \<le> 215)"
      using "1.IH"(2) [OF True True refl _ nxt(1) _ _ refl] that nxt by auto
    have eq: "scan_loop p pos =
        (if p ! pos \<noteq> 255 then scan_loop p (pos + 1) else if nxt = length p then Some (length p)
         else if p ! nxt = 0 \<or> (p ! nxt \<ge> 208 \<and> p ! nxt \<le> 215) then scan_loop p (nxt + 1) else Some pos)"
      using True nxt by (subst scan_loop.simps) (simp add: rd_def)
    show ?thesis
    proof (cases "p ! pos = 255 \<and> nxt \<noteq> length p \<and> (p ! nxt = 0 \<or> (p ! nxt \<ge> 208 \<and> p ! nxt \<le> 215))")
      case True
      then obtain q where "scan_loop p (nxt + 1) = Some q" "nxt + 1 \<le> q" "q \<le> length p" using b by blast
      then show ?thesis using True nxt(2) by (simp add: eq)
    next
      case False
      then show ?thesis using a True by (cases "p ! pos = 255") (auto simp: eq)
    qed
  qed (use 1 in \<open>subst scan_loop.simps, simp\<close>)
qed

record jpeg_state =
  jpg_shape :: shape
  jpg_frame :: bool
  jpg_scan :: bool
  jpg_pos :: nat

definition be16 :: "8 word \<Rightarrow> 8 word \<Rightarrow> 32 word" where
  "be16 hi lo = push_bit 8 (ucast hi) OR ucast lo"

text \<open>A frame header: the shape, if the frame is supported.\<close>

definition jpeg_frame ::
  "environment \<Rightarrow> bytes \<Rightarrow> 8 word \<Rightarrow> bool \<Rightarrow> nat \<Rightarrow> nat \<Rightarrow> shape checked" where
  "jpeg_frame env p marker frame pos len =
     (let unsupported = Some (bad ''Unsupported JPEG frame'') in
      if (marker \<noteq> 192 \<and> marker \<noteq> 193 \<and> marker \<noteq> 194) \<or> frame \<or> len < 8 then unsupported
      else rd p (pos + 2) (\<lambda>precision. if precision \<noteq> 8 then unsupported
      else rd p (pos + 7) (\<lambda>components.
        if (components \<noteq> 1 \<and> components \<noteq> 3 \<and> components \<noteq> 4) \<or> len \<noteq> 8 + 3 * unat components
        then unsupported
        else rd p (pos + 5) (\<lambda>w1. rd p (pos + 6) (\<lambda>w0. rd p (pos + 3) (\<lambda>h1. rd p (pos + 4) (\<lambda>h0.
          let shape = \<lparr>shp_width = be16 w1 w0, shp_height = be16 h1 h0, shp_jpeg = True\<rparr>
          in Some (bind_result (CheckShape env (shp_width shape) (shp_height shape))
                     (\<lambda>_. return shape)))))))))"

definition jpeg_segment ::
  "environment \<Rightarrow> bytes \<Rightarrow> 8 word \<Rightarrow> nat \<Rightarrow> nat \<Rightarrow> jpeg_state \<Rightarrow> jpeg_state round option" where
  "jpeg_segment env p marker pos len s =
     (if marker = 218
      then if \<not> jpg_frame s \<or> len < 6 then Some (Finish (bad ''Invalid JPEG scan''))
           else rd p (pos + 2) (\<lambda>components.
             if len \<noteq> 6 + 2 * unat components then Some (Finish (bad ''Invalid JPEG scan''))
             else Option.bind (scan_loop p (pos + len)) (\<lambda>pos'.
               Some (Continue (s\<lparr>jpg_scan := True, jpg_pos := pos'\<rparr>))))
      else Some (Continue (s\<lparr>jpg_pos := pos + len\<rparr>)))"

definition jpeg_marker ::
  "environment \<Rightarrow> bytes \<Rightarrow> jpeg_state \<Rightarrow> 8 word \<Rightarrow> nat \<Rightarrow> jpeg_state round option" where
  "jpeg_marker env p s marker pos =
     (let n = length p in
      if marker = 217
      then if jpg_frame s \<and> jpg_scan s then Some (Finish (return (jpg_shape s))) else Some Break
      else if marker = 0 \<or> marker = 216 \<or> (marker \<ge> 208 \<and> marker \<le> 215)
      then Some (Finish (bad ''Invalid JPEG marker sequence''))
      else if n - pos < 2 then Some Break
      else rd p pos (\<lambda>l1. rd p (pos + 1) (\<lambda>l0. let len = unat (be16 l1 l0) in
        if len < 2 \<or> len > n - pos then Some (Finish (bad ''Invalid JPEG segment length''))
        else if marker \<ge> 192 \<and> marker \<le> 207 \<and> marker \<noteq> 196 \<and> marker \<noteq> 200 \<and> marker \<noteq> 204
        then case jpeg_frame env p marker (jpg_frame s) pos len of
               None \<Rightarrow> None
             | Some (Inl e) \<Rightarrow> Some (Finish (Inl e))
             | Some (Inr shape) \<Rightarrow>
                 jpeg_segment env p marker pos len (s\<lparr>jpg_shape := shape, jpg_frame := True\<rparr>)
        else jpeg_segment env p marker pos len s)))"

definition jpeg_round :: "environment \<Rightarrow> bytes \<Rightarrow> jpeg_state \<Rightarrow> jpeg_state round option" where
  "jpeg_round env p s =
     rd p (jpg_pos s) (\<lambda>b. if b \<noteq> 255 then Some (Finish (bad ''Invalid JPEG marker''))
       else Option.bind (skip_fill p (jpg_pos s + 1)) (\<lambda>pos.
         if pos = length p then Some Break
         else rd p pos (\<lambda>marker. jpeg_marker env p s marker (pos + 1))))"

lemma jpeg_frame_safe:
  "pos + len \<le> length p \<Longrightarrow> jpeg_frame env p marker frame pos len \<noteq> None"
  by (auto simp: jpeg_frame_def rd_def Let_def)

lemma jpeg_frame_shape:
  "jpeg_frame env p marker frame pos len = Some (Inr shape) \<Longrightarrow>
     CheckShape env (shp_width shape) (shp_height shape) = Inr ()"
  by (auto simp: jpeg_frame_def rd_def Let_def bind_result_Inr split: if_splits)

lemma jpeg_segment_safe:
  "pos + len \<le> length p \<Longrightarrow> jpeg_segment env p marker pos len s \<noteq> None"
  using scan_loop_safe [of "pos + len" p] by (auto simp: jpeg_segment_def rd_def)

lemma jpeg_segment_progress:
  assumes "jpeg_segment env p marker pos len s = Some (Continue s')" "pos + len \<le> length p"
  shows "pos + len \<le> jpg_pos s' \<and> jpg_pos s' \<le> length p \<and> jpg_shape s' = jpg_shape s \<and> jpg_frame s' = jpg_frame s"
  using assms scan_loop_safe [OF assms(2)]
  by (auto simp: jpeg_segment_def rd_def split: if_splits)

lemma jpeg_segment_not_done: "jpeg_segment env p marker pos len s \<noteq> Some (Finish (Inr shape))"
  by (auto simp: jpeg_segment_def rd_def bind_eq_Some_conv split: if_splits)

text \<open>
  What a round does, as cases over its outcome: it never reads outside the vector, it moves on inside it, it
  keeps a checked shape once it has a frame, and it returns only such a shape.
\<close>

definition jpeg_ok :: "environment \<Rightarrow> jpeg_state \<Rightarrow> bool" where
  "jpeg_ok env s \<longleftrightarrow> (jpg_frame s \<longrightarrow>
     CheckShape env (shp_width (jpg_shape s)) (shp_height (jpg_shape s)) = Inr ())"

definition good_round :: "environment \<Rightarrow> bytes \<Rightarrow> jpeg_state \<Rightarrow> jpeg_state round option \<Rightarrow> bool" where
  "good_round env p s r \<longleftrightarrow>
     (case r of
        None \<Rightarrow> False
      | Some (Continue s') \<Rightarrow> jpg_pos s < jpg_pos s' \<and> jpg_pos s' \<le> length p \<and> (jpeg_ok env s \<longrightarrow> jpeg_ok env s')
      | Some (Finish (Inr shape)) \<Rightarrow>
          jpeg_ok env s \<longrightarrow> CheckShape env (shp_width shape) (shp_height shape) = Inr ()
      | Some _ \<Rightarrow> True)"

lemma good_round_simps [simp]:
  "good_round env p s (Some Break)"
  "good_round env p s (Some (Finish (Inl e)))"
  "good_round env p s (Some (Finish (Inr shape))) \<longleftrightarrow>
     (jpeg_ok env s \<longrightarrow> CheckShape env (shp_width shape) (shp_height shape) = Inr ())"
  "\<not> good_round env p s None"
  by (simp_all add: good_round_def)

lemma good_round_if:
  "(c \<Longrightarrow> good_round env p s x) \<Longrightarrow> (\<not> c \<Longrightarrow> good_round env p s y) \<Longrightarrow>
     good_round env p s (if c then x else y)"
  by simp

lemma good_round_segment:
  assumes "jpg_pos s < pos + len" "pos + len \<le> length p" "jpeg_ok env s \<longrightarrow> jpeg_ok env s1"
  shows "good_round env p s (jpeg_segment env p marker pos len s1)"
proof (cases "jpeg_segment env p marker pos len s1")
  case None
  then show ?thesis using jpeg_segment_safe assms(2) by blast
next
  case (Some r)
  show ?thesis
  proof (cases r)
    case (Finish x)
    then show ?thesis using Some jpeg_segment_not_done [of env p marker pos len s1] by (cases x) auto
  next
    case (Continue s')
    with Some have "pos + len \<le> jpg_pos s' \<and> jpg_pos s' \<le> length p \<and> jpg_shape s' = jpg_shape s1 \<and> jpg_frame s' = jpg_frame s1"
      using jpeg_segment_progress assms(2) by blast
    then show ?thesis using Some Continue assms(1,3) by (auto simp: good_round_def jpeg_ok_def)
  qed (simp add: Some)
qed

lemma good_round_frame:
  assumes "jpg_pos s < pos + len" "pos + len \<le> length p"
  shows "good_round env p s
      (case jpeg_frame env p m f pos len of None \<Rightarrow> None | Some (Inl e) \<Rightarrow> Some (Finish (Inl e))
       | Some (Inr shape) \<Rightarrow> jpeg_segment env p m pos len (s\<lparr>jpg_shape := shape, jpg_frame := True\<rparr>))"
proof (cases "jpeg_frame env p m f pos len")
  case None
  then show ?thesis using jpeg_frame_safe assms(2) by blast
next
  case (Some r)
  show ?thesis
  proof (cases r)
    case (Inr shape)
    with Some have "jpeg_ok env (s\<lparr>jpg_shape := shape, jpg_frame := True\<rparr>)"
      using jpeg_frame_shape by (fastforce simp: jpeg_ok_def)
    then show ?thesis using Some Inr assms by (simp add: good_round_segment)
  qed (simp add: Some)
qed

lemma jpeg_marker_good:
  assumes "jpg_pos s < pos"
  shows "good_round env p s (jpeg_marker env p s marker pos)"
proof (cases "length p - pos < 2")
  case True
  then show ?thesis by (auto simp: jpeg_marker_def Let_def jpeg_ok_def)
next
  case False
  define len where "len = unat (be16 (p ! pos) (p ! (pos + 1)))"
  have r: "pos < length p" "Suc pos < length p" using False by auto
  define body where "body =
    (if len < 2 \<or> len > length p - pos then Some (Finish (bad ''Invalid JPEG segment length''))
     else if marker \<ge> 192 \<and> marker \<le> 207 \<and> marker \<noteq> 196 \<and> marker \<noteq> 200 \<and> marker \<noteq> 204
     then case jpeg_frame env p marker (jpg_frame s) pos len of
            None \<Rightarrow> None | Some (Inl e) \<Rightarrow> Some (Finish (Inl e))
          | Some (Inr shape) \<Rightarrow> jpeg_segment env p marker pos len (s\<lparr>jpg_shape := shape, jpg_frame := True\<rparr>)
     else jpeg_segment env p marker pos len s)"
  have body: "good_round env p s body"
  proof (cases "len < 2 \<or> len > length p - pos")
    case False
    then have "jpg_pos s < pos + len" "pos + len \<le> length p" using assms r by auto
    then show ?thesis using False by (simp add: body_def good_round_frame good_round_segment)
  qed (simp add: body_def)
  have "jpeg_marker env p s marker pos =
      (if marker = 217
       then if jpg_frame s \<and> jpg_scan s then Some (Finish (return (jpg_shape s))) else Some Break
       else if marker = 0 \<or> marker = 216 \<or> (marker \<ge> 208 \<and> marker \<le> 215)
       then Some (Finish (bad ''Invalid JPEG marker sequence'')) else body)"
    using False r unfolding jpeg_marker_def Let_def rd_def body_def len_def by simp
  then show ?thesis
    by (simp only:) (intro good_round_if body, simp_all add: jpeg_ok_def)
qed

lemma jpeg_round_good:
  assumes "jpg_pos s < length p"
  shows "good_round env p s (jpeg_round env p s)"
proof -
  obtain q where "skip_fill p (jpg_pos s + 1) = Some q" "jpg_pos s + 1 \<le> q" "q \<le> length p"
    using skip_fill_safe [of "jpg_pos s + 1" p] assms by auto
  then show ?thesis
    using assms by (simp add: jpeg_round_def rd_def jpeg_marker_good)
qed

function jpeg_loop :: "environment \<Rightarrow> bytes \<Rightarrow> jpeg_state \<Rightarrow> shape checked" where
  "jpeg_loop env p s =
     (if jpg_pos s < length p
      then case jpeg_round env p s of
             None \<Rightarrow> None
           | Some (Finish r) \<Rightarrow> Some r
           | Some Break \<Rightarrow> Some (bad ''Truncated JPEG image'')
           | Some (Continue s') \<Rightarrow> jpeg_loop env p s'
      else Some (bad ''Truncated JPEG image''))"
  by pat_completeness auto
termination
proof (relation "measure (\<lambda>(env, p, s). length p - jpg_pos s)", goal_cases)
  case (2 env p s r s')
  then show ?case using jpeg_round_good [of s p env] by (auto simp: good_round_def)
qed simp

declare jpeg_loop.simps [simp del]

text \<open>The two signatures; each test of the length precedes the bytes it guards.\<close>

definition has_png_magic :: "bytes \<Rightarrow> bool option" where
  "has_png_magic p = (if length p \<ge> 8 then rd_range p 0 8 (\<lambda>q. Some (q = png_magic)) else Some False)"

definition has_jpeg_magic :: "bytes \<Rightarrow> bool option" where
  "has_jpeg_magic p =
     (if length p \<ge> 2 then rd p 0 (\<lambda>a. if a = 255 then rd p 1 (\<lambda>b. Some (b = 216)) else Some False)
      else Some False)"

definition Preflight :: "environment \<Rightarrow> bytes \<Rightarrow> shape checked" where
  "Preflight env p =
     (case CheckEncoded env (length p) of
        Inl e \<Rightarrow> Some (Inl e)
      | Inr _ \<Rightarrow>
          Option.bind (has_png_magic p) (\<lambda>png.
            if png then preflight_png env p
            else Option.bind (has_jpeg_magic p) (\<lambda>jpeg.
              if jpeg
              then jpeg_loop env p \<lparr>jpg_shape = \<lparr>shp_width = 0, shp_height = 0, shp_jpeg = False\<rparr>,
                     jpg_frame = False, jpg_scan = False, jpg_pos = 2\<rparr>
              else Some (bad ''Only JPEG and PNG images are supported''))))"

section \<open>Memory safety and budgets\<close>

lemma png_loop_safe: "\<exists>r. png_loop p shape (data, pos) = Some r \<and> (\<forall>s. r = Inr s \<longrightarrow> s = shape)"
proof (induction "length p - pos" arbitrary: data pos rule: less_induct)
  case less
  obtain r where r: "png_round p shape (data, pos) = Some r"
    using png_round_safe [of p shape data pos] by auto
  have fin: "r = Finish (Inr s) \<Longrightarrow> s = shape" for s
    using r by (auto simp: png_round_def rd_range_def Let_def split: if_splits)
  show ?case
  proof (cases r)
    case (Finish x)
    with r fin show ?thesis by (subst png_loop.simps) (cases x, auto)
  next
    case Break
    with r show ?thesis by (subst png_loop.simps) auto
  next
    case (Continue s)
    obtain data' pos' where s: "s = (data', pos')" by fastforce
    have "pos < pos' \<and> pos' \<le> length p" using png_round_progress r Continue s by blast
    then have "\<exists>r. png_loop p shape s = Some r \<and> (\<forall>s. r = Inr s \<longrightarrow> s = shape)"
      unfolding s by (intro less) auto
    with r Continue show ?thesis by (subst png_loop.simps) auto
  qed
qed

lemma preflight_png_safe:
  "\<exists>r. preflight_png env p = Some r \<and>
     (\<forall>s. r = Inr s \<longrightarrow> CheckShape env (shp_width s) (shp_height s) = Inr ())"
proof (cases "length p < 33")
  case False
  have fin: "\<exists>r. (case CheckShape env w h of Inl e \<Rightarrow> Some (Inl e)
        | Inr _ \<Rightarrow> png_loop p \<lparr>shp_width = w, shp_height = h, shp_jpeg = False\<rparr> (False, 33)) = Some r \<and>
      (\<forall>s. r = Inr s \<longrightarrow> CheckShape env (shp_width s) (shp_height s) = Inr ())" for w h
    using png_loop_safe [of p "\<lparr>shp_width = w, shp_height = h, shp_jpeg = False\<rparr>" False 33]
    by (cases "CheckShape env w h") auto
  show ?thesis using False by (simp add: preflight_png_def rd_range_def rd_def Let_def fin)
qed (simp add: preflight_png_def)

lemma jpeg_loop_safe:
  "jpeg_ok env s \<Longrightarrow> \<exists>r. jpeg_loop env p s = Some r \<and>
     (\<forall>x. r = Inr x \<longrightarrow> CheckShape env (shp_width x) (shp_height x) = Inr ())"
proof (induction env p s rule: jpeg_loop.induct)
  case (1 env p s)
  show ?case
  proof (cases "jpg_pos s < length p")
    case True
    note good = jpeg_round_good [OF True, of env]
    then obtain r where r: "jpeg_round env p s = Some r" by (cases "jpeg_round env p s") auto
    show ?thesis
    proof (cases r)
      case (Finish x)
      with good r "1.prems" True show ?thesis by (subst jpeg_loop.simps) (cases x, auto)
    next
      case Break
      with r True show ?thesis by (subst jpeg_loop.simps) auto
    next
      case (Continue s')
      with good r "1.prems" have "jpeg_ok env s'" by (simp add: good_round_def)
      with "1.IH" True r Continue show ?thesis by (subst jpeg_loop.simps) auto
    qed
  qed (subst jpeg_loop.simps, simp)
qed

lemma CheckEncoded_iff:
  "CheckEncoded env n = Inr () \<longleftrightarrow> 0 < n \<and> (\<exists>p. GetPolicy env = Inr p \<and> n \<le> unat (pol_encoded p))"
  by (cases "GetPolicy env") (auto simp: CheckEncoded_def)

lemma magic_safe: "has_png_magic p \<noteq> None" "has_jpeg_magic p \<noteq> None"
  by (auto simp: has_png_magic_def has_jpeg_magic_def rd_range_def rd_def)

lemma Preflight_cases:
  "\<exists>r. Preflight env p = Some r \<and>
     (\<forall>s. r = Inr s \<longrightarrow> CheckEncoded env (length p) = Inr () \<and> CheckShape env (shp_width s) (shp_height s) = Inr ())"
proof (cases "CheckEncoded env (length p)")
  case (Inr u)
  have ok: "jpeg_ok env \<lparr>jpg_shape = x, jpg_frame = False, jpg_scan = False, jpg_pos = 2\<rparr>" for x
    by (simp add: jpeg_ok_def)
  show ?thesis
    using Inr preflight_png_safe [of env p] jpeg_loop_safe [OF ok, of p] magic_safe [of p]
    by (auto simp: Preflight_def)
qed (simp add: Preflight_def)

text \<open>
  C35. The header check of an uploaded image is safe on arbitrary bytes: it always returns, it never reads outside the
  vector (a read outside it makes the result undefined), and a shape it accepts has positive sides below the decoder's limit, an area within the
  pixel budget and three bytes per pixel within the output budget, computed without overflow; the
  encoded image is within its budget too.
\<close>

theorem Preflight_within_budget:
  "\<exists>r. Preflight env bytes = Some r \<and>
     (\<forall>s. r = Inr s \<longrightarrow>
        (\<exists>p. GetPolicy env = Inr p \<and> 0 < length bytes \<and> length bytes \<le> unat (pol_encoded p) \<and>
             0 < unat (shp_width s) \<and> unat (shp_width s) < 2 ^ 31 \<and>
             0 < unat (shp_height s) \<and> unat (shp_height s) < 2 ^ 31 \<and>
             unat (shp_width s) * unat (shp_height s) \<le> unat (pol_pixels p) \<and>
             3 * (unat (shp_width s) * unat (shp_height s)) \<le> unat (pol_bgr p)))"
  using Preflight_cases [of env bytes]
  by (auto simp: CheckEncoded_iff CheckShape_iff int_max_def)

text \<open>A baseline JPEG of 2 by 1 pixels: frame header, scan header, one byte of data, end marker.\<close>

definition tiny_jpeg :: bytes where
  "tiny_jpeg = [255, 216, 255, 192, 0, 11, 8, 0, 1, 0, 2, 1, 1, 17, 0, 255, 218, 0, 8, 1, 1, 0, 0, 63, 0,
     42, 255, 217]"

abbreviation no_env :: environment where
  "no_env \<equiv> \<lambda>_. None"

abbreviation tiny_shape :: shape where
  "tiny_shape \<equiv> \<lparr>shp_width = 2, shp_height = 1, shp_jpeg = True\<rparr>"

lemma default_GetPolicy: "GetPolicy no_env = Inr default_policy"
  by (simp add: GetPolicy_def Setting_def default_policy_def int_max_def)

lemma tiny_encoded: "CheckEncoded no_env (length tiny_jpeg) = Inr ()"
  by (simp add: CheckEncoded_iff default_GetPolicy) (simp add: tiny_jpeg_def default_policy_def)

lemma tiny_CheckShape: "CheckShape no_env 2 1 = Inr ()"
  by (simp add: CheckShape_iff default_GetPolicy) (simp add: int_max_def default_policy_def)

lemma tiny_scan: "scan_loop tiny_jpeg 25 = Some 26"
  by (subst scan_loop.simps, simp add: tiny_jpeg_def rd_def, subst scan_loop.simps, simp add: skip_fill.simps rd_def)

lemma tiny_fill:
  "skip_fill tiny_jpeg 3 = Some 3" "skip_fill tiny_jpeg 16 = Some 16" "skip_fill tiny_jpeg 27 = Some 27"
  by (subst skip_fill.simps, simp add: tiny_jpeg_def rd_def)+

lemmas round_defs = jpeg_round_def rd_def jpeg_marker_def jpeg_frame_def jpeg_segment_def

lemma tiny_rounds:
  "jpeg_round no_env tiny_jpeg \<lparr>jpg_shape = x, jpg_frame = False, jpg_scan = False, jpg_pos = 2\<rparr> =
     Some (Continue \<lparr>jpg_shape = tiny_shape, jpg_frame = True, jpg_scan = False, jpg_pos = 15\<rparr>)"
  "jpeg_round no_env tiny_jpeg \<lparr>jpg_shape = tiny_shape, jpg_frame = True, jpg_scan = False, jpg_pos = 15\<rparr> =
     Some (Continue \<lparr>jpg_shape = tiny_shape, jpg_frame = True, jpg_scan = True, jpg_pos = 26\<rparr>)"
  "jpeg_round no_env tiny_jpeg \<lparr>jpg_shape = tiny_shape, jpg_frame = True, jpg_scan = True, jpg_pos = 26\<rparr> =
     Some (Finish (Inr tiny_shape))"
proof -
  show "jpeg_round no_env tiny_jpeg \<lparr>jpg_shape = x, jpg_frame = False, jpg_scan = False, jpg_pos = 2\<rparr> =
      Some (Continue \<lparr>jpg_shape = tiny_shape, jpg_frame = True, jpg_scan = False, jpg_pos = 15\<rparr>)"
    unfolding round_defs
    by (simp add: tiny_fill) (simp add: tiny_jpeg_def be16_def tiny_CheckShape)
  have "length tiny_jpeg = 28" "tiny_jpeg ! 15 = 255" "tiny_jpeg ! 16 = 218" "tiny_jpeg ! 17 = 0"
    "tiny_jpeg ! 18 = 8" "tiny_jpeg ! 19 = 1" "tiny_jpeg ! 26 = 255" "tiny_jpeg ! 27 = 217"
    by (simp_all add: tiny_jpeg_def)
  then show "jpeg_round no_env tiny_jpeg \<lparr>jpg_shape = tiny_shape, jpg_frame = True, jpg_scan = False, jpg_pos = 15\<rparr> =
      Some (Continue \<lparr>jpg_shape = tiny_shape, jpg_frame = True, jpg_scan = True, jpg_pos = 26\<rparr>)"
    "jpeg_round no_env tiny_jpeg \<lparr>jpg_shape = tiny_shape, jpg_frame = True, jpg_scan = True, jpg_pos = 26\<rparr> =
      Some (Finish (Inr tiny_shape))"
    unfolding round_defs by (simp_all add: tiny_fill be16_def tiny_scan)
qed

lemma tiny_Preflight: "Preflight no_env tiny_jpeg = Some (Inr tiny_shape)"
proof -
  have l: "length tiny_jpeg = 28" and m: "take 8 tiny_jpeg \<noteq> png_magic"
    and b: "tiny_jpeg ! 0 = 255" "tiny_jpeg ! 1 = 216"
    by (simp_all add: tiny_jpeg_def png_magic_def)
  have "jpeg_loop no_env tiny_jpeg \<lparr>jpg_shape = x, jpg_frame = False, jpg_scan = False, jpg_pos = 2\<rparr> =
      Some (Inr tiny_shape)" for x
    by (subst jpeg_loop.simps, simp add: l tiny_rounds, subst jpeg_loop.simps, simp add: l tiny_rounds,
        subst jpeg_loop.simps, simp add: l tiny_rounds)
  then show ?thesis
    using tiny_encoded m b by (simp add: Preflight_def has_png_magic_def has_jpeg_magic_def rd_range_def rd_def l)
qed

theorem Preflight_within_budget_witness:
  "Preflight no_env tiny_jpeg = Some (Inr tiny_shape) \<and>
   (\<exists>p. GetPolicy no_env = Inr p \<and> 3 * (unat (2 :: 32 word) * unat (1 :: 32 word)) \<le> unat (pol_bgr p))"
  using Preflight_within_budget [of no_env tiny_jpeg] tiny_Preflight by auto

text \<open>
  A setting is read exactly: an unset variable gives the default; otherwise the value must be a
  nonempty decimal numeral of a positive number below $2^{64}$, and any other value is an exception.
\<close>

lemma Setting_exact:
  "Setting env name fallback =
     (case env name of
        None \<Rightarrow> Inr fallback
      | Some v \<Rightarrow>
          if v = [] then Inl (Runtime_error ''Empty image resource configuration'')
          else if \<not> list_all is_digit v \<or> decimal v \<ge> 2 ^ 64
          then Inl (Runtime_error ''Invalid image resource configuration'')
          else if decimal v = 0 then Inl (Runtime_error ''Zero image resource configuration'')
          else Inr (of_nat (decimal v)))"
proof -
  have "(of_nat n :: 64 word) = 0 \<longleftrightarrow> n = 0" if "n < 2 ^ 64" for n
  proof -
    have "unat (of_nat n :: 64 word) = n" using that by (simp add: unat_of_nat)
    then show ?thesis by (metis unat_eq_zero)
  qed
  then show ?thesis
    by (auto simp: Setting_def setting_loop_eq setting_value_0 split: option.split)
qed

section \<open>The permit for a concurrent job\<close>

text \<open>
  \<^verbatim>\<open>Permit::Permit\<close> loads the counter, then repeats: throw when the value it has seen is at the limit, else try to
  replace that value by its successor; a failed exchange (which may be spurious) leaves the counter's
  present value in \<^verbatim>\<open>current\<close>. \<open>Trying c\<close> is a thread in this loop, \<open>Holding\<close> one with a permit.
\<close>

datatype permit_phase = Away | Trying "64 word" | Holding

record permit_state =
  prm_active :: "64 word"
  prm_threads :: "permit_phase list"

definition permit_load :: "nat \<Rightarrow> permit_state \<Rightarrow> permit_state" where
  "permit_load i s = s\<lparr>prm_threads := (prm_threads s)[i := Trying (prm_active s)]\<rparr>"

text \<open>One round of the loop; \<open>spurious\<close> is a failure of the weak exchange without cause.\<close>

definition permit_round :: "64 word \<Rightarrow> bool \<Rightarrow> nat \<Rightarrow> 64 word \<Rightarrow> permit_state \<Rightarrow> unit result \<times> permit_state" where
  "permit_round limit spurious i current s =
     (if current \<ge> limit
      then (throw (Resource_error 503 ''Image processing is busy; retry later''),
            s\<lparr>prm_threads := (prm_threads s)[i := Away]\<rparr>)
      else if prm_active s = current \<and> \<not> spurious
      then (return (), s\<lparr>prm_active := current + 1, prm_threads := (prm_threads s)[i := Holding]\<rparr>)
      else (return (), s\<lparr>prm_threads := (prm_threads s)[i := Trying (prm_active s)]\<rparr>))"

definition permit_release :: "nat \<Rightarrow> permit_state \<Rightarrow> permit_state" where
  "permit_release i s = s\<lparr>prm_active := prm_active s - 1, prm_threads := (prm_threads s)[i := Away]\<rparr>"

inductive permit_step :: "64 word \<Rightarrow> permit_state \<Rightarrow> permit_state \<Rightarrow> bool" for limit where
  permit_load: "i < length (prm_threads s) \<Longrightarrow> prm_threads s ! i = Away \<Longrightarrow> permit_step limit s (permit_load i s)"
| permit_round: "i < length (prm_threads s) \<Longrightarrow> prm_threads s ! i = Trying current \<Longrightarrow>
    permit_step limit s (snd (permit_round limit spurious i current s))"
| permit_release: "i < length (prm_threads s) \<Longrightarrow> prm_threads s ! i = Holding \<Longrightarrow>
    permit_step limit s (permit_release i s)"

inductive permit_reachable :: "64 word \<Rightarrow> permit_state \<Rightarrow> bool" for limit where
  permit_init: "permit_reachable limit \<lparr>prm_active = 0, prm_threads = replicate n Away\<rparr>"
| permit_next: "permit_reachable limit s \<Longrightarrow> permit_step limit s s' \<Longrightarrow> permit_reachable limit s'"

definition holders :: "permit_state \<Rightarrow> nat" where
  "holders s = length (filter (\<lambda>t. t = Holding) (prm_threads s))"

lemma length_filter_update:
  "i < length xs \<Longrightarrow> length (filter P (xs[i := y])) + (if P (xs ! i) then 1 else 0) =
     length (filter P xs) + (if P y then 1 else 0)"
proof (induction xs arbitrary: i)
  case (Cons x xs)
  then show ?case by (cases i) auto
qed simp

lemma permit_step_ok:
  "permit_step limit s s' \<Longrightarrow> unat (prm_active s) = holders s \<Longrightarrow> holders s \<le> unat limit \<Longrightarrow>
     unat (prm_active s') = holders s' \<and> holders s' \<le> unat limit"
proof (induction rule: permit_step.induct)
  case (permit_load i s)
  then show ?case
    using length_filter_update [of i "prm_threads s" "\<lambda>t. t = Holding" "Trying (prm_active s)"]
    by (simp add: Image_Resource.permit_load_def holders_def)
next
  case (permit_round i s current spurious)
  note upd = length_filter_update [OF permit_round(1), of "\<lambda>t. t = Holding"]
  have c: "unat (current + 1) = unat current + 1" if "current < limit"
  proof -
    have "unat current < unat limit" using that by (simp add: word_less_nat_alt)
    moreover have "unat limit < 2 ^ 64" using unsigned_less [of limit] by simp
    ultimately show ?thesis by (simp add: unat_word_ariths)
  qed
  show ?case
    using permit_round upd [of Away] upd [of Holding] upd [of "Trying (prm_active s)"] c
    by (auto simp: Image_Resource.permit_round_def holders_def not_le word_less_nat_alt)
next
  case (permit_release i s)
  note upd = length_filter_update [OF permit_release(1), of "\<lambda>t. t = Holding" Away]
  have "holders s = Suc (length (filter (\<lambda>t. t = Holding) ((prm_threads s)[i := Away])))"
    using upd permit_release(2) by (simp add: holders_def)
  then have pos: "0 < holders s" by simp
  then have "unat (prm_active s - 1) = unat (prm_active s) - 1"
    using permit_release(3) by (metis less_irrefl unat_0 unat_minus_one)
  then show ?case
    using permit_release upd pos by (simp add: Image_Resource.permit_release_def holders_def)
qed

text \<open>
  The number of image jobs is bounded: in every interleaving of the threads' atomic operations, failed and
  spurious exchanges included, the counter equals the number of permits held and never exceeds the configured
  limit (so it neither wraps up nor below zero).
\<close>

theorem permits_bounded:
  assumes "permit_reachable limit s"
  shows "unat (prm_active s) = holders s \<and> holders s \<le> unat limit"
  using assms
proof (induction rule: permit_reachable.induct)
  case (permit_next s s')
  then show ?case using permit_step_ok by blast
qed (simp add: holders_def)

theorem permits_bounded_witness:
  "holders (snd (permit_round 1 False 0 0 (permit_load 0 \<lparr>prm_active = 0, prm_threads = [Away, Away]\<rparr>))) = 1 \<and>
   holders (snd (permit_round 1 False 0 0 (permit_load 0 \<lparr>prm_active = 0, prm_threads = [Away, Away]\<rparr>))) \<le> unat (1 :: 64 word)"
proof -
  let ?s0 = "\<lparr>prm_active = 0, prm_threads = [Away, Away]\<rparr>"
  have "permit_reachable 1 ?s0" using permit_init [of 1 2] by (simp add: numeral_2_eq_2)
  then have "permit_reachable 1 (permit_load 0 ?s0)"
    by (rule permit_next) (rule permit_step.permit_load, simp_all)
  then have "permit_reachable 1 (snd (permit_round 1 False 0 0 (permit_load 0 ?s0)))"
    by (rule permit_next) (rule permit_step.permit_round, simp_all add: Image_Resource.permit_load_def)
  from permits_bounded [OF this] show ?thesis
    by (simp add: holders_def Image_Resource.permit_load_def Image_Resource.permit_round_def)
qed

end
