(* ===== verification/Cpp_Double.thy ===== *)
theory Cpp_Double
  imports Complex_Main "HOL-Library.Log_Nat"
begin

text \<open>
  The arithmetic of \<^verbatim>\<open>double\<close>, as far as the image recognizer uses it. A finite double is the rational number it
  stands for; an operation is the exact operation followed by \<open>fl\<close>, which rounds to 53 significant bits, ties to
  even. The exponent is not bounded: in the code no product or quotient leaves the range of normal numbers,
  and a sum or difference of doubles that is smaller than every normal number is exact in both.
\<close>

text \<open>The exponent of the binade a positive number lies in.\<close>

definition binade :: "rat \<Rightarrow> int" where
  "binade x = (if 1 \<le> x then bitlen \<lfloor>x\<rfloor> - 1 else - bitlen (\<lceil>1 / x\<rceil> - 1))"

text \<open>The nearest integer, the even one of two.\<close>

definition nearest_even :: "rat \<Rightarrow> int" where
  "nearest_even z =
     (let n = \<lfloor>z\<rfloor>; d = z - of_int n
      in if d < 1 / 2 then n else if 1 / 2 < d then n + 1 else if even n then n else n + 1)"

text \<open>The distance of neighbouring doubles in the binade of a positive number.\<close>

definition ulp :: "rat \<Rightarrow> rat" where
  "ulp x = 2 powi (binade x - 52)"

definition fl :: "rat \<Rightarrow> rat" where
  "fl x = (if x = 0 then 0 else of_int (nearest_even (x / ulp \<bar>x\<bar>)) * ulp \<bar>x\<bar>)"

text \<open>\<^verbatim>\<open>std::round\<close>, halves away from zero.\<close>

definition cpp_round :: "rat \<Rightarrow> int" where
  "cpp_round x = (if 0 \<le> x then \<lfloor>x + 1 / 2\<rfloor> else - \<lfloor>- x + 1 / 2\<rfloor>)"

section \<open>Facts\<close>

lemma binade_bounds:
  assumes "0 < x"
  shows "2 powi binade x \<le> x" "x < 2 powi (binade x + 1)"
proof -
  have "2 powi binade x \<le> x \<and> x < 2 powi (binade x + 1)"
  proof (cases "1 \<le> x")
    case True
    then have f: "0 < \<lfloor>x\<rfloor>" by simp
    then have b: "2 ^ nat (bitlen \<lfloor>x\<rfloor> - 1) \<le> \<lfloor>x\<rfloor>" "\<lfloor>x\<rfloor> < 2 ^ nat (bitlen \<lfloor>x\<rfloor>)" "1 \<le> bitlen \<lfloor>x\<rfloor>"
      using bitlen_bounds [OF f] bitlen_eq_zero_iff [of "\<lfloor>x\<rfloor>"] bitlen_nonneg [of "\<lfloor>x\<rfloor>"] by auto
    have "of_int (2 ^ nat (bitlen \<lfloor>x\<rfloor> - 1)) \<le> x" using b(1) by (simp only: le_floor_iff)
    moreover have "x < of_int (2 ^ nat (bitlen \<lfloor>x\<rfloor>))" using b(2) by (simp only: floor_less_iff)
    ultimately show ?thesis using True b(3) by (simp add: binade_def power_int_def)
  next
    case False
    let ?y = "1 / x" let ?n = "\<lceil>?y\<rceil> - 1" let ?b = "bitlen ?n"
    have y: "1 < ?y" using False assms by simp
    then have n: "0 < ?n" "of_int ?n < ?y" "?y \<le> of_int ?n + 1" by linarith+
    have b: "2 ^ nat (?b - 1) \<le> ?n" "?n < 2 ^ nat ?b" "1 \<le> ?b"
      using bitlen_bounds [OF n(1)] bitlen_eq_zero_iff [of ?n] bitlen_nonneg [of ?n] n(1) by auto
    have "(of_int (2 ^ nat (?b - 1)) :: rat) \<le> of_int ?n" using b(1) by (simp only: of_int_le_iff)
    with n(2) have lo: "2 ^ nat (?b - 1) < ?y" by simp
    have "\<lceil>?y\<rceil> \<le> 2 ^ nat ?b" using b(2) by linarith
    then have "?y \<le> of_int (2 ^ nat ?b)" by (simp only: ceiling_le_iff)
    then have hi: "?y \<le> 2 ^ nat ?b" by simp
    have "x < 1 / 2 ^ nat (?b - 1)" using lo assms by (simp add: field_simps)
    moreover have "1 / 2 ^ nat ?b \<le> x" using hi assms by (simp add: field_simps)
    moreover have "(2 :: rat) powi (- ?b) = 1 / 2 ^ nat ?b" using b(3) by (auto simp: power_int_def field_simps)
    moreover have "(2 :: rat) powi (- ?b + 1) = 1 / 2 ^ nat (?b - 1)"
      using b(3) power_int_minus_divide [of "2 :: rat" "?b - 1"] by (simp add: power_int_nonneg_exp)
    ultimately show ?thesis using False by (simp add: binade_def)
  qed
  then show "2 powi binade x \<le> x" "x < 2 powi (binade x + 1)" by auto
qed

lemma nearest_even_error: "\<bar>of_int (nearest_even z) - z\<bar> \<le> 1 / 2"
proof -
  have "0 \<le> z - of_int \<lfloor>z\<rfloor>" "z - of_int \<lfloor>z\<rfloor> < 1" by linarith+
  then show ?thesis by (auto simp: nearest_even_def Let_def abs_le_iff)
qed

lemma nearest_even_ge: "of_int n \<le> z \<Longrightarrow> n \<le> nearest_even z"
  by (simp add: nearest_even_def Let_def) linarith

lemma nearest_even_le:
  assumes "z \<le> of_int n"
  shows "nearest_even z \<le> n"
proof (cases "\<lfloor>z\<rfloor> = n")
  case True
  with assms have "z = of_int n" by linarith
  then show ?thesis by (simp add: nearest_even_def)
next
  case False
  with assms have "\<lfloor>z\<rfloor> + 1 \<le> n" by linarith
  then show ?thesis by (simp add: nearest_even_def Let_def)
qed

lemma ulp_facts:
  assumes "0 < x"
  shows "0 < ulp x" "2 ^ 52 * ulp x = 2 powi binade x" "2 ^ 53 * ulp x = 2 powi (binade x + 1)"
    "fl x = of_int (nearest_even (x / ulp x)) * ulp x" "2 ^ 52 * ulp x \<le> x" "x \<le> 2 ^ 53 * ulp x"
proof -
  have e: "(2 :: rat) powi (n + k) = 2 powi n * 2 powi k" for n k :: int by (rule power_int_add) simp
  show "0 < ulp x" by (simp add: ulp_def)
  show lo: "2 ^ 52 * ulp x = 2 powi binade x" using e [of 52 "binade x - 52"] by (simp add: ulp_def)
  show hi: "2 ^ 53 * ulp x = 2 powi (binade x + 1)" using e [of 53 "binade x - 52"] by (simp add: ulp_def add.commute)
  show "fl x = of_int (nearest_even (x / ulp x)) * ulp x" using assms by (simp add: fl_def)
  show "2 ^ 52 * ulp x \<le> x" "x \<le> 2 ^ 53 * ulp x" using binade_bounds [OF assms] unfolding lo hi by simp_all
qed

text \<open>The relative error of an operation.\<close>

lemma fl_error: "0 < x \<Longrightarrow> \<bar>fl x - x\<bar> \<le> x / 2 ^ 53"
proof -
  assume x: "0 < x"
  note u = ulp_facts [OF x]
  have "fl x - x = (of_int (nearest_even (x / ulp x)) - x / ulp x) * ulp x"
    using u(1) by (simp add: u(4) algebra_simps)
  then have "\<bar>fl x - x\<bar> = \<bar>of_int (nearest_even (x / ulp x)) - x / ulp x\<bar> * ulp x"
    using u(1) by (simp add: abs_mult)
  also have "\<dots> \<le> 1 / 2 * ulp x" by (intro mult_right_mono nearest_even_error) (use u(1) in simp)
  also have "\<dots> \<le> x / 2 ^ 53" using u(5) by simp
  finally show ?thesis .
qed

text \<open>Rounding stays within the binade.\<close>

lemma fl_binade:
  assumes "0 < x"
  shows "2 powi binade x \<le> fl x" "fl x \<le> 2 powi (binade x + 1)"
proof -
  note u = ulp_facts [OF assms]
  have "of_int (2 ^ 52) \<le> x / ulp x" using u(1,5) by (simp add: field_simps)
  then have "2 ^ 52 \<le> nearest_even (x / ulp x)" by (rule nearest_even_ge)
  then have "(of_int (2 ^ 52) :: rat) \<le> of_int (nearest_even (x / ulp x))" by (simp only: of_int_le_iff)
  then have "(2 :: rat) ^ 52 * ulp x \<le> of_int (nearest_even (x / ulp x)) * ulp x"
    by (intro mult_right_mono) (use u(1) in simp_all)
  then show "2 powi binade x \<le> fl x" by (simp only: u(2,4))
  have "x / ulp x \<le> of_int (2 ^ 53)" using u(1,6) by (simp add: field_simps)
  then have "nearest_even (x / ulp x) \<le> 2 ^ 53" by (rule nearest_even_le)
  then have "(of_int (nearest_even (x / ulp x)) :: rat) \<le> of_int (2 ^ 53)" by (simp only: of_int_le_iff)
  then have "of_int (nearest_even (x / ulp x)) * ulp x \<le> (2 :: rat) ^ 53 * ulp x"
    by (intro mult_right_mono) (use u(1) in simp_all)
  then show "fl x \<le> 2 powi (binade x + 1)" by (simp only: u(3,4))
qed

lemma powi_less: "(2 :: rat) powi m < 2 powi n \<Longrightarrow> m < n"
  using power_int_increasing [of n m "2 :: rat"] by (cases "n \<le> m") simp_all

lemma fl_ge_1:
  assumes "1 \<le> x"
  shows "1 \<le> fl x"
proof -
  have "(2 :: rat) powi 0 < 2 powi (binade x + 1)" using binade_bounds(2) [of x] assms by simp
  then have "0 < binade x + 1" by (rule powi_less)
  then have "(2 :: rat) powi 0 \<le> 2 powi binade x" by (intro power_int_increasing) simp_all
  then show ?thesis using fl_binade(1) [of x] assms by simp
qed

lemma fl_1 [simp]: "fl 1 = 1"
  by code_simp

text \<open>Integers of up to 53 bits are doubles.\<close>

lemma nearest_even_of_int [simp]: "nearest_even (of_int n) = n"
  by (simp add: nearest_even_def)

lemma fl_of_int:
  assumes "0 < n" "n < 2 ^ 53"
  shows "fl (of_int n) = of_int n"
proof -
  let ?x = "of_int n :: rat"
  have x: "0 < ?x" using assms by simp
  note u = ulp_facts [OF x]
  have "?x < of_int (2 ^ 53)" using assms(2) by (simp only: of_int_less_iff)
  then have "(2 :: rat) powi binade ?x < 2 powi 53" using binade_bounds(1) [OF x] by simp
  then have "binade ?x < 53" by (rule powi_less)
  then have q: "?x / ulp ?x = of_int (n * 2 ^ nat (52 - binade ?x))"
    using power_int_minus_divide [of "2 :: rat" "52 - binade ?x"] by (simp add: ulp_def power_int_nonneg_exp)
  have "fl ?x = ?x / ulp ?x * ulp ?x" unfolding u(4) q by (simp only: nearest_even_of_int)
  then show ?thesis using u(1) by simp
qed

lemma fl_0 [simp]: "fl 0 = 0"
  by (simp add: fl_def)

lemma fl_pos: "0 < x \<Longrightarrow> 0 < fl x"
  using fl_binade(1) [of x] zero_less_power_int [of "2 :: rat" "binade x"] by linarith

lemma fl_le_1:
  assumes "0 < x" "x \<le> 1"
  shows "fl x \<le> 1"
proof (cases "x = 1")
  case False
  have "(2 :: rat) powi binade x < 2 powi 0" using binade_bounds(1) [of x] assms False by simp
  then have "binade x < 0" by (rule powi_less)
  then have "(2 :: rat) powi (binade x + 1) \<le> 2 powi 0" by (intro power_int_increasing) simp_all
  then show ?thesis using fl_binade(2) [of x] assms by simp
qed simp

end
