(* ===== verification/Image_Predict.thy ===== *)
theory Image_Predict
  imports Image_Resource Cpp_Double
begin

text \<open>
  \<^verbatim>\<open>ImageRecognizer::PredictMatGuarded\<close> of \<^verbatim>\<open>AIApps/ChatServer/src/AIUtil/ImageRecognizer.cpp\<close> after its checks: the size an image is scaled to, the
  square cut out of its middle, the normalisation, and the label and confidence read off the output of the model.
  OpenCV, ONNX Runtime and \<^verbatim>\<open>std::exp\<close> are the record \<open>vision_lib\<close>; a matrix is its shape and its elements. Every operation
  on doubles rounds (\<open>fl\<close>).

  The lemmas show that the square lies inside the scaled image and that the scaled image is within its budget, for every
  shape and in spite of rounding, that the label is the one of the first largest output, and that the confidence is
  a positive number of at most one.
\<close>

section \<open>Matrices, tensors and the libraries\<close>

text \<open>
  \<^verbatim>\<open>cols\<close> and \<^verbatim>\<open>rows\<close> are signed 32 bit numbers. The type of an element is its depth, of which only \<^verbatim>\<open>CV_8U\<close> matters, and the number of
  channels.
\<close>

record cv_mat =
  mat_cols :: "32 word"
  mat_rows :: "32 word"
  mat_dims :: int
  mat_8u :: bool
  mat_channels :: nat
  mat_data :: "rat list"

record cv_rect =
  rect_x :: int
  rect_y :: int
  rect_width :: int
  rect_height :: int

record tensor_info =
  ti_tensor :: bool
  ti_float :: bool
  ti_shape :: "int list"

text \<open>The elements of an output; \<open>None\<close> is an infinity or not a number.\<close>

record tensor =
  td_info :: tensor_info
  td_data :: "rat option list"

record model_info =
  mi_inputs :: "tensor_info list"
  mi_outputs :: "tensor_info list"

text \<open>
  Opening a model file, reading a text file, decoding an image, the steps of
  the preprocessing, running a model, the exponential function, and a double as a JSON value. The decoder
  is the one operation that is trusted with nothing: on bytes it cannot cope with it may break down
  (\<open>None\<close>), throw, or return an empty matrix (\<open>Some (Inr None)\<close>); so a call of it shows in what the caller does.
\<close>

record 'j vision_lib =
  vl_session :: "string \<Rightarrow> model_info result"
  vl_file :: "string \<Rightarrow> string option"
  vl_imdecode :: "8 word list \<Rightarrow> cv_mat option checked"
  vl_cvtColor :: "cv_mat \<Rightarrow> cv_mat result"
  vl_resize :: "cv_mat \<Rightarrow> int \<Rightarrow> int \<Rightarrow> cv_mat result"
  vl_roi :: "cv_mat \<Rightarrow> cv_rect \<Rightarrow> cv_mat result"
  vl_convertTo :: "cv_mat \<Rightarrow> rat \<Rightarrow> cv_mat result"
  vl_split :: "cv_mat \<Rightarrow> cv_mat list result"
  vl_subtract :: "cv_mat \<Rightarrow> rat \<Rightarrow> cv_mat result"
  vl_divide :: "cv_mat \<Rightarrow> rat \<Rightarrow> cv_mat result"
  vl_merge :: "cv_mat list \<Rightarrow> cv_mat result"
  vl_blobFromImage :: "cv_mat \<Rightarrow> cv_mat result"
  vl_run :: "string \<Rightarrow> cv_mat \<Rightarrow> tensor list result"
  vl_exp :: "rat \<Rightarrow> rat"
  vl_double :: "rat \<Rightarrow> 'j"

definition element_count :: "int list \<Rightarrow> int" where
  "element_count dims = prod_list dims"

section \<open>Preprocessing\<close>

definition input_size :: int where "input_size = 224"
definition max_resized_pixels :: rat where "max_resized_pixels = 16 * 1024 * 1024"

text \<open>The size the image is scaled to, for positive \<open>cols\<close> and \<open>rows\<close>: \<^verbatim>\<open>CheckShape\<close> comes first.\<close>

definition resized_size :: "int \<Rightarrow> int \<Rightarrow> (int \<times> int) result" where
  "resized_size cols rows =
     (let scale = fl (256 / of_int (min rows cols));
          resized_width = cpp_round (fl (of_int cols * scale));
          resized_height = cpp_round (fl (of_int rows * scale))
      in if resized_width > int int_max \<or> resized_height > int int_max
         then throw (Runtime_error ''Image dimensions are too large for preprocessing'')
         else if of_int resized_width > fl (max_resized_pixels / of_int resized_height)
         then throw (Runtime_error ''Image preprocessing exceeds the resized pixel resource budget'')
         else return (resized_width, resized_height))"

definition center :: "cv_mat \<Rightarrow> cv_rect" where
  "center resized =
     \<lparr>rect_x = sint (mat_cols resized) div 2 - input_size div 2, rect_y = sint (mat_rows resized) div 2 - input_size div 2,
      rect_width = input_size, rect_height = input_size\<rparr>"

text \<open>The constants of the three channels.\<close>

definition channel_constants :: "(rat \<times> rat) list" where
  "channel_constants =
     [(fl (485 / 1000), fl (229 / 1000)), (fl (456 / 1000), fl (224 / 1000)), (fl (406 / 1000), fl (225 / 1000))]"

fun normalize_loop :: "'j vision_lib \<Rightarrow> (rat \<times> rat) list \<Rightarrow> nat \<Rightarrow> cv_mat list \<Rightarrow> cv_mat list checked" where
  "normalize_loop vl [] channel channels = Some (return channels)"
| "normalize_loop vl ((mean, stddev) # rest) channel channels =
     (if channel < length channels
      then bind_checked (Some (bind_result (vl_subtract vl (channels ! channel) mean) (\<lambda>m. vl_divide vl m stddev))) (\<lambda>m.
             normalize_loop vl rest (Suc channel) (channels[channel := m]))
      else None)"

definition preprocess :: "'j vision_lib \<Rightarrow> cv_mat \<Rightarrow> cv_mat checked" where
  "preprocess vl img_raw =
     bind_checked (Some (resized_size (sint (mat_cols img_raw)) (sint (mat_rows img_raw)))) (\<lambda>(width, height).
     bind_checked (Some (vl_cvtColor vl img_raw)) (\<lambda>rgb.
     bind_checked (Some (vl_resize vl rgb width height)) (\<lambda>resized.
     bind_checked (Some (vl_roi vl resized (center resized))) (\<lambda>cropped.
     bind_checked (Some (vl_convertTo vl cropped (fl (1 / 255)))) (\<lambda>normalized.
     bind_checked (Some (vl_split vl normalized)) (\<lambda>channels.
     bind_checked (normalize_loop vl channel_constants 0 channels) (\<lambda>channels1.
     bind_checked (Some (vl_merge vl channels1)) (\<lambda>merged. Some (vl_blobFromImage vl merged)))))))))"

section \<open>Reading the output\<close>

text \<open>\<^verbatim>\<open>std::max_element\<close>, as an index: the first of the largest elements.\<close>

fun max_loop :: "rat \<Rightarrow> nat \<Rightarrow> nat \<Rightarrow> rat list \<Rightarrow> nat" where
  "max_loop largest best i [] = best"
| "max_loop largest best i (x # xs) =
     (if largest < x then max_loop x i (Suc i) xs else max_loop largest best (Suc i) xs)"

definition max_element :: "rat list \<Rightarrow> nat" where
  "max_element xs = (case xs of [] \<Rightarrow> 0 | x # rest \<Rightarrow> max_loop x 0 1 rest)"

fun denominator_loop :: "(rat \<Rightarrow> rat) \<Rightarrow> rat \<Rightarrow> rat \<Rightarrow> rat list \<Rightarrow> rat" where
  "denominator_loop e best denominator [] = denominator"
| "denominator_loop e best denominator (l # ls) = denominator_loop e best (fl (denominator + e (fl (l - best)))) ls"

definition classify :: "'j vision_lib \<Rightarrow> string list \<Rightarrow> tensor list \<Rightarrow> (string \<times> rat) checked" where
  "classify vl labels outputs =
     (case outputs of
        [t] \<Rightarrow>
          if \<not> ti_tensor (td_info t) then Some (throw (Runtime_error ''Image model returned an invalid output tensor''))
          else
            let count = element_count (ti_shape (td_info t))
            in if \<not> ti_float (td_info t) \<or> ti_shape (td_info t) \<noteq> [1, 1000] \<or> count \<noteq> int (length labels)
               then Some (throw (Runtime_error ''Image output shape or label count does not match model contract''))
               else if length (td_data t) < nat count then None
               else
                 let values = take (nat count) (td_data t)
                 in if list_ex (\<lambda>v. v = None) values
                    then Some (throw (Runtime_error ''Image model returned non-finite logits''))
                    else
                      let logits = map the values; best = max_element logits
                      in if length logits \<le> best \<or> length labels \<le> best then None
                         else Some (return (labels ! best, fl (1 / denominator_loop (vl_exp vl) (logits ! best) 0 logits)))
      | _ \<Rightarrow> Some (throw (Runtime_error ''Image model returned an invalid output tensor'')))"

section \<open>The scaled image\<close>

lemma two_errors:
  fixes p q :: rat
  assumes "\<bar>p - 256\<bar> \<le> 256 / 2 ^ 53" "\<bar>q - p\<bar> \<le> p / 2 ^ 53"
  shows "256 - 1 / 2 < q" "q < 256 + 1 / 2"
  using abs_le_D1 [OF assms(1)] abs_le_D2 [OF assms(1)] abs_le_D1 [OF assms(2)] abs_le_D2 [OF assms(2)] by simp_all

lemma error_below:
  fixes p q :: rat
  assumes "256 - 256 / 2 ^ 53 \<le> p" "\<bar>q - p\<bar> \<le> p / 2 ^ 53"
  shows "256 - 1 / 2 < q"
  using assms(1) abs_le_D2 [OF assms(2)] by simp

lemma scaled_sides:
  fixes m x :: rat
  assumes "0 < m" "m \<le> x"
  shows "256 - 1 / 2 < fl (m * fl (256 / m))" "fl (m * fl (256 / m)) < 256 + 1 / 2" "256 - 1 / 2 < fl (x * fl (256 / m))"
proof -
  let ?s = "fl (256 / m)"
  have s: "\<bar>?s - 256 / m\<bar> \<le> 256 / m / 2 ^ 53" using fl_error [of "256 / m"] assms by simp
  have s0: "0 < ?s" using fl_pos [of "256 / m"] assms by simp
  have "\<bar>m * ?s - 256\<bar> = m * \<bar>?s - 256 / m\<bar>"
    using assms by (simp add: abs_mult_pos' right_diff_distrib)
  also have "\<dots> \<le> m * (256 / m / 2 ^ 53)" by (rule mult_left_mono [OF s]) (use assms in simp)
  also have "\<dots> = 256 / 2 ^ 53" using assms by simp
  finally have p: "\<bar>m * ?s - 256\<bar> \<le> 256 / 2 ^ 53" .
  have "\<bar>fl (m * ?s) - m * ?s\<bar> \<le> m * ?s / 2 ^ 53" using fl_error [of "m * ?s"] assms s0 by simp
  with p show "256 - 1 / 2 < fl (m * ?s)" "fl (m * ?s) < 256 + 1 / 2" by (rule two_errors)+
  have "m * ?s \<le> x * ?s" using assms s0 by simp
  then have "256 - 256 / 2 ^ 53 \<le> x * ?s" using abs_le_D2 [OF p] by simp
  moreover have "\<bar>fl (x * ?s) - x * ?s\<bar> \<le> x * ?s / 2 ^ 53" using fl_error [of "x * ?s"] assms s0 by simp
  ultimately show "256 - 1 / 2 < fl (x * ?s)" by (rule error_below)
qed

lemma round_near: "of_int n - 1 / 2 < x \<Longrightarrow> x < of_int n + 1 / 2 \<Longrightarrow> 0 < n \<Longrightarrow> cpp_round x = n"
  by (auto simp: cpp_round_def floor_eq_iff)

lemma round_above: "of_int n - 1 / 2 < x \<Longrightarrow> 0 < n \<Longrightarrow> n \<le> cpp_round x"
  by (auto simp: cpp_round_def le_floor_iff)

text \<open>The division in the budget check is rounded, but the budget is kept exactly.\<close>

lemma budget_exact:
  assumes "256 \<le> w" "256 \<le> h" "min w h = (256 :: int)" "of_int w \<le> fl (max_resized_pixels / of_int h)"
  shows "w * h \<le> 2 ^ 24"
proof -
  let ?q = "max_resized_pixels / of_int h"
  have h: "0 < (of_int h :: rat)" using assms(2) by simp
  have "0 < ?q" using h by (simp add: max_resized_pixels_def)
  from fl_error [OF this] have "fl ?q \<le> ?q + ?q / 2 ^ 53" by linarith
  with assms(4) have "of_int w * of_int h \<le> (?q + ?q / 2 ^ 53) * of_int h" by (intro mult_right_mono) (use h in simp_all)
  also have "\<dots> = 2 ^ 24 + 1 / 2 ^ 29" using h by (simp add: field_simps max_resized_pixels_def)
  also have "\<dots> < of_int (2 ^ 24 + 1)" by simp
  finally have "of_int (w * h) < (of_int (2 ^ 24 + 1) :: rat)" by simp
  then have "w * h < 2 ^ 24 + 1" by (simp only: of_int_less_iff)
  then show ?thesis by simp
qed

lemma resized_size_Inr:
  assumes "0 < cols" "0 < rows" "resized_size cols rows = Inr (w, h)"
  shows "min w h = 256 \<and> w * h \<le> 2 ^ 24"
proof -
  let ?m = "of_int (min rows cols) :: rat" let ?s = "fl (256 / ?m)"
  have m: "0 < ?m" "?m \<le> of_int cols" "?m \<le> of_int rows" using assms by simp_all
  have s: "w = cpp_round (fl (of_int cols * ?s))" "h = cpp_round (fl (of_int rows * ?s))"
    "of_int w \<le> fl (max_resized_pixels / of_int h)"
    using assms(3) by (auto simp: resized_size_def Let_def split: if_splits)
  have short: "cpp_round (fl (?m * ?s)) = 256"
    using scaled_sides(1,2) [OF m(1) order_refl] by (intro round_near) simp_all
  have wh: "256 \<le> w" "256 \<le> h"
    using scaled_sides(3) [OF m(1,2)] scaled_sides(3) [OF m(1,3)] unfolding s(1,2) by (auto intro!: round_above)
  have "w = 256 \<or> h = 256" using short s by (auto simp: min_def split: if_splits)
  with wh have "min w h = 256" by auto
  with budget_exact [OF wh this s(3)] show ?thesis by simp
qed

definition inside :: "cv_rect \<Rightarrow> int \<Rightarrow> int \<Rightarrow> bool" where
  "inside r w h \<longleftrightarrow> 0 \<le> rect_x r \<and> 0 \<le> rect_y r \<and> rect_x r + rect_width r \<le> w \<and> rect_y r + rect_height r \<le> h"

lemma center_inside:
  "min w h = 256 \<Longrightarrow> sint (mat_cols m) = w \<Longrightarrow> sint (mat_rows m) = h \<Longrightarrow> inside (center m) w h"
  by (auto simp: inside_def center_def input_size_def min_def split: if_splits)

section \<open>Label and confidence\<close>

lemma max_loop_first:
  "best < length pre \<Longrightarrow> pre ! best = largest \<Longrightarrow> \<forall>j<length pre. pre ! j \<le> largest \<Longrightarrow> \<forall>j<best. pre ! j < largest \<Longrightarrow>
   k = max_loop largest best (length pre) xs \<Longrightarrow>
   k < length (pre @ xs) \<and> (\<forall>j<length (pre @ xs). (pre @ xs) ! j \<le> (pre @ xs) ! k) \<and> (\<forall>j<k. (pre @ xs) ! j < (pre @ xs) ! k)"
proof (induction xs arbitrary: pre best largest)
  case (Cons x xs)
  have lt: "\<forall>j<length (pre @ [x]). (pre @ [x]) ! j \<le> max largest x"
    using Cons.prems(3) by (auto simp: nth_append max_def less_Suc_eq intro: order_trans)
  show ?case
  proof (cases "largest < x")
    case True
    have "\<forall>j<length pre. (pre @ [x]) ! j < x" using Cons.prems(3) True by (force simp: nth_append)
    with Cons.IH [of "length pre" "pre @ [x]" x] Cons.prems(5) True lt show ?thesis by (simp add: max_def)
  next
    case False
    with Cons.IH [of best "pre @ [x]" largest] Cons.prems lt show ?thesis by (simp add: nth_append max_def not_less)
  qed
qed (auto simp: nth_append)

lemma max_element_first:
  assumes "xs \<noteq> []"
  shows "max_element xs < length xs" "\<forall>j<length xs. xs ! j \<le> xs ! max_element xs" "\<forall>j<max_element xs. xs ! j < xs ! max_element xs"
proof -
  obtain x rest where xs: "xs = x # rest" using assms by (cases xs) auto
  from max_loop_first [of 0 "[x]" x "max_element xs" rest]
  show "max_element xs < length xs" "\<forall>j<length xs. xs ! j \<le> xs ! max_element xs" "\<forall>j<max_element xs. xs ! j < xs ! max_element xs"
    by (auto simp: xs max_element_def)
qed

text \<open>
  What is relied on of the libraries, as they document it: \<^verbatim>\<open>exp(0)\<close> is one and \<^verbatim>\<open>exp\<close> never negative; a scaled matrix has
  the requested size; converting to RGB gives three channels, scaling, cutting and converting elements keep the channels, and there is one
  matrix per channel; a tensor has as many elements as its shape says.
\<close>

definition exp_ok :: "(rat \<Rightarrow> rat) \<Rightarrow> bool" where
  "exp_ok e \<longleftrightarrow> e 0 = 1 \<and> (\<forall>x. 0 \<le> e x)"

definition vision_ok :: "'j vision_lib \<Rightarrow> bool" where
  "vision_ok vl \<longleftrightarrow> exp_ok (vl_exp vl) \<and>
     (\<forall>m m'. vl_cvtColor vl m = Inr m' \<longrightarrow> mat_channels m' = 3) \<and>
     (\<forall>m w h m'. vl_resize vl m w h = Inr m' \<longrightarrow>
        sint (mat_cols m') = w \<and> sint (mat_rows m') = h \<and> mat_channels m' = mat_channels m) \<and>
     (\<forall>m r m'. vl_roi vl m r = Inr m' \<longrightarrow> mat_channels m' = mat_channels m) \<and>
     (\<forall>m x m'. vl_convertTo vl m x = Inr m' \<longrightarrow> mat_channels m' = mat_channels m) \<and>
     (\<forall>m ms. vl_split vl m = Inr ms \<longrightarrow> length ms = mat_channels m) \<and>
     (\<forall>path m ts t. vl_run vl path m = Inr ts \<and> t \<in> set ts \<and> ti_tensor (td_info t) \<longrightarrow>
        int (length (td_data t)) = element_count (ti_shape (td_info t)))"

lemma denominator_loop_grows:
  "exp_ok e \<Longrightarrow> 1 \<le> d \<Longrightarrow> 1 \<le> denominator_loop e best d ls"
proof (induction ls arbitrary: d)
  case (Cons l ls)
  have "1 \<le> d + e (fl (l - best))" using Cons.prems by (simp add: exp_ok_def add_increasing2)
  with Cons show ?case by (simp add: fl_ge_1)
qed simp

lemma fl_nonneg: "0 \<le> x \<Longrightarrow> 0 \<le> fl x"
  using fl_pos [of x] by (cases "x = 0") auto

lemma denominator_ge_1: "exp_ok e \<Longrightarrow> 0 \<le> d \<Longrightarrow> best \<in> set ls \<Longrightarrow> 1 \<le> denominator_loop e best d ls"
proof (induction ls arbitrary: d)
  case (Cons l ls)
  show ?case
  proof (cases "l = best")
    case True
    have "1 \<le> fl (d + e 0)" using Cons.prems by (intro fl_ge_1) (simp add: exp_ok_def)
    with True denominator_loop_grows [OF Cons.prems(1) this] show ?thesis by simp
  next
    case False
    have "0 \<le> fl (d + e (fl (l - best)))" using Cons.prems by (intro fl_nonneg) (simp add: exp_ok_def)
    with Cons False show ?thesis by simp
  qed
qed simp

text \<open>The first largest output decides the label; no read is outside its array.\<close>

definition classified :: "string list \<Rightarrow> rat list \<Rightarrow> string \<Rightarrow> rat \<Rightarrow> bool" where
  "classified labels logits label confidence \<longleftrightarrow> length labels = 1000 \<and> length logits = 1000 \<and>
     (\<exists>k<1000. label = labels ! k \<and> (\<forall>j<1000. logits ! j \<le> logits ! k) \<and> (\<forall>j<k. logits ! j < logits ! k)) \<and>
     0 < confidence \<and> confidence \<le> 1"

lemma classify_logits:
  assumes e: "exp_ok (vl_exp vl)" and l: "length labels = 1000" "length logits = 1000"
  shows "classified labels logits (labels ! max_element logits)
    (fl (1 / denominator_loop (vl_exp vl) (logits ! max_element logits) 0 logits))" "max_element logits < 1000"
proof -
  have ne: "logits \<noteq> []" using l by auto
  note m = max_element_first [OF ne]
  show k: "max_element logits < 1000" using m(1) l by simp
  have "1 \<le> denominator_loop (vl_exp vl) (logits ! max_element logits) 0 logits"
    by (rule denominator_ge_1 [OF e]) (use m(1) in simp_all)
  then have "0 < 1 / denominator_loop (vl_exp vl) (logits ! max_element logits) 0 logits"
    "1 / denominator_loop (vl_exp vl) (logits ! max_element logits) 0 logits \<le> 1" by simp_all
  then show "classified labels logits (labels ! max_element logits)
      (fl (1 / denominator_loop (vl_exp vl) (logits ! max_element logits) 0 logits))"
    using fl_pos fl_le_1 m k l by (auto simp: classified_def)
qed

lemma classify_cases:
  assumes "exp_ok (vl_exp vl)"
    and "\<And>t. outputs = [t] \<Longrightarrow> ti_tensor (td_info t) \<Longrightarrow> int (length (td_data t)) = element_count (ti_shape (td_info t))"
  shows "classify vl labels outputs \<noteq> None"
    and "classify vl labels outputs = Some (Inr (label, confidence)) \<Longrightarrow>
      \<exists>t logits. outputs = [t] \<and> td_data t = map Some logits \<and> classified labels logits label confidence"
proof -
  have "classify vl labels outputs \<noteq> None \<and> (\<forall>label confidence. classify vl labels outputs = Some (Inr (label, confidence)) \<longrightarrow>
      (\<exists>t logits. outputs = [t] \<and> td_data t = map Some logits \<and> classified labels logits label confidence))"
  proof (cases "\<exists>t logits. outputs = [t] \<and> ti_tensor (td_info t) \<and> ti_float (td_info t) \<and> ti_shape (td_info t) = [1, 1000] \<and>
      length labels = 1000 \<and> td_data t = map Some logits")
    case True
    then obtain t logits where t: "outputs = [t]" "ti_tensor (td_info t)" "ti_float (td_info t)" "ti_shape (td_info t) = [1, 1000]"
      "length labels = 1000" "td_data t = map Some logits" by blast
    have "length logits = 1000" using assms(2) [OF t(1,2)] t(4,6) by (simp add: element_count_def)
    with classify_logits [OF assms(1) t(5) this] t show ?thesis
      by (simp add: classify_def Let_def element_count_def list_ex_iff comp_def)
  next
    case False
    have "\<exists>logits. xs = map Some logits" if "\<not> list_ex (\<lambda>v. v = None) xs" for xs :: "rat option list"
    proof -
      have "xs = map Some (map the xs)" using that by (induction xs) (auto simp: list_ex_iff)
      then show ?thesis by blast
    qed
    with False assms(2) show ?thesis
      by (auto simp: classify_def Let_def element_count_def split: list.splits) blast
  qed
  then show "classify vl labels outputs \<noteq> None" "classify vl labels outputs = Some (Inr (label, confidence)) \<Longrightarrow>
      \<exists>t logits. outputs = [t] \<and> td_data t = map Some logits \<and> classified labels logits label confidence" by blast+
qed

lemma normalize_defined: "length channels = 3 \<Longrightarrow> normalize_loop vl channel_constants 0 channels \<noteq> None"
  by (auto simp: channel_constants_def bind_checked_None)

lemma preprocess_cases:
  assumes ok: "vision_ok vl" and img: "0 < sint (mat_cols img)" "0 < sint (mat_rows img)"
  shows "preprocess vl img \<noteq> None"
    and "preprocess vl img = Some (Inr blob) \<Longrightarrow>
      \<exists>w h rgb resized cropped. resized_size (sint (mat_cols img)) (sint (mat_rows img)) = Inr (w, h) \<and> min w h = 256 \<and>
        w * h \<le> 2 ^ 24 \<and> vl_resize vl rgb w h = Inr resized \<and> vl_roi vl resized (center resized) = Inr cropped \<and>
        inside (center resized) w h"
proof -
  show "preprocess vl img \<noteq> None"
  proof
    assume "preprocess vl img = None"
    then obtain w h rgb resized cropped normalized channels where r:
      "vl_cvtColor vl img = Inr rgb" "vl_resize vl rgb w h = Inr resized" "vl_roi vl resized (center resized) = Inr cropped"
      "vl_convertTo vl cropped (fl (1 / 255)) = Inr normalized" "vl_split vl normalized = Inr channels"
      "normalize_loop vl channel_constants 0 channels = None"
      by (auto simp: preprocess_def bind_checked_None)
    from ok r(5) have "length channels = mat_channels normalized" by (simp add: vision_ok_def)
    also have "\<dots> = mat_channels cropped" using ok r(4) by (simp add: vision_ok_def)
    also have "\<dots> = mat_channels resized" using ok r(3) by (simp add: vision_ok_def)
    also have "\<dots> = mat_channels rgb" using ok r(2) by (simp add: vision_ok_def)
    also have "\<dots> = 3" using ok r(1) by (simp add: vision_ok_def)
    finally show False using normalize_defined r(6) by blast
  qed
  assume "preprocess vl img = Some (Inr blob)"
  then obtain w h rgb resized cropped where r: "resized_size (sint (mat_cols img)) (sint (mat_rows img)) = Inr (w, h)"
    "vl_resize vl rgb w h = Inr resized" "vl_roi vl resized (center resized) = Inr cropped"
    by (auto simp: preprocess_def bind_checked_Inr)
  from resized_size_Inr [OF img r(1)] have m: "min w h = 256" "w * h \<le> 2 ^ 24" by auto
  have "sint (mat_cols resized) = w" "sint (mat_rows resized) = h" using ok r(2) by (auto simp: vision_ok_def)
  from center_inside [OF m(1) this] r m show "\<exists>w h rgb resized cropped. resized_size (sint (mat_cols img)) (sint (mat_rows img)) = Inr (w, h) \<and>
      min w h = 256 \<and> w * h \<le> 2 ^ 24 \<and> vl_resize vl rgb w h = Inr resized \<and> vl_roi vl resized (center resized) = Inr cropped \<and>
      inside (center resized) w h" by blast
qed

end
