(* ===== verification/Image_Upload.thy ===== *)
theory Image_Upload
  imports Chat_Security Base64 Image_Predict
begin

text \<open>
  \<^verbatim>\<open>AIApps/ChatServer/src/AIUtil/ImageRecognizer.cpp\<close> and \<^verbatim>\<open>AIApps/ChatServer/src/handlers/AIUploadSendHandler.cpp\<close>: what is checked before an
  uploaded image reaches the model, and the handler of uploads. OpenCV and ONNX Runtime are the parameter \<open>vl\<close>; what a prediction
  computes after its checks is in \<open>Image_Predict\<close>.

  The theorems show that no image is decoded, and no model loaded for its sender, unless its header passed the
  resource budgets, that a prediction is well defined and takes the label of the largest output, and which status an error gets.
\<close>

section \<open>The recognizer\<close>

text \<open>\<^verbatim>\<open>std::getline\<close> over the file: a last line without a line feed counts, an empty one after it does not.\<close>

fun file_lines :: "string \<Rightarrow> string \<Rightarrow> string list" where
  "file_lines acc [] = (if acc = [] then [] else [rev acc])"
| "file_lines acc (c # s) = (if c = LF then rev acc # file_lines [] s else file_lines (c # acc) s)"

definition LoadLabels :: "'j vision_lib \<Rightarrow> string \<Rightarrow> string list result" where
  "LoadLabels vl label_path =
     (case vl_file vl label_path of
        None \<Rightarrow> throw (Runtime_error (''Failed to open label file: '' @ label_path))
      | Some content \<Rightarrow>
          let labels = filter (\<lambda>line. line \<noteq> []) (file_lines [] content)
          in if labels = [] then throw (Runtime_error (''No labels loaded from file: '' @ label_path))
             else return labels)"

definition ImageRecognizer :: "'j vision_lib \<Rightarrow> string \<Rightarrow> string \<Rightarrow> recognizer result" where
  "ImageRecognizer vl model_path label_path =
     bind_result (vl_session vl model_path) (\<lambda>mi.
       case (mi_inputs mi, mi_outputs mi) of
         ([input_info], [output_info]) \<Rightarrow>
           if \<not> ti_tensor input_info \<or> \<not> ti_tensor output_info
           then throw (Runtime_error ''Image model input and output must be tensors'')
           else if \<not> ti_float input_info \<or> ti_shape input_info \<noteq> [1, 3, 224, 224]
           then throw (Runtime_error ''Image model input must be float32 [1,3,224,224]'')
           else if \<not> ti_float output_info \<or> ti_shape output_info \<noteq> [1, 1000]
           then throw (Runtime_error ''Image model output must be float32 [1,1000]'')
           else bind_result (LoadLabels vl label_path) (\<lambda>labels.
             if int (length labels) \<noteq> element_count (ti_shape output_info)
             then throw (Runtime_error ''Image label count does not match model output classes'')
             else return \<lparr>rg_model = model_path, rg_labels = labels\<rparr>)
       | _ \<Rightarrow> throw (Runtime_error ''Image model must have one input and one output''))"

definition PredictMatGuarded ::
  "'j vision_lib \<Rightarrow> environment \<Rightarrow> recognizer \<Rightarrow> cv_mat option \<Rightarrow> (string \<times> rat) checked" where
  "PredictMatGuarded vl env rg img_raw =
     (case img_raw of
        None \<Rightarrow> Some (throw (Runtime_error ''Input image is empty''))
      | Some img \<Rightarrow>
          if mat_dims img \<noteq> 2 \<or> \<not> (mat_8u img \<and> mat_channels img = 3)
          then Some (throw (Runtime_error ''Input image must be a two-dimensional CV_8UC3 BGR image''))
          else bind_checked (Some (CheckShape env (mat_cols img) (mat_rows img))) (\<lambda>_.
               bind_checked (preprocess vl img) (\<lambda>blob.
               bind_checked (Some (vl_run vl (rg_model rg) blob)) (classify vl (rg_labels rg)))))"

definition PredictBufferGuarded ::
  "'j vision_lib \<Rightarrow> environment \<Rightarrow> recognizer \<Rightarrow> 8 word list \<Rightarrow> (string \<times> rat) checked" where
  "PredictBufferGuarded vl env rg image_data =
     bind_checked (Preflight env image_data) (\<lambda>shape.
     bind_checked (vl_imdecode vl image_data) (\<lambda>decoded.
       case decoded of
         None \<Rightarrow> Some (throw (Runtime_error ''Failed to decode image from buffer''))
       | Some img \<Rightarrow>
           if \<not> ((mat_cols img = shp_width shape \<and> mat_rows img = shp_height shape) \<or>
                 (shp_jpeg shape \<and> mat_rows img = shp_width shape \<and> mat_cols img = shp_height shape))
           then Some (throw (Resource_error 400 ''Decoded image shape differs from header''))
           else PredictMatGuarded vl env rg (Some img)))"

text \<open>\<open>active\<close> is the number of jobs the permit counter has when it is read; the counter itself is in theory \<open>Image_Resource\<close>.\<close>

definition take_permit :: "environment \<Rightarrow> 64 word \<Rightarrow> unit result" where
  "take_permit env active =
     bind_result (GetPolicy env) (\<lambda>p.
       if active \<ge> pol_jobs p then throw (Resource_error 503 ''Image processing is busy; retry later'') else return ())"

definition PredictFromBufferWithConfidence ::
  "'j vision_lib \<Rightarrow> environment \<Rightarrow> 64 word \<Rightarrow> recognizer \<Rightarrow> 8 word list \<Rightarrow> (string \<times> rat) checked" where
  "PredictFromBufferWithConfidence vl env active rg image_data =
     bind_checked (Some (take_permit env active)) (\<lambda>_. PredictBufferGuarded vl env rg image_data)"

definition PredictFromBuffer ::
  "'j vision_lib \<Rightarrow> environment \<Rightarrow> 64 word \<Rightarrow> recognizer \<Rightarrow> 8 word list \<Rightarrow> string checked" where
  "PredictFromBuffer vl env active rg image_data =
     bind_checked (PredictFromBufferWithConfidence vl env active rg image_data) (\<lambda>(label, _). Some (return label))"

definition PredictFromMatWithConfidence ::
  "'j vision_lib \<Rightarrow> environment \<Rightarrow> 64 word \<Rightarrow> recognizer \<Rightarrow> cv_mat option \<Rightarrow> (string \<times> rat) checked" where
  "PredictFromMatWithConfidence vl env active rg img =
     bind_checked (Some (take_permit env active)) (\<lambda>_. PredictMatGuarded vl env rg img)"

definition PredictFromMat ::
  "'j vision_lib \<Rightarrow> environment \<Rightarrow> 64 word \<Rightarrow> recognizer \<Rightarrow> cv_mat option \<Rightarrow> string checked" where
  "PredictFromMat vl env active rg img =
     bind_checked (PredictFromMatWithConfidence vl env active rg img) (\<lambda>(label, _). Some (return label))"

text \<open>The file is its size and what a read of that many bytes yields; the size cannot be determined for \<open>None\<close>.\<close>

definition PredictFromFile ::
  "'j vision_lib \<Rightarrow> environment \<Rightarrow> 64 word \<Rightarrow> recognizer \<Rightarrow> (nat option \<times> 8 word list option) option \<Rightarrow> string checked" where
  "PredictFromFile vl env active rg opened =
     bind_checked (Some (take_permit env active)) (\<lambda>_.
       case opened of
         None \<Rightarrow> Some (throw (Runtime_error ''Failed to open image file''))
       | Some (None, _) \<Rightarrow> Some (throw (Runtime_error ''Failed to determine image file size''))
       | Some (Some n, contents) \<Rightarrow>
           bind_checked (Some (CheckEncoded env n)) (\<lambda>_.
             case contents of
               Some bytes \<Rightarrow>
                 if length bytes = n
                 then bind_checked (PredictBufferGuarded vl env rg bytes) (\<lambda>(label, _). Some (return label))
                 else Some (throw (Runtime_error ''Image file changed or could not be read completely''))
             | None \<Rightarrow> Some (throw (Runtime_error ''Image file changed or could not be read completely''))))"

section \<open>The upload handler\<close>

definition act_checked :: "'a checked \<Rightarrow> ('a, 'w) act" where
  "act_checked r resp w = (case r of None \<Rightarrow> (Crashed, resp, w) | Some x \<Rightarrow> act_result x resp w)"

definition parse_upload :: "'j json_lib \<Rightarrow> string \<Rightarrow> (string \<times> string) result" where
  "parse_upload js body =
     (if body = [] then return ([], [])
      else bind_result (js_get (js_parse js body)) (\<lambda>j.
           bind_result (optional_string js j ''filename'' []) (\<lambda>filename.
           bind_result (optional_string js j ''image'' []) (\<lambda>image. return (filename, image)))))"

text \<open>The image data after all checks that come before a recognizer is looked up.\<close>

definition encoded_limit :: "64 word \<Rightarrow> 64 word" where
  "encoded_limit maxEncoded = ((maxEncoded + 2) div 3) * 4"

definition checked_image :: "environment \<Rightarrow> string \<Rightarrow> 8 word list checked" where
  "checked_image env imageBase64 =
     (if imageBase64 = [] then Some (throw (Runtime_error ''No image data provided''))
      else bind_checked (Some (GetPolicy env)) (\<lambda>p.
        if length imageBase64 > unat (encoded_limit (pol_encoded p))
        then Some (throw (Resource_error 413 ''Encoded image exceeds resource budget''))
        else bind_checked (Some (base64_decode imageBase64 False)) (\<lambda>decodedData.
             bind_checked (Preflight env (str_bytes decodedData)) (\<lambda>_. Some (return (str_bytes decodedData))))))"

definition model_path :: string where "model_path = ''/root/models/mobilenetv2/mobilenetv2-7.onnx''"
definition label_path :: string where "label_path = ''/root/imagenet_classes.txt''"

text \<open>The recognizer of a user; building it can throw, and then nothing is entered.\<close>

definition obtain_recognizer ::
  "'j vision_lib \<Rightarrow> int \<Rightarrow> (recognizer, ('r, 'j, 'kv, 'd) chat_server) act" where
  "obtain_recognizer vl userId resp w =
     (case map_of (ch_recognizers w) userId of
        Some rg \<Rightarrow> (Done rg, resp, w)
      | None \<Rightarrow>
          (case ImageRecognizer vl model_path label_path of
             Inl e \<Rightarrow> (Threw (Std_exception e), resp, w)
           | Inr rg \<Rightarrow> (Done rg, resp, w\<lparr>ch_recognizers := AList.update userId rg (ch_recognizers w)\<rparr>)))"

definition upload_work ::
  "('r, 'j, 'kv, 'd) app \<Rightarrow> 'j vision_lib \<Rightarrow> 64 word \<Rightarrow> http_request \<Rightarrow> int \<Rightarrow> (unit, ('r, 'j, 'kv, 'd) chat_server) act" where
  "upload_work app vl active req userId =
     (let js = ap_json app; env = sv_env (ap_services app)
      in act_bind (act_result (parse_upload js (req_content req))) (\<lambda>(filename, imageBase64).
         act_bind (act_checked (checked_image env imageBase64)) (\<lambda>imgData.
         act_bind (obtain_recognizer vl userId) (\<lambda>rg.
         act_bind (act_checked (PredictFromBufferWithConfidence vl env active rg imgData)) (\<lambda>(label, confidence).
         act_bind (dump4 js [(''success'', js_string js ''ok''), (''filename'', js_string js filename),
             (''class_name'', js_string js label), (''confidence'', vl_double vl confidence)]) (\<lambda>body.
           act_response (answer_with (req_version req) k200Ok ''OK'' False ''application/json'' body)))))))"

fun error_status :: "cpp_exn \<Rightarrow> nat" where
  "error_status (Resource_error status _) =
     (if status = 413 then k413PayloadTooLarge else if status = 503 then k503ServiceUnavailable else k400BadRequest)"
| "error_status _ = k400BadRequest"

definition upload_fail :: "'j json_lib \<Rightarrow> http_request \<Rightarrow> cpp_exn \<Rightarrow> (unit, 'w) act" where
  "upload_fail js req e =
     act_bind (dump4 js (error_fields js (what e))) (\<lambda>body.
       act_response (\<lambda>resp. resp_setBody body (resp_setContentLength (length body) (setContentType ''application/json''
         (setCloseConnection True (setStatusCode (error_status e) (resp_setVersion (req_version req) resp)))))))"

definition AIUploadSendHandler ::
  "('r, 'j, 'kv, 'd) app \<Rightarrow> 'j vision_lib \<Rightarrow> 64 word \<Rightarrow> ('r, 'j, 'kv, 'd) server_handler" where
  "AIUploadSendHandler app vl active req =
     catch_std (logged_in app req (\<lambda>userId _. upload_work app vl active req userId)) (upload_fail (ap_json app) req)"

section \<open>Properties\<close>

lemma checked_image_Inr:
  assumes "checked_image env img = Some (Inr bytes)"
  shows "\<exists>shape. Preflight env bytes = Some (Inr shape)"
  using assms by (auto simp: checked_image_def bind_checked_def split: if_splits option.splits sum.splits)

lemma upload_keeps: "inv_act server_ok (AIUploadSendHandler app vl active req)"
proof -
  have r: "inv_act server_ok (obtain_recognizer vl u)" for u
    by (auto simp: triple_def obtain_recognizer_def server_ok_def split: option.splits sum.splits)
  have c: "inv_act server_ok (act_checked x)" for x :: "'z checked"
    by (auto simp: triple_def act_checked_def act_result_def split: option.splits sum.splits)
  have f: "inv_act server_ok (upload_fail js q e)" for js :: "'b json_lib" and q e
    unfolding upload_fail_def by (intro act_rules)
  have "inv_act server_ok (upload_work app vl active req u)" for u
    unfolding upload_work_def Let_def case_prod_beta by (intro act_rules r c)
  then show ?thesis
    unfolding AIUploadSendHandler_def by (intro triple_catch logged_in_keeps f)
qed

lemma logged_in_cases:
  assumes "logged_in app req work resp w = (oc, resp', w')"
  obtains (work) u n resp1 s where "work u n resp1 (w\<lparr>ch_sessions := s\<rparr>) = (oc, resp', w')"
    | (refused) s where "w' = w\<lparr>ch_sessions := s\<rparr>" "oc = Done () \<longrightarrow> resp_statusCode resp' = 401"
proof -
  obtain g resp1 s where "getSession memory_ops (ap_dist app) (ap_clk app) sessionMaxAge req resp (ch_sessions w) =
      (g, resp1, s)" by (metis prod_cases3)
  then have g: "app_getSession app req resp w = (g, resp1, w\<lparr>ch_sessions := s\<rparr>)" by (simp add: app_getSession_def)
  show thesis
  proof (cases g)
    case (Done a)
    show ?thesis
    proof (cases "getValue a ''isLoggedIn'' s = ''true''")
      case True
      with assms g Done work [of _ _ resp1 s] refused [of s] show ?thesis
        by (cases "stoi (getValue a ''userId'' s)")
          (auto simp: logged_in_def act_bind_def app_getValue_def act_get_def act_result_def)
    next
      case False
      with assms g Done refused [of s] show ?thesis
        by (auto simp: logged_in_def act_bind_def app_getValue_def act_get_def unauthorized_def dump4_def act_result_def
            act_response_def packageResp_def resp_setBody_def resp_setContentLength_def setContentType_def
            resp_addHeader_def setCloseConnection_def setStatusMessage_def setStatusCode_def status_text_def
            resp_setVersion_def split: sum.splits)
    qed
  qed (use assms g refused [of s] in \<open>auto simp: logged_in_def act_bind_def\<close>)
qed

lemma error_status_not_200: "error_status e \<noteq> 200"
  by (cases e) auto

lemma setStatusCode_error: "resp_statusCode (setStatusCode (error_status e) r) = error_status e"
  by (cases e) (auto simp: setStatusCode_def status_text_def)

lemma upload_fail_result:
  "upload_fail js req e resp w = (oc, resp', w') \<Longrightarrow> w' = w \<and> (oc = Done () \<longrightarrow> resp_statusCode resp' = error_status e)"
  by (auto simp: upload_fail_def act_bind_def dump4_def act_result_def act_response_def resp_setBody_def
      resp_setContentLength_def setContentType_def resp_addHeader_def setCloseConnection_def setStatusCode_error
      split: sum.splits)

text \<open>The handler of uploads serves only clients that are logged in.\<close>

lemma upload_refuses:
  assumes "storage_ok (ch_sessions w)" and run: "AIUploadSendHandler app vl active req resp w = (oc, resp', w')"
    and "\<not> has_login (ap_clk app) req (ch_sessions w)"
  shows "w' = w\<lparr>ch_sessions := ch_sessions w'\<rparr> \<and> refusal (ap_json app) oc resp'"
proof -
  have f: "upload_fail (ap_json app) req (Json_exception ''json'') p w1 = (q, p', w2) \<Longrightarrow> w2 = w1 \<and>
      (case q of Done _ \<Rightarrow> resp_statusCode p' = 400 \<and> resp_closeConnection p' | Threw (Std_exception e) \<Rightarrow> True | _ \<Rightarrow> False)"
    for p w1 q p' w2
    by (auto simp: upload_fail_def act_bind_def dump4_def act_result_def act_response_def resp_setBody_def
        resp_setContentLength_def setContentType_def resp_addHeader_def setCloseConnection_def setStatusCode_def status_text_def
        split: sum.splits)
  show ?thesis by (rule catch_refuses [OF assms(1,3) run [unfolded AIUploadSendHandler_def] f])
qed

lemma upload_work_checked:
  assumes "upload_work app vl active req u resp w = (oc, resp', w')"
    and "oc = Done () \<or> ch_recognizers w' \<noteq> ch_recognizers w"
  shows "\<exists>filename img bytes. parse_upload (ap_json app) (req_content req) = Inr (filename, img) \<and>
    checked_image (sv_env (ap_services app)) img = Some (Inr bytes)"
proof (cases "parse_upload (ap_json app) (req_content req)")
  case (Inl e)
  with assms show ?thesis by (auto simp: upload_work_def Let_def act_bind_def act_result_def)
next
  case (Inr fi)
  obtain filename img where fi: "fi = (filename, img)" by fastforce
  show ?thesis
  proof (cases "\<exists>bytes. checked_image (sv_env (ap_services app)) img = Some (Inr bytes)")
    case False
    then have "(\<nexists>x. fst (act_checked (checked_image (sv_env (ap_services app)) img) resp w) = Done x) \<and>
        snd (snd (act_checked (checked_image (sv_env (ap_services app)) img) resp w)) = w"
      by (auto simp: act_checked_def act_result_def split: option.splits sum.splits)
    with assms Inr fi show ?thesis
      by (auto simp: upload_work_def Let_def act_bind_def act_result_def split: prod.splits outcome.splits)
  qed (use Inr fi in blast)
qed

text \<open>
  The image of an upload, when every check before the recognizer accepts it, and the budgets of the
  configuration as numbers.
\<close>

definition upload_image :: "('r, 'j, 'kv, 'd) app \<Rightarrow> http_request \<Rightarrow> bytes \<Rightarrow> bool" where
  "upload_image app req bytes \<longleftrightarrow>
     (\<exists>filename img. parse_upload (ap_json app) (req_content req) = Inr (filename, img) \<and>
        checked_image (sv_env (ap_services app)) img = Some (Inr bytes))"

definition within_budget :: "environment \<Rightarrow> bytes \<Rightarrow> bool" where
  "within_budget env bytes \<longleftrightarrow>
     (\<exists>shape p. Preflight env bytes = Some (Inr shape) \<and> GetPolicy env = Inr p \<and>
        length bytes \<le> unat (pol_encoded p) \<and> 0 < unat (shp_width shape) \<and> 0 < unat (shp_height shape) \<and>
        unat (shp_width shape) * unat (shp_height shape) \<le> unat (pol_pixels p) \<and>
        3 * (unat (shp_width shape) * unat (shp_height shape)) \<le> unat (pol_bgr p))"

lemma Preflight_budget: "Preflight env bytes = Some (Inr shape) \<Longrightarrow> within_budget env bytes"
  using Preflight_cases [of env bytes] by (auto simp: within_budget_def CheckEncoded_iff CheckShape_iff int_max_def)

lemma upload_image_budget: "upload_image app req bytes \<Longrightarrow> within_budget (sv_env (ap_services app)) bytes"
  using checked_image_Inr Preflight_budget by (fastforce simp: upload_image_def)

text \<open>Without such an image the work ends before the libraries are used.\<close>

lemma upload_work_refused:
  assumes "\<nexists>bytes. upload_image app req bytes"
  shows "upload_work app vl active req u = upload_work app vl' active req u"
proof (intro ext)
  fix resp w
  show "upload_work app vl active req u resp w = upload_work app vl' active req u resp w"
  proof (cases "parse_upload (ap_json app) (req_content req)")
    case (Inr fi)
    obtain filename img where fi: "fi = (filename, img)" by fastforce
    then have "\<nexists>bytes. checked_image (sv_env (ap_services app)) img = Some (Inr bytes)"
      using assms Inr by (auto simp: upload_image_def)
    then show ?thesis using Inr fi
      by (cases "checked_image (sv_env (ap_services app)) img")
        (auto simp: upload_work_def Let_def act_bind_def act_result_def act_checked_def split: sum.splits)
  qed (simp add: upload_work_def Let_def act_bind_def act_result_def)
qed

text \<open>A decoder that breaks down on every image outside the budgets serves as well as any other.\<close>

definition guarded_decoder :: "environment \<Rightarrow> 'j vision_lib \<Rightarrow> 'j vision_lib" where
  "guarded_decoder env vl =
     vl\<lparr>vl_imdecode := \<lambda>bytes. if within_budget env bytes then vl_imdecode vl bytes else None\<rparr>"

lemma guarded_fields:
  "vl_cvtColor (guarded_decoder env vl) = vl_cvtColor vl" "vl_resize (guarded_decoder env vl) = vl_resize vl"
  "vl_roi (guarded_decoder env vl) = vl_roi vl" "vl_convertTo (guarded_decoder env vl) = vl_convertTo vl"
  "vl_split (guarded_decoder env vl) = vl_split vl" "vl_merge (guarded_decoder env vl) = vl_merge vl"
  "vl_blobFromImage (guarded_decoder env vl) = vl_blobFromImage vl" "vl_run (guarded_decoder env vl) = vl_run vl"
  "vl_exp (guarded_decoder env vl) = vl_exp vl" "vl_session (guarded_decoder env vl) = vl_session vl"
  "vl_file (guarded_decoder env vl) = vl_file vl"
  by (simp_all add: guarded_decoder_def)

lemma guarded_normalize: "normalize_loop (guarded_decoder env vl) cs i ms = normalize_loop vl cs i ms"
  by (induction vl cs i ms rule: normalize_loop.induct) (simp_all add: guarded_decoder_def)

lemma guarded_decoder_same:
  "PredictFromBufferWithConfidence (guarded_decoder env vl) env active rg bytes =
     PredictFromBufferWithConfidence vl env active rg bytes"
  "obtain_recognizer (guarded_decoder env vl) u = obtain_recognizer vl u"
  "vl_double (guarded_decoder env vl) = vl_double vl"
proof -
  have mat: "PredictMatGuarded (guarded_decoder env vl) env rg m = PredictMatGuarded vl env rg m" for m
    unfolding PredictMatGuarded_def preprocess_def classify_def guarded_normalize guarded_fields ..
  have "vl_imdecode (guarded_decoder env vl) bytes = vl_imdecode vl bytes" if "Preflight env bytes = Some (Inr shape)" for shape
    using Preflight_budget [OF that] by (simp add: guarded_decoder_def)
  then have "PredictBufferGuarded (guarded_decoder env vl) env rg bytes = PredictBufferGuarded vl env rg bytes"
    unfolding PredictBufferGuarded_def mat
    by (cases "Preflight env bytes") (auto simp: bind_checked_def split: sum.splits)
  then show "PredictFromBufferWithConfidence (guarded_decoder env vl) env active rg bytes =
      PredictFromBufferWithConfidence vl env active rg bytes"
    by (simp add: PredictFromBufferWithConfidence_def)
  have "ImageRecognizer (guarded_decoder env vl) m l = ImageRecognizer vl m l" for m l
    unfolding ImageRecognizer_def LoadLabels_def guarded_fields ..
  then show "obtain_recognizer (guarded_decoder env vl) u = obtain_recognizer vl u"
    by (simp only: obtain_recognizer_def fun_eq_iff simp_thms)
qed (simp add: guarded_decoder_def)

text \<open>
  C19. No image reaches the decoder or the model, and no model is loaded for its sender, before its header has passed the
  budgets. The image of an upload that passes the checks is within the configured limits on encoded bytes,
  pixels and decoded bytes. Without such an image the handler does the same whatever OpenCV and ONNX
  Runtime do, so it does not call them; a decoder that breaks down on every image outside the budgets
  makes no difference to it; and if an upload changes the recognizers or is answered with status 200, it
  had such an image.
\<close>

theorem upload_within_budget:
  "(\<forall>bytes. upload_image app req bytes \<longrightarrow> within_budget (sv_env (ap_services app)) bytes) \<and>
   ((\<nexists>bytes. upload_image app req bytes) \<longrightarrow>
      AIUploadSendHandler app vl active req = AIUploadSendHandler app vl' active req) \<and>
   AIUploadSendHandler app (guarded_decoder (sv_env (ap_services app)) vl) active req =
     AIUploadSendHandler app vl active req \<and>
   (\<forall>resp w oc resp' w'. AIUploadSendHandler app vl active req resp w = (oc, resp', w') \<longrightarrow>
      ch_recognizers w' \<noteq> ch_recognizers w \<or> oc = Done () \<and> resp_statusCode resp' = 200 \<longrightarrow>
      (\<exists>bytes. upload_image app req bytes))"
proof (intro conjI allI impI)
  show "upload_image app req bytes \<Longrightarrow> within_budget (sv_env (ap_services app)) bytes" for bytes
    by (rule upload_image_budget)
  show "AIUploadSendHandler app vl active req = AIUploadSendHandler app vl' active req"
    if "\<nexists>bytes. upload_image app req bytes"
    by (simp only: AIUploadSendHandler_def upload_work_refused [OF that, of vl active _ vl'])
  show "AIUploadSendHandler app (guarded_decoder (sv_env (ap_services app)) vl) active req =
      AIUploadSendHandler app vl active req"
    by (simp add: AIUploadSendHandler_def upload_work_def Let_def guarded_decoder_same)
  fix resp w oc resp' w'
  assume run: "AIUploadSendHandler app vl active req resp w = (oc, resp', w')"
    and ok: "ch_recognizers w' \<noteq> ch_recognizers w \<or> oc = Done () \<and> resp_statusCode resp' = 200"
  obtain oc1 resp1 w1 where l: "logged_in app req (\<lambda>userId _. upload_work app vl active req userId) resp w = (oc1, resp1, w1)"
    by (metis prod_cases3)
  have w1: "ch_recognizers w1 \<noteq> ch_recognizers w \<or> oc1 = Done () \<and> resp_statusCode resp1 = 200"
    using run ok l upload_fail_result error_status_not_200
    by (cases oc1) (fastforce simp: AIUploadSendHandler_def catch_std_def split: thrown.splits)+
  from l show "\<exists>bytes. upload_image app req bytes"
  proof (cases rule: logged_in_cases)
    case (work u n r s)
    from upload_work_checked [OF this] w1 show ?thesis by (auto simp: upload_image_def)
  next
    case (refused s)
    with w1 show ?thesis by auto
  qed
qed

text \<open>A small picture sent by the user 7, and a model with a thousand labels.\<close>

definition tiny_text :: string where
  "tiny_text = map (\<lambda>b. char_of (unat b)) tiny_jpeg"

lemma tiny_text_bytes: "str_bytes tiny_text = tiny_jpeg"
  by (simp add: tiny_text_def str_bytes_def tiny_jpeg_def)

definition tiny_image :: string where
  "tiny_image = encode_groups (base64_chars False) (CHR ''='') tiny_text"

lemma tiny_checked: "checked_image no_env tiny_image = Some (Inr tiny_jpeg)"
proof -
  have d: "decode_loop tiny_image = Inr tiny_text"
    using decode_encode_loop [of "CHR ''=''" False tiny_text]
    by (simp add: tiny_image_def padding_def)
  have l: "length tiny_image = 40"
    by (simp add: tiny_image_def length_encode_loop tiny_text_def tiny_jpeg_def)
  then have ne: "tiny_image \<noteq> []" by auto
  have p: "GetPolicy no_env = Inr default_policy"
    by (rule default_GetPolicy)
  have "unat (encoded_limit (pol_encoded default_policy)) \<ge> 40"
    by (simp add: encoded_limit_def default_policy_def)
  then show ?thesis
    using d l ne tiny_Preflight
    by (simp add: checked_image_def p base64_decode_def tiny_text_bytes)
qed

definition label_file :: string where
  "label_file = concat (replicate 1000 [CHR ''a'', LF])"

definition sample_vision :: "jval vision_lib" where
  "sample_vision = \<lparr>
     vl_session = (\<lambda>_. return \<lparr>mi_inputs = [\<lparr>ti_tensor = True, ti_float = True, ti_shape = [1, 3, 224, 224]\<rparr>],
        mi_outputs = [\<lparr>ti_tensor = True, ti_float = True, ti_shape = [1, 1000]\<rparr>]\<rparr>),
     vl_file = (\<lambda>_. Some label_file), vl_imdecode = (\<lambda>_. Some (return None)),
     vl_cvtColor = (\<lambda>m. return (m\<lparr>mat_channels := 3\<rparr>)),
     vl_resize = (\<lambda>m w h. if sint (word_of_int w :: 32 word) = w \<and> sint (word_of_int h :: 32 word) = h
                         then return (m\<lparr>mat_cols := word_of_int w, mat_rows := word_of_int h\<rparr>)
                         else throw (Runtime_error ''size'')),
     vl_roi = (\<lambda>m r. return m), vl_convertTo = (\<lambda>m x. return m), vl_split = (\<lambda>m. return (replicate (mat_channels m) m)),
     vl_subtract = (\<lambda>m x. return m), vl_divide = (\<lambda>m x. return m), vl_merge = (\<lambda>ms. return (hd ms)), vl_blobFromImage = return,
     vl_run = (\<lambda>_ _. return [\<lparr>td_info = \<lparr>ti_tensor = True, ti_float = True, ti_shape = [1, 1000]\<rparr>,
                             td_data = Some 1 # replicate 999 (Some 0)\<rparr>]),
     vl_exp = (\<lambda>x. if x = 0 then 1 else 0), vl_double = (\<lambda>_. J_int 0)\<rparr>"

lemma file_lines_replicate: "file_lines [] (concat (replicate n [CHR ''a'', LF])) = replicate n ''a''"
  by (induction n) simp_all

lemma sample_recognizer:
  "ImageRecognizer sample_vision model_path label_path = Inr \<lparr>rg_model = model_path, rg_labels = replicate 1000 ''a''\<rparr>"
proof -
  have "filter (\<lambda>line. line \<noteq> []) (replicate 1000 ''a'') = replicate 1000 ''a''"
    by (rule filter_True) simp
  then have "LoadLabels sample_vision label_path = Inr (replicate 1000 ''a'')"
    by (simp add: LoadLabels_def sample_vision_def label_file_def file_lines_replicate)
  then show ?thesis
    by (simp add: ImageRecognizer_def element_count_def) (simp add: sample_vision_def element_count_def)
qed

definition upload_app :: "(nat, jval, nat, row list) app" where
  "upload_app = sample_app_rows\<lparr>ap_services := sample_services\<lparr>sv_json :=
     table_json [(''up'', J_obj [(''image'', J_str tiny_image)])]\<rparr>\<rparr>"

definition upload_request :: http_request where
  "upload_request = (cookie_request ''sessionId=x'')\<lparr>req_content := ''up''\<rparr>"

lemma upload_request_user:
  "\<exists>s. logged_in upload_app upload_request work (new_response False) user_server =
     work 7 [] (new_response False) (user_server\<lparr>ch_sessions := s\<rparr>)"
proof -
  have c: "getSessionIdFromCookie upload_request = ''x''" by code_simp
  have i: "stoi ''7'' = Inr 7" by code_simp
  have "\<exists>s. getSession memory_ops sample_dist sample_clock sessionMaxAge upload_request (new_response False)
      (ch_sessions user_server) = (Done 0, new_response False, s) \<and>
      ses_data (obj s 0) = [(''isLoggedIn'', ''true''), (''userId'', ''7'')]"
    by (simp add: getSession_def c loadAndRefresh_def Let_def user_server_def full_storage_def sample_storage_def
        obj_def sample_clock_def setManager_def refresh_def put_obj_def)
  then obtain s where s: "getSession memory_ops (ap_dist upload_app) (ap_clk upload_app) sessionMaxAge upload_request
      (new_response False) (ch_sessions user_server) = (Done 0, new_response False, s)"
      "ses_data (obj s 0) = [(''isLoggedIn'', ''true''), (''userId'', ''7'')]"
    by (auto simp: upload_app_def sample_app_rows_def)
  have g: "app_getSession upload_app upload_request (new_response False) user_server =
      (Done 0, new_response False, user_server\<lparr>ch_sessions := s\<rparr>)" by (simp add: app_getSession_def s(1))
  have v: "getValue 0 ''isLoggedIn'' s = ''true''" "getValue 0 ''userId'' s = ''7''" "getValue 0 ''username'' s = []"
    by (simp_all add: getValue_def s(2))
  show ?thesis
    by (intro exI [of _ s]) (simp add: logged_in_def act_bind_def g app_getValue_def act_get_def v act_result_def i)
qed

theorem upload_within_budget_witness:
  "upload_image upload_app upload_request tiny_jpeg \<and> within_budget no_env tiny_jpeg \<and>
   ch_recognizers (snd (snd (AIUploadSendHandler upload_app sample_vision 0 upload_request (new_response False) user_server))) \<noteq> [] \<and>
   (\<exists>bytes. upload_image upload_app upload_request bytes) \<and>
   AIUploadSendHandler upload_app sample_vision 0 (cookie_request ''sessionId=x'') =
     AIUploadSendHandler upload_app (sample_vision\<lparr>vl_imdecode := \<lambda>_. None\<rparr>) 0 (cookie_request ''sessionId=x'')"
proof -
  let ?work = "\<lambda>userId _. upload_work upload_app sample_vision 0 upload_request userId"
  let ?rg = "\<lparr>rg_model = model_path, rg_labels = replicate 1000 ''a''\<rparr>"
  let ?I = "\<lambda>w :: (nat, jval, nat, row list) chat_server. ch_recognizers w = [(7, ?rg)]"
  have env: "sv_env (ap_services upload_app) = no_env" by (simp add: upload_app_def sample_services_def)
  have parse: "parse_upload (ap_json upload_app) (req_content upload_request) = Inr ([], tiny_image)"
    by (simp add: parse_upload_def optional_string_def field_string_def upload_app_def upload_request_def table_json_def)
  obtain oc resp' w' where r: "AIUploadSendHandler upload_app sample_vision 0 upload_request (new_response False) user_server =
      (oc, resp', w')" by (metis prod_cases3)
  obtain s where l: "logged_in upload_app upload_request ?work (new_response False) user_server =
      ?work 7 [] (new_response False) (user_server\<lparr>ch_sessions := s\<rparr>)" using upload_request_user by metis
  have e: "ch_recognizers user_server = []" by (simp add: user_server_def sample_chat_server_def)
  have chk: "inv_act ?I (act_checked x)" for x :: "(string \<times> rat) checked"
    by (auto simp: triple_def act_checked_def act_result_def split: option.splits sum.splits)
  define tail :: "(unit, (nat, jval, nat, row list) chat_server) act" where "tail = act_bind (act_checked (PredictFromBufferWithConfidence sample_vision no_env 0 ?rg tiny_jpeg))
    (\<lambda>(label, confidence).
       act_bind (dump4 (ap_json upload_app) [(''success'', js_string (ap_json upload_app) ''ok''),
             (''filename'', js_string (ap_json upload_app) []), (''class_name'', js_string (ap_json upload_app) label),
             (''confidence'', vl_double sample_vision confidence)]) (\<lambda>body.
         act_response (answer_with (req_version upload_request) k200Ok ''OK'' False ''application/json'' body)))"
  have tail: "inv_act ?I tail" unfolding tail_def case_prod_beta by (intro act_rules chk)
  have work: "?work 7 [] resp w = tail resp (w\<lparr>ch_recognizers := [(7, ?rg)]\<rparr>)" if "ch_recognizers w = []" for resp w
    unfolding tail_def upload_work_def Let_def env
    by (subst act_bind_def, simp add: act_result_def parse, subst act_bind_def, simp add: act_checked_def act_result_def
        tiny_checked, subst act_bind_def, simp add: obtain_recognizer_def sample_recognizer that)
  obtain oc1 resp1 w1 where l1: "logged_in upload_app upload_request ?work (new_response False) user_server = (oc1, resp1, w1)"
    by (metis prod_cases3)
  have "?I w1"
    by (rule inv_run [OF tail, of "user_server\<lparr>ch_sessions := s, ch_recognizers := [(7, ?rg)]\<rparr>" "new_response False" oc1 resp1])
      (use l1 l work [of "user_server\<lparr>ch_sessions := s\<rparr>"] e in \<open>simp_all\<close>)
  moreover have "w' = w1"
    using r l1 upload_fail_result by (cases oc1) (fastforce simp: AIUploadSendHandler_def catch_std_def split: thrown.splits)+
  ultimately have "?I w'" by simp
  then have "ch_recognizers w' \<noteq> ch_recognizers user_server" by (simp add: e)
  moreover have img: "upload_image upload_app upload_request tiny_jpeg"
    using parse tiny_checked by (auto simp: upload_image_def env)
  moreover have "\<nexists>bytes. upload_image upload_app (cookie_request ''sessionId=x'') bytes"
    by (simp add: upload_image_def parse_upload_def cookie_request_def new_request_def checked_image_def)
  moreover note upload_within_budget [of upload_app upload_request sample_vision 0 sample_vision, unfolded env]
    upload_within_budget [of upload_app "cookie_request ''sessionId=x''" sample_vision 0 "sample_vision\<lparr>vl_imdecode := \<lambda>_. None\<rparr>"]
  ultimately show ?thesis using r e by auto
qed

section \<open>Predictions\<close>

lemma positive_int:
  fixes x :: "32 word"
  assumes "0 < unat x" "unat x \<le> int_max"
  shows "0 < sint x"
proof -
  have "uint x = int (unat x)" by simp
  then have "uint x \<le> 2147483647" using assms(2) unfolding int_max_def by linarith
  moreover have "- 2147483648 \<le> uint x" by (rule order_trans [OF _ uint_ge_0]) simp
  ultimately have "sint x = uint x" unfolding sint_uint by (intro signed_take_bit_int_eq_self) simp_all
  then show ?thesis using assms(1) \<open>uint x = int (unat x)\<close> by linarith
qed

text \<open>
  C20. A prediction is well defined and means what it says. Whatever the image, its shape and the output of the model,
  \<^verbatim>\<open>PredictMatGuarded\<close> reads nothing outside an array; when it returns a prediction, the image was scaled so that its
  shorter side is 256 and it has at most 16 Mi pixels, the square of 224 cut out of it lies inside, the label is the one of the first largest of
  the thousand outputs, and the confidence is positive and at most one, all rounding included.
\<close>

theorem prediction_sound:
  assumes "vision_ok vl"
  shows "PredictMatGuarded vl env rg img \<noteq> None \<and>
    (\<forall>label confidence. PredictMatGuarded vl env rg img = Some (Inr (label, confidence)) \<longrightarrow>
      (\<exists>m w h rgb resized cropped blob t logits. img = Some m \<and>
        resized_size (sint (mat_cols m)) (sint (mat_rows m)) = Inr (w, h) \<and> min w h = 256 \<and> w * h \<le> 2 ^ 24 \<and>
        vl_resize vl rgb w h = Inr resized \<and> vl_roi vl resized (center resized) = Inr cropped \<and> inside (center resized) w h \<and>
        vl_run vl (rg_model rg) blob = Inr [t] \<and> td_data t = map Some logits \<and>
        classified (rg_labels rg) logits label confidence))"
proof (cases "\<exists>m. img = Some m \<and> CheckShape env (mat_cols m) (mat_rows m) = Inr ()")
  case False
  then show ?thesis by (auto simp: PredictMatGuarded_def bind_checked_def split: option.splits sum.splits)
next
  case True
  then obtain m where m: "img = Some m" "CheckShape env (mat_cols m) (mat_rows m) = Inr ()" by blast
  then have pos: "0 < sint (mat_cols m)" "0 < sint (mat_rows m)" by (auto simp: CheckShape_iff intro: positive_int)
  have e: "exp_ok (vl_exp vl)" using assms by (simp add: vision_ok_def)
  have c: "int (length (td_data t)) = element_count (ti_shape (td_info t))"
    if "vl_run vl (rg_model rg) blob = Inr outputs" "outputs = [t]" "ti_tensor (td_info t)" for blob outputs t
  proof -
    have "\<forall>path m ts t. vl_run vl path m = Inr ts \<and> t \<in> set ts \<and> ti_tensor (td_info t) \<longrightarrow>
        int (length (td_data t)) = element_count (ti_shape (td_info t))" using assms unfolding vision_ok_def by blast
    with that show ?thesis by (metis list.set_intros(1))
  qed
  have cl: "classify vl labels outputs \<noteq> None" if "vl_run vl (rg_model rg) blob = Inr outputs" for labels blob outputs
    by (rule classify_cases(1) [OF e c [OF that]])
  have "PredictMatGuarded vl env rg img \<noteq> None"
  proof
    assume "PredictMatGuarded vl env rg img = None"
    then have "preprocess vl m = None \<or> (\<exists>blob outputs. vl_run vl (rg_model rg) blob = Inr outputs \<and>
        classify vl (rg_labels rg) outputs = None)"
      using m by (auto simp: PredictMatGuarded_def bind_checked_None split: if_splits)
    then show False
    proof (elim disjE exE conjE)
      fix blob outputs
      assume "vl_run vl (rg_model rg) blob = Inr outputs" "classify vl (rg_labels rg) outputs = None"
      with cl [of blob outputs "rg_labels rg"] show False by simp
    qed (use preprocess_cases(1) [OF assms pos] in simp)
  qed
  moreover have "\<exists>w h rgb resized cropped blob t logits. resized_size (sint (mat_cols m)) (sint (mat_rows m)) = Inr (w, h) \<and>
      min w h = 256 \<and> w * h \<le> 2 ^ 24 \<and> vl_resize vl rgb w h = Inr resized \<and> vl_roi vl resized (center resized) = Inr cropped \<and>
      inside (center resized) w h \<and> vl_run vl (rg_model rg) blob = Inr [t] \<and> td_data t = map Some logits \<and>
      classified (rg_labels rg) logits label confidence"
    if "PredictMatGuarded vl env rg img = Some (Inr (label, confidence))" for label confidence
  proof -
    from that m obtain blob outputs where r: "preprocess vl m = Some (Inr blob)" "vl_run vl (rg_model rg) blob = Inr outputs"
      "classify vl (rg_labels rg) outputs = Some (Inr (label, confidence))"
      by (auto simp: PredictMatGuarded_def bind_checked_Inr split: if_splits)
    from preprocess_cases(2) [OF assms pos r(1)] classify_cases(2) [OF e c [OF r(2)] r(3)] r(2) show ?thesis by blast
  qed
  ultimately show ?thesis using m(1) by blast
qed

text \<open>A picture of 300 by 256, and a model that prefers the first label.\<close>

definition sample_picture :: cv_mat where
  "sample_picture = \<lparr>mat_cols = 300, mat_rows = 256, mat_dims = 2, mat_8u = True, mat_channels = 3, mat_data = []\<rparr>"

lemma sample_vision_ok: "vision_ok sample_vision"
  by (auto simp: vision_ok_def exp_ok_def sample_vision_def element_count_def split: if_splits)

lemma sample_logits:
  "max_loop 1 0 i (replicate n 0) = 0" "denominator_loop (vl_exp sample_vision) 1 1 (replicate n 0) = 1"
proof -
  have "fl (0 - 1) = - 1" by code_simp
  then show "max_loop 1 0 i (replicate n 0) = 0" "denominator_loop (vl_exp sample_vision) 1 1 (replicate n 0) = 1"
    by (induction n arbitrary: i) (simp_all add: sample_vision_def)
qed

theorem prediction_sound_witness:
  "\<exists>logits. PredictMatGuarded sample_vision no_env \<lparr>rg_model = model_path, rg_labels = replicate 1000 ''a''\<rparr> (Some sample_picture) =
      Some (Inr (''a'', 1)) \<and> classified (replicate 1000 ''a'') logits ''a'' 1 \<and> resized_size 300 256 = Inr (300, 256)"
proof -
  let ?rg = "\<lparr>rg_model = model_path, rg_labels = replicate 1000 ''a''\<rparr>"
  let ?t = "\<lparr>td_info = \<lparr>ti_tensor = True, ti_float = True, ti_shape = [1, 1000]\<rparr>, td_data = Some 1 # replicate 999 (Some 0)\<rparr>"
  have "\<lfloor>601 / 2 :: rat\<rfloor> = 300" "\<lfloor>513 / 2 :: rat\<rfloor> = 256" by (simp_all add: floor_eq_iff)
  then have r: "resized_size 300 256 = Inr (300, 256)"
    using fl_of_int [of 300] fl_of_int [of 256] fl_of_int [of 65536]
    by (simp add: resized_size_def cpp_round_def max_resized_pixels_def int_max_def)
  have s: "CheckShape no_env 300 256 = Inr ()"
    by (simp add: CheckShape_iff default_GetPolicy) (simp add: int_max_def default_policy_def)
  have p: "\<exists>blob. preprocess sample_vision sample_picture = Some (Inr blob)"
    by (simp add: preprocess_def sample_picture_def r) (simp add: sample_vision_def channel_constants_def)
  have o: "vl_run sample_vision path m = Inr [?t]" for path m by (simp add: sample_vision_def)
  have l: "map the (Some (1 :: rat) # replicate 999 (Some 0)) = 1 # replicate 999 0" by simp
  have x: "max_element (1 # replicate 999 0) = 0" by (simp add: max_element_def sample_logits)
  have d: "vl_exp sample_vision 0 = 1" by (simp add: sample_vision_def)
  have c: "classify sample_vision (replicate 1000 ''a'') [?t] = Some (Inr (''a'', 1))"
    unfolding classify_def Let_def by (simp add: element_count_def l x d sample_logits list_ex_iff)
  have "PredictMatGuarded sample_vision no_env ?rg (Some sample_picture) = Some (Inr (''a'', 1))"
    using p s by (auto simp: PredictMatGuarded_def o c) (simp_all add: sample_picture_def)
  with prediction_sound [OF sample_vision_ok, of no_env ?rg "Some sample_picture"] r show ?thesis by fastforce
qed

end
