(* ===== verification/Ssl.thy ===== *)
theory Ssl
  imports Http_Server
begin

text \<open>
  \<^verbatim>\<open>HttpServer/src/ssl/*.cpp\<close> and the TLS branches of \<^verbatim>\<open>HttpServer::onConnection\<close> and
  \<^verbatim>\<open>HttpServer::onMessage\<close>. OpenSSL is the parameter \<open>lib\<close>: operations on an opaque engine \<open>'e\<close>, which stands for
  one \<^verbatim>\<open>SSL\<close> object with its two memory BIOs, and on the process-wide context.

  The received bytes of a connection go to \<^verbatim>\<open>SslConnection::onRead\<close>, which calls \<^verbatim>\<open>HttpServer::onMessage\<close>,
  which calls \<^verbatim>\<open>onRead\<close> again; the two functions are one recursion over the callback that is
  entered. The theorems show what the option word of the context means for the configured
  protocol version, that \<^verbatim>\<open>send\<close> hands every pending byte to the connection in order, and that with TLS enabled
  the recursion ends without a request being served.
\<close>

section \<open>Configuration\<close>

datatype SSLVersion = TLS_1_0 | TLS_1_1 | TLS_1_2 | TLS_1_3

datatype SSLError = E_NONE | E_WANT_READ | E_WANT_WRITE | E_SYSCALL | E_SSL | E_UNKNOWN

datatype SSLState = HANDSHAKE | ESTABLISHED | SHUTDOWN | ERROR

record ssl_config =
  cfg_certFile :: string
  cfg_keyFile :: string
  cfg_chainFile :: string
  cfg_version :: SSLVersion
  cfg_cipherList :: string
  cfg_verifyClient :: bool
  cfg_verifyDepth :: int
  cfg_sessionTimeout :: int
  cfg_sessionCacheSize :: int

definition SslConfig :: ssl_config where
  "SslConfig = \<lparr>cfg_certFile = [], cfg_keyFile = [], cfg_chainFile = [], cfg_version = TLS_1_2,
     cfg_cipherList = ''HIGH:!aNULL:!MDS'', cfg_verifyClient = False, cfg_verifyDepth = 4,
     cfg_sessionTimeout = 300, cfg_sessionCacheSize = 20480\<rparr>"

section \<open>The context\<close>

text \<open>The option bits the code sets; \<open>SSL_CTX_set_options\<close> adds to the bits already set.\<close>

datatype ssl_option =
    SSL_OP_NO_SSLv2 | SSL_OP_NO_SSLv3 | SSL_OP_NO_COMPRESSION | SSL_OP_CIPHER_SERVER_PREFERENCE
  | SSL_OP_NO_TLSv1 | SSL_OP_NO_TLSv1_1 | SSL_OP_NO_TLSv1_2 | SSL_OP_NO_TLSv1_3

text \<open>What the calls on the \<^verbatim>\<open>SSL_CTX\<close> left in it, and the messages \<^verbatim>\<open>handleSslError\<close> logged.\<close>

record ssl_ctx =
  ctx_options :: "ssl_option set"
  ctx_cipherList :: "string option"
  ctx_cacheServer :: bool
  ctx_cacheSize :: int
  ctx_timeout :: int

definition new_ssl_ctx :: ssl_ctx where
  "new_ssl_ctx = \<lparr>ctx_options = {}, ctx_cipherList = None, ctx_cacheServer = False, ctx_cacheSize = 0,
     ctx_timeout = 0\<rparr>"

record ctx_lib =
  SSL_CTX_new :: bool
  SSL_CTX_use_certificate_file :: "string \<Rightarrow> bool"
  SSL_CTX_use_PrivateKey_file :: "string \<Rightarrow> bool"
  SSL_CTX_check_private_key :: bool
  SSL_CTX_use_certificate_chain_file :: "string \<Rightarrow> bool"
  SSL_CTX_set_cipher_list :: "string \<Rightarrow> bool"

text \<open>The functions return the message of the step that failed, or the context.\<close>

definition loadCertificates :: "ctx_lib \<Rightarrow> ssl_config \<Rightarrow> string + unit" where
  "loadCertificates lib cfg =
     (if \<not> SSL_CTX_use_certificate_file lib (cfg_certFile cfg)
      then Inl ''Failed to load server certificate''
      else if \<not> SSL_CTX_use_PrivateKey_file lib (cfg_keyFile cfg)
      then Inl ''Failed to load private key''
      else if \<not> SSL_CTX_check_private_key lib
      then Inl ''Private key does not match the certificate''
      else if cfg_chainFile cfg \<noteq> [] \<and> \<not> SSL_CTX_use_certificate_chain_file lib (cfg_chainFile cfg)
      then Inl ''Failed to load certificate chain''
      else Inr ())"

fun version_option :: "SSLVersion \<Rightarrow> ssl_option" where
  "version_option TLS_1_0 = SSL_OP_NO_TLSv1"
| "version_option TLS_1_1 = SSL_OP_NO_TLSv1_1"
| "version_option TLS_1_2 = SSL_OP_NO_TLSv1_2"
| "version_option TLS_1_3 = SSL_OP_NO_TLSv1_3"

definition setupProtocol :: "ctx_lib \<Rightarrow> ssl_config \<Rightarrow> ssl_ctx \<Rightarrow> string + ssl_ctx" where
  "setupProtocol lib cfg ctx =
     (let options = insert (version_option (cfg_version cfg)) {SSL_OP_NO_SSLv2, SSL_OP_NO_SSLv3};
          ctx1 = ctx\<lparr>ctx_options := ctx_options ctx \<union> options\<rparr>
      in if cfg_cipherList cfg \<noteq> []
         then if \<not> SSL_CTX_set_cipher_list lib (cfg_cipherList cfg)
              then Inl ''Failed to set cipher list''
              else Inr (ctx1\<lparr>ctx_cipherList := Some (cfg_cipherList cfg)\<rparr>)
         else Inr ctx1)"

definition setupSessionCache :: "ssl_config \<Rightarrow> ssl_ctx \<Rightarrow> ssl_ctx" where
  "setupSessionCache cfg ctx = ctx\<lparr>ctx_cacheServer := True, ctx_cacheSize := cfg_sessionCacheSize cfg,
     ctx_timeout := cfg_sessionTimeout cfg\<rparr>"

definition initialize_ctx :: "ctx_lib \<Rightarrow> ssl_config \<Rightarrow> string + ssl_ctx" where
  "initialize_ctx lib cfg =
     (if \<not> SSL_CTX_new lib then Inl ''Failed to create SSL context''
      else let ctx = new_ssl_ctx\<lparr>ctx_options := {SSL_OP_NO_SSLv2, SSL_OP_NO_SSLv3, SSL_OP_NO_COMPRESSION,
                 SSL_OP_CIPHER_SERVER_PREFERENCE}\<rparr>
           in case loadCertificates lib cfg of
                Inl m \<Rightarrow> Inl m
              | Inr _ \<Rightarrow> (case setupProtocol lib cfg ctx of
                     Inl m \<Rightarrow> Inl m
                   | Inr ctx1 \<Rightarrow> Inr (setupSessionCache cfg ctx1)))"

text \<open>\<^verbatim>\<open>setSslConfig\<close>: without TLS nothing happens, a context that cannot be set up aborts the process.\<close>

definition setSslConfig :: "ctx_lib \<Rightarrow> bool \<Rightarrow> ssl_config \<Rightarrow> ssl_ctx option \<Rightarrow> ssl_ctx option outcome" where
  "setSslConfig lib useSSL cfg sslCtx =
     (if useSSL
      then (case initialize_ctx lib cfg of Inl _ \<Rightarrow> Crashed | Inr ctx \<Rightarrow> Done (Some ctx))
      else Done sslCtx)"

text \<open>The protocol versions a context with these options negotiates.\<close>

definition offers :: "ssl_ctx \<Rightarrow> SSLVersion \<Rightarrow> bool" where
  "offers ctx v \<longleftrightarrow> version_option v \<notin> ctx_options ctx"

lemma version_option_inject [simp]: "version_option v = version_option w \<longleftrightarrow> v = w"
  by (cases v; cases w) simp_all

lemma version_option_other [simp]:
  "version_option v \<noteq> SSL_OP_NO_SSLv2" "version_option v \<noteq> SSL_OP_NO_SSLv3"
  "version_option v \<noteq> SSL_OP_NO_COMPRESSION" "version_option v \<noteq> SSL_OP_CIPHER_SERVER_PREFERENCE"
  by (cases v; simp)+

section \<open>One connection\<close>

datatype ssl_error_code =
    SSL_ERROR_NONE | SSL_ERROR_WANT_READ | SSL_ERROR_WANT_WRITE | SSL_ERROR_SYSCALL | SSL_ERROR_SSL
  | SSL_ERROR_OTHER

text \<open>
  The calls on an \<^verbatim>\<open>SSL\<close> object and its BIOs. \<open>SSL_new\<close> is \<open>None\<close> when the object cannot be
  created, \<open>BIO_new_ok\<close> tells whether both BIOs could be. Reads return the code, the bytes written into the
  caller's array and the engine.
\<close>

record 'e openssl =
  SSL_new :: "'e option"
  BIO_new_ok :: bool
  SSL_do_handshake :: "'e \<Rightarrow> int \<times> 'e"
  SSL_get_error :: "'e \<Rightarrow> int \<Rightarrow> ssl_error_code"
  SSL_read :: "nat \<Rightarrow> 'e \<Rightarrow> int \<times> string \<times> 'e"
  SSL_write :: "string \<Rightarrow> 'e \<Rightarrow> int \<times> 'e"
  BIO_write :: "string \<Rightarrow> 'e \<Rightarrow> 'e"
  BIO_pending :: "'e \<Rightarrow> int"
  BIO_read :: "nat \<Rightarrow> 'e \<Rightarrow> int \<times> string \<times> 'e"

record 'e ssl_conn =
  ssl_obj :: "'e option"
  ssl_state :: SSLState
  ssl_readBuffer :: string
  ssl_writeBuffer :: string
  ssl_decryptedBuffer :: string
  ssl_messageCallback :: bool

text \<open>The constructor; the boolean says whether the connection's message callback is now \<^verbatim>\<open>onRead\<close>.\<close>

definition SslConnection :: "'e openssl \<Rightarrow> bool \<times> 'e ssl_conn" where
  "SslConnection lib =
     (let sc = \<lparr>ssl_obj = None, ssl_state = HANDSHAKE, ssl_readBuffer = [], ssl_writeBuffer = [],
                ssl_decryptedBuffer = [], ssl_messageCallback = False\<rparr>
      in case SSL_new lib of
           None \<Rightarrow> (False, sc)
         | Some e \<Rightarrow> if \<not> BIO_new_ok lib then (False, sc) else (True, sc\<lparr>ssl_obj := Some e\<rparr>))"

definition isHandshakeCompleted :: "'e ssl_conn \<Rightarrow> bool" where
  "isHandshakeCompleted sc \<longleftrightarrow> ssl_state sc = ESTABLISHED"

definition setMessageCallback :: "'e ssl_conn \<Rightarrow> 'e ssl_conn" where
  "setMessageCallback sc = sc\<lparr>ssl_messageCallback := True\<rparr>"

definition handleHandshake :: "'e openssl \<Rightarrow> 'w tcp_ops \<Rightarrow> 'e \<Rightarrow> 'e ssl_conn \<Rightarrow> 'w \<Rightarrow> 'e ssl_conn \<times> 'w" where
  "handleHandshake lib ops e sc w =
     (let (ret, e1) = SSL_do_handshake lib e; sc1 = sc\<lparr>ssl_obj := Some e1\<rparr>
      in if ret = 1 then (sc1\<lparr>ssl_state := ESTABLISHED\<rparr>, w)
         else (case SSL_get_error lib e1 ret of
                 SSL_ERROR_WANT_READ \<Rightarrow> (sc1, w)
               | SSL_ERROR_WANT_WRITE \<Rightarrow> (sc1, w)
               | _ \<Rightarrow> (sc1, op_shutdown ops w)))"

text \<open>The calls on a null \<^verbatim>\<open>SSL\<close> pointer are undefined.\<close>

definition startHandshake ::
  "'e openssl \<Rightarrow> 'w tcp_ops \<Rightarrow> 'e ssl_conn \<Rightarrow> 'w \<Rightarrow> unit outcome \<times> 'e ssl_conn \<times> 'w" where
  "startHandshake lib ops sc w =
     (case ssl_obj sc of
        None \<Rightarrow> (Crashed, sc, w)
      | Some e \<Rightarrow> (Done (), handleHandshake lib ops e sc w))"

text \<open>The loop of \<^verbatim>\<open>send\<close> that drains the write BIO into the connection.\<close>

partial_function (option) flush_loop ::
  "'e openssl \<Rightarrow> 'w tcp_ops \<Rightarrow> 'e \<Rightarrow> 'w \<Rightarrow> ('e \<times> 'w) option" where
  "flush_loop lib ops e w =
     (if BIO_pending lib e > 0
      then (case BIO_read lib (nat (min (BIO_pending lib e) 4096)) e of
              (bytes, dat, e1) \<Rightarrow>
                flush_loop lib ops e1 (if bytes > 0 then op_send ops (take (nat bytes) dat) w else w))
      else Some (e, w))"

declare flush_loop.simps [code]

definition ssl_send ::
  "'e openssl \<Rightarrow> 'w tcp_ops \<Rightarrow> string \<Rightarrow> 'e ssl_conn \<Rightarrow> 'w \<Rightarrow> (unit outcome \<times> 'e ssl_conn \<times> 'w) option" where
  "ssl_send lib ops dat sc w =
     (if ssl_state sc \<noteq> ESTABLISHED then Some (Done (), sc, w)
      else case ssl_obj sc of
          None \<Rightarrow> Some (Crashed, sc, w)
        | Some e \<Rightarrow>
            (case SSL_write lib dat e of
               (written, e1) \<Rightarrow>
                 if written \<le> 0 then Some (Done (), sc\<lparr>ssl_obj := Some e1\<rparr>, w)
                 else (case flush_loop lib ops e1 w of
                         None \<Rightarrow> None
                       | Some (e2, w1) \<Rightarrow> Some (Done (), sc\<lparr>ssl_obj := Some e2\<rparr>, w1))))"

text \<open>\<^verbatim>\<open>onEncrypted\<close>, \<^verbatim>\<open>onDecrypted\<close>, the error mapping and the BIO callbacks; nothing calls them.\<close>

text \<open>muduo's \<^verbatim>\<open>send(Buffer*)\<close> takes the whole buffer.\<close>

definition onEncrypted :: "'w tcp_ops \<Rightarrow> string \<Rightarrow> 'e ssl_conn \<Rightarrow> 'w \<Rightarrow> 'e ssl_conn \<times> 'w" where
  "onEncrypted ops dat sc w =
     (sc\<lparr>ssl_writeBuffer := []\<rparr>, op_send ops (ssl_writeBuffer sc @ dat) w)"

definition onDecrypted :: "string \<Rightarrow> 'e ssl_conn \<Rightarrow> 'e ssl_conn" where
  "onDecrypted dat sc = sc\<lparr>ssl_decryptedBuffer := ssl_decryptedBuffer sc @ dat\<rparr>"

definition getLastError :: "'e openssl \<Rightarrow> 'e \<Rightarrow> int \<Rightarrow> SSLError" where
  "getLastError lib e ret =
     (case SSL_get_error lib e ret of
        SSL_ERROR_NONE \<Rightarrow> E_NONE
      | SSL_ERROR_WANT_READ \<Rightarrow> E_WANT_READ
      | SSL_ERROR_WANT_WRITE \<Rightarrow> E_WANT_WRITE
      | SSL_ERROR_SYSCALL \<Rightarrow> E_SYSCALL
      | SSL_ERROR_SSL \<Rightarrow> E_SSL
      | SSL_ERROR_OTHER \<Rightarrow> E_UNKNOWN)"

definition handleError :: "'w tcp_ops \<Rightarrow> SSLError \<Rightarrow> 'e ssl_conn \<Rightarrow> 'w \<Rightarrow> 'e ssl_conn \<times> 'w" where
  "handleError ops err sc w =
     (if err \<in> {E_WANT_READ, E_WANT_WRITE} then (sc, w)
      else if err \<in> {E_SSL, E_SYSCALL, E_UNKNOWN}
      then (sc\<lparr>ssl_state := ERROR\<rparr>, op_shutdown ops w)
      else (sc, w))"

definition bioWrite :: "'w tcp_ops \<Rightarrow> 'e ssl_conn option \<Rightarrow> string \<Rightarrow> 'w \<Rightarrow> int \<times> 'w" where
  "bioWrite ops conn dat w =
     (case conn of None \<Rightarrow> (-1, w) | Some _ \<Rightarrow> (int (length dat), op_send ops dat w))"

definition bioRead :: "'e ssl_conn option \<Rightarrow> nat \<Rightarrow> int \<times> string \<times> 'e ssl_conn option" where
  "bioRead conn len =
     (case conn of
        None \<Rightarrow> (-1, [], None)
      | Some sc \<Rightarrow>
          let readable = length (ssl_readBuffer sc); toRead = min len readable
          in if readable = 0 then (-1, [], Some sc)
             else (int toRead, take toRead (ssl_readBuffer sc),
                   Some (sc\<lparr>ssl_readBuffer := drop toRead (ssl_readBuffer sc)\<rparr>)))"

section \<open>The server with TLS\<close>

text \<open>Which function a connection calls for received bytes.\<close>

datatype message_callback = Cb_onMessage | Cb_onRead

record ('w, 'e) tls_server =
  tls_server :: "'w server"
  tls_useSSL :: bool
  tls_sslConns :: "nat \<rightharpoonup> 'e ssl_conn"
  tls_contexts :: "nat \<rightharpoonup> http_context"
  tls_callbacks :: "nat \<Rightarrow> message_callback"

definition enableSSL :: "bool \<Rightarrow> ('w, 'e) tls_server \<Rightarrow> ('w, 'e) tls_server" where
  "enableSSL enable s = s\<lparr>tls_useSSL := enable\<rparr>"

definition tls_world :: "'w \<Rightarrow> ('w, 'e) tls_server \<Rightarrow> ('w, 'e) tls_server" where
  "tls_world w s = s\<lparr>tls_server := (tls_server s)\<lparr>srv_world := w\<rparr>\<rparr>"

definition set_sslConn :: "nat \<Rightarrow> 'e ssl_conn \<Rightarrow> ('w, 'e) tls_server \<Rightarrow> ('w, 'e) tls_server" where
  "set_sslConn conn sc s = s\<lparr>tls_sslConns := (tls_sslConns s)(conn \<mapsto> sc)\<rparr>"

definition onConnection_tls ::
  "'e openssl \<Rightarrow> 'w tcp_ops \<Rightarrow> nat \<Rightarrow> ('w, 'e) tls_server \<Rightarrow> unit outcome \<times> ('w, 'e) tls_server" where
  "onConnection_tls lib ops conn s =
     (let w = srv_world (tls_server s)
      in if op_connected ops w
         then let (oc, s1) =
                (if tls_useSSL s
                 then (case SslConnection lib of
                         (bound, sc) \<Rightarrow>
                           let s1 = s\<lparr>tls_callbacks := (if bound then (tls_callbacks s)(conn := Cb_onRead)
                                                        else tls_callbacks s)\<rparr>
                           in (case startHandshake lib ops (setMessageCallback sc) w of
                                 (oc, sc1, w1) \<Rightarrow> (oc, tls_world w1 (set_sslConn conn sc1 s1))))
                 else (Done (), s))
              in (case oc of
                    Done _ \<Rightarrow> (Done (), s1\<lparr>tls_contexts := (tls_contexts s1)(conn \<mapsto> new_context)\<rparr>)
                  | _ \<Rightarrow> (oc, s1))
         else if tls_useSSL s
         then (Done (), s\<lparr>tls_sslConns := (tls_sslConns s)(conn := None)\<rparr>)
         else (Done (), s))"

text \<open>The part of \<^verbatim>\<open>onMessage\<close> after the TLS branch; a missing context is a null pointer.\<close>

definition serve_bytes ::
  "(string \<Rightarrow> nat option) \<Rightarrow> 'w tcp_ops \<Rightarrow> 'w handler \<Rightarrow> nat \<Rightarrow> timestamp \<Rightarrow> string \<Rightarrow>
   ('w, 'e) tls_server \<Rightarrow> (unit outcome \<times> string \<times> ('w, 'e) tls_server) option" where
  "serve_bytes findCRLF ops cb conn t buf s =
     (case tls_contexts s conn of
        None \<Rightarrow> Some (Crashed, buf, s)
      | Some c \<Rightarrow>
          (case onMessage findCRLF ops cb conn t (tls_server s) c buf of
             None \<Rightarrow> None
           | Some (oc, st, c1, buf1) \<Rightarrow>
               Some (oc, buf1, s\<lparr>tls_server := st, tls_contexts := (tls_contexts s)(conn \<mapsto> c1)\<rparr>)))"

text \<open>The bytes \<^verbatim>\<open>onRead\<close> feeds to the handshake.\<close>

definition read_handshake ::
  "'e openssl \<Rightarrow> 'w tcp_ops \<Rightarrow> nat \<Rightarrow> string \<Rightarrow> 'e ssl_conn \<Rightarrow> 'e \<Rightarrow> ('w, 'e) tls_server \<Rightarrow> ('w, 'e) tls_server" where
  "read_handshake lib ops conn buf sc e s =
     (case handleHandshake lib ops (BIO_write lib buf e) sc (srv_world (tls_server s)) of
        (sc1, w) \<Rightarrow> tls_world w (set_sslConn conn sc1 s))"

text \<open>What \<^verbatim>\<open>onMessage\<close> does after \<^verbatim>\<open>onRead\<close> has come back.\<close>

definition after_onRead ::
  "(string \<Rightarrow> nat option) \<Rightarrow> 'w tcp_ops \<Rightarrow> 'w handler \<Rightarrow> nat \<Rightarrow> timestamp \<Rightarrow>
   unit outcome \<times> string \<times> ('w, 'e) tls_server \<Rightarrow> (unit outcome \<times> string \<times> ('w, 'e) tls_server) option" where
  "after_onRead findCRLF ops cb conn t r =
     (case r of
        (Done _, buf, s) \<Rightarrow>
          (case tls_sslConns s conn of
             None \<Rightarrow> Some (Crashed, buf, s)
           | Some sc \<Rightarrow>
               if \<not> isHandshakeCompleted sc \<or> ssl_decryptedBuffer sc = [] then Some (Done (), buf, s)
               else (case serve_bytes findCRLF ops cb conn t (ssl_decryptedBuffer sc) s of
                       None \<Rightarrow> None
                     | Some (oc, dec, s1) \<Rightarrow>
                         Some (oc, buf, set_sslConn conn (sc\<lparr>ssl_decryptedBuffer := dec\<rparr>) s1)))
      | (Threw (Std_exception e), _, s) \<Rightarrow>
          Some (Done (), [], s\<lparr>tls_server := give_up ops (tls_server s)\<rparr>)
      | _ \<Rightarrow> Some r)"

text \<open>
  \<^verbatim>\<open>SslConnection::onRead\<close> and \<^verbatim>\<open>HttpServer::onMessage\<close>, by the callback that is entered. The result
  has the bytes left in the caller's buffer. A connection whose entry in \<^verbatim>\<open>sslConns_\<close> is gone has a
  dangling callback.
\<close>

partial_function (option) received ::
  "(string \<Rightarrow> nat option) \<Rightarrow> 'e openssl \<Rightarrow> 'w tcp_ops \<Rightarrow> 'w handler \<Rightarrow> nat \<Rightarrow> timestamp \<Rightarrow>
   message_callback \<Rightarrow> string \<Rightarrow> ('w, 'e) tls_server \<Rightarrow>
   (unit outcome \<times> string \<times> ('w, 'e) tls_server) option" where
  "received findCRLF lib ops cb conn t callback buf s =
     (case callback of
        Cb_onRead \<Rightarrow>
          (case tls_sslConns s conn of
             None \<Rightarrow> Some (Crashed, buf, s)
           | Some sc \<Rightarrow>
               if ssl_state sc = HANDSHAKE
               then (case ssl_obj sc of
                       None \<Rightarrow> Some (Crashed, buf, s)
                     | Some e \<Rightarrow> Some (Done (), [], read_handshake lib ops conn buf sc e s))
               else if ssl_state sc = ESTABLISHED
               then (case ssl_obj sc of
                       None \<Rightarrow> Some (Crashed, buf, s)
                     | Some e \<Rightarrow>
                         (case SSL_read lib 4096 e of
                            (ret, decryptedData, e1) \<Rightarrow>
                              if ret > 0 \<and> ssl_messageCallback sc
                              then Option.bind
                                     (received findCRLF lib ops cb conn t Cb_onMessage
                                        (take (nat ret) decryptedData)
                                        (set_sslConn conn (sc\<lparr>ssl_obj := Some e1\<rparr>) s))
                                     (\<lambda>r. Some (fst r, buf, snd (snd r)))
                              else Some (Done (), buf, set_sslConn conn (sc\<lparr>ssl_obj := Some e1\<rparr>) s)))
               else Some (Done (), buf, s))
      | Cb_onMessage \<Rightarrow>
          (if tls_useSSL s \<and> tls_sslConns s conn \<noteq> None
           then Option.bind (received findCRLF lib ops cb conn t Cb_onRead buf s)
                  (after_onRead findCRLF ops cb conn t)
           else serve_bytes findCRLF ops cb conn t buf s))"

declare received.simps [code]

definition onRead ::
  "(string \<Rightarrow> nat option) \<Rightarrow> 'e openssl \<Rightarrow> 'w tcp_ops \<Rightarrow> 'w handler \<Rightarrow> nat \<Rightarrow> timestamp \<Rightarrow> string \<Rightarrow>
   ('w, 'e) tls_server \<Rightarrow> (unit outcome \<times> string \<times> ('w, 'e) tls_server) option" where
  "onRead f lib ops cb conn t = received f lib ops cb conn t Cb_onRead"

definition onMessage_tls ::
  "(string \<Rightarrow> nat option) \<Rightarrow> 'e openssl \<Rightarrow> 'w tcp_ops \<Rightarrow> 'w handler \<Rightarrow> nat \<Rightarrow> timestamp \<Rightarrow> string \<Rightarrow>
   ('w, 'e) tls_server \<Rightarrow> (unit outcome \<times> string \<times> ('w, 'e) tls_server) option" where
  "onMessage_tls f lib ops cb conn t = received f lib ops cb conn t Cb_onMessage"

text \<open>muduo hands the bytes received on a connection to the callback it has now.\<close>

definition deliver ::
  "(string \<Rightarrow> nat option) \<Rightarrow> 'e openssl \<Rightarrow> 'w tcp_ops \<Rightarrow> 'w handler \<Rightarrow> nat \<Rightarrow> timestamp \<Rightarrow> string \<Rightarrow>
   ('w, 'e) tls_server \<Rightarrow> (unit outcome \<times> string \<times> ('w, 'e) tls_server) option" where
  "deliver f lib ops cb conn t buf s =
     (case tls_callbacks s conn of
        Cb_onRead \<Rightarrow> onRead f lib ops cb conn t buf s
      | Cb_onMessage \<Rightarrow> onMessage_tls f lib ops cb conn t buf s)"

section \<open>Without TLS\<close>

lemma deliver_plain:
  assumes "\<not> tls_useSSL s" and "tls_callbacks s conn = Cb_onMessage" and "tls_contexts s conn = Some c"
  shows "deliver f lib ops cb conn t buf s =
    (case onMessage f ops cb conn t (tls_server s) c buf of
       None \<Rightarrow> None
     | Some (oc, st, c1, buf1) \<Rightarrow>
         Some (oc, buf1, s\<lparr>tls_server := st, tls_contexts := (tls_contexts s)(conn \<mapsto> c1)\<rparr>))"
  using assms by (simp add: deliver_def onMessage_tls_def received.simps serve_bytes_def)

section \<open>Draining the write BIO\<close>

text \<open>
  The documented behaviour of a memory BIO: it is a queue of bytes (\<open>out\<close>), \<^verbatim>\<open>BIO_pending\<close> is its
  length and \<^verbatim>\<open>BIO_read\<close> removes at most as many bytes as asked, all it has if that is fewer.
\<close>

definition mem_bio :: "'e openssl \<Rightarrow> ('e \<Rightarrow> string) \<Rightarrow> bool" where
  "mem_bio lib out \<longleftrightarrow> (\<forall>e n. BIO_pending lib e = int (length (out e)) \<and>
     (n > 0 \<and> out e \<noteq> [] \<longrightarrow>
        (case BIO_read lib n e of
           (k, dat, e1) \<Rightarrow> k = int (min n (length (out e))) \<and> dat = take n (out e) \<and>
                          out e1 = drop n (out e))))"

fun chunks :: "nat \<Rightarrow> string \<Rightarrow> string list" where
  "chunks n [] = []"
| "chunks n (c # s) = (if n = 0 then [] else take n (c # s) # chunks n (drop n (c # s)))"

lemma chunks_Cons: "s \<noteq> [] \<Longrightarrow> n > 0 \<Longrightarrow> chunks n s = take n s # chunks n (drop n s)"
  by (cases s) simp_all

lemma flush_loop_sends:
  assumes "mem_bio lib out"
  shows "\<exists>e1. flush_loop lib ops e w = Some (e1, fold (op_send ops) (chunks 4096 (out e)) w) \<and> out e1 = []"
proof (induction "length (out e)" arbitrary: e w rule: less_induct)
  case less
  have p: "BIO_pending lib e = int (length (out e))" using assms by (simp add: mem_bio_def)
  show ?case
  proof (cases "out e = []")
    case True
    with p show ?thesis by (simp add: flush_loop.simps)
  next
    case False
    let ?n = "min (length (out e)) 4096"
    obtain k dat e1 where r: "BIO_read lib ?n e = (k, dat, e1)" by (cases "BIO_read lib ?n e")
    have n: "?n > 0" using False by simp
    with assms False r have k: "k = int ?n" "dat = take ?n (out e)" "out e1 = drop ?n (out e)"
      unfolding mem_bio_def by (auto dest!: spec [of _ e] spec [of _ ?n] simp: min.assoc)
    have t: "take ?n dat = take 4096 (out e)" "drop ?n (out e) = drop 4096 (out e)"
      by (simp_all add: k min_def)
    have nn: "nat (min (int (length (out e))) 4096) = ?n" by simp
    have "flush_loop lib ops e w = flush_loop lib ops e1 (op_send ops (take 4096 (out e)) w)"
      by (subst flush_loop.simps) (use p False n in \<open>simp add: nn r t(1) k(1)\<close>)
    moreover from False have "length (out e1) < length (out e)" by (simp add: k(3))
    ultimately show ?thesis
      using less [of e1] False by (simp add: chunks_Cons k(3) t(2))
  qed
qed

section \<open>With TLS\<close>

text \<open>
  What makes the recursion end: the engine holds finitely many decrypted bytes between two writes to
  its input BIO, and a read that returns bytes consumes some of them.
\<close>

definition finite_reads :: "'e openssl \<Rightarrow> ('e \<Rightarrow> nat) \<Rightarrow> bool" where
  "finite_reads lib avail \<longleftrightarrow>
     (\<forall>e n. case SSL_read lib n e of (ret, dat, e1) \<Rightarrow> ret > 0 \<longrightarrow> avail e1 < avail e)"

text \<open>The connection as \<^verbatim>\<open>onConnection\<close> sets it up and every delivery leaves it.\<close>

definition tls_conn_ok :: "nat \<Rightarrow> ('w, 'e) tls_server \<Rightarrow> bool" where
  "tls_conn_ok conn s \<longleftrightarrow> tls_useSSL s \<and> tls_callbacks s conn = Cb_onRead \<and>
     (case tls_sslConns s conn of
        None \<Rightarrow> False
      | Some sc \<Rightarrow> ssl_obj sc \<noteq> None \<and> ssl_state sc \<in> {HANDSHAKE, ESTABLISHED} \<and> ssl_decryptedBuffer sc = [])"

text \<open>What a delivery leaves alone: everything but the engine and the connection's own state.\<close>

definition not_served :: "'w tcp_ops \<Rightarrow> nat \<Rightarrow> ('w, 'e) tls_server \<Rightarrow> ('w, 'e) tls_server \<Rightarrow> bool" where
  "not_served ops conn s s1 \<longleftrightarrow> srv_sequence (tls_server s1) = srv_sequence (tls_server s) \<and>
     srv_log (tls_server s1) = srv_log (tls_server s) \<and> tls_contexts s1 = tls_contexts s \<and>
     srv_world (tls_server s1) \<in> {srv_world (tls_server s), op_shutdown ops (srv_world (tls_server s))} \<and>
     tls_callbacks s1 = tls_callbacks s \<and> (\<forall>k. k \<noteq> conn \<longrightarrow> tls_sslConns s1 k = tls_sslConns s k)"

lemma handleHandshake_result:
  "handleHandshake lib ops e sc w = (sc1, w1) \<Longrightarrow>
     ssl_obj sc1 \<noteq> None \<and> (ssl_state sc1 = ssl_state sc \<or> ssl_state sc1 = ESTABLISHED) \<and>
     ssl_decryptedBuffer sc1 = ssl_decryptedBuffer sc \<and> ssl_messageCallback sc1 = ssl_messageCallback sc \<and>
     (w1 = w \<or> w1 = op_shutdown ops w)"
  by (auto simp: handleHandshake_def Let_def split: prod.splits if_splits ssl_error_code.splits)


lemma tls_state_simps [simp]:
  "tls_useSSL (set_sslConn conn sc s) = tls_useSSL s" "tls_useSSL (tls_world w s) = tls_useSSL s"
  "tls_callbacks (set_sslConn conn sc s) = tls_callbacks s" "tls_callbacks (tls_world w s) = tls_callbacks s"
  "tls_sslConns (set_sslConn conn sc s) = (tls_sslConns s)(conn \<mapsto> sc)"
  "tls_sslConns (tls_world w s) = tls_sslConns s"
  "tls_contexts (set_sslConn conn sc s) = tls_contexts s" "tls_contexts (tls_world w s) = tls_contexts s"
  "tls_server (set_sslConn conn sc s) = tls_server s"
  "tls_server (tls_world w s) = (tls_server s)\<lparr>srv_world := w\<rparr>"
  by (simp_all add: set_sslConn_def tls_world_def)

lemma read_handshake_not_served:
  assumes "tls_conn_ok conn s" and "tls_sslConns s conn = Some sc" and "ssl_state sc = HANDSHAKE"
  shows "tls_conn_ok conn (read_handshake lib ops conn buf sc e s) \<and>
    not_served ops conn s (read_handshake lib ops conn buf sc e s)"
proof -
  obtain sc1 w where h: "handleHandshake lib ops (BIO_write lib buf e) sc (srv_world (tls_server s)) = (sc1, w)"
    by fastforce
  from handleHandshake_result [OF h] assms show ?thesis
    by (auto simp: read_handshake_def h tls_conn_ok_def not_served_def)
qed

lemma onRead_not_served:
  assumes "finite_reads lib avail"
  shows "tls_conn_ok conn s \<Longrightarrow> tls_sslConns s conn = Some sc \<Longrightarrow> ssl_obj sc = Some e \<Longrightarrow>
    \<exists>buf1 s1. received f lib ops cb conn t Cb_onRead buf s = Some (Done (), buf1, s1) \<and>
      tls_conn_ok conn s1 \<and> not_served ops conn s s1"
proof (induction "avail e" arbitrary: e sc s buf rule: less_induct)
  case less
  show ?case
  proof (cases "ssl_state sc = HANDSHAKE")
    case True
    with less.prems read_handshake_not_served [OF less.prems(1,2)] show ?thesis
      by (simp add: received.simps [of f lib ops cb conn t Cb_onRead])
  next
    case False
    with less.prems have est: "ssl_state sc = ESTABLISHED" by (auto simp: tls_conn_ok_def)
    obtain ret dat e1 where r: "SSL_read lib 4096 e = (ret, dat, e1)" by (cases "SSL_read lib 4096 e")
    let ?sc = "sc\<lparr>ssl_obj := Some e1\<rparr>" and ?s = "set_sslConn conn (sc\<lparr>ssl_obj := Some e1\<rparr>) s"
    have s: "tls_conn_ok conn ?s" "not_served ops conn s ?s"
      using less.prems by (auto simp: tls_conn_ok_def not_served_def)
    have conn: "tls_sslConns ?s conn = Some ?sc" "ssl_obj ?sc = Some e1" by simp_all
    show ?thesis
    proof (cases "ret > 0 \<and> ssl_messageCallback sc")
      case False
      with less.prems est r s show ?thesis
        by (auto simp: received.simps [of f lib ops cb conn t Cb_onRead])
    next
      case True
      with assms r have "avail e1 < avail e" by (auto simp: finite_reads_def dest!: spec [of _ e] spec [of _ 4096])
      from less.hyps [OF this s(1) conn] obtain buf1 s1
        where i: "received f lib ops cb conn t Cb_onRead (take (nat ret) dat) ?s = Some (Done (), buf1, s1)"
          "tls_conn_ok conn s1" "not_served ops conn ?s s1" by blast
      then have "received f lib ops cb conn t Cb_onMessage (take (nat ret) dat) ?s = Some (Done (), buf1, s1)"
        using s(1) by (subst received.simps)
          (auto simp: tls_conn_ok_def after_onRead_def split: option.splits)
      with less.prems est r True have
        "received f lib ops cb conn t Cb_onRead buf s = Some (Done (), buf, s1)"
        by (subst received.simps) simp
      with i show ?thesis by (auto simp: not_served_def)
    qed
  qed
qed

lemma deliver_not_served:
  assumes "finite_reads lib avail" and "tls_conn_ok conn s"
  obtains buf1 s1 where "deliver f lib ops cb conn t buf s = Some (Done (), buf1, s1)" "tls_conn_ok conn s1" "not_served ops conn s s1"
proof -
  from assms(2) obtain sc e where "tls_sslConns s conn = Some sc" "ssl_obj sc = Some e"
    and cb: "tls_callbacks s conn = Cb_onRead"
    by (auto simp: tls_conn_ok_def split: option.splits)
  from onRead_not_served [OF assms this(1,2)] cb that show ?thesis
    unfolding deliver_def onRead_def by (metis (no_types, lifting) message_callback.simps(4))
qed

lemma onConnection_tls_ok:
  assumes "op_connected ops (srv_world (tls_server s))" and "tls_useSSL s"
    and "SSL_new lib = Some e" and "BIO_new_ok lib"
  shows "fst (onConnection_tls lib ops conn s) = Done () \<and> tls_conn_ok conn (snd (onConnection_tls lib ops conn s)) \<and>
    tls_contexts (snd (onConnection_tls lib ops conn s)) conn = Some new_context"
proof -
  let ?sc = "setMessageCallback (snd (SslConnection lib))"
  obtain sc1 w1 where h: "handleHandshake lib ops e ?sc (srv_world (tls_server s)) = (sc1, w1)"
    by fastforce
  have sc: "ssl_obj ?sc = Some e" "ssl_state ?sc = HANDSHAKE" "ssl_decryptedBuffer ?sc = []"
    using assms by (simp_all add: SslConnection_def setMessageCallback_def)
  have b: "SslConnection lib = (True, snd (SslConnection lib))"
    using assms by (simp add: SslConnection_def)
  from handleHandshake_result [OF h] sc show ?thesis
    unfolding onConnection_tls_def Let_def
    by (subst (1 2 3) b) (use assms h sc in \<open>auto simp: startHandshake_def tls_conn_ok_def\<close>)
qed

section \<open>Properties\<close>

text \<open>
  The context an initialisation returns negotiates every TLS version except the one the
  configuration selects: the selection adds the option that switches that version off. The old
  SSL versions and compression are off, and the session cache has the configured size and timeout.
\<close>

theorem configured_version_excluded:
  assumes "initialize_ctx lib cfg = Inr ctx"
  shows "(\<forall>v. offers ctx v \<longleftrightarrow> v \<noteq> cfg_version cfg) \<and>
    {SSL_OP_NO_SSLv2, SSL_OP_NO_SSLv3, SSL_OP_NO_COMPRESSION} \<subseteq> ctx_options ctx \<and>
    ctx_cacheSize ctx = cfg_sessionCacheSize cfg \<and> ctx_timeout ctx = cfg_sessionTimeout cfg"
  using assms
  by (auto simp: initialize_ctx_def setupProtocol_def setupSessionCache_def offers_def Let_def
      split: if_splits sum.splits)

definition willing_ctx :: ctx_lib where
  "willing_ctx = \<lparr>SSL_CTX_new = True, SSL_CTX_use_certificate_file = (\<lambda>f. f \<noteq> []),
     SSL_CTX_use_PrivateKey_file = (\<lambda>f. f \<noteq> []), SSL_CTX_check_private_key = True,
     SSL_CTX_use_certificate_chain_file = (\<lambda>_. False), SSL_CTX_set_cipher_list = (\<lambda>_. True)\<rparr>"

definition some_config :: ssl_config where
  "some_config = SslConfig\<lparr>cfg_certFile := ''server.crt'', cfg_keyFile := ''server.key''\<rparr>"

definition some_ctx :: ssl_ctx where
  "some_ctx = \<lparr>ctx_options = {SSL_OP_NO_SSLv2, SSL_OP_NO_SSLv3, SSL_OP_NO_COMPRESSION,
       SSL_OP_CIPHER_SERVER_PREFERENCE, SSL_OP_NO_TLSv1_2},
     ctx_cipherList = Some ''HIGH:!aNULL:!MDS'', ctx_cacheServer = True, ctx_cacheSize = 20480,
     ctx_timeout = 300\<rparr>"

theorem configured_version_excluded_witness:
  "cfg_version some_config = TLS_1_2 \<and> \<not> offers some_ctx TLS_1_2 \<and> offers some_ctx TLS_1_3"
proof -
  have "initialize_ctx willing_ctx some_config = Inr some_ctx"
    by (auto simp: initialize_ctx_def loadCertificates_def setupProtocol_def setupSessionCache_def
        willing_ctx_def some_config_def SslConfig_def some_ctx_def new_ssl_ctx_def)
  from configured_version_excluded [OF this] show ?thesis
    by (simp add: some_config_def SslConfig_def)
qed

text \<open>
  Sending over an established connection hands everything the engine has to write to the
  network: the call ends, the pending bytes go out in order in pieces of at most 4096, and none is left.
\<close>

theorem ssl_send_flushes:
  assumes "mem_bio lib out" and "ssl_state sc = ESTABLISHED" and "ssl_obj sc = Some e"
    and "SSL_write lib dat e = (n, e1)" and "n > 0"
  shows "\<exists>e2 pieces. ssl_send lib ops dat sc w =
      Some (Done (), sc\<lparr>ssl_obj := Some e2\<rparr>, fold (op_send ops) pieces w) \<and>
    out e2 = [] \<and> concat pieces = out e1 \<and> list_all (\<lambda>p. length p \<le> 4096) pieces"
proof -
  have c: "concat (chunks 4096 s) = s" for s by (induction "4096::nat" s rule: chunks.induct) simp_all
  have l: "list_all (\<lambda>p. length p \<le> 4096) (chunks 4096 s)" for s
    by (induction "4096::nat" s rule: chunks.induct) simp_all
  from flush_loop_sends [OF assms(1), of ops e1 w] assms(2-) c l show ?thesis
    by (fastforce simp: ssl_send_def)
qed

text \<open>An engine that does not encrypt: what is waiting in its input, and in its output.\<close>

definition clear_engine :: "(string \<times> string) openssl" where
  "clear_engine = \<lparr>SSL_new = Some ([], []), BIO_new_ok = True,
     SSL_do_handshake = (\<lambda>(i, ot). if i = [] then (-1, (i, ot)) else (1, (tl i, ot))),
     SSL_get_error = (\<lambda>_ _. SSL_ERROR_WANT_READ),
     SSL_read = (\<lambda>n (i, ot). if i = [] \<or> n = 0 then (-1, [], (i, ot))
                            else (int (length (take n i)), take n i, (drop n i, ot))),
     SSL_write = (\<lambda>s (i, ot). (int (length s), (i, ot @ s))),
     BIO_write = (\<lambda>s (i, ot). (i @ s, ot)),
     BIO_pending = (\<lambda>(i, ot). int (length ot)),
     BIO_read = (\<lambda>n (i, ot). (int (length (take n ot)), take n ot, (i, drop n ot)))\<rparr>"

lemma clear_engine_mem: "mem_bio clear_engine snd"
  by (auto simp: mem_bio_def clear_engine_def)

lemma clear_engine_finite: "finite_reads clear_engine (\<lambda>(i, ot). length i)"
  by (auto simp: finite_reads_def clear_engine_def)

definition established_conn :: "(string \<times> string) ssl_conn" where
  "established_conn = (setMessageCallback (snd (SslConnection clear_engine)))\<lparr>ssl_state := ESTABLISHED\<rparr>"

theorem ssl_send_flushes_witness:
  "\<exists>e2 pieces. ssl_send clear_engine log_ops ''hello'' established_conn [] =
      Some (Done (), established_conn\<lparr>ssl_obj := Some e2\<rparr>, fold (op_send log_ops) pieces []) \<and>
    snd e2 = [] \<and> concat pieces = ''hello'' \<and> list_all (\<lambda>p. length p \<le> 4096) pieces"
proof -
  have "SSL_write clear_engine ''hello'' ([], []) = (5, ([], ''hello''))" by (simp add: clear_engine_def)
  moreover have "ssl_state established_conn = ESTABLISHED" "ssl_obj established_conn = Some ([], [])"
    by (simp_all add: established_conn_def SslConnection_def setMessageCallback_def clear_engine_def)
  ultimately show ?thesis
    using ssl_send_flushes [OF clear_engine_mem, of established_conn "([], [])" "''hello''" 5 "([], ''hello'')"
        log_ops "[]"] by simp
qed

text \<open>
  With TLS enabled no request is ever served. From the moment a connection is set up,
  whatever bytes arrive, the message callback ends normally (it does not recurse forever), and it leaves
  the request counter, the request log and every parser context untouched: nothing is sent on
  the connection, at most it is shut down when the handshake fails. The decrypted bytes are passed
  to \<^verbatim>\<open>onMessage\<close>, which reads the connection's own decrypted buffer instead, and nothing fills that.
\<close>

theorem tls_serves_nothing:
  assumes "finite_reads lib avail" and "tls_conn_ok conn s"
  shows "\<exists>buf1 s1. deliver f lib ops cb conn t buf s = Some (Done (), buf1, s1) \<and>
    tls_conn_ok conn s1 \<and> srv_sequence (tls_server s1) = srv_sequence (tls_server s) \<and>
    srv_log (tls_server s1) = srv_log (tls_server s) \<and> tls_contexts s1 = tls_contexts s \<and>
    srv_world (tls_server s1) \<in> {srv_world (tls_server s), op_shutdown ops (srv_world (tls_server s))}"
  using deliver_not_served [OF assms, of f ops cb t buf] unfolding not_served_def by metis

definition tls_start :: "(conn_action list, string \<times> string) tls_server" where
  "tls_start = \<lparr>tls_server = fresh_server, tls_useSSL = True, tls_sslConns = Map.empty,
     tls_contexts = Map.empty, tls_callbacks = (\<lambda>_. Cb_onMessage)\<rparr>"

theorem tls_serves_nothing_witness:
  "\<exists>buf1 s1. deliver stub_findCRLF clear_engine log_ops defaultHttpCallback 1 0
       (''!GET / HTTP/1.1'' @ crlf @ crlf) (snd (onConnection_tls clear_engine log_ops 1 tls_start)) =
     Some (Done (), buf1, s1) \<and> srv_log (tls_server s1) = [] \<and> tls_contexts s1 1 = Some new_context"
proof -
  have "tls_conn_ok 1 (snd (onConnection_tls clear_engine log_ops 1 tls_start)) \<and>
      tls_contexts (snd (onConnection_tls clear_engine log_ops 1 tls_start)) 1 = Some new_context"
    by (rule onConnection_tls_ok [THEN conjunct2])
      (simp_all add: tls_start_def clear_engine_def log_ops_def fresh_server_def)
  moreover have "srv_log (tls_server (snd (onConnection_tls clear_engine log_ops 1 tls_start))) = []"
    by code_simp
  ultimately show ?thesis
    using tls_serves_nothing [OF clear_engine_finite, of 1
        "snd (onConnection_tls clear_engine log_ops 1 tls_start)" stub_findCRLF log_ops defaultHttpCallback 0
        "''!GET / HTTP/1.1'' @ crlf @ crlf"] by metis
qed

end
