(* ===== verification/Chat_App.thy ===== *)
theory Chat_App
  imports Image_Upload Ssl
begin

text \<open>
  \<^verbatim>\<open>AIApps/ChatServer/src/ChatServer.cpp\<close>, \<^verbatim>\<open>AIApps/ChatServer/src/main.cpp\<close> and the set-up functions of
  \<^verbatim>\<open>HttpServer/include/http/HttpServer.h\<close>: the chat server put together. The theorems give the whole routing table and
  what has happened by the time the server starts to listen.
\<close>

section \<open>Setting up an HTTP server\<close>

text \<open>\<open>kReusePort\<close> is one, \<open>kNoReusePort\<close> zero: what matters where the option is converted to \<^verbatim>\<open>bool\<close>.\<close>

datatype tcp_option = kNoReusePort | kReusePort

text \<open>The listening port is the 16 bit number \<^verbatim>\<open>InetAddress\<close> keeps of the \<^verbatim>\<open>int\<close> it is given.\<close>

record 'w http_server =
  hs_port :: "16 word"
  hs_router :: "'w router"
  hs_middlewareChain :: "'w middleware_chain"
  hs_callback :: "'w handler option"
  hs_useSSL :: bool
  hs_option :: tcp_option
  hs_threadNum :: int

text \<open>The callback is bound to \<^verbatim>\<open>handleRequest\<close> of the server itself unless another one is set.\<close>

definition HttpServer :: "int \<Rightarrow> bool \<Rightarrow> tcp_option \<Rightarrow> 'w http_server" where
  "HttpServer port useSSL option =
     \<lparr>hs_port = of_int port, hs_router = new_router, hs_middlewareChain = [], hs_callback = None, hs_useSSL = useSSL, hs_option = option,
      hs_threadNum = 0\<rparr>"

definition setThreadNum :: "int \<Rightarrow> 'w http_server \<Rightarrow> 'w http_server" where
  "setThreadNum numThreads s = s\<lparr>hs_threadNum := numThreads\<rparr>"

definition setHttpCallback :: "'w handler \<Rightarrow> 'w http_server \<Rightarrow> 'w http_server" where
  "setHttpCallback cb s = s\<lparr>hs_callback := Some cb\<rparr>"

definition server_callback :: "'w http_server \<Rightarrow> 'w handler" where
  "server_callback s =
     (case hs_callback s of None \<Rightarrow> handleRequest (hs_middlewareChain s) (hs_router s) | Some cb \<Rightarrow> cb)"

definition Get_callback :: "string \<Rightarrow> 'w handler \<Rightarrow> 'w http_server \<Rightarrow> 'w http_server" where
  "Get_callback path cb s = s\<lparr>hs_router := registerCallback kGet path cb (hs_router s)\<rparr>"

definition Get :: "string \<Rightarrow> 'w handler \<Rightarrow> 'w http_server \<Rightarrow> 'w http_server" where
  "Get path h s = s\<lparr>hs_router := registerHandler kGet path h (hs_router s)\<rparr>"

definition Post_callback :: "string \<Rightarrow> 'w handler \<Rightarrow> 'w http_server \<Rightarrow> 'w http_server" where
  "Post_callback path cb s = s\<lparr>hs_router := registerCallback kPost path cb (hs_router s)\<rparr>"

definition Post :: "string \<Rightarrow> 'w handler \<Rightarrow> 'w http_server \<Rightarrow> 'w http_server" where
  "Post path h s = s\<lparr>hs_router := registerHandler kPost path h (hs_router s)\<rparr>"

definition addRoute ::
  "(string \<Rightarrow> regex result) \<Rightarrow> http_method \<Rightarrow> string \<Rightarrow> 'w handler \<Rightarrow> 'w http_server \<Rightarrow> 'w http_server result" where
  "addRoute other_regex method path h s =
     bind_result (addRegexHandler other_regex method path h (hs_router s)) (\<lambda>rt. return (s\<lparr>hs_router := rt\<rparr>))"

definition addRoute_callback ::
  "(string \<Rightarrow> regex result) \<Rightarrow> http_method \<Rightarrow> string \<Rightarrow> 'w handler \<Rightarrow> 'w http_server \<Rightarrow> 'w http_server result" where
  "addRoute_callback other_regex method path cb s =
     bind_result (addRegexCallback other_regex method path cb (hs_router s)) (\<lambda>rt. return (s\<lparr>hs_router := rt\<rparr>))"

definition server_addMiddleware :: "'w middleware option \<Rightarrow> 'w http_server \<Rightarrow> 'w http_server" where
  "server_addMiddleware mw s = s\<lparr>hs_middlewareChain := addMiddleware mw (hs_middlewareChain s)\<rparr>"

section \<open>The chat server\<close>

definition initializeRouter ::
  "('r, 'j, 'kv, 'd) app \<Rightarrow> 'j vision_lib \<Rightarrow> 64 word \<Rightarrow> ('r, 'j, 'kv, 'd) chat_server http_server \<Rightarrow>
   ('r, 'j, 'kv, 'd) chat_server http_server" where
  "initializeRouter app vl active s =
     Post ''/chat/tts'' (ChatSpeechHandler app)
    (Get ''/chat/sessions'' (ChatSessionsHandler app)
    (Post ''/chat/send-new-session'' (ChatCreateAndSendHandler app)
    (Post ''/chat/history'' (ChatHistoryHandler app)
    (Post ''/upload/send'' (AIUploadSendHandler app vl active)
    (Get ''/upload'' (AIUploadHandler app)
    (Get ''/menu'' (AIMenuHandler app)
    (Post ''/chat/send'' (ChatSendHandler app)
    (Get ''/chat'' (ChatHandler app)
    (Post ''/user/logout'' (ChatLogoutHandler app)
    (Post ''/register'' (ChatRegisterHandler app)
    (Post ''/login'' (ChatLoginHandler app)
    (Get ''/entry'' (ChatEntryHandler app)
    (Get ''/'' (ChatEntryHandler app) s)))))))))))))"

definition initializeSession :: "'r \<Rightarrow> 'r session_state result" where
  "initializeSession rng =
     bind_result (new_storage 10000 rng) (\<lambda>storage.
     bind_result (new_manager True 60000 sessionMaxAge) (\<lambda>_. return storage))"

definition initializeMiddleware :: "'w http_server \<Rightarrow> 'w http_server" where
  "initializeMiddleware s = server_addMiddleware (Some (CorsMiddleware cors_defaultConfig)) s"

text \<open>The arguments \<^verbatim>\<open>MysqlUtil::init\<close> gets.\<close>

definition env_or :: "getenv \<Rightarrow> string \<Rightarrow> string \<Rightarrow> string" where
  "env_or env name dflt = (case env name of None \<Rightarrow> dflt | Some v \<Rightarrow> v)"

definition db_settings :: "getenv \<Rightarrow> string \<times> string \<times> string \<times> string \<times> nat" where
  "db_settings env =
     (''tcp://'' @ env_or env ''DB_HOST'' ''127.0.0.1'' @ '':3306'', env_or env ''DB_USER'' ''root'',
      env_or env ''DB_PASSWORD'' ''123456'', env_or env ''DB_NAME'' ''ChatHttpServer'', 5)"

text \<open>
  The constructor passes the port option where \<^verbatim>\<open>HttpServer\<close> expects \<^verbatim>\<open>useSSL\<close>; the server's own option has its
  default. \<open>db_init\<close> is the outcome of \<^verbatim>\<open>MysqlUtil::init\<close>.
\<close>

definition ChatServer ::
  "('r, 'j, 'kv, 'd) app \<Rightarrow> 'j vision_lib \<Rightarrow> 64 word \<Rightarrow>
   (string \<times> string \<times> string \<times> string \<times> nat \<Rightarrow> unit result) \<Rightarrow> 'r \<Rightarrow> int \<Rightarrow> tcp_option \<Rightarrow>
   (('r, 'j, 'kv, 'd) chat_server http_server \<times> 'r session_state) result" where
  "ChatServer app vl active db_init rng port option =
     bind_result (db_init (db_settings (sv_env (ap_services app)))) (\<lambda>_.
     bind_result (initializeSession rng) (\<lambda>sessions.
       return (initializeRouter app vl active (initializeMiddleware (HttpServer port (option = kReusePort) kNoReusePort)),
               sessions)))"

section \<open>Starting\<close>

text \<open>\<^verbatim>\<open>getopt\<close> has split the command line into its options; \<^verbatim>\<open>atoi\<close> is undefined beyond an \<^verbatim>\<open>int\<close>.\<close>

definition atoi :: "string \<Rightarrow> int option" where
  "atoi s =
     (case stoi s of
        Inr v \<Rightarrow> Some v
      | Inl (Invalid_argument _) \<Rightarrow> Some 0
      | Inl _ \<Rightarrow> None)"

fun port_option :: "int \<Rightarrow> (char \<times> string) list \<Rightarrow> int option" where
  "port_option port [] = Some port"
| "port_option port ((opt, optarg) # opts) =
     (if opt = CHR ''p'' then Option.bind (atoi optarg) (\<lambda>p. port_option p opts) else port_option port opts)"

definition QUEUE_NAME :: string where "QUEUE_NAME = ''sql_queue''"

text \<open>
  \<^verbatim>\<open>main\<close> from the restoration on: the result says whether \<^verbatim>\<open>server.start()\<close> is reached. \<open>model_load\<close> is the
  outcome of loading the local model, which is not fatal; \<open>constructs\<close> says whether the broker connection object can be built.
\<close>

definition startup ::
  "getenv \<Rightarrow> file_system \<Rightarrow> unit result \<Rightarrow> bool \<Rightarrow> 'd db_ops \<Rightarrow> ('r, 'j, 'kv, 'd) chat_server \<Rightarrow>
   bool \<times> ('r, 'j, 'kv, 'd) chat_server" where
  "startup env fs model_load constructs db w =
     (case waitForDependencies (readDataFromMySQL db) 30 w of
        (False, w1) \<Rightarrow> (False, w1)
      | (True, w1) \<Rightarrow>
          (case gemma_initialize fs model_load
                  (env_or env ''GEMMA_MODEL_PATH'' ''/home/qiuku/gemma.cpp/build/2.0-2b-it-sfp.sbs'')
                  (env_or env ''GEMMA_TOKENIZER_PATH'' ''/home/qiuku/gemma.cpp/build/tokenizer.spm'')
                  default_cache_policy (ch_gemma w1) of
             (_, pool) \<Rightarrow>
               (case mq_start QUEUE_NAME constructs (ch_mq w1) of
                  Inl _ \<Rightarrow> (False, w1\<lparr>ch_gemma := pool\<rparr>)
                | Inr mq \<Rightarrow> (True, w1\<lparr>ch_gemma := pool, ch_mq := mq\<rparr>))))"

text \<open>A server object as it is constructed; the inference pool and the queue manager are the process's singletons.\<close>

definition constructed ::
  "'r session_state \<Rightarrow> 'kv gemma_pool \<Rightarrow> mq_handler option \<Rightarrow> 'd \<Rightarrow> ('r, 'j, 'kv, 'd) chat_server" where
  "constructed sessions pool mq d =
     \<lparr>ch_sessions = sessions, ch_onlineUsers = [], ch_maps = empty_maps, ch_recognizers = [], ch_gemma = pool,
      ch_mq = mq, ch_db = d, ch_net = [], ch_jobs = []\<rparr>"

text \<open>
  The whole of \<^verbatim>\<open>main\<close>: \<open>Some (Some (server, state))\<close> when \<^verbatim>\<open>server.start()\<close> is reached, \<open>Some None\<close> when it returns
  \<^verbatim>\<open>EXIT_FAILURE\<close>, \<open>None\<close> when the behaviour is undefined.
\<close>

definition main_run ::
  "('r, 'j, 'kv, 'd) app \<Rightarrow> 'j vision_lib \<Rightarrow> 64 word \<Rightarrow>
   (string \<times> string \<times> string \<times> string \<times> nat \<Rightarrow> unit result) \<Rightarrow> 'r \<Rightarrow> file_system \<Rightarrow> unit result \<Rightarrow> bool \<Rightarrow>
   'kv gemma_pool \<Rightarrow> mq_handler option \<Rightarrow> 'd \<Rightarrow> (char \<times> string) list \<Rightarrow>
   (('r, 'j, 'kv, 'd) chat_server http_server \<times> ('r, 'j, 'kv, 'd) chat_server) option option" where
  "main_run app vl active db_init rng fs model_load constructs pool mq d opts =
     Option.bind (port_option 80 opts) (\<lambda>port.
       case ChatServer app vl active db_init rng port kNoReusePort of
         Inl _ \<Rightarrow> Some None
       | Inr (srv, sessions) \<Rightarrow>
           (case startup (sv_env (ap_services app)) fs model_load constructs (ap_db app) (constructed sessions pool mq d) of
              (False, _) \<Rightarrow> Some None
            | (True, w) \<Rightarrow> Some (Some (setThreadNum 4 srv, w))))"

section \<open>Properties\<close>

definition route_table ::
  "('r, 'j, 'kv, 'd) app \<Rightarrow> 'j vision_lib \<Rightarrow> 64 word \<Rightarrow> ((http_method \<times> string) \<times> ('r, 'j, 'kv, 'd) server_handler) list" where
  "route_table app vl active =
     [((kGet, ''/''), ChatEntryHandler app), ((kGet, ''/entry''), ChatEntryHandler app),
      ((kPost, ''/login''), ChatLoginHandler app), ((kPost, ''/register''), ChatRegisterHandler app),
      ((kPost, ''/user/logout''), ChatLogoutHandler app), ((kGet, ''/chat''), ChatHandler app),
      ((kPost, ''/chat/send''), ChatSendHandler app), ((kGet, ''/menu''), AIMenuHandler app),
      ((kGet, ''/upload''), AIUploadHandler app), ((kPost, ''/upload/send''), AIUploadSendHandler app vl active),
      ((kPost, ''/chat/history''), ChatHistoryHandler app),
      ((kPost, ''/chat/send-new-session''), ChatCreateAndSendHandler app),
      ((kGet, ''/chat/sessions''), ChatSessionsHandler app), ((kPost, ''/chat/tts''), ChatSpeechHandler app)]"

lemma initializeRouter_table:
  "rt_handlers (hs_router (initializeRouter app vl active (initializeMiddleware (HttpServer port ssl opt)))) =
     route_table app vl active"
  by (simp add: initializeRouter_def Get_def Post_def registerHandler_def initializeMiddleware_def
      server_addMiddleware_def HttpServer_def new_router_def route_table_def)

lemma initializeRouter_rest:
  "rt_callbacks (hs_router (initializeRouter app vl active (initializeMiddleware (HttpServer port ssl opt)))) = []"
  "rt_regexHandlers (hs_router (initializeRouter app vl active (initializeMiddleware (HttpServer port ssl opt)))) = []"
  "rt_regexCallbacks (hs_router (initializeRouter app vl active (initializeMiddleware (HttpServer port ssl opt)))) = []"
  by (simp_all add: initializeRouter_def Get_def Post_def registerHandler_def initializeMiddleware_def
      server_addMiddleware_def HttpServer_def new_router_def)

lemma initializeRouter_chain:
  "hs_middlewareChain (initializeRouter app vl active (initializeMiddleware (HttpServer port ssl opt))) =
     [Some (CorsMiddleware cors_defaultConfig)]"
  "hs_callback (initializeRouter app vl active (initializeMiddleware (HttpServer port ssl opt))) = None"
  by (simp_all add: initializeRouter_def Get_def Post_def initializeMiddleware_def server_addMiddleware_def
      HttpServer_def addMiddleware_def)

section \<open>Runs of the service\<close>

text \<open>
  The service starts as \<^verbatim>\<open>main\<close> starts it; then requests are dispatched in any order, waiting threads run at any time,
  and the queue manager, the inference pool, the database and the connections change on their own. What is outside of the repository, the
  arguments of the application, may answer differently each time.
\<close>

inductive service_reachable :: "('r, 'j, 'kv, 'd) chat_server \<Rightarrow> bool" where
  start: "main_run app vl active db_init rng fs model_load constructs pool mq d opts = Some (Some (srv, w)) \<Longrightarrow>
    service_reachable w"
| request: "service_reachable w \<Longrightarrow> ChatServer app vl active db_init rng port option = Inr (srv, sessions) \<Longrightarrow>
    server_callback srv req resp w = (oc, resp', w') \<Longrightarrow> service_reachable w'"
| thread: "service_reachable w \<Longrightarrow> ch_jobs w = before @ job # after \<Longrightarrow>
    run_job app job (w\<lparr>ch_jobs := before @ after\<rparr>) = (oc, w') \<Longrightarrow> service_reachable w'"
| outside: "service_reachable w \<Longrightarrow> service_reachable (w\<lparr>ch_gemma := pool, ch_mq := mq, ch_db := d\<rparr>)"
| network: "service_reachable w \<Longrightarrow> service_reachable (w\<lparr>ch_net := net\<rparr>)"

lemma table_keeps: "(k, h) \<in> set (route_table app vl active) \<Longrightarrow> inv_act server_ok (h req)"
proof -
  assume "(k, h) \<in> set (route_table app vl active)"
  then consider "h \<in> set (protected_handlers app)" | "h = ChatEntryHandler app" | "h = ChatLoginHandler app"
    | "h = ChatRegisterHandler app" | "h = ChatLogoutHandler app" | "h = AIUploadSendHandler app vl active"
    unfolding route_table_def protected_handlers_def by auto
  then show ?thesis
    using login_keeps logout_keeps register_keeps protected_keeps upload_keeps
    by cases (simp_all add: ChatEntryHandler_def inv_answers(4))
qed

lemma ChatServer_Inr:
  assumes "ChatServer app vl active db_init rng port option = Inr (srv, sessions)"
  shows "srv = initializeRouter app vl active (initializeMiddleware (HttpServer port (option = kReusePort) kNoReusePort))"
    and "new_storage 10000 rng = Inr sessions"
  using assms by (auto simp: ChatServer_def initializeSession_def bind_result_Inr)

lemma route_chat_server:
  assumes "ChatServer app vl active db_init rng port option = Inr (srv, sessions)"
  shows "route (hs_router srv) req resp w =
      (case map_of (route_table app vl active) (req_method req, req_path req) of
         Some h \<Rightarrow> run_handler h req (setLogRoute (req_path req) resp) w
       | None \<Rightarrow> (Done False, resp, w))"
  by (simp add: route_def ChatServer_Inr(1) [OF assms] initializeRouter_table initializeRouter_rest split: option.split)

lemma cors_only:
  "processBefore [Some (CorsMiddleware c)] req w = (b, req', w') \<Longrightarrow> w' = w \<and> req' = req"
  "processAfter [Some (CorsMiddleware c)] resp w = (a, resp', w') \<Longrightarrow> w' = w"
  by (auto simp: processAfter_def CorsMiddleware_def cors_before_def cors_after_def split: prod.splits outcome.splits if_splits)

lemma cors_handleRequest_inv:
  assumes "I w" and run: "handleRequest [Some (CorsMiddleware c)] rt req resp w = (oc, resp', w')"
    and step: "\<And>p w1 q p' w2. route rt req p w1 = (q, p', w2) \<Longrightarrow> I w1 \<Longrightarrow> I w2"
  shows "I w'"
proof -
  obtain b req1 w1 where b: "processBefore [Some (CorsMiddleware c)] req w = (b, req1, w1)" by (metis prod_cases3)
  obtain q p w2 where r: "route rt req1 resp w1 = (q, p, w2)" by (metis prod_cases3)
  have w1: "w1 = w" "req1 = req" using cors_only(1) [OF b] by simp_all
  have w2: "I w2" using step [of resp w1 q p w2] r assms(1) w1 by simp
  have w': "w' = w1 \<or> w' = w2"
    using run unfolding handleRequest_def b Let_def
    by (auto simp: r dest!: cors_only(2) split: prod.splits outcome.splits thrown.splits if_splits)
  then show ?thesis using w1 w2 assms(1) by auto
qed

lemma server_callback_keeps:
  assumes srv: "ChatServer app vl active db_init rng port option = Inr (srv, sessions)"
    and "server_ok w" and "server_callback srv req resp w = (oc, resp', w')"
  shows "server_ok w'"
proof -
  have route: "server_ok w2" if "route (hs_router srv) req p w1 = (q, p', w2)" "server_ok w1" for p w1 q p' w2
    using that table_keeps [THEN inv_run]
    by (auto simp: route_chat_server [OF srv] run_handler_def dest!: map_of_SomeD split: option.splits prod.splits outcome.splits)
  have cb: "server_callback srv = handleRequest [Some (CorsMiddleware cors_defaultConfig)] (hs_router srv)"
    by (simp add: server_callback_def ChatServer_Inr(1) [OF srv] initializeRouter_chain)
  from assms(2,3) route show ?thesis
    unfolding cb by (rule cors_handleRequest_inv)
qed

lemma waitForDependencies_restored:
  "waitForDependencies (readDataFromMySQL db) n w = (True, w1) \<Longrightarrow>
     \<exists>d. readDataFromMySQL db (w\<lparr>ch_db := d\<rparr>) = (Inr (), w1)"
proof (induction n arbitrary: w)
  case (Suc n)
  obtain r w2 where r: "readDataFromMySQL db w = (r, w2)" by fastforce
  show ?case
  proof (cases r)
    case (Inl e)
    with r have w2: "\<exists>d. w2 = w\<lparr>ch_db := d\<rparr>" by (auto simp: readDataFromMySQL_def split: prod.splits sum.splits)
    from Suc.prems r Inl have "waitForDependencies (readDataFromMySQL db) n w2 = (True, w1)" by simp
    from Suc.IH [OF this] w2 show ?thesis by auto
  next
    case (Inr u)
    with Suc.prems r have "readDataFromMySQL db (w\<lparr>ch_db := ch_db w\<rparr>) = (Inr (), w1)" by simp
    then show ?thesis by blast
  qed
qed simp

lemma readDataFromMySQL_frame:
  "readDataFromMySQL db w = (r, w') \<Longrightarrow> ch_sessions w' = ch_sessions w \<and> ch_onlineUsers w' = ch_onlineUsers w \<and>
     ch_jobs w' = ch_jobs w \<and> ch_mq w' = ch_mq w"
  by (auto simp: readDataFromMySQL_def split: prod.splits sum.splits)

lemma main_run_listens:
  fixes app :: "('r, 'j, 'kv, 'd) app" and w :: "('r, 'j, 'kv, 'd) chat_server"
  assumes "main_run app vl active db_init rng fs model_load constructs pool mq d opts = Some (Some (srv, w))"
  obtains srv0 sessions port w0 w1 where "ChatServer app vl active db_init rng port kNoReusePort = Inr (srv0, sessions)"
    and "srv = setThreadNum 4 srv0" and "readDataFromMySQL (ap_db app) w0 = (Inr (), w1)"
    and "\<exists>d. w0 = constructed sessions pool mq d" and "mq = None"
    and "\<exists>pool'. w = w1\<lparr>ch_gemma := pool', ch_mq := Some (mq_connect constructs (new_handler QUEUE_NAME))\<rparr>"
proof -
  from assms obtain port where run: "(case ChatServer app vl active db_init rng port kNoReusePort of
         Inl _ \<Rightarrow> Some None
       | Inr (srv, sessions) \<Rightarrow>
           (case startup (sv_env (ap_services app)) fs model_load constructs (ap_db app) (constructed sessions pool mq d) of
              (False, _) \<Rightarrow> Some None
            | (True, w) \<Rightarrow> Some (Some (setThreadNum 4 srv, w)))) = Some (Some (srv, w))"
    unfolding main_run_def by (auto simp: bind_eq_Some_conv)
  then obtain srv0 sessions where c: "ChatServer app vl active db_init rng port kNoReusePort = Inr (srv0, sessions)"
    by (cases "ChatServer app vl active db_init rng port kNoReusePort") auto
  obtain ok and w2 :: "('r, 'j, 'kv, 'd) chat_server" where "startup (sv_env (ap_services app)) fs model_load constructs (ap_db app) (constructed sessions pool mq d) = (ok, w2)"
    by fastforce
  with run c have s: "startup (sv_env (ap_services app)) fs model_load constructs (ap_db app) (constructed sessions pool mq d) = (True, w)"
    and srv: "srv = setThreadNum 4 srv0" by (auto split: bool.splits)
  from s obtain w1 where wait: "waitForDependencies (readDataFromMySQL (ap_db app)) 30 (constructed sessions pool mq d) = (True, w1)"
    and q: "\<exists>mq'. mq_start QUEUE_NAME constructs (ch_mq w1) = Inr mq' \<and> (\<exists>pool'. w = w1\<lparr>ch_gemma := pool', ch_mq := mq'\<rparr>)"
    by (auto simp: startup_def split: prod.splits bool.splits sum.splits)
  from waitForDependencies_restored [OF wait] obtain d0
    where r: "readDataFromMySQL (ap_db app) ((constructed sessions pool mq d)\<lparr>ch_db := d0\<rparr>) = (Inr (), w1)" by blast
  have cd: "(constructed sessions pool mq d)\<lparr>ch_db := d0\<rparr> = constructed sessions pool mq d0"
    by (simp add: constructed_def)
  have "ch_mq w1 = mq" using readDataFromMySQL_frame [OF r] by (simp add: constructed_def)
  with q have mq: "mq = None"
    and w: "\<exists>pool'. w = w1\<lparr>ch_gemma := pool', ch_mq := Some (mq_connect constructs (new_handler QUEUE_NAME))\<rparr>"
    by (auto simp: mq_start_def split: option.splits)
  have "\<exists>d. (constructed sessions pool mq d0 :: ('r, 'j, 'kv, 'd) chat_server) = constructed sessions pool mq d" by blast
  from that [OF c srv r [unfolded cd] this mq w] show ?thesis .
qed

lemma main_run_plain:
  assumes "main_run app vl active db_init rng fs model_load constructs pool mq d opts = Some (Some (srv, w))"
  shows "\<not> hs_useSSL srv"
proof -
  obtain srv0 sessions port where c: "ChatServer app vl active db_init rng port kNoReusePort = Inr (srv0, sessions)"
    and srv: "srv = setThreadNum 4 srv0"
    using main_run_listens [OF assms] by metis
  show ?thesis
    unfolding srv ChatServer_Inr(1) [OF c]
    by (simp add: setThreadNum_def initializeRouter_def Get_def Post_def initializeMiddleware_def
        server_addMiddleware_def HttpServer_def)
qed

lemma constructed_ok: "new_storage 10000 rng = Inr sessions \<Longrightarrow> server_ok (constructed sessions pool mq d)"
  using new_storage_ok [of 10000 rng sessions] by (simp add: server_ok_def constructed_def maps_ok_empty)

lemma service_reachable_ok: "service_reachable w \<Longrightarrow> server_ok w"
proof (induction rule: service_reachable.induct)
  case (start app vl active db_init rng fs model_load constructs pool mq d opts srv w)
  obtain srv0 sessions port w0 w1 where "ChatServer app vl active db_init rng port kNoReusePort = Inr (srv0, sessions)"
    and r: "readDataFromMySQL (ap_db app) w0 = (Inr (), w1)" and w0: "\<exists>d. w0 = constructed sessions pool mq d"
    and w: "\<exists>pool'. w = w1\<lparr>ch_gemma := pool', ch_mq := Some (mq_connect constructs (new_handler QUEUE_NAME))\<rparr>"
    using main_run_listens [OF start] by metis
  then have "server_ok w0" using constructed_ok [OF ChatServer_Inr(2)] by metis
  with r have "server_ok w1" using server_ok_restore by blast
  with w show ?case by (auto simp: server_ok_def)
next
  case (request w app vl active db_init rng port option srv sessions req resp oc resp' w')
  from server_callback_keeps [OF request.hyps(2) request.IH request.hyps(3)] show ?case .
next
  case (thread w before job after app oc w')
  then have "server_ok (w\<lparr>ch_jobs := before @ after\<rparr>)" "cm_heap (ch_maps w) (job_helper job) \<noteq> None"
    by (auto simp: server_ok_def)
  with run_job_ok [OF this(1)] thread(3) show ?case by simp
qed (simp_all add: server_ok_def)

text \<open>
  C1. In every state the running service can reach from \<^verbatim>\<open>main\<close>, whatever requests were dispatched, threads run and
  queue, model and database events happened in any order, the list of a user's sessions names each of the user's conversations exactly once and
  nothing else, no two conversations share an object, the session store is within its capacity of distinct
  identifiers, and every waiting thread has its conversation.
\<close>

theorem service_state_invariant:
  assumes "service_reachable w"
  shows "(\<forall>u. distinct (session_ids u (ch_maps w)) \<and> set (session_ids u (ch_maps w)) = dom (map_of (inner u (ch_maps w)))) \<and>
    (\<forall>u i u' i' a. map_of (inner u (ch_maps w)) i = Some a \<and> map_of (inner u' (ch_maps w)) i' = Some a \<longrightarrow> u = u' \<and> i = i') \<and>
    length (st_sessions (ch_sessions w)) \<le> st_capacity (ch_sessions w) \<and>
    (\<forall>j\<in>set (ch_jobs w). cm_heap (ch_maps w) (job_helper j) \<noteq> None)"
  using service_reachable_ok [OF assms] by (auto simp: server_ok_def maps_ok_def storage_ok_def)

text \<open>
  C16. The service listens only with a complete history. When \<^verbatim>\<open>main\<close> reaches \<^verbatim>\<open>server.start()\<close>, the database has
  answered the history query, every row of the answer was valid, and each conversation holds exactly the messages of its rows
  in their order; nobody is logged in, the queue manager is running on \<^verbatim>\<open>sql_queue\<close>, and TLS is off.
\<close>

theorem service_starts_restored:
  assumes "main_run app vl active db_init rng fs model_load constructs pool mq d opts = Some (Some (srv, w))"
  shows "(\<exists>rows d0 d1. db_query (ap_db app) history_query [] d0 = (Some rows, d1) \<and> (\<forall>x\<in>set rows. row_entry x \<noteq> None) \<and>
      (\<forall>u i. stored_in (ch_maps w) u i = stored_messages rows u i \<and>
         (i \<in> set (session_ids u (ch_maps w)) \<longleftrightarrow> stored_messages rows u i \<noteq> []))) \<and>
    st_sessions (ch_sessions w) = [] \<and> ch_onlineUsers w = [] \<and> ch_jobs w = [] \<and>
    ch_mq w = Some (mq_connect constructs (new_handler ''sql_queue'')) \<and> \<not> hs_useSSL srv"
proof -
  obtain srv0 sessions port w0 w1 where c: "ChatServer app vl active db_init rng port kNoReusePort = Inr (srv0, sessions)"
    and srv: "srv = setThreadNum 4 srv0"
    and r: "readDataFromMySQL (ap_db app) w0 = (Inr (), w1)" and w0: "\<exists>d. w0 = constructed sessions pool mq d"
    and w: "\<exists>pool'. w = w1\<lparr>ch_gemma := pool', ch_mq := Some (mq_connect constructs (new_handler QUEUE_NAME))\<rparr>"
    using main_run_listens [OF assms] by metis
  have "maps_ok (ch_maps w0)" using w0 by (auto simp: constructed_def maps_ok_empty)
  from restore_snapshot [OF this r] obtain rows d0 d1 where rows: "db_query (ap_db app) history_query [] d0 = (Some rows, d1)"
    "\<forall>x\<in>set rows. row_entry x \<noteq> None" "snapshot_ok (ch_maps w1)" "\<And>u i. stored_in (ch_maps w1) u i = stored_messages rows u i"
    by metis
  have "\<not> hs_useSSL srv" by (rule main_run_plain [OF assms])
  moreover have "st_sessions sessions = []" using ChatServer_Inr(2) [OF c] by (auto simp: new_storage_def)
  moreover note readDataFromMySQL_frame [OF r]
  moreover have m: "ch_maps w = ch_maps w1" using w by auto
  ultimately show ?thesis
    using rows w w0 unfolding m by (auto simp: constructed_def QUEUE_NAME_def snapshot_listed)
qed

lemma server_callback_table:
  assumes "ChatServer app vl active db_init rng port option = Inr (srv, sessions)" and "req_method req \<noteq> kOptions"
    and "map_of (route_table app vl active) (req_method req, req_path req) = Some h"
    and "h req (setLogRoute (req_path req) resp) w = (oc, resp1, w1)"
  shows "server_callback srv req resp w =
      (case oc of Done _ \<Rightarrow> (Done (), addCorsHeaders cors_defaultConfig resp1 ''*'', w1)
       | Threw (Response_thrown res) \<Rightarrow> (Done (), resp_setVersion (req_version req) (setLogRoute ''callback'' res), w1)
       | Threw (Std_exception e) \<Rightarrow> (Done (), resp_setBody (what e)
           (setStatusLine (req_version req) k500InternalServerError ''Internal Server Error''
             (setLogRoute ''error'' (new_response True))), w1)
       | Crashed \<Rightarrow> (Crashed, resp1, w1))"
proof -
  let ?cors = "CorsMiddleware cors_defaultConfig"
  have cb: "server_callback srv = handleRequest [Some ?cors] (hs_router srv)"
    by (simp add: server_callback_def ChatServer_Inr(1) [OF assms(1)] initializeRouter_chain)
  have b: "processBefore [Some ?cors] req w = (Done (), req, w)"
    using assms(2) by (simp add: CorsMiddleware_def cors_before_def)
  have a: "processAfter [Some ?cors] resp1 w1 = (Done (), addCorsHeaders cors_defaultConfig resp1 ''*'', w1)"
    by (simp add: processAfter_def CorsMiddleware_def cors_after_def cors_defaultConfig_def)
  have r: "route (hs_router srv) req resp w = run_handler h req (setLogRoute (req_path req) resp) w"
    using assms(3) by (simp add: route_chat_server [OF assms(1)])
  show ?thesis
    unfolding cb handleRequest_def b using assms(2,4) a
    by (cases oc) (simp_all add: r run_handler_def split: thrown.split)
qed

lemma addCorsHeaders_keeps:
  "resp_statusCode (addCorsHeaders cfg r x) = resp_statusCode r"
  "resp_closeConnection (addCorsHeaders cfg r x) = resp_closeConnection r"
  by (simp_all add: addCorsHeaders_def resp_addHeader_def Let_def)

text \<open>The routes that ask for no login.\<close>

definition open_routes :: "(http_method \<times> string) set" where
  "open_routes = {(kGet, ''/''), (kGet, ''/entry''), (kPost, ''/login''), (kPost, ''/register''), (kPost, ''/user/logout'')}"

lemma table_protected:
  assumes "map_of (route_table app vl active) k = Some h" and "k \<notin> open_routes"
  shows "h \<in> set (protected_handlers app) \<or> h = AIUploadSendHandler app vl active"
  using assms map_of_SomeD [OF assms(1)] unfolding route_table_def protected_handlers_def open_routes_def by auto

lemma table_methods: "map_of (route_table app vl active) k = Some h \<Longrightarrow> fst k \<noteq> kOptions"
  by (drule map_of_SomeD) (auto simp: route_table_def)

text \<open>
  C3. Only clients that are logged in are served. Take a request on any route of the server but the entry page, the login,
  the registration and the logout, the upload of images included. If its cookie does not name a stored session that has not expired
  and whose \<^verbatim>\<open>isLoggedIn\<close> is \<^verbatim>\<open>true\<close>, the server changes nothing but its session store, and it always answers, closing
  the connection: with 401, or with 503 when the session store is full; only when the JSON library
  cannot write the fixed text of the 401, with 400 or 500 instead.
\<close>

theorem only_logged_in_served:
  assumes srv: "ChatServer app vl active db_init rng port option = Inr (srv, sessions)"
    and ok: "storage_ok (ch_sessions w)"
    and route: "(req_method req, req_path req) \<in> fst ` set (route_table app vl active) - open_routes"
    and no: "\<not> has_login (ap_clk app) req (ch_sessions w)"
    and run: "server_callback srv req resp w = (oc, resp', w')"
  shows "w' = w\<lparr>ch_sessions := ch_sessions w'\<rparr> \<and> oc = Done () \<and> resp_closeConnection resp' \<and>
    resp_statusCode resp' \<in> (if writes_refusal (ap_json app) then {401, 503} else {400, 500, 503})"
proof -
  let ?k = "(req_method req, req_path req)"
  obtain h where h: "map_of (route_table app vl active) ?k = Some h"
    using route by (metis DiffD1 map_of_eq_None_iff not_None_eq)
  obtain oc1 resp1 w1 where r: "h req (setLogRoute (req_path req) resp) w = (oc1, resp1, w1)" by (metis prod_cases3)
  have ref: "w1 = w\<lparr>ch_sessions := ch_sessions w1\<rparr> \<and> refusal (ap_json app) oc1 resp1"
  proof -
    consider "h \<in> set (protected_handlers app)" | "h = AIUploadSendHandler app vl active"
      using table_protected [OF h] route by auto
    then show ?thesis
    proof cases
      case 1
      show ?thesis by (rule protected_refuses [OF ok 1 r no])
    next
      case 2
      show ?thesis by (rule upload_refuses [OF ok r [unfolded 2] no])
    qed
  qed
  have o: "req_method req \<noteq> kOptions" using table_methods [OF h] by simp
  have u: "resp_statusCode unavailable_response = 503" "resp_closeConnection unavailable_response"
    by (simp_all add: unavailable_response_def resp_setBody_def setContentType_def resp_addHeader_def setStatusCode_def
        status_text_def new_response_def)
  note eq = server_callback_table [OF srv o h r]
  have w': "w' = w1" using run eq ref by (auto simp: refusal_def split: outcome.splits thrown.splits)
  have "oc = Done () \<and> resp_closeConnection resp' \<and>
    resp_statusCode resp' \<in> (if writes_refusal (ap_json app) then {401, 503} else {400, 500, 503})"
  proof (cases oc1)
    case (Done x)
    with run eq ref show ?thesis by (auto simp: refusal_def addCorsHeaders_keeps split: if_splits)
  next
    case (Threw x)
    with run eq ref u show ?thesis
      by (cases x) (auto simp: refusal_def resp_setBody_def setStatusLine_def setLogRoute_def new_response_def resp_setVersion_def)
  qed (use ref in \<open>simp add: refusal_def\<close>)
  with w' ref show ?thesis by blast
qed

text \<open>
  C17. The chat server dispatches by its table and nothing else: a request whose method and path are in the table runs exactly
  that handler, with the path as its log label. A request with the method \<^verbatim>\<open>OPTIONS\<close>, whatever its path, is
  answered 204 by the CORS middleware, with its origin as the allowed one; every other request that is not in
  the table is answered 404. Both leave the state untouched and close the connection.
\<close>

theorem chat_server_routes:
  assumes "ChatServer app vl active db_init rng port option = Inr (srv, sessions)"
  shows "route (hs_router srv) req resp w =
      (case map_of (route_table app vl active) (req_method req, req_path req) of
         Some h \<Rightarrow> run_handler h req (setLogRoute (req_path req) resp) w
       | None \<Rightarrow> (Done False, resp, w)) \<and>
    (req_method req = kOptions \<longrightarrow>
       (\<exists>resp'. server_callback srv req resp w = (Done (), resp', w) \<and> resp_statusCode resp' = 204 \<and>
          map_of (resp_headers resp') ''Access-Control-Allow-Origin'' = Some (getHeader req ''Origin'') \<and>
          resp_closeConnection resp')) \<and>
    (req_method req \<noteq> kOptions \<and> map_of (route_table app vl active) (req_method req, req_path req) = None \<longrightarrow>
       (\<exists>resp'. server_callback srv req resp w = (Done (), resp', w) \<and> resp_statusCode resp' = 404 \<and>
          resp_closeConnection resp'))"
proof (intro conjI impI)
  note srv = ChatServer_Inr(1) [OF assms] and r = route_chat_server [OF assms]
  let ?cors = "CorsMiddleware cors_defaultConfig"
  have cb: "server_callback srv = handleRequest [Some ?cors] (hs_router srv)"
    by (simp add: server_callback_def srv initializeRouter_chain)
  show "route (hs_router srv) req resp w =
      (case map_of (route_table app vl active) (req_method req, req_path req) of
         Some h \<Rightarrow> run_handler h req (setLogRoute (req_path req) resp) w
       | None \<Rightarrow> (Done False, resp, w))" by (rule r)
  show "\<exists>resp'. server_callback srv req resp w = (Done (), resp', w) \<and> resp_statusCode resp' = 204 \<and>
      map_of (resp_headers resp') ''Access-Control-Allow-Origin'' = Some (getHeader req ''Origin'') \<and>
      resp_closeConnection resp'" if o: "req_method req = kOptions"
    using cors_preflight [of cors_defaultConfig req w] o
    by (simp add: cb handleRequest_def CorsMiddleware_def Let_def isOriginAllowed_def resp_setVersion_def setLogRoute_def)
      (simp add: cors_defaultConfig_def)
  assume o: "req_method req \<noteq> kOptions \<and> map_of (route_table app vl active) (req_method req, req_path req) = None"
  let ?resp = "setCloseConnection True (setStatusLine (req_version req) k404NotFound ''Not Found'' (setLogRoute ''unmatched'' resp))"
  have b: "processBefore [Some ?cors] req w = (Done (), req, w)"
    using o by (simp add: CorsMiddleware_def cors_before_def)
  have a: "\<exists>resp'. processAfter [Some ?cors] ?resp w = (Done (), resp', w) \<and> resp_statusCode resp' = 404 \<and> resp_closeConnection resp'"
    by (simp add: processAfter_def CorsMiddleware_def cors_after_def cors_defaultConfig_def addCorsHeaders_def
        resp_addHeader_def setCloseConnection_def setStatusLine_def)
  then show "\<exists>resp'. server_callback srv req resp w = (Done (), resp', w) \<and> resp_statusCode resp' = 404 \<and> resp_closeConnection resp'"
    using b r [of req resp w] o by (auto simp: cb handleRequest_def)
qed

section \<open>Instances\<close>

text \<open>The service started with a database of three messages and no local model.\<close>

definition no_files :: file_system where
  "no_files = \<lparr>fs_regular = (\<lambda>_. False), fs_size = (\<lambda>_. None), fs_has_byte = (\<lambda>_. None)\<rparr>"

lemma sample_restored:
  fixes sessions :: "'a session_state" and pool :: "'b gemma_pool"
  shows
  "readDataFromMySQL sample_db (constructed sessions pool mq sample_rows) =
     (Inr (), (constructed sessions pool mq sample_rows)\<lparr>ch_maps := restored_maps\<rparr>)"
proof -
  have "(ch_maps (constructed sessions pool mq sample_rows :: ('a, jval, 'b, row list) chat_server))\<lparr>cm_chats := [], cm_ids := []\<rparr> = (empty_maps :: jval chat_maps)"
    "ch_db (constructed sessions pool mq sample_rows :: ('a, jval, 'b, row list) chat_server) = sample_rows"
    by (simp_all add: constructed_def empty_maps_def)
  then show ?thesis
    by (simp add: readDataFromMySQL_def consumeQuery_def conn_consumeQuery_def sample_db_def sample_rows_restored constructed_def)
qed

lemma sample_main:
  obtains srv w where "main_run sample_app_rows sample_vision 0 (\<lambda>_. return ()) 0 fs model_load True toy_pool None sample_rows
      [(CHR ''p'', ''8080'')] = Some (Some (srv, w))" and "ch_maps w = restored_maps" and "ch_net w = []" and "hs_port srv = 8080"
proof -
  obtain r pool where g: "gemma_initialize fs model_load
      (env_or (sv_env (ap_services sample_app_rows)) ''GEMMA_MODEL_PATH'' ''/home/qiuku/gemma.cpp/build/2.0-2b-it-sfp.sbs'')
      (env_or (sv_env (ap_services sample_app_rows)) ''GEMMA_TOKENIZER_PATH'' ''/home/qiuku/gemma.cpp/build/tokenizer.spm'')
      default_cache_policy toy_pool = (r, pool)" by fastforce
  let ?st = "\<lparr>st_heap = Map.empty, st_next = 0, st_capacity = 10000, st_sessions = [], st_tick = 0, st_rng = 0\<rparr> :: nat session_state"
  let ?srv = "initializeRouter sample_app_rows sample_vision 0 (initializeMiddleware (HttpServer 8080 False kNoReusePort))"
  let ?w = "((constructed ?st toy_pool None sample_rows)\<lparr>ch_maps := restored_maps\<rparr>)
      \<lparr>ch_gemma := pool, ch_mq := Some (mq_connect True (new_handler QUEUE_NAME))\<rparr>"
  have db: "ap_db sample_app_rows = sample_db" by (simp add: sample_app_rows_def)
  have port: "atoi ''8080'' = Some 8080" by code_simp
  have c: "ChatServer sample_app_rows sample_vision 0 (\<lambda>_. return ()) 0 8080 kNoReusePort = Inr (?srv, ?st)"
    by (simp add: ChatServer_def initializeSession_def new_storage_def new_manager_def sessionMaxAge_def)
  have "waitForDependencies (readDataFromMySQL sample_db) 30 (constructed ?st toy_pool None sample_rows) =
      (True, (constructed ?st toy_pool None sample_rows)\<lparr>ch_maps := restored_maps\<rparr>)"
    by (simp add: numeral_eq_Suc sample_restored)
  then have "startup (sv_env (ap_services sample_app_rows)) fs model_load True sample_db (constructed ?st toy_pool None sample_rows) = (True, ?w)"
    using g by (simp add: startup_def constructed_def mq_start_def)
  then have "main_run sample_app_rows sample_vision 0 (\<lambda>_. return ()) 0 fs model_load True toy_pool None sample_rows
      [(CHR ''p'', ''8080'')] = Some (Some (setThreadNum 4 ?srv, ?w))"
    using db by (simp add: main_run_def port c)
  moreover have "ch_maps ?w = restored_maps" "ch_net ?w = []" "hs_port (setThreadNum 4 ?srv) = 8080"
    by (simp_all add: constructed_def setThreadNum_def initializeRouter_def Get_def Post_def initializeMiddleware_def server_addMiddleware_def HttpServer_def)
  ultimately show ?thesis by (rule that)
qed

theorem service_state_invariant_witness:
  "\<exists>w :: (nat, jval, nat, row list) chat_server. service_reachable w \<and> session_ids 7 (ch_maps w) = [''s''] \<and>
     set (session_ids 7 (ch_maps w)) = dom (map_of (inner 7 (ch_maps w)))"
proof -
  obtain srv w where m: "main_run sample_app_rows sample_vision 0 (\<lambda>_. return ()) 0 fs model_load True toy_pool None sample_rows
      [(CHR ''p'', ''8080'')] = Some (Some (srv, w))" and w: "ch_maps w = restored_maps" by (rule sample_main)
  have r: "service_reachable w" by (rule start [OF m])
  from service_state_invariant [OF r, THEN conjunct1, rule_format, of 7] show ?thesis
    by (intro exI [of _ w]) (simp add: r w sample_rows_restored)
qed

theorem service_starts_restored_witness:
  "\<exists>srv w. main_run sample_app_rows sample_vision 0 (\<lambda>_. return ()) 0 no_files (return ()) True toy_pool None sample_rows
      [(CHR ''p'', ''8080'')] = Some (Some (srv, w)) \<and> hs_port srv = 8080 \<and> \<not> hs_useSSL srv \<and>
      ch_mq w = Some (mq_connect True (new_handler ''sql_queue'')) \<and> session_ids 7 (ch_maps w) = [''s'']"
proof -
  obtain srv w where m: "main_run sample_app_rows sample_vision 0 (\<lambda>_. return ()) 0 no_files (return ()) True toy_pool None sample_rows
      [(CHR ''p'', ''8080'')] = Some (Some (srv, w))" "ch_maps w = restored_maps" "hs_port srv = 8080" by (rule sample_main)
  from service_starts_restored [OF m(1)] m sample_rows_restored(2) show ?thesis by auto
qed

lemma sample_server:
  obtains srv sessions where "ChatServer sample_app_rows sample_vision 0 (\<lambda>_. return ()) 0 80 kNoReusePort = Inr (srv, sessions)"
  by (simp add: ChatServer_def initializeSession_def new_storage_def new_manager_def sessionMaxAge_def)

theorem chat_server_routes_witness:
  "\<exists>srv sessions. ChatServer sample_app_rows sample_vision 0 (\<lambda>_. return ()) 0 80 kNoReusePort = Inr (srv, sessions) \<and>
     (\<exists>resp'. server_callback srv (new_request\<lparr>req_method := kGet, req_path := ''/nowhere''\<rparr>) (new_response False) (started_server []) =
        (Done (), resp', started_server []) \<and> resp_statusCode resp' = 404) \<and>
     (\<exists>resp'. server_callback srv (new_request\<lparr>req_method := kOptions, req_path := ''/nowhere''\<rparr>) (new_response False) (started_server []) =
        (Done (), resp', started_server []) \<and> resp_statusCode resp' = 204)"
proof -
  obtain srv sessions where c: "ChatServer sample_app_rows sample_vision 0 (\<lambda>_. return ()) 0 80 kNoReusePort = Inr (srv, sessions)"
    by (rule sample_server)
  let ?req = "new_request\<lparr>req_method := kGet, req_path := ''/nowhere''\<rparr>"
  let ?opt = "new_request\<lparr>req_method := kOptions, req_path := ''/nowhere''\<rparr>"
  have "map_of (route_table sample_app_rows sample_vision 0) (kGet, ''/nowhere'') = None"
    by (simp add: route_table_def)
  with chat_server_routes [OF c, of ?req "new_response False" "started_server []"]
    chat_server_routes [OF c, of ?opt "new_response False" "started_server []"] c show ?thesis by auto
qed

text \<open>A client without a cookie that sends an image.\<close>

theorem only_logged_in_served_witness:
  "\<exists>srv sessions resp' w'. ChatServer sample_app_rows sample_vision 0 (\<lambda>_. return ()) 0 80 kNoReusePort = Inr (srv, sessions) \<and>
     server_callback srv (new_request\<lparr>req_method := kPost, req_path := ''/upload/send''\<rparr>) (new_response False) (started_server []) =
       (Done (), resp', w') \<and> w' = (started_server [])\<lparr>ch_sessions := ch_sessions w'\<rparr> \<and> resp_statusCode resp' \<in> {401, 503}"
proof -
  let ?req = "new_request\<lparr>req_method := kPost, req_path := ''/upload/send''\<rparr>"
  obtain srv sessions where c: "ChatServer sample_app_rows sample_vision 0 (\<lambda>_. return ()) 0 80 kNoReusePort = Inr (srv, sessions)"
    by (rule sample_server)
  obtain oc resp' w' where r: "server_callback srv ?req (new_response False) (started_server []) = (oc, resp', w')"
    by (metis prod_cases3)
  have ok: "storage_ok (ch_sessions (started_server []))"
    using new_storage_ok [of 10000 "0::nat"] by (simp add: started_server_def new_storage_def)
  have "getSessionIdFromCookie ?req = []" by code_simp
  then have no: "\<not> has_login (ap_clk sample_app_rows) ?req (ch_sessions (started_server []))"
    by (simp add: has_login_def)
  have t: "(req_method ?req, req_path ?req) \<in> fst ` set (route_table sample_app_rows sample_vision 0) - open_routes"
    by (simp add: route_table_def open_routes_def)
  have d: "writes_refusal (ap_json sample_app_rows)"
    by (simp add: writes_refusal_def sample_app_rows_def login_json_def table_json_def error_fields_def)
  from only_logged_in_served [OF c ok t no r] c r d show ?thesis by auto
qed

end
