(* ===== verification/Http_Stages.thy ===== *)
theory Http_Stages
  imports Http_Context
begin

text \<open>
  The stages of a request in \<^verbatim>\<open>HttpServer/include/http/HttpContext.h\<close>: the order of the enumeration, in which
  the parser never goes back.
\<close>

section \<open>The order of the states\<close>

text \<open>The enumeration of the source has the order of its constants: the stages a request goes through.\<close>

fun stage :: "parse_state \<Rightarrow> nat" where
  "stage kExpectRequestLine = 0"
| "stage kExpectHeaders = 1"
| "stage kExpectBody = 2"
| "stage kGotAll = 3"

lemma stage_inject: "stage a = stage b \<longleftrightarrow> a = b"
  by (cases a; cases b) simp_all

instantiation parse_state :: linorder
begin

definition less_eq_parse_state :: "parse_state \<Rightarrow> parse_state \<Rightarrow> bool" where
  "less_eq_parse_state a b \<longleftrightarrow> stage a \<le> stage b"

definition less_parse_state :: "parse_state \<Rightarrow> parse_state \<Rightarrow> bool" where
  "less_parse_state a b \<longleftrightarrow> stage a < stage b"

instance
  by intro_classes (auto simp: less_eq_parse_state_def less_parse_state_def stage_inject)

end

section \<open>The parser only moves on\<close>

lemma end_of_headers_forward:
  assumes "ctx_state c = kExpectHeaders"
  shows "end_of_headers c buf = Again c' buf' \<Longrightarrow> ctx_state c \<le> ctx_state c'"
    and "end_of_headers c buf = Stop ok c' buf' \<Longrightarrow> ctx_state c \<le> ctx_state c'"
  using assms by (auto simp: end_of_headers_def less_eq_parse_state_def Let_def split: option.splits if_splits)

lemma stage_bounds [simp]: "kExpectRequestLine \<le> s" "s \<le> kGotAll" for s
  by (cases s; simp add: less_eq_parse_state_def)+

lemma parse_iter_forward:
  shows "parse_iter f t c buf = Again c' buf' \<Longrightarrow> ctx_state c \<le> ctx_state c'"
    and "parse_iter f t c buf = Stop ok c' buf' \<Longrightarrow> ctx_state c \<le> ctx_state c'"
proof -
  have "(parse_iter f t c buf = Again c' buf' \<longrightarrow> ctx_state c \<le> ctx_state c') \<and>
      (parse_iter f t c buf = Stop ok c' buf' \<longrightarrow> ctx_state c \<le> ctx_state c')"
  proof (cases "ctx_state c")
    case kExpectHeaders
    note end_of_headers_forward [OF this]
    with kExpectHeaders show ?thesis
      by (auto simp: parse_iter.simps [of f t c] Let_def split: option.splits if_splits)
  next
    case kExpectBody
    then show ?thesis by (auto simp: parse_iter.simps [of f t c] Let_def)
  next
    case kGotAll
    then show ?thesis by (auto simp: parse_iter.simps [of f t c])
  qed simp
  then show "parse_iter f t c buf = Again c' buf' \<Longrightarrow> ctx_state c \<le> ctx_state c'"
    and "parse_iter f t c buf = Stop ok c' buf' \<Longrightarrow> ctx_state c \<le> ctx_state c'" by blast+
qed

text \<open>
  However often it is called for a request, the parser goes through the stages in their order: a call that returns leaves the
  state where it was or at a later stage. Only \<^verbatim>\<open>reset\<close> starts again.
\<close>

theorem parseRequest_forward:
  assumes "parseRequest f t c buf = Some (Returned ok c' buf')"
  shows "ctx_state c \<le> ctx_state c'"
proof -
  have "\<forall>ok c' buf'. Returned ok0 c0 buf0 = Returned ok c' buf' \<longrightarrow> ctx_state c \<le> ctx_state c'"
    if "parseRequest f t c buf = Some (Returned ok0 c0 buf0)" for ok0 c0 buf0
  proof (rule parseRequest.raw_induct [where P = "\<lambda>f t c buf r. \<forall>ok c' buf'. r = Returned ok c' buf' \<longrightarrow> ctx_state c \<le> ctx_state c'",
        OF _ that], goal_cases)
    case (1 p f t c buf r)
    show ?case
    proof (cases "parse_iter f t c buf")
      case (Again c1 buf1)
      with 1(2) have "p f t c1 buf1 = Some r" by simp
      from 1(1) [OF this] parse_iter_forward(1) [OF Again] show ?thesis by (auto intro: order_trans)
    qed (use 1(2) parse_iter_forward(2) in auto)
  qed
  with assms show ?thesis by blast
qed

end
