(* ===== verification/Http_Connections.thy ===== *)
theory Http_Connections
  imports Ssl Http_Stages
begin

text \<open>
  \<^verbatim>\<open>HttpServer::initialize\<close> and \<^verbatim>\<open>HttpServer::start\<close> of \<^verbatim>\<open>HttpServer/src/http/HttpServer.cpp\<close>: the server as an event loop over
  many connections. muduo's \<^verbatim>\<open>TcpServer\<close> keeps the two callbacks \<^verbatim>\<open>initialize\<close> sets and an input buffer per connection: it calls
  the connection callback when a connection is opened and when it is closed, and the message callback with
  the input buffer after it has appended the received bytes. A callback runs to its end before the next event of the loop.

  The locale \<open>served_state\<close> is what the event loop needs of the application behind the callback: an
  invariant of the state that the callback and the connection operations keep. Its lemmas carry the
  invariant from the requests to the bytes.
\<close>

section \<open>The callbacks of the TCP server\<close>

datatype connection_callback = Cb_onConnection

record tcp_callbacks =
  tcp_connectionCallback :: "connection_callback option"
  tcp_messageCallback :: "message_callback option"

definition initialize_callbacks :: "tcp_callbacks \<Rightarrow> tcp_callbacks" where
  "initialize_callbacks cbs =
     cbs\<lparr>tcp_connectionCallback := Some Cb_onConnection, tcp_messageCallback := Some Cb_onMessage\<rparr>"

record ('w, 'e) net =
  net_callbacks :: tcp_callbacks
  net_server :: "('w, 'e) tls_server"
  net_buffers :: "nat \<rightharpoonup> string"

text \<open>The server as its constructor leaves it: no connection, the callbacks of \<^verbatim>\<open>initialize\<close>, request numbers from one.\<close>

definition new_net :: "bool \<Rightarrow> 'w \<Rightarrow> ('w, 'e) net" where
  "new_net useSSL w =
     \<lparr>net_callbacks = initialize_callbacks \<lparr>tcp_connectionCallback = None, tcp_messageCallback = None\<rparr>,
      net_server = \<lparr>tls_server = \<lparr>srv_sequence = 0, srv_log = [], srv_world = w\<rparr>, tls_useSSL = useSSL,
        tls_sslConns = Map.empty, tls_contexts = Map.empty, tls_callbacks = (\<lambda>_. Cb_onMessage)\<rparr>,
      net_buffers = Map.empty\<rparr>"

abbreviation net_world :: "('w, 'e) net \<Rightarrow> 'w" where
  "net_world n \<equiv> srv_world (tls_server (net_server n))"

abbreviation net_contexts :: "('w, 'e) net \<Rightarrow> nat \<rightharpoonup> http_context" where
  "net_contexts n \<equiv> tls_contexts (net_server n)"

definition set_world :: "'w \<Rightarrow> ('w, 'e) net \<Rightarrow> ('w, 'e) net" where
  "set_world w n = n\<lparr>net_server := tls_world w (net_server n)\<rparr>"

section \<open>The events\<close>

text \<open>
  A connection starts with the callbacks of the server. muduo's own connection callback only logs; its own message
  callback discards the bytes.
\<close>

definition call_onConnection ::
  "'e openssl \<Rightarrow> 'w tcp_ops \<Rightarrow> nat \<Rightarrow> ('w, 'e) net \<Rightarrow> unit outcome \<times> ('w, 'e) net" where
  "call_onConnection lib ops conn n =
     (case tcp_connectionCallback (net_callbacks n) of
        None \<Rightarrow> (Done (), n)
      | Some Cb_onConnection \<Rightarrow>
          (case onConnection_tls lib ops conn (net_server n) of (oc, s) \<Rightarrow> (oc, n\<lparr>net_server := s\<rparr>)))"

definition open_connection ::
  "'e openssl \<Rightarrow> 'w tcp_ops \<Rightarrow> nat \<Rightarrow> ('w, 'e) net \<Rightarrow> unit outcome \<times> ('w, 'e) net" where
  "open_connection lib ops conn n =
     (let s = net_server n;
          s1 = (case tcp_messageCallback (net_callbacks n) of
                  None \<Rightarrow> s
                | Some m \<Rightarrow> s\<lparr>tls_callbacks := (tls_callbacks s)(conn := m)\<rparr>)
      in call_onConnection lib ops conn
           (n\<lparr>net_server := s1, net_buffers := (net_buffers n)(conn \<mapsto> [])\<rparr>))"

definition close_connection ::
  "'e openssl \<Rightarrow> 'w tcp_ops \<Rightarrow> nat \<Rightarrow> ('w, 'e) net \<Rightarrow> unit outcome \<times> ('w, 'e) net" where
  "close_connection lib ops conn n =
     call_onConnection lib ops conn (n\<lparr>net_buffers := (net_buffers n)(conn := None)\<rparr>)"

definition receive_bytes ::
  "(string \<Rightarrow> nat option) \<Rightarrow> 'e openssl \<Rightarrow> 'w tcp_ops \<Rightarrow> 'w handler \<Rightarrow> nat \<Rightarrow> timestamp \<Rightarrow> string \<Rightarrow> string \<Rightarrow>
   ('w, 'e) net \<Rightarrow> (unit outcome \<times> ('w, 'e) net) option" where
  "receive_bytes f lib ops cb conn t buf bytes n =
     (if tcp_messageCallback (net_callbacks n) = None
      then Some (Done (), n\<lparr>net_buffers := (net_buffers n)(conn \<mapsto> [])\<rparr>)
      else case deliver f lib ops cb conn t (buf @ bytes) (net_server n) of
             None \<Rightarrow> None
           | Some (oc, buf1, s) \<Rightarrow> Some (oc, n\<lparr>net_server := s, net_buffers := (net_buffers n)(conn \<mapsto> buf1)\<rparr>))"

text \<open>
  One turn of the loop. A connection is connected when it is opened and no longer connected when it is
  closed, and each has a number of its own. The relation \<open>other\<close> is what changes the state of the process between two events:
  other threads, other servers, and the peers.
\<close>

inductive net_step ::
  "(string \<Rightarrow> nat option) \<Rightarrow> 'e openssl \<Rightarrow> (nat \<Rightarrow> 'w tcp_ops) \<Rightarrow> 'w handler \<Rightarrow> ('w \<Rightarrow> 'w \<Rightarrow> bool) \<Rightarrow>
   ('w, 'e) net \<Rightarrow> ('w, 'e) net \<Rightarrow> bool"
  for f lib ops cb other where
  opened: "net_contexts n conn = None \<Longrightarrow> net_buffers n conn = None \<Longrightarrow> op_connected (ops conn) (net_world n) \<Longrightarrow>
    open_connection lib (ops conn) conn n = (Done (), n') \<Longrightarrow> net_step f lib ops cb other n n'"
| received: "net_buffers n conn = Some buf \<Longrightarrow>
    receive_bytes f lib (ops conn) cb conn t buf bytes n = Some (Done (), n') \<Longrightarrow> net_step f lib ops cb other n n'"
| closed: "net_buffers n conn = Some buf \<Longrightarrow> \<not> op_connected (ops conn) (net_world n) \<Longrightarrow>
    close_connection lib (ops conn) conn n = (Done (), n') \<Longrightarrow> net_step f lib ops cb other n n'"
| elsewhere: "other (net_world n) w \<Longrightarrow> net_step f lib ops cb other n (set_world w n)"

inductive net_reachable ::
  "(string \<Rightarrow> nat option) \<Rightarrow> 'e openssl \<Rightarrow> (nat \<Rightarrow> 'w tcp_ops) \<Rightarrow> 'w handler \<Rightarrow> ('w \<Rightarrow> 'w \<Rightarrow> bool) \<Rightarrow> bool \<Rightarrow> 'w \<Rightarrow>
   ('w, 'e) net \<Rightarrow> bool"
  for f lib ops cb other useSSL w0 where
  listening: "net_reachable f lib ops cb other useSSL w0 (new_net useSSL w0)"
| turn: "net_reachable f lib ops cb other useSSL w0 n \<Longrightarrow> net_step f lib ops cb other n n' \<Longrightarrow>
    net_reachable f lib ops cb other useSSL w0 n'"

inductive_cases net_stepE [consumes 1, case_names opened received closed elsewhere]:
  "net_step f lib ops cb other n n'"

section \<open>The invariant of the connections\<close>

text \<open>Without TLS, every open connection has a context that can take more bytes, or it was given up and its buffer is empty.\<close>

definition net_ok :: "('w, 'e) net \<Rightarrow> bool" where
  "net_ok n \<longleftrightarrow> net_callbacks n = initialize_callbacks (net_callbacks n) \<and> \<not> tls_useSSL (net_server n) \<and>
     (\<forall>conn buf. net_buffers n conn = Some buf \<longrightarrow> tls_callbacks (net_server n) conn = Cb_onMessage \<and>
        (\<exists>c. net_contexts n conn = Some c \<and> conn_ok c \<and> (ctx_processingStopped c \<longrightarrow> buf = [])))"

lemma initialized_callbacks:
  assumes "cbs = initialize_callbacks cbs"
  shows "tcp_connectionCallback cbs = Some Cb_onConnection" and "tcp_messageCallback cbs = Some Cb_onMessage"
  using arg_cong [OF assms, of tcp_connectionCallback] arg_cong [OF assms, of tcp_messageCallback]
  by (simp_all add: initialize_callbacks_def)

lemma net_okD:
  assumes "net_ok n"
  shows "tcp_connectionCallback (net_callbacks n) = Some Cb_onConnection"
    and "tcp_messageCallback (net_callbacks n) = Some Cb_onMessage" and "\<not> tls_useSSL (net_server n)"
    and "net_buffers n conn = Some buf \<Longrightarrow> tls_callbacks (net_server n) conn = Cb_onMessage"
  using assms initialized_callbacks unfolding net_ok_def by blast+

lemma net_ok_conn:
  assumes "net_ok n" and "net_buffers n conn = Some buf"
  obtains c where "net_contexts n conn = Some c" "conn_ok c" "ctx_processingStopped c \<longrightarrow> buf = []"
  using assms unfolding net_ok_def by blast

lemma net_ok_new: "net_ok (new_net False w)"
  by (simp add: net_ok_def new_net_def initialize_callbacks_def)

text \<open>Receiving on a live connection, in terms of \<^verbatim>\<open>onMessage\<close>.\<close>

lemma receive_plain:
  assumes "net_ok n" and "net_buffers n conn = Some buf" and "net_contexts n conn = Some c"
  shows "receive_bytes f lib ops cb conn t buf bytes n =
    (case onMessage f ops cb conn t (tls_server (net_server n)) c (buf @ bytes) of
       None \<Rightarrow> None
     | Some (oc, st, c1, buf1) \<Rightarrow>
         Some (oc, n\<lparr>net_server := (net_server n)\<lparr>tls_server := st, tls_contexts := (net_contexts n)(conn \<mapsto> c1)\<rparr>,
           net_buffers := (net_buffers n)(conn \<mapsto> buf1)\<rparr>))"
  using net_okD [OF assms(1)] assms(2,3)
  by (simp add: receive_bytes_def deliver_plain [of "net_server n" conn c] split: option.split prod.split)

lemma open_plain:
  assumes "net_ok n" and "op_connected ops (net_world n)"
  shows "open_connection lib ops conn n =
    (Done (), n\<lparr>net_server := (net_server n)\<lparr>tls_callbacks := (tls_callbacks (net_server n))(conn := Cb_onMessage),
        tls_contexts := (net_contexts n)(conn \<mapsto> new_context)\<rparr>,
       net_buffers := (net_buffers n)(conn \<mapsto> [])\<rparr>)"
  using net_okD [OF assms(1)] assms(2)
  by (simp add: open_connection_def call_onConnection_def onConnection_tls_def Let_def)

lemma close_plain:
  assumes "net_ok n" and "\<not> op_connected ops (net_world n)"
  shows "close_connection lib ops conn n = (Done (), n\<lparr>net_buffers := (net_buffers n)(conn := None)\<rparr>)"
  using net_okD [OF assms(1)] assms(2)
  by (simp add: close_connection_def call_onConnection_def onConnection_tls_def Let_def)

lemma set_world_ok [simp]: "net_ok (set_world w n) = net_ok n"
  by (simp add: set_world_def net_ok_def)

lemma net_world_set [simp]: "net_world (set_world w n) = w"
  by (simp add: set_world_def)

lemma received_ok:
  assumes f: "muduo_buffer f" and n: "net_ok n" "net_buffers n conn = Some buf"
    and r: "receive_bytes f lib ops cb conn t buf bytes n = Some (Done (), n')"
  shows "net_ok n'"
proof -
  obtain c where c: "net_contexts n conn = Some c" "conn_ok c" by (rule net_ok_conn [OF n])
  obtain oc st c1 buf1 where m: "onMessage f ops cb conn t (tls_server (net_server n)) c (buf @ bytes) = Some (oc, st, c1, buf1)"
    and c1: "oc = Done () \<longrightarrow> conn_ok c1 \<and> (ctx_processingStopped c1 \<longrightarrow> buf1 = [])"
    using muduo_buffer.onMessage_returns [OF f c(2)] by blast
  from r n c m c1 show ?thesis
    by (auto simp: receive_plain net_ok_def split: if_splits)
qed

lemma net_step_ok:
  assumes "net_step f lib ops cb other n n'" and "muduo_buffer f" and "net_ok n"
  shows "net_ok n'"
  using assms(1)
proof (cases rule: net_stepE)
  case (opened conn)
  with assms(3) show ?thesis by (auto simp: open_plain net_ok_def)
next
  case (closed conn buf)
  with assms(3) show ?thesis by (auto simp: close_plain net_ok_def split: if_splits)
qed (use assms received_ok in auto)

lemma net_reachable_ok:
  assumes "net_reachable f lib ops cb other False w0 n" and "muduo_buffer f"
  shows "net_ok n"
  using assms(1) by (induction rule: net_reachable.induct) (auto simp: net_ok_new assms(2) dest: net_step_ok)

section \<open>The event loop with TLS\<close>

definition tls_net_ok :: "('w, 'e) net \<Rightarrow> bool" where
  "tls_net_ok n \<longleftrightarrow> net_callbacks n = initialize_callbacks (net_callbacks n) \<and> tls_useSSL (net_server n) \<and>
     srv_sequence (tls_server (net_server n)) = 0 \<and> srv_log (tls_server (net_server n)) = [] \<and>
     (\<forall>c\<in>ran (net_contexts n). c = new_context) \<and>
     (\<forall>conn buf. net_buffers n conn = Some buf \<longrightarrow> tls_conn_ok conn (net_server n))"

text \<open>A connection that could be opened.\<close>

lemma onConnection_tls_opened:
  assumes "onConnection_tls lib ops conn s = (Done (), s1)" and "tls_useSSL s" and "op_connected ops (srv_world (tls_server s))"
  shows "tls_conn_ok conn s1 \<and> tls_contexts s1 = (tls_contexts s)(conn \<mapsto> new_context) \<and> tls_useSSL s1 \<and>
    srv_sequence (tls_server s1) = srv_sequence (tls_server s) \<and> srv_log (tls_server s1) = srv_log (tls_server s) \<and>
    (\<forall>k. k \<noteq> conn \<longrightarrow> tls_sslConns s1 k = tls_sslConns s k \<and> tls_callbacks s1 k = tls_callbacks s k)"
proof -
  obtain bound sc where b: "SslConnection lib = (bound, sc)" by fastforce
  let ?s = "s\<lparr>tls_callbacks := (if bound then (tls_callbacks s)(conn := Cb_onRead) else tls_callbacks s)\<rparr>"
  obtain oc sc1 w1 where h: "startHandshake lib ops (setMessageCallback sc) (srv_world (tls_server s)) = (oc, sc1, w1)"
    by (metis prod_cases3)
  have s1: "oc = Done ()" "s1 = (tls_world w1 (set_sslConn conn sc1 ?s))\<lparr>tls_contexts := (tls_contexts s)(conn \<mapsto> new_context)\<rparr>"
    using assms b h by (cases oc; auto simp: onConnection_tls_def Let_def)+
  with h obtain e where e: "ssl_obj sc = Some e"
    "handleHandshake lib ops e (setMessageCallback sc) (srv_world (tls_server s)) = (sc1, w1)"
    by (auto simp: startHandshake_def setMessageCallback_def split: option.splits)
  with b have sc: "bound" "ssl_state sc = HANDSHAKE" "ssl_decryptedBuffer sc = []"
    by (auto simp: SslConnection_def Let_def split: option.splits if_splits)
  from handleHandshake_result [OF e(2)] sc assms(2) show ?thesis
    by (auto simp: s1(2) tls_conn_ok_def setMessageCallback_def)
qed

lemma tls_conn_ok_cong:
  assumes "tls_conn_ok k s" and "tls_useSSL s1" and "tls_sslConns s1 k = tls_sslConns s k" and "tls_callbacks s1 k = tls_callbacks s k"
  shows "tls_conn_ok k s1"
  using assms by (simp add: tls_conn_ok_def)

lemma tls_opened_ok:
  assumes n: "tls_net_ok n" and up: "op_connected ops (net_world n)" and r: "open_connection lib ops conn n = (Done (), n')"
  shows "tls_net_ok n'"
proof -
  let ?s = "(net_server n)\<lparr>tls_callbacks := (tls_callbacks (net_server n))(conn := Cb_onMessage)\<rparr>"
  note cbs = initialized_callbacks [of "net_callbacks n"]
  have i: "net_callbacks n = initialize_callbacks (net_callbacks n)" and ssl: "tls_useSSL (net_server n)"
    using n by (simp_all add: tls_net_ok_def)
  with cbs r obtain s1 where o: "onConnection_tls lib ops conn ?s = (Done (), s1)"
    and n': "n' = n\<lparr>net_server := s1, net_buffers := (net_buffers n)(conn \<mapsto> [])\<rparr>"
    by (auto simp: open_connection_def call_onConnection_def Let_def split: prod.splits)
  from onConnection_tls_opened [OF o] ssl up have s1: "tls_conn_ok conn s1" "tls_contexts s1 = (net_contexts n)(conn \<mapsto> new_context)"
    "tls_useSSL s1" "srv_sequence (tls_server s1) = srv_sequence (tls_server (net_server n))"
    "srv_log (tls_server s1) = srv_log (tls_server (net_server n))"
    "\<And>k. k \<noteq> conn \<Longrightarrow> tls_sslConns s1 k = tls_sslConns (net_server n) k \<and> tls_callbacks s1 k = tls_callbacks (net_server n) k"
    by simp_all
  have "tls_conn_ok k s1" if "net_buffers n' k = Some buf" for k buf
  proof (cases "k = conn")
    case False
    with that n have "tls_conn_ok k (net_server n)" by (auto simp: tls_net_ok_def n')
    then show ?thesis using s1(3,6) False by (auto intro: tls_conn_ok_cong)
  qed (use s1(1) in simp)
  moreover have "\<forall>c\<in>ran (net_contexts n'). c = new_context"
    using n by (auto simp: n' s1(2) tls_net_ok_def ran_def)
  ultimately show ?thesis using n s1(3-5) i by (simp add: tls_net_ok_def n')
qed

lemma tls_received_ok:
  assumes lib: "finite_reads lib avail" and n: "tls_net_ok n" "net_buffers n conn = Some buf"
  obtains n' where "receive_bytes f lib ops cb conn t buf bytes n = Some (Done (), n')" and "tls_net_ok n'"
proof -
  have i: "net_callbacks n = initialize_callbacks (net_callbacks n)" and ok: "tls_conn_ok conn (net_server n)"
    using n by (auto simp: tls_net_ok_def)
  obtain buf1 s1 where d: "deliver f lib ops cb conn t (buf @ bytes) (net_server n) = Some (Done (), buf1, s1)"
    "tls_conn_ok conn s1" "not_served ops conn (net_server n) s1" by (rule deliver_not_served [OF lib ok])
  let ?n = "n\<lparr>net_server := s1, net_buffers := (net_buffers n)(conn \<mapsto> buf1)\<rparr>"
  have "receive_bytes f lib ops cb conn t buf bytes n = Some (Done (), ?n)"
    using d(1) initialized_callbacks [OF i] by (simp add: receive_bytes_def)
  moreover have all: "tls_conn_ok k s1" if "net_buffers ?n k = Some b" for k b
  proof (cases "k = conn")
    case False
    with that n have "tls_conn_ok k (net_server n)" by (auto simp: tls_net_ok_def)
    then show ?thesis using d(2,3) False by (auto simp: not_served_def tls_conn_ok_def)
  qed (use d(2) in simp)
  have "tls_useSSL s1" using d(2) by (simp add: tls_conn_ok_def)
  with n(1) d(3) all have "tls_net_ok ?n"
    unfolding tls_net_ok_def not_served_def by simp
  ultimately show ?thesis by (intro that)
qed

lemma tls_closed_ok:
  assumes n: "tls_net_ok n" and down: "\<not> op_connected ops (net_world n)" and r: "close_connection lib ops conn n = (Done (), n')"
  shows "tls_net_ok n'"
proof -
  have i: "net_callbacks n = initialize_callbacks (net_callbacks n)" and ssl: "tls_useSSL (net_server n)"
    using n by (simp_all add: tls_net_ok_def)
  have n': "n' = n\<lparr>net_server := (net_server n)\<lparr>tls_sslConns := (tls_sslConns (net_server n))(conn := None)\<rparr>,
      net_buffers := (net_buffers n)(conn := None)\<rparr>"
    using r initialized_callbacks [OF i] ssl down by (auto simp: close_connection_def call_onConnection_def onConnection_tls_def Let_def)
  have "tls_conn_ok k (net_server n')" if "net_buffers n' k = Some b" for k b
  proof -
    have k: "k \<noteq> conn" "net_buffers n k = Some b" using that by (auto simp: n' split: if_splits)
    with n have "tls_conn_ok k (net_server n)" by (auto simp: tls_net_ok_def)
    with k(1) ssl show ?thesis by (auto simp: n' tls_conn_ok_def)
  qed
  with n i show ?thesis by (simp add: tls_net_ok_def n')
qed

lemma tls_reachable_ok:
  assumes "net_reachable f lib ops cb other True w0 n" and lib: "finite_reads lib avail"
  shows "tls_net_ok n"
  using assms(1)
proof (induction rule: net_reachable.induct)
  case listening
  show ?case by (simp add: tls_net_ok_def new_net_def initialize_callbacks_def)
next
  case (turn n n')
  from turn(2) show ?case
  proof (cases rule: net_stepE)
    case (received conn buf t bytes)
    then show ?thesis using tls_received_ok [OF lib turn(3) received(1), of f "ops conn" cb t bytes] by auto
  next
    case (elsewhere w)
    with turn(3) show ?thesis by (auto simp: tls_net_ok_def set_world_def tls_conn_ok_def)
  qed (use turn(3) tls_opened_ok tls_closed_ok in blast)+
qed

section \<open>What the callback gets to see\<close>

text \<open>A request as the parser hands it over: the fields are those the syntax of the message allows, the body has its declared length.\<close>

definition typed_request :: "nat \<Rightarrow> http_request \<Rightarrow> bool" where
  "typed_request conn req \<longleftrightarrow> request_ok req \<and> request_line_ok req \<and> framed req \<and>
     length (req_content req) = unat (req_contentLength req) \<and> req_connection req = Some conn"

lemma typed_setConnection:
  assumes "context_ok c" and "gotAll c"
  shows "typed_request conn (setConnection conn (ctx_request c))"
  using assms
  by (auto simp: typed_request_def context_ok_def gotAll_def setConnection_def request_ok_def request_line_ok_def framed_def
      split: option.splits)

lemma onRequest_typed:
  assumes "\<And>r resp w. typed_request conn r \<Longrightarrow> cb r resp w = cb' r resp w" and "typed_request conn (setConnection conn req)"
  shows "onRequest ops cb conn req st = onRequest ops cb' conn req st"
  using assms by (simp add: onRequest_def nextId_def Let_def)

context muduo_buffer
begin

lemma serve_loop_typed:
  assumes agree: "\<And>r resp w. typed_request conn r \<Longrightarrow> cb r resp w = cb' r resp w"
  shows "context_ok c \<Longrightarrow> \<not> gotAll c \<Longrightarrow>
    serve_loop findCRLF ops cb conn t st c buf = serve_loop findCRLF ops cb' conn t st c buf"
proof (induction "length buf" arbitrary: st c buf rule: less_induct)
  case less
  note ng = less.prems(2) [unfolded gotAll_def]
  obtain ok c1 buf1 where p: "parseRequest findCRLF t c buf = Some (Returned ok c1 buf1)" and c1: "ok \<longrightarrow> context_ok c1"
    using parseRequest_returns [OF less.prems(1) ng, of t buf] by blast
  note progress = parseRequest_progress [OF less.prems(1) ng p]
  show ?case
  proof (cases "op_connected ops (srv_world st) \<and> buf \<noteq> [] \<and> ok \<and> gotAll c1")
    case False
    with p show ?thesis by (subst (1 2) serve_loop.simps) auto
  next
    case True
    obtain o1 req st1 where r: "onRequest ops cb conn (ctx_request c1) st = (o1, req, st1)"
      by (cases "onRequest ops cb conn (ctx_request c1) st")
    have r': "onRequest ops cb' conn (ctx_request c1) st = (o1, req, st1)"
      using onRequest_typed [of conn cb cb', OF agree typed_setConnection] c1 True r by simp
    have "length buf1 < length buf" using progress True by auto
    from less.hyps [OF this, of "reset_context (c1\<lparr>ctx_request := req\<rparr>)" st1] p r r' True show ?thesis
      by (subst (1 2) serve_loop.simps) (auto split: outcome.split)
  qed
qed

lemma onMessage_typed:
  assumes "conn_ok c" and "\<And>r resp w. typed_request conn r \<Longrightarrow> cb r resp w = cb' r resp w"
  shows "onMessage findCRLF ops cb conn t st c buf = onMessage findCRLF ops cb' conn t st c buf"
proof (cases "ctx_processingStopped c")
  case False
  with assms(1) have "serve_loop findCRLF ops cb conn t st c buf = serve_loop findCRLF ops cb' conn t st c buf"
    by (intro serve_loop_typed assms(2)) (auto simp: conn_ok_def)
  then show ?thesis by (simp add: onMessage_def)
qed (simp add: onMessage_def)

end

section \<open>What can end the process\<close>

text \<open>The callback dies on a request of the right form.\<close>

definition callback_crashes :: "'w handler \<Rightarrow> nat \<Rightarrow> bool" where
  "callback_crashes cb conn \<longleftrightarrow> (\<exists>req resp w. typed_request conn req \<and> fst (cb req resp w) = Crashed)"

lemma onRequest_crashed:
  assumes "onRequest ops cb conn req st = (Crashed, req', st')" and "typed_request conn (setConnection conn req)"
  shows "callback_crashes cb conn"
proof -
  let ?r = "cb (setConnection conn req) (resp_setVersion (req_version req) (new_response (close_requested req))) (srv_world st)"
  obtain o1 r1 w1 where cb: "?r = (o1, r1, w1)" by (cases ?r)
  with assms(1) have "o1 = Crashed"
    by (cases o1; cases "\<exists>e. o1 = Threw (Std_exception e)")
      (auto simp: onRequest_def nextId_def Let_def split: if_splits thrown.splits)
  with cb assms(2) show ?thesis unfolding callback_crashes_def by (metis fst_conv)
qed

context muduo_buffer
begin

text \<open>The parser's assertion holds on every context the server passes on, so only the callback can bring the process down.\<close>

lemma serve_loop_crashed:
  "context_ok c \<Longrightarrow> \<not> gotAll c \<Longrightarrow> serve_loop findCRLF ops cb conn t st c buf = Some (Crashed, st', c', buf') \<Longrightarrow>
     callback_crashes cb conn"
proof (induction "length buf" arbitrary: st c buf rule: less_induct)
  case less
  note ng = less.prems(2) [unfolded gotAll_def]
  obtain ok c1 buf1 where p: "parseRequest findCRLF t c buf = Some (Returned ok c1 buf1)" and c1: "ok \<longrightarrow> context_ok c1"
    using parseRequest_returns [OF less.prems(1) ng, of t buf] by blast
  note progress = parseRequest_progress [OF less.prems(1) ng p]
  show ?case
  proof (cases "op_connected ops (srv_world st) \<and> buf \<noteq> [] \<and> ok \<and> gotAll c1")
    case False
    with less.prems(3) p show ?thesis by (subst (asm) serve_loop.simps) (auto split: if_splits)
  next
    case True
    obtain o1 req st1 where r: "onRequest ops cb conn (ctx_request c1) st = (o1, req, st1)"
      by (cases "onRequest ops cb conn (ctx_request c1) st")
    have typed: "typed_request conn (setConnection conn (ctx_request c1))" using c1 True by (intro typed_setConnection) auto
    have "length buf1 < length buf" using progress True by auto
    note rest = less.hyps [OF this, of "reset_context (c1\<lparr>ctx_request := req\<rparr>)" st1]
    show ?thesis
    proof (cases o1)
      case Crashed
      with onRequest_crashed [OF _ typed] r show ?thesis by blast
    next
      case (Done b)
      with less.prems(3) p r True rest show ?thesis
        by (subst (asm) serve_loop.simps) (auto split: if_splits)
    next
      case (Threw e)
      with less.prems(3) p r True show ?thesis by (subst (asm) serve_loop.simps) auto
    qed
  qed
qed

lemma onMessage_crashed:
  assumes "conn_ok c" and "onMessage findCRLF ops cb conn t st c buf = Some (Crashed, st', c', buf')"
  shows "callback_crashes cb conn"
proof (cases "ctx_processingStopped c")
  case False
  with assms(2) obtain s1 c1 b1 where "serve_loop findCRLF ops cb conn t st c buf = Some (Crashed, s1, c1, b1)"
    by (auto simp: onMessage_def split: option.splits outcome.splits thrown.splits)
  with assms(1) False show ?thesis by (intro serve_loop_crashed) (auto simp: conn_ok_def)
qed (use assms in \<open>simp add: onMessage_def\<close>)

end

section \<open>The state behind the callback\<close>

locale served_state =
  fixes I :: "'w \<Rightarrow> bool" and ops :: "nat \<Rightarrow> 'w tcp_ops" and cb :: "'w handler"
  assumes cb_keeps: "I w \<Longrightarrow> cb req resp w = (oc, resp', w') \<Longrightarrow> I w'"
    and send_keeps: "I w \<Longrightarrow> I (op_send (ops conn) s w)"
    and shutdown_keeps: "I w \<Longrightarrow> I (op_shutdown (ops conn) w)"
begin

lemma onRequest_keeps:
  assumes "I (srv_world st)" and "onRequest (ops conn) cb k req st = (oc, req', st')"
  shows "I (srv_world st')"
proof -
  let ?req = "setConnection k req"
  let ?resp = "resp_setVersion (req_version req) (new_response (close_requested req))"
  obtain o1 r1 w1 where cb: "cb ?req ?resp (srv_world st) = (o1, r1, w1)"
    by (cases "cb ?req ?resp (srv_world st)")
  from cb_keeps [OF assms(1) cb] have w1: "I w1" .
  show ?thesis
  proof (cases o1)
    case (Done u)
    with assms(2) cb w1 send_keeps shutdown_keeps show ?thesis
      by (auto simp: onRequest_def Let_def nextId_def record_request_def split: if_splits)
  next
    case (Threw e)
    with assms(2) cb w1 show ?thesis
      by (cases e) (auto simp: onRequest_def Let_def nextId_def record_request_def)
  qed (use assms(2) cb w1 in \<open>auto simp: onRequest_def Let_def nextId_def\<close>)
qed

lemma give_up_keeps: "I (srv_world st) \<Longrightarrow> I (srv_world (give_up (ops conn) st))"
  by (simp add: give_up_def send_keeps shutdown_keeps)

lemma serve_loop_keeps:
  assumes "serve_loop f (ops conn) cb k t st c buf = Some r" and "I (srv_world st)"
  shows "I (srv_world (fst (snd r)))"
proof (rule serve_loop.raw_induct [where P = "\<lambda>f o1 cb1 k t st c buf r.
        o1 = ops conn \<longrightarrow> cb1 = cb \<longrightarrow> I (srv_world st) \<longrightarrow> I (srv_world (fst (snd r)))",
      OF _ assms(1), rule_format, OF _ refl refl assms(2)], goal_cases)
  case (1 p f o1 cb1 k t st c buf r)
  then have I: "I (srv_world st)" by simp
  show ?case
  proof (cases "op_connected o1 (srv_world st) \<and> buf \<noteq> []")
    case False
    with 1(2) I show ?thesis by (auto split: if_splits)
  next
    case run: True
    with 1(2) obtain r1 where r1: "parseRequest f t c buf = Some r1" by (auto split: option.splits)
    show ?thesis
    proof (cases r1)
      case (Returned ok c1 buf1)
      obtain oc req st1 where oc: "onRequest o1 cb1 k (ctx_request c1) st = (oc, req, st1)"
        by (cases "onRequest o1 cb1 k (ctx_request c1) st")
      have "I (srv_world st1)" using onRequest_keeps [OF I] oc 1(3,4) by metis
      with 1(1) [of f o1 cb1 k t] 1(2-4) I run r1 Returned oc give_up_keeps [OF I] show ?thesis
        by (cases oc) (auto split: if_splits)
    qed (use 1(2) I run r1 in auto)
  qed
qed

lemma onMessage_keeps:
  assumes "onMessage f (ops conn) cb k t st c buf = Some (oc, st', c', buf')" and "I (srv_world st)"
  shows "I (srv_world st')"
proof (cases "ctx_processingStopped c")
  case False
  with assms obtain o1 st1 c1 b1 where l: "serve_loop f (ops conn) cb k t st c buf = Some (o1, st1, c1, b1)"
    by (auto simp: onMessage_def split: option.splits)
  note serve_loop_keeps [OF l assms(2), simplified]
  with give_up_keeps have "I (srv_world st1)" "I (srv_world (give_up (ops conn) st1))" by auto
  with assms(1) False l show ?thesis
    by (auto simp: onMessage_def split: outcome.splits thrown.splits)
qed (use assms in \<open>auto simp: onMessage_def\<close>)

lemma net_step_keeps:
  assumes "net_step f lib ops cb other n n'" and "net_ok n" and "I (net_world n)"
    and other: "\<And>w w'. other w w' \<Longrightarrow> I w \<Longrightarrow> I w'"
  shows "I (net_world n')"
  using assms(1)
proof (cases rule: net_stepE)
  case (received conn buf t bytes)
  obtain c where c: "net_contexts n conn = Some c" by (rule net_ok_conn [OF assms(2) received(1)])
  with received assms(2) obtain oc st c1 buf1 where
    "onMessage f (ops conn) cb conn t (tls_server (net_server n)) c (buf @ bytes) = Some (oc, st, c1, buf1)" "net_world n' = srv_world st"
    by (auto simp: receive_plain split: option.splits)
  with onMessage_keeps assms(3) show ?thesis by metis
qed (use assms in \<open>auto simp: open_plain close_plain\<close>)

lemma net_reachable_keeps:
  assumes "net_reachable f lib ops cb other False w0 n" and "muduo_buffer f" and "I w0"
    and "\<And>w w'. other w w' \<Longrightarrow> I w \<Longrightarrow> I w'"
  shows "I (net_world n)"
  using assms(1)
proof (induction rule: net_reachable.induct)
  case (turn n n')
  then show ?case using net_step_keeps [OF turn(2)] net_reachable_ok [OF turn(1) assms(2)] assms(4) by metis
qed (simp add: new_net_def assms(3))

end

section \<open>Properties\<close>

text \<open>
  C11. The server is an event loop that no client can stop. In every state it can reach by opening and closing any
  number of connections and receiving any bytes on them in any order, while the rest of the process does what it likes, the
  message callback for an open connection comes to an end: it does not run forever, no exception of a middleware or a handler leaves
  it, and it does not fail an assertion of the parser; the process dies only if a middleware or a handler itself kills it on
  a request of the right form. It touches neither the parser nor the buffered bytes of any other connection, it leaves its own
  connection ready for more bytes or given up with an empty buffer, and once a connection was given up further bytes on
  it change nothing at all.
\<close>

theorem connections_served:
  assumes f: "muduo_buffer f" and n: "net_reachable f lib ops (handleRequest chain rt) other False w0 n"
    and conn: "net_buffers n conn = Some buf"
  shows "\<exists>c oc n'. net_contexts n conn = Some c \<and> conn_ok c \<and>
    receive_bytes f lib (ops conn) (handleRequest chain rt) conn t buf bytes n = Some (oc, n') \<and>
    (oc = Done () \<and> net_reachable f lib ops (handleRequest chain rt) other False w0 n' \<and>
       (\<exists>c' buf'. net_contexts n' conn = Some c' \<and> net_buffers n' conn = Some buf' \<and> conn_ok c' \<and>
          (ctx_processingStopped c' \<longrightarrow> buf' = [])) \<or>
     oc = Crashed \<and> (\<exists>req resp w. typed_request conn req \<and> fst (handleRequest chain rt req resp w) = Crashed)) \<and>
    (\<forall>k. k \<noteq> conn \<longrightarrow> net_contexts n' k = net_contexts n k \<and> net_buffers n' k = net_buffers n k) \<and>
    (ctx_processingStopped c \<longrightarrow> n' = n)"
proof -
  let ?cb = "handleRequest chain rt"
  have ok: "net_ok n" by (rule net_reachable_ok [OF n f])
  obtain c where c: "net_contexts n conn = Some c" "conn_ok c" "ctx_processingStopped c \<longrightarrow> buf = []"
    by (rule net_ok_conn [OF ok conn])
  obtain oc st c1 buf1 where m: "onMessage f (ops conn) ?cb conn t (tls_server (net_server n)) c (buf @ bytes) = Some (oc, st, c1, buf1)"
    and after: "oc = Done () \<longrightarrow> conn_ok c1 \<and> (ctx_processingStopped c1 \<longrightarrow> buf1 = [])"
    using muduo_buffer.onMessage_returns [OF f c(2)] by blast
  let ?n = "n\<lparr>net_server := (net_server n)\<lparr>tls_server := st, tls_contexts := (net_contexts n)(conn \<mapsto> c1)\<rparr>,
    net_buffers := (net_buffers n)(conn \<mapsto> buf1)\<rparr>"
  have r: "receive_bytes f lib (ops conn) ?cb conn t buf bytes n = Some (oc, ?n)"
    by (simp add: receive_plain [OF ok conn c(1)] m)
  have "oc = Done () \<or> oc = Crashed"
    using m own_callback.onMessage_contains [of f "ops conn" chain rt] by (cases oc) auto
  moreover have "oc = Crashed \<longrightarrow> callback_crashes ?cb conn"
    using muduo_buffer.onMessage_crashed [OF f c(2)] m by blast
  moreover have "oc = Done () \<longrightarrow> net_reachable f lib ops ?cb other False w0 ?n"
    using turn [OF n net_step.received [where ops = ops and cb = ?cb, OF conn]] r by metis
  moreover have "ctx_processingStopped c \<longrightarrow> ?n = n"
    using m c conn by (auto simp: onMessage_def fun_upd_idem)
  ultimately show ?thesis using c(1,2) r after unfolding callback_crashes_def
    by (intro exI [of _ c] exI [of _ oc] exI [of _ ?n]) auto
qed

definition one_connection :: "(conn_action list, string \<times> string) net" where
  "one_connection = snd (open_connection clear_engine log_ops 7 (new_net False []))"

lemma one_connection_reachable:
  "net_reachable stub_findCRLF clear_engine (\<lambda>_. log_ops) (handleRequest [] new_router) other False [] one_connection"
  "net_buffers one_connection 7 = Some []"
proof -
  have up: "op_connected log_ops (net_world (new_net False []))" by (simp add: log_ops_def new_net_def)
  note o = open_plain [OF net_ok_new up, of clear_engine 7]
  have "open_connection clear_engine log_ops 7 (new_net False []) = (Done (), one_connection)"
    unfolding one_connection_def by (simp add: o)
  with up show "net_reachable stub_findCRLF clear_engine (\<lambda>_. log_ops) (handleRequest [] new_router) other False [] one_connection"
    by (intro turn [OF listening net_step.opened [of _ 7]]) (simp_all add: new_net_def)
  show "net_buffers one_connection 7 = Some []" by (simp add: one_connection_def o)
qed

theorem connections_served_witness:
  "\<exists>n'. receive_bytes stub_findCRLF clear_engine log_ops (handleRequest [] new_router) 7 0 []
       (''GET / HTTP/1.1'' @ crlf @ crlf) one_connection = Some (Done (), n') \<and>
     net_buffers n' 2 = net_buffers one_connection 2"
proof -
  have "fst (handleRequest [] new_router req resp w) \<noteq> Crashed" for req resp and w :: "conn_action list"
    by (simp add: handleRequest_def route_def new_router_def processAfter_def Let_def)
  with connections_served [OF stub_buffer.muduo_buffer_axioms one_connection_reachable,
      of 0 "''GET / HTTP/1.1'' @ crlf @ crlf" "\<lambda>_ _. True"] show ?thesis by force
qed

text \<open>
  C14. Middlewares and handlers only ever see well-typed requests. Whatever bytes a client sends, the callback behaves as any other
  callback that agrees with it on the requests of the right form: one of the five methods, version 1.0 or 1.1, every header a
  token with a value free of control characters under one lower-case name, no transfer coding, a body of exactly the declared length of at
  most ten mebibytes, and the connection the bytes came on.
\<close>

theorem handlers_see_typed_requests:
  assumes "muduo_buffer f" and "conn_ok c"
    and "\<And>req resp w. typed_request conn req \<Longrightarrow> cb req resp w = cb' req resp w"
  shows "onMessage f ops cb conn t st c buf = onMessage f ops cb' conn t st c buf"
  by (rule muduo_buffer.onMessage_typed [OF assms])

definition picky_callback :: "conn_action list handler" where
  "picky_callback req resp w =
     (if request_line_ok req then defaultHttpCallback req resp w else (Crashed, resp, w))"

theorem handlers_see_typed_requests_witness:
  "onMessage stub_findCRLF log_ops picky_callback 1 0 fresh_server new_context (''TRACE / HTTP/2.0'' @ crlf @ crlf) =
   onMessage stub_findCRLF log_ops defaultHttpCallback 1 0 fresh_server new_context (''TRACE / HTTP/2.0'' @ crlf @ crlf)"
  by (rule handlers_see_typed_requests [OF stub_buffer.muduo_buffer_axioms conn_ok_new])
    (simp add: picky_callback_def typed_request_def)

text \<open>
  C40. With TLS enabled the server never serves a request. Whatever connections are opened and whatever bytes arrive on them in whatever order,
  no request is ever numbered or logged and no parser ever leaves its initial state; every message callback ends normally without
  doing more. The decrypted bytes are passed to \<^verbatim>\<open>onMessage\<close>, which reads the connection's own decrypted buffer
  instead, and nothing fills that.
\<close>

theorem tls_loop_serves_nothing:
  assumes lib: "finite_reads lib avail" and n: "net_reachable f lib ops cb other True w0 n"
  shows "srv_sequence (tls_server (net_server n)) = 0 \<and> srv_log (tls_server (net_server n)) = [] \<and>
    (\<forall>conn c. net_contexts n conn = Some c \<longrightarrow> c = new_context) \<and>
    (\<forall>conn buf t bytes. net_buffers n conn = Some buf \<longrightarrow>
       (\<exists>n'. receive_bytes f lib (ops conn) cb conn t buf bytes n = Some (Done (), n')))"
proof -
  have ok: "tls_net_ok n" by (rule tls_reachable_ok [OF n lib])
  have "\<exists>n'. receive_bytes f lib (ops conn) cb conn t buf bytes n = Some (Done (), n')" if "net_buffers n conn = Some buf" for conn buf t bytes
    using tls_received_ok [OF lib ok that] by metis
  with ok show ?thesis by (auto simp: tls_net_ok_def ran_def)
qed

definition tls_connection :: "(conn_action list, string \<times> string) net" where
  "tls_connection = snd (open_connection clear_engine log_ops 7 (new_net True []))"

theorem tls_loop_serves_nothing_witness:
  "\<exists>n. net_reachable stub_findCRLF clear_engine (\<lambda>_. log_ops) defaultHttpCallback (\<lambda>_ _. False) True [] n \<and>
     net_buffers n 7 = Some [] \<and> srv_log (tls_server (net_server n)) = [] \<and>
     (\<exists>n'. receive_bytes stub_findCRLF clear_engine log_ops defaultHttpCallback 7 0 [] (''!GET / HTTP/1.1'' @ crlf @ crlf) n =
        Some (Done (), n'))"
proof -
  let ?reach = "net_reachable stub_findCRLF clear_engine (\<lambda>_. log_ops) defaultHttpCallback (\<lambda>_ _. False) True []"
  have "fst (open_connection clear_engine log_ops 7 (new_net True [])) = Done ()" by code_simp
  then have o: "open_connection clear_engine log_ops 7 (new_net True []) = (Done (), tls_connection)"
    by (simp add: tls_connection_def prod_eq_iff)
  have r: "?reach tls_connection"
    by (rule turn [OF listening net_step.opened [of _ 7, OF _ _ _ o]]) (simp_all add: new_net_def log_ops_def)
  have b: "net_buffers tls_connection 7 = Some []" by code_simp
  from tls_loop_serves_nothing [OF clear_engine_finite r] r b show ?thesis by (intro exI [of _ tls_connection]) simp
qed

end
