(* ===== verification/Chat_Net.thy ===== *)
theory Chat_Net
  imports Chat_App Http_Connections
begin

text \<open>
  The whole chat server on the network: \<^verbatim>\<open>main\<close> of \<^verbatim>\<open>AIApps/ChatServer/src/main.cpp\<close> up to \<^verbatim>\<open>ChatServer::start\<close>, then the event loop
  of \<open>Http_Connections\<close> with the chat server's own callback, waiting threads and outside changes
  between the events. The theorem says that this program refines the machine of \<open>Chat_App\<close> that handles whole requests: every
  state the bytes of any number of clients can lead to is one that a sequence of requests leads to, so the
  invariants proved there hold for it.
\<close>

section \<open>Connections of the chat server\<close>

text \<open>
  What is sent and which connections are shut down is recorded in the state. A connection is connected while its
  peer has it open (\<open>alive\<close>) and nobody has shut it down; \<open>clock\<close> reads the steady clock.
\<close>

definition chat_tcp ::
  "(nat \<Rightarrow> bool) \<Rightarrow> int \<Rightarrow> nat \<Rightarrow> ('r, 'j, 'kv, 'd) chat_server tcp_ops" where
  "chat_tcp alive clock conn =
     \<lparr>op_send = (\<lambda>s w. w\<lparr>ch_net := ch_net w @ [(conn, Sent s)]\<rparr>),
      op_shutdown = (\<lambda>w. w\<lparr>ch_net := ch_net w @ [(conn, Shut)]\<rparr>),
      op_connected = (\<lambda>w. alive conn \<and> (conn, Shut) \<notin> set (ch_net w)),
      op_now = (\<lambda>w. clock)\<rparr>"

text \<open>What happens between two events: a waiting thread runs, or the queue manager, the inference pool or the database changes.\<close>

inductive background ::
  "('r, 'j, 'kv, 'd) app \<Rightarrow> ('r, 'j, 'kv, 'd) chat_server \<Rightarrow> ('r, 'j, 'kv, 'd) chat_server \<Rightarrow> bool"
  for app where
  job: "ch_jobs w = before @ job # after \<Longrightarrow> run_job app job (w\<lparr>ch_jobs := before @ after\<rparr>) = (oc, w') \<Longrightarrow>
    background app w w'"
| other: "background app w (w\<lparr>ch_gemma := pool, ch_mq := mq, ch_db := d\<rparr>)"

text \<open>\<^verbatim>\<open>ChatServer::start\<close> is \<^verbatim>\<open>HttpServer::start\<close>: from what \<^verbatim>\<open>main\<close> has set up, the loop runs with the server's callback.\<close>

definition ChatServer_start ::
  "('r, 'j, 'kv, 'd) chat_server http_server \<Rightarrow> ('r, 'j, 'kv, 'd) chat_server \<Rightarrow> (('r, 'j, 'kv, 'd) chat_server, 'e) net" where
  "ChatServer_start srv w = new_net (hs_useSSL srv) w"

text \<open>The program. What is outside of the repository may answer differently each time.\<close>

inductive program_reachable ::
  "(string \<Rightarrow> nat option) \<Rightarrow> (('r, 'j, 'kv, 'd) chat_server, 'e) net \<Rightarrow> bool"
  for f where
  listen: "main_run app vl active db_init rng fs model_load constructs pool mq d opts = Some (Some (srv, w)) \<Longrightarrow>
    program_reachable f (ChatServer_start srv w)"
| event: "program_reachable f n \<Longrightarrow> ChatServer app vl active db_init rng port option = Inr (srv, sessions) \<Longrightarrow>
    net_step f lib (chat_tcp alive clock) (server_callback (setThreadNum k srv)) (background app) n n' \<Longrightarrow> program_reachable f n'"

section \<open>The chat server behind the event loop\<close>

lemma ChatServer_returns:
  "\<exists>sessions. ChatServer app vl active (\<lambda>_. return ()) rng port option =
     Inr (initializeRouter app vl active (initializeMiddleware (HttpServer port (option = kReusePort) kNoReusePort)), sessions)"
  by (simp add: ChatServer_def initializeSession_def new_storage_def new_manager_def sessionMaxAge_def)

lemma server_callback_threads [simp]: "server_callback (setThreadNum k srv) = server_callback srv"
  by (simp add: server_callback_def setThreadNum_def split: option.split)

lemma background_service:
  "background app w w' \<Longrightarrow> service_reachable w \<Longrightarrow> service_reachable w'"
  by (induction rule: background.induct) (auto intro: service_reachable.intros)

interpretation chat: served_state service_reachable "chat_tcp alive clock"
  "server_callback (initializeRouter app vl active (initializeMiddleware (HttpServer port (option = kReusePort) kNoReusePort)))"
  for alive clock app vl active port option
proof (unfold_locales, goal_cases)
  case (1 w req resp oc resp' w')
  from ChatServer_returns [of app vl active "st_rng (ch_sessions w)" port option] obtain sessions where
    "ChatServer app vl active (\<lambda>_. return ()) (st_rng (ch_sessions w)) port option =
      Inr (initializeRouter app vl active (initializeMiddleware (HttpServer port (option = kReusePort) kNoReusePort)), sessions)"
    by blast
  from service_reachable.request [OF 1(1) this 1(2)] show ?case .
qed (simp_all add: chat_tcp_def service_reachable.network)

lemma program_reachable_ok:
  assumes "program_reachable f n" and "muduo_buffer f"
  shows "net_ok n \<and> service_reachable (net_world n)"
  using assms(1)
proof (induction rule: program_reachable.induct)
  case (listen app vl active db_init rng fs model_load constructs pool mq d opts srv w)
  from service_reachable.start [OF listen] main_run_plain [OF listen] show ?case
    by (simp add: ChatServer_start_def net_ok_new) (simp add: new_net_def)
next
  case (event n app vl active db_init rng port option srv sessions lib alive clock k n')
  from event.hyps(3) have step: "net_step f lib (chat_tcp alive clock)
      (server_callback (initializeRouter app vl active (initializeMiddleware (HttpServer port (option = kReusePort) kNoReusePort))))
      (background app) n n'"
    by (simp add: ChatServer_Inr(1) [OF event.hyps(2)])
  from net_step_ok [OF step assms(2)] chat.net_step_keeps [OF step] background_service event.IH show ?case by blast
qed

section \<open>Properties\<close>

text \<open>
  C2. The running program refines the service of whole requests. Whatever bytes any number of clients send, cut and interleaved in any
  way, and whatever happens between, the state of the application is one that a sequence of requests, thread runs
  and outside changes leads to from \<^verbatim>\<open>main\<close>, so that all the invariants of that service hold; and every
  open connection has a well-formed parser ready for more bytes, or was given up and has nothing left in its buffer.
\<close>

theorem program_refines_service:
  assumes "muduo_buffer f" and "program_reachable f n"
  shows "service_reachable (net_world n) \<and>
    (\<forall>conn buf. net_buffers n conn = Some buf \<longrightarrow>
       (\<exists>c. net_contexts n conn = Some c \<and> conn_ok c \<and> (ctx_processingStopped c \<longrightarrow> buf = [])))"
  using program_reachable_ok [OF assms(2,1)] by (auto simp: net_ok_def)

text \<open>The sample server of \<open>Chat_App\<close> with one client connected.\<close>

lemma sample_connected:
  obtains n :: "((nat, jval, nat, row list) chat_server, string \<times> string) net"
  where "program_reachable stub_findCRLF n" "net_buffers n 7 = Some []" "ch_maps (net_world n) = restored_maps"
proof -
  obtain srv and w :: "(nat, jval, nat, row list) chat_server" where m: "main_run sample_app_rows sample_vision 0 (\<lambda>_. return ()) 0
      no_files (return ()) True toy_pool None sample_rows [(CHR ''p'', ''8080'')] = Some (Some (srv, w))"
    and maps: "ch_maps w = restored_maps" and net: "ch_net w = []"
    by (rule sample_main)
  let ?n = "ChatServer_start srv w :: ((nat, jval, nat, row list) chat_server, string \<times> string) net"
  have n: "?n = new_net False w" using main_run_plain [OF m] by (simp add: ChatServer_start_def)
  let ?ops = "chat_tcp (\<lambda>_. True) 0 :: nat \<Rightarrow> (nat, jval, nat, row list) chat_server tcp_ops"
  have up: "op_connected (?ops 7) (net_world ?n)" by (simp add: n new_net_def chat_tcp_def net)
  have "net_ok ?n" unfolding n by (rule net_ok_new)
  note o = open_plain [OF this up, of clear_engine 7]
  obtain sessions where c: "ChatServer sample_app_rows sample_vision 0 (\<lambda>_. return ()) (0 :: nat) 8080 kNoReusePort =
      Inr (initializeRouter sample_app_rows sample_vision 0 (initializeMiddleware (HttpServer 8080 False kNoReusePort)), sessions)"
    using ChatServer_returns [of sample_app_rows sample_vision 0 "0 :: nat" 8080 kNoReusePort] by auto
  show ?thesis
    by (rule that, rule event [OF listen [OF m] c net_step.opened [of ?n 7 ?ops, OF _ _ up o]]) (simp_all add: n new_net_def maps)
qed

theorem program_refines_service_witness:
  "\<exists>n :: ((nat, jval, nat, row list) chat_server, string \<times> string) net. program_reachable stub_findCRLF n \<and>
     net_buffers n 7 = Some [] \<and> service_reachable (net_world n) \<and> session_ids 7 (ch_maps (net_world n)) = [''s''] \<and>
     (\<exists>c. net_contexts n 7 = Some c \<and> conn_ok c)"
proof -
  obtain n :: "((nat, jval, nat, row list) chat_server, string \<times> string) net"
    where n: "program_reachable stub_findCRLF n" "net_buffers n 7 = Some []" "ch_maps (net_world n) = restored_maps"
    by (rule sample_connected)
  from program_refines_service [OF stub_buffer.muduo_buffer_axioms n(1)] n show ?thesis
    by (intro exI [of _ n]) (auto simp: sample_rows_restored)
qed

end
