(* ===== verification/Chat_Wire.thy ===== *)
theory Chat_Wire
  imports Chat_Net
begin

text \<open>
  What the chat server writes to whom. Bytes received on a connection make it write to that connection only, and start
  only threads that write to that connection; a thread writes only to the connection it was started for.
  This is the locale \<open>chat_invariant\<close> once more, on the record of what was sent, and \<open>served_state\<close> to carry it through the event loop.
\<close>

section \<open>Handlers\<close>

definition own_wire ::
  "nat \<Rightarrow> (nat \<times> conn_action) list \<Rightarrow> stream_job list \<Rightarrow> ('r, 'j, 'kv, 'd) chat_server \<Rightarrow> bool" where
  "own_wire conn sent jobs w \<longleftrightarrow>
     (\<exists>acts. ch_net w = sent @ acts \<and> (\<forall>x\<in>set acts. fst x = conn)) \<and>
     (\<exists>js. ch_jobs w = jobs @ js \<and> (\<forall>j\<in>set js. job_conn j = conn))"

lemma own_wire_simps [simp]:
  "own_wire conn sent jobs (w\<lparr>ch_sessions := s\<rparr>) = own_wire conn sent jobs w"
  "own_wire conn sent jobs (w\<lparr>ch_db := d\<rparr>) = own_wire conn sent jobs w"
  "own_wire conn sent jobs (w\<lparr>ch_onlineUsers := x\<rparr>) = own_wire conn sent jobs w"
  "own_wire conn sent jobs (w\<lparr>ch_maps := m\<rparr>) = own_wire conn sent jobs w"
  "own_wire conn sent jobs (w\<lparr>ch_recognizers := r\<rparr>) = own_wire conn sent jobs w"
  "own_wire conn sent jobs (w\<lparr>ch_gemma := g\<rparr>) = own_wire conn sent jobs w"
  "own_wire conn sent jobs (w\<lparr>ch_mq := q\<rparr>) = own_wire conn sent jobs w"
  by (simp_all add: own_wire_def)

lemma own_wire_refl: "own_wire conn (ch_net w) (ch_jobs w) w"
  by (simp add: own_wire_def)

lemma own_wire_sent: "own_wire conn sent jobs w \<Longrightarrow> own_wire conn sent jobs (w\<lparr>ch_net := ch_net w @ [(conn, x)]\<rparr>)"
  unfolding own_wire_def by auto

lemma own_wire_job:
  "own_wire conn sent jobs w \<Longrightarrow> job_conn j = conn \<Longrightarrow> own_wire conn sent jobs (w\<lparr>ch_jobs := ch_jobs w @ [j]\<rparr>)"
  unfolding own_wire_def by auto

interpretation wire: chat_invariant "own_wire conn sent jobs" app u conn for conn sent jobs app u
  by unfold_locales (simp_all add: own_wire_sent own_wire_job)

lemma wire_session [act_rules]:
  "inv_act (own_wire conn sent jobs) (app_getSession app req)"
  "inv_act (own_wire conn sent jobs) (app_setValue app a k v)"
  by (auto simp: triple_def app_getSession_def app_setValue_def act_state_def split: prod.splits outcome.splits)

lemma wire_state: "(\<And>w. own_wire conn sent jobs (g w) = own_wire conn sent jobs w) \<Longrightarrow> inv_act (own_wire conn sent jobs) (act_state g)"
  by (rule triple_state) simp

lemma wire_logged_in:
  assumes "\<And>u n. inv_act (own_wire conn sent jobs) (work u n)"
  shows "inv_act (own_wire conn sent jobs) (logged_in app req work)"
  unfolding logged_in_def by (intro act_rules assms)

lemma wire_protected:
  assumes "h \<in> set (protected_handlers app)" and own: "\<And>k. req_connection req = Some k \<Longrightarrow> k = conn"
  shows "inv_act (own_wire conn sent jobs) (h req)"
proof -
  obtain work where work: "work \<in> set (works app req)" "h req = protected app req work"
    using protected_handlers_works [OF assms(1)] by blast
  have "inv_act (own_wire conn sent jobs) (work u n)" for u n
    using own work(1) by (rule wire.works_keep)
  then show ?thesis unfolding work(2) protected_def by (intro triple_catch wire_logged_in inv_answers)
qed

lemma wire_login: "inv_act (own_wire conn sent jobs) (ChatLoginHandler app req)"
proof -
  have "inv_act (own_wire conn sent jobs) (login_success app req n u)" for n u
    unfolding login_success_def by (intro act_rules wire_state) simp_all
  then show ?thesis
    unfolding ChatLoginHandler_def login_attempt_def Let_def by (intro act_rules) simp_all
qed

lemma wire_logout: "inv_act (own_wire conn sent jobs) (ChatLogoutHandler app req)"
  unfolding ChatLogoutHandler_def logout_attempt_def Let_def by (intro act_rules wire_state) simp_all

lemma wire_register: "inv_act (own_wire conn sent jobs) (ChatRegisterHandler app req)"
  unfolding ChatRegisterHandler_def Let_def by (intro act_rules) simp

lemma wire_upload: "inv_act (own_wire conn sent jobs) (AIUploadSendHandler app vl active req)"
proof -
  have r: "inv_act (own_wire conn sent jobs) (obtain_recognizer vl u)" for u
    by (auto simp: triple_def obtain_recognizer_def split: option.splits sum.splits)
  have c: "inv_act (own_wire conn sent jobs) (act_checked x)" for x :: "'z checked"
    by (auto simp: triple_def act_checked_def act_result_def split: option.splits sum.splits)
  have f: "inv_act (own_wire conn sent jobs) (upload_fail js q e)" for js :: "'b json_lib" and q e
    unfolding upload_fail_def by (intro act_rules)
  have "inv_act (own_wire conn sent jobs) (upload_work app vl active req u)" for u
    unfolding upload_work_def Let_def case_prod_beta by (intro act_rules r c)
  then show ?thesis
    unfolding AIUploadSendHandler_def by (intro triple_catch wire_logged_in f)
qed

lemma wire_table:
  assumes "(k, h) \<in> set (route_table app vl active)" and own: "\<And>k. req_connection req = Some k \<Longrightarrow> k = conn"
  shows "inv_act (own_wire conn sent jobs) (h req)"
proof -
  from assms(1) consider "h \<in> set (protected_handlers app)" | "h = ChatEntryHandler app" | "h = ChatLoginHandler app"
    | "h = ChatRegisterHandler app" | "h = ChatLogoutHandler app" | "h = AIUploadSendHandler app vl active"
    unfolding route_table_def protected_handlers_def by auto
  then show ?thesis
    using wire_protected [OF _ own] wire_login wire_logout wire_register wire_upload
    by cases (simp_all add: ChatEntryHandler_def inv_answers(4))
qed

section \<open>The callback and the event loop\<close>

lemma server_callback_wire:
  assumes srv: "ChatServer app vl active db_init rng port option = Inr (srv, sessions)"
    and own: "\<And>k. req_connection req = Some k \<Longrightarrow> k = conn"
    and "own_wire conn sent jobs w" and "server_callback srv req resp w = (oc, resp', w')"
  shows "own_wire conn sent jobs w'"
proof -
  have keeps: "own_wire conn sent jobs w2" if "(k, h) \<in> set (route_table app vl active)" "own_wire conn sent jobs w1" "h req p w1 = (q, p', w2)"
    for k h p w1 q p' w2
    using wire_table [OF that(1) own] that(2,3) by (rule inv_run)
  have route: "own_wire conn sent jobs w2" if "route (hs_router srv) req p w1 = (q, p', w2)" "own_wire conn sent jobs w1" for p w1 q p' w2
    using that keeps
    by (auto simp: route_chat_server [OF srv] run_handler_def dest!: map_of_SomeD split: option.splits prod.splits outcome.splits)
  have cb: "server_callback srv = handleRequest [Some (CorsMiddleware cors_defaultConfig)] (hs_router srv)"
    by (simp add: server_callback_def ChatServer_Inr(1) [OF srv] initializeRouter_chain)
  from assms(3,4) route show ?thesis
    unfolding cb by (rule cors_handleRequest_inv)
qed

text \<open>The callback restricted to the requests of one connection: the event loop calls it with no others.\<close>

definition only_own :: "nat \<Rightarrow> 'w handler \<Rightarrow> 'w handler" where
  "only_own conn cb req resp w = (if req_connection req = Some conn then cb req resp w else (Done (), resp, w))"

interpretation own: served_state "own_wire conn sent jobs" "\<lambda>_. chat_tcp alive clock conn"
  "only_own conn (server_callback (initializeRouter app vl active (initializeMiddleware (HttpServer port (option = kReusePort) kNoReusePort))))"
  for conn sent jobs alive clock app vl active port option
proof (unfold_locales, goal_cases)
  case (1 w req resp oc resp' w')
  from ChatServer_returns [of app vl active "st_rng (ch_sessions w)" port option] obtain sessions where
    c: "ChatServer app vl active (\<lambda>_. return ()) (st_rng (ch_sessions w)) port option =
      Inr (initializeRouter app vl active (initializeMiddleware (HttpServer port (option = kReusePort) kNoReusePort)), sessions)"
    by blast
  show ?case
  proof (cases "req_connection req = Some conn")
    case True
    with 1(2) have "server_callback (initializeRouter app vl active
        (initializeMiddleware (HttpServer port (option = kReusePort) kNoReusePort))) req resp w = (oc, resp', w')"
      by (simp add: only_own_def)
    from server_callback_wire [OF c _ 1(1) this] True show ?thesis by simp
  qed (use 1 in \<open>simp add: only_own_def\<close>)
qed (simp_all add: chat_tcp_def own_wire_sent)

lemma run_job_wire:
  assumes "run_job app job w = (oc, w')"
  shows "\<exists>acts. ch_net w' = ch_net w @ acts \<and> (\<forall>x\<in>set acts. fst x = job_conn job)"
  using assms
  by (auto simp: run_job_def run_helper_def split: prod.splits option.splits)

section \<open>Properties\<close>

text \<open>
  C5. Nobody gets an answer to somebody else's request. In every state the running program can reach, bytes received on a connection make the server
  write, while it handles them, to that connection only, and start only threads for that connection, whichever requests
  they contain; and a thread that streams an answer writes only to the connection it was started for.
\<close>

theorem responses_stay_on_connection:
  fixes n :: "(('r, 'j, 'kv, 'd) chat_server, 'e) net"
  assumes f: "muduo_buffer f" and n: "program_reachable f n"
    and srv: "ChatServer app vl active db_init rng port option = Inr (srv, sessions)"
    and conn: "net_buffers n conn = Some buf"
    and r: "receive_bytes f lib (chat_tcp alive clock conn) (server_callback srv) conn t buf bytes n = Some (oc, n')"
  shows "(\<exists>acts. ch_net (net_world n') = ch_net (net_world n) @ acts \<and> (\<forall>x\<in>set acts. fst x = conn)) \<and>
    (\<exists>js. ch_jobs (net_world n') = ch_jobs (net_world n) @ js \<and> (\<forall>j\<in>set js. job_conn j = conn)) \<and>
    (\<forall>job oc1 w1 w2. run_job app job (w1 :: ('r, 'j, 'kv, 'd) chat_server) = (oc1, w2) \<longrightarrow>
       (\<exists>acts. ch_net w2 = ch_net w1 @ acts \<and> (\<forall>x\<in>set acts. fst x = job_conn job)))"
proof -
  let ?ops = "chat_tcp alive clock conn" and ?cb = "server_callback srv"
  have ok: "net_ok n" using program_reachable_ok [OF n f] by simp
  obtain c where c: "net_contexts n conn = Some c" "conn_ok c" by (rule net_ok_conn [OF ok conn])
  obtain st c1 buf1 where m: "onMessage f ?ops ?cb conn t (tls_server (net_server n)) c (buf @ bytes) = Some (oc, st, c1, buf1)"
    and w: "net_world n' = srv_world st"
    using r by (auto simp: receive_plain [OF ok conn c(1)] split: option.splits prod.splits)
  have "?cb req resp w = only_own conn ?cb req resp w" if "typed_request conn req" for req resp w
    using that by (simp add: only_own_def typed_request_def)
  from muduo_buffer.onMessage_typed [of f c conn ?cb "only_own conn ?cb", OF f c(2) this] m
  have "onMessage f ?ops (only_own conn ?cb) conn t (tls_server (net_server n)) c (buf @ bytes) = Some (oc, st, c1, buf1)" by simp
  from own.onMessage_keeps [OF this [unfolded ChatServer_Inr(1) [OF srv]] own_wire_refl]
  have "own_wire conn (ch_net (net_world n)) (ch_jobs (net_world n)) (net_world n')" by (simp only: w)
  then show ?thesis using run_job_wire unfolding own_wire_def by blast
qed

theorem responses_stay_on_connection_witness:
  "\<exists>(n :: ((nat, jval, nat, row list) chat_server, string \<times> string) net) srv sessions oc n' acts.
     program_reachable stub_findCRLF n \<and> net_buffers n 7 = Some [] \<and>
     ChatServer sample_app_rows sample_vision 0 (\<lambda>_. return ()) 0 8080 kNoReusePort = Inr (srv, sessions) \<and>
     receive_bytes stub_findCRLF clear_engine (chat_tcp (\<lambda>_. True) 0 7) (server_callback srv) 7 0 []
       (''GET / HTTP/1.1'' @ crlf @ crlf) n = Some (oc, n') \<and>
     ch_net (net_world n') = ch_net (net_world n) @ acts \<and> fst ` set acts \<subseteq> {7}"
proof -
  obtain n :: "((nat, jval, nat, row list) chat_server, string \<times> string) net"
    where n: "program_reachable stub_findCRLF n" "net_buffers n 7 = Some []" by (rule sample_connected)
  obtain srv sessions where srv: "ChatServer sample_app_rows sample_vision 0 (\<lambda>_. return ()) (0 :: nat) 8080 kNoReusePort = Inr (srv, sessions)"
    using ChatServer_returns [of sample_app_rows sample_vision 0 "0 :: nat" 8080 kNoReusePort] by blast
  let ?bytes = "''GET / HTTP/1.1'' @ crlf @ crlf"
  have ok: "net_ok n" using program_reachable_ok [OF n(1) stub_buffer.muduo_buffer_axioms] by simp
  obtain c where c: "net_contexts n 7 = Some c" "conn_ok c" by (rule net_ok_conn [OF ok n(2)])
  from muduo_buffer.onMessage_returns [OF stub_buffer.muduo_buffer_axioms c(2), of "chat_tcp (\<lambda>_. True) 0 7" "server_callback srv" 7 0
      "tls_server (net_server n)" "[] @ ?bytes"]
  obtain oc n' where r: "receive_bytes stub_findCRLF clear_engine (chat_tcp (\<lambda>_. True) 0 7) (server_callback srv) 7 0 [] ?bytes n =
      Some (oc, n')" unfolding receive_plain [OF ok n(2) c(1)] by force
  from responses_stay_on_connection [OF stub_buffer.muduo_buffer_axioms n(1) srv n(2) r] obtain acts where
    a: "ch_net (net_world n') = ch_net (net_world n) @ acts" "\<forall>x\<in>set acts. fst x = 7" by blast
  from a(2) have "fst ` set acts \<subseteq> {7}" by auto
  with n srv r a(1) show ?thesis by blast
qed

end
