(* ===== verification/Chat_Persistence.thy ===== *)
theory Chat_Persistence
  imports Chat_Security
begin

text \<open>
  A conversation on its way through the whole system: \<^verbatim>\<open>AIHelper::commitExchange\<close> puts each exchange on the queue, the consumer in
  \<^verbatim>\<open>main.cpp\<close> writes what is delivered to the table \<^verbatim>\<open>chat_message\<close>, and after a restart \<^verbatim>\<open>ChatServer::readDataFromMySQL\<close> rebuilds
  the conversations from the table. The broker may deliver in any order and more than once, and a write may fail
  or be carried out without its success being reported; the theorem shows that the restored conversation
  is nevertheless the one that was held in memory.

  The table is what \<^verbatim>\<open>deploy/init.sql\<close> creates. What the model relies on of MySQL is the definition \<open>message_table\<close>.
\<close>

section \<open>The table\<close>

record message =
  ms_id :: "string option"
  ms_user :: int
  ms_session :: string
  ms_isUser :: bool
  ms_content :: string
  ms_ts :: int

definition exchange_rows :: "chat_exchange \<Rightarrow> message list" where
  "exchange_rows x =
     [\<lparr>ms_id = Some (ex_message_id x @ ''/u''), ms_user = ex_user_id x, ms_session = ex_session_id x, ms_isUser = True,
       ms_content = ex_question x, ms_ts = ex_ts x\<rparr>,
      \<lparr>ms_id = Some (ex_message_id x @ ''/a''), ms_user = ex_user_id x, ms_session = ex_session_id x, ms_isUser = False,
       ms_content = ex_answer x, ms_ts = ex_ts x + 1\<rparr>]"

text \<open>An insertion whose duplicate keys change nothing; a null never counts as a duplicate.\<close>

definition insert_row :: "message \<Rightarrow> message list \<Rightarrow> message list" where
  "insert_row r t = (if ms_id r \<noteq> None \<and> ms_id r \<in> ms_id ` set t then t else t @ [r])"

definition insert_rows :: "message list \<Rightarrow> message list \<Rightarrow> message list" where
  "insert_rows rs t = fold insert_row rs t"

definition row_of :: "message \<Rightarrow> row" where
  "row_of m = message_row (ms_user m) (ms_session m) (if ms_isUser m then 1 else 0) (ms_content m) (ms_ts m)"

text \<open>\<^verbatim>\<open>ORDER BY ts ASC, id ASC\<close>\<close>

definition ts_then_id :: "message \<Rightarrow> message \<Rightarrow> bool" where
  "ts_then_id m m' \<longleftrightarrow> ms_ts m < ms_ts m' \<or> ms_ts m = ms_ts m' \<and> ms_user m \<le> ms_user m'"

text \<open>
  What is relied on of the database: \<open>tab\<close> is the contents of the table. Taking a connection leaves it alone; the insertion is atomic
  and happened if success is reported; the history query returns every row once, ordered by time stamp and user.
\<close>

definition message_table :: "'d db_ops \<Rightarrow> ('d \<Rightarrow> message list) \<Rightarrow> bool" where
  "message_table db tab \<longleftrightarrow>
     (\<forall>d e d'. db_lease db d = (e, d') \<longrightarrow> tab d' = tab d) \<and>
     (\<forall>x d r d'. db_update db (fst (persist x)) (map bindParam (snd (persist x))) d = (r, d') \<longrightarrow>
        tab d' = insert_rows (exchange_rows x) (tab d) \<or> r = None \<and> tab d' = tab d) \<and>
     (\<forall>d rows d'. db_query db history_query [] d = (Some rows, d') \<longrightarrow>
        (\<exists>ms. mset ms = mset (tab d) \<and> sorted_wrt ts_then_id ms \<and> rows = map row_of ms))"

section \<open>Deliveries\<close>

text \<open>The consumer on a sequence of deliveries, with what it answered to each.\<close>

fun deliveries :: "'j json_lib \<Rightarrow> 'd db_ops \<Rightarrow> string list \<Rightarrow> 'd \<Rightarrow> (string \<times> disposition) list \<times> 'd" where
  "deliveries js db [] d = ([], d)"
| "deliveries js db (body # bodies) d =
     (case executeMysql js db body d of
        (disp, d1) \<Rightarrow> (case deliveries js db bodies d1 of (ans, d2) \<Rightarrow> ((body, disp) # ans, d2)))"

lemma executeMysql_table:
  assumes "message_table db tab" and "executeMysql js db body d = (disp, d')"
  shows "case parse_exchange js body of
      Inl _ \<Rightarrow> tab d' = tab d \<and> disp \<noteq> Disp_Ack
    | Inr x \<Rightarrow> tab d' = insert_rows (exchange_rows x) (tab d) \<or> disp \<noteq> Disp_Ack \<and> tab d' = tab d"
proof (cases "parse_exchange js body")
  case (Inl e)
  then show ?thesis using assms(2) by (auto simp: executeMysql_def split: cpp_exn.splits)
next
  case (Inr x)
  obtain e d1 where l: "db_lease db d = (e, d1)" by fastforce
  have t1: "tab d1 = tab d" using assms(1) l by (simp add: message_table_def)
  obtain r d2 where u: "db_update db (fst (persist x)) (map bindParam (snd (persist x))) d1 = (r, d2)" by fastforce
  have t2: "tab d2 = insert_rows (exchange_rows x) (tab d1) \<or> r = None \<and> tab d2 = tab d1"
    using assms(1) u unfolding message_table_def by blast
  show ?thesis
    using assms(2) Inr l u t1 t2
    by (auto simp: executeMysql_def executeUpdate_def conn_executeUpdate_def split: prod.splits option.splits)
qed

section \<open>What deliveries leave in the table\<close>

definition parsed :: "'j json_lib \<Rightarrow> string list \<Rightarrow> chat_exchange set" where
  "parsed js bodies = {x. \<exists>b\<in>set bodies. parse_exchange js b = Inr x}"

definition rows_of_all :: "chat_exchange set \<Rightarrow> message set" where
  "rows_of_all X = (\<Union>x\<in>X. set (exchange_rows x))"

text \<open>Message identifiers are unique: among the exchanges delivered, and against the table as it was.\<close>

definition ids_unique :: "chat_exchange set \<Rightarrow> message list \<Rightarrow> bool" where
  "ids_unique X t \<longleftrightarrow> inj_on ex_message_id X \<and> (\<forall>r\<in>rows_of_all X. ms_id r \<notin> ms_id ` set t)"

lemma rows_ids: "r \<in> rows_of_all X \<Longrightarrow> ms_id r \<noteq> None"
  by (auto simp: rows_of_all_def exchange_rows_def)

lemma rows_inj: "ids_unique X t \<Longrightarrow> r \<in> rows_of_all X \<Longrightarrow> r' \<in> rows_of_all X \<Longrightarrow> ms_id r = ms_id r' \<Longrightarrow> r = r'"
  by (auto simp: ids_unique_def rows_of_all_def exchange_rows_def dest: inj_onD)

lemma insert_row_known:
  assumes "ids_unique X t" and "r \<in> rows_of_all X" and "set e \<subseteq> rows_of_all X"
  shows "insert_row r (t @ e) = t @ (if r \<in> set e then e else e @ [r])"
proof -
  have "ms_id r \<in> ms_id ` set e \<longleftrightarrow> r \<in> set e"
    using assms(3) by (auto dest: rows_inj [OF assms(1,2) subsetD])
  then show ?thesis
    using assms(1,2) rows_ids [OF assms(2)] by (auto simp: insert_row_def ids_unique_def image_Un)
qed

lemma insert_rows_known:
  assumes "ids_unique X t"
  shows "set rs \<subseteq> rows_of_all X \<Longrightarrow> set e \<subseteq> rows_of_all X \<Longrightarrow> distinct e \<Longrightarrow>
    \<exists>e'. insert_rows rs (t @ e) = t @ e' \<and> distinct e' \<and> set e' = set e \<union> set rs"
proof (induction rs arbitrary: e)
  case (Cons r rs)
  let ?e = "if r \<in> set e then e else e @ [r]"
  have "insert_rows (r # rs) (t @ e) = insert_rows rs (t @ ?e)"
    using Cons.prems insert_row_known [OF assms, of r e] by (simp add: insert_rows_def)
  moreover have "\<exists>e'. insert_rows rs (t @ ?e) = t @ e' \<and> distinct e' \<and> set e' = set ?e \<union> set rs"
    using Cons.prems by (intro Cons.IH) auto
  ultimately show ?case by auto
qed (simp add: insert_rows_def)

lemma deliveries_table:
  assumes "message_table db tab" and "ids_unique X t"
  shows "deliveries js db bodies d = (ans, d') \<Longrightarrow> parsed js bodies \<subseteq> X \<Longrightarrow> tab d = t @ e \<Longrightarrow> distinct e \<Longrightarrow>
    set e \<subseteq> rows_of_all X \<Longrightarrow>
    \<exists>e'. tab d' = t @ e' \<and> distinct e' \<and> set e \<subseteq> set e' \<and> set e' \<subseteq> rows_of_all X \<and>
      (\<forall>b x. (b, Disp_Ack) \<in> set ans \<and> parse_exchange js b = Inr x \<longrightarrow> set (exchange_rows x) \<subseteq> set e')"
proof (induction bodies arbitrary: d e ans)
  case (Cons body bodies)
  obtain disp d1 where x: "executeMysql js db body d = (disp, d1)" by fastforce
  obtain ans1 d2 where l: "deliveries js db bodies d1 = (ans1, d2)" by fastforce
  have ans: "ans = (body, disp) # ans1" "d2 = d'" using Cons.prems(1) x l by auto
  have X: "parsed js bodies \<subseteq> X" using Cons.prems(2) by (auto simp: parsed_def)
  note step = executeMysql_table [OF assms(1) x]
  have "\<exists>e1. tab d1 = t @ e1 \<and> distinct e1 \<and> set e \<subseteq> set e1 \<and> set e1 \<subseteq> rows_of_all X \<and>
      (\<forall>y. disp = Disp_Ack \<and> parse_exchange js body = Inr y \<longrightarrow> set (exchange_rows y) \<subseteq> set e1)"
  proof (cases "parse_exchange js body")
    case (Inl err)
    then show ?thesis using step Cons.prems(3-5) by (intro exI [of _ e]) simp
  next
    case (Inr y)
    then have "y \<in> X" using Cons.prems(2) by (auto simp: parsed_def)
    then have "set (exchange_rows y) \<subseteq> rows_of_all X" by (auto simp: rows_of_all_def)
    from insert_rows_known [OF assms(2) this Cons.prems(5,4)] step Inr Cons.prems(3-5) this show ?thesis by auto
  qed
  then obtain e1 where e1: "tab d1 = t @ e1" "distinct e1" "set e \<subseteq> set e1" "set e1 \<subseteq> rows_of_all X"
    "\<And>y. disp = Disp_Ack \<Longrightarrow> parse_exchange js body = Inr y \<Longrightarrow> set (exchange_rows y) \<subseteq> set e1" by blast
  from Cons.IH [OF l [unfolded ans(2)] X e1(1,2,4)] obtain e' where e': "tab d' = t @ e'" "distinct e'" "set e1 \<subseteq> set e'" "set e' \<subseteq> rows_of_all X"
    "\<And>b x. (b, Disp_Ack) \<in> set ans1 \<Longrightarrow> parse_exchange js b = Inr x \<Longrightarrow> set (exchange_rows x) \<subseteq> set e'" by blast
  have "set (exchange_rows x) \<subseteq> set e'" if "(b, Disp_Ack) \<in> set ans" "parse_exchange js b = Inr x" for b x
    using that e1(5) e'(3,5) subset_trans unfolding ans(1) by (metis Pair_inject set_ConsD)
  with e1(3) e' show ?case by (meson subset_trans)
qed auto

section \<open>Conversations\<close>

text \<open>The message an exchange adds to the transcript.\<close>

definition exchange_messages :: "chat_exchange \<Rightarrow> ((string \<times> int) \<times> bool) list" where
  "exchange_messages x = [((ex_question x, ex_ts x), True), ((ex_answer x, ex_ts x + 1), False)]"

definition published :: "mq_handler option \<Rightarrow> mq_handler option \<Rightarrow> string list \<Rightarrow> bool" where
  "published mq mq' bs \<longleftrightarrow>
     bs = [] \<and> mq' = mq \<or> (\<exists>b. bs = [b] \<and> mq_publish ''sql_queue'' b mq = (True, mq'))"

text \<open>
  Turns of one conversation of the user \<open>u\<close> under the identifier \<open>i\<close>, from the object \<open>h0\<close> on, and the bodies they put on the
  queue. Between two conversation_run the queue, the model pool and every service may change.
\<close>

inductive conversation_run :: "'j json_lib \<Rightarrow> int \<Rightarrow> string \<Rightarrow> 'j ai_helper \<Rightarrow> ('j, 'kv) ai_state \<Rightarrow> string list \<Rightarrow> bool"
  for js u i h0 where
  none: "conversation_run js u i h0 \<lparr>as_helper = h0, as_gemma = pool, as_mq = mq\<rparr> []"
| plain: "conversation_run js u i h0 s bs \<Longrightarrow> services_ok sv u \<Longrightarrow> sv_json sv = js \<Longrightarrow>
    chat sv u username i question modelType s = (r, s') \<Longrightarrow> published (as_mq s) (as_mq s') b \<Longrightarrow>
    conversation_run js u i h0 s' (bs @ b)"
| streamed: "conversation_run js u i h0 s bs \<Longrightarrow> services_ok sv u \<Longrightarrow> sv_json sv = js \<Longrightarrow>
    chatStream sv cb (\<lambda>_. None) u username i question modelType s = (Some calls, s') \<Longrightarrow>
    published (as_mq s) (as_mq s') b \<Longrightarrow> conversation_run js u i h0 s' (bs @ b)"
| between: "conversation_run js u i h0 s bs \<Longrightarrow> conversation_run js u i h0 (s\<lparr>as_gemma := pool, as_mq := mq\<rparr>) bs"

lemma publish_admitted:
  assumes "mq_publish q b m = (True, m')"
  shows "\<exists>h h'. m = Some h \<and> m' = Some h' \<and> mq_tasks h' = mq_tasks h @ [Task_push \<lparr>pub_queue = q, pub_body = b, pub_completion = None\<rparr>]"
  using assms by (auto simp: mq_publish_def schedulePublish_def split: option.splits if_splits prod.splits)

lemma publish_changes: "mq_publish q b m = (True, m') \<Longrightarrow> m' \<noteq> m"
  by (auto dest: publish_admitted)

lemma publish_body: "mq_publish q b m = (True, m') \<Longrightarrow> mq_publish q b' m = (True, m') \<Longrightarrow> b = b'"
  by (auto dest!: publish_admitted)

lemma published_committed:
  assumes "committed sv u n i q a s s'" and "published (as_mq s) (as_mq s') b"
  obtains x where "map (parse_exchange (sv_json sv)) b = [Inr x]" and "ex_user_id x = u" and "ex_session_id x = i"
    and "hp_messages (as_helper s') = hp_messages (as_helper s) @ map fst (exchange_messages x)"
    and "hp_roles (as_helper s') = hp_roles (as_helper s) @ map snd (exchange_messages x)"
    and "hp_messages (as_helper s) \<noteq> [] \<longrightarrow> snd (last (hp_messages (as_helper s))) < ex_ts x"
proof -
  from assms(1) obtain body x where x: "mq_publish ''sql_queue'' body (as_mq s) = (True, as_mq s')"
      "parse_exchange (sv_json sv) body = Inr x" "ex_user_id x = u" "ex_session_id x = i"
      "hp_messages (as_helper s') = hp_messages (as_helper s) @ map fst (exchange_messages x)"
      "hp_roles (as_helper s') = hp_roles (as_helper s) @ map snd (exchange_messages x)"
      "hp_messages (as_helper s) \<noteq> [] \<longrightarrow> snd (last (hp_messages (as_helper s))) < ex_ts x"
    by (auto simp: committed_def exchange_messages_def)
  from assms(2) publish_changes [OF x(1)] publish_body [OF x(1)] have "b = [body]" by (auto simp: published_def)
  with that x show ?thesis by simp
qed

lemma published_unchanged: "unchanged s s' \<Longrightarrow> published (as_mq s) (as_mq s') b \<Longrightarrow> b = []"
  using publish_changes by (auto simp: unchanged_def published_def)

text \<open>What a conversation and the bodies it published have to do with each other.\<close>

definition recorded :: "'j json_lib \<Rightarrow> int \<Rightarrow> string \<Rightarrow> 'j ai_helper \<Rightarrow> 'j ai_helper \<Rightarrow> string list \<Rightarrow> chat_exchange list \<Rightarrow> bool" where
  "recorded js u i h0 h bs xs \<longleftrightarrow> map (parse_exchange js) bs = map Inr xs \<and>
     (\<forall>x\<in>set xs. ex_user_id x = u \<and> ex_session_id x = i) \<and>
     hp_messages h = hp_messages h0 @ map fst (concat (map exchange_messages xs)) \<and>
     hp_roles h = hp_roles h0 @ map snd (concat (map exchange_messages xs)) \<and>
     (sorted_wrt (<) (map snd (hp_messages h0)) \<longrightarrow> sorted_wrt (<) (map snd (hp_messages h)))"

lemma sorted_below_last: "sorted_wrt (<) ns \<Longrightarrow> n \<in> set ns \<Longrightarrow> n \<le> last ns" for n :: int
  by (induction ns rule: rev_induct) (auto simp: sorted_wrt_append)

lemma recorded_committed:
  assumes "recorded js u i h0 (as_helper s) bs xs" and "committed sv u n i q a s s'" "sv_json sv = js"
    and "published (as_mq s) (as_mq s') b"
  shows "\<exists>xs. recorded js u i h0 (as_helper s') (bs @ b) xs"
proof -
  obtain x where x: "map (parse_exchange js) b = [Inr x]" "ex_user_id x = u" "ex_session_id x = i"
    and m: "hp_messages (as_helper s') = hp_messages (as_helper s) @ map fst (exchange_messages x)"
    and r: "hp_roles (as_helper s') = hp_roles (as_helper s) @ map snd (exchange_messages x)"
    and lt: "hp_messages (as_helper s) \<noteq> [] \<longrightarrow> snd (last (hp_messages (as_helper s))) < ex_ts x"
    using published_committed [OF assms(2,4)] assms(3) by metis
  have "sorted_wrt (<) (map snd (hp_messages (as_helper s')))" if "sorted_wrt (<) (map snd (hp_messages (as_helper s)))"
    using that lt sorted_below_last [of "map snd (hp_messages (as_helper s))"]
    by (cases "hp_messages (as_helper s) = []") (fastforce simp: m exchange_messages_def sorted_wrt_append last_map)+
  with assms(1) x show ?thesis
    by (intro exI [of _ "xs @ [x]"]) (auto simp: recorded_def m r)
qed

lemma recorded_unchanged:
  "recorded js u i h0 (as_helper s) bs xs \<Longrightarrow> unchanged s s' \<Longrightarrow> published (as_mq s) (as_mq s') b \<Longrightarrow>
     recorded js u i h0 (as_helper s') (bs @ b) xs"
  by (frule (1) published_unchanged) (auto simp: recorded_def unchanged_def)

lemma run_recorded: "conversation_run js u i h0 s bs \<Longrightarrow> \<exists>xs. recorded js u i h0 (as_helper s) bs xs"
proof (induction rule: conversation_run.induct)
  case none
  show ?case by (intro exI [of _ "[]"]) (simp add: recorded_def)
next
  case (plain s bs sv username question modelType r s' b)
  then obtain xs where xs: "recorded js u i h0 (as_helper s) bs xs" by blast
  show ?case
  proof (cases "\<exists>a. r = Some (Inr a)")
    case True
    with chat_cases [OF plain.hyps(2,4)] obtain a where "committed sv u username i question a s s'" by blast
    from recorded_committed [OF xs this plain.hyps(3,5)] show ?thesis .
  next
    case False
    with chat_cases [OF plain.hyps(2,4)] have "unchanged s s'" by blast
    from recorded_unchanged [OF xs this plain.hyps(5)] show ?thesis by blast
  qed
next
  case (streamed s bs sv cb username question modelType calls s' b)
  then obtain xs where xs: "recorded js u i h0 (as_helper s) bs xs" by blast
  from chatStream_ended [OF streamed.hyps(2,4)]
  consider a where "committed sv u username i question a s s'" | "unchanged s s'"
    unfolding stream_ended_def option.case by blast
  then show ?case
  proof cases
    case 1
    from recorded_committed [OF xs this streamed.hyps(3,5)] show ?thesis .
  next
    case 2
    from recorded_unchanged [OF xs this streamed.hyps(5)] show ?thesis by blast
  qed
next
  case (between s bs pool mq)
  then show ?case by simp
qed


section \<open>The way back\<close>

definition in_conversation :: "int \<Rightarrow> string \<Rightarrow> message \<Rightarrow> bool" where
  "in_conversation u i m \<longleftrightarrow> ms_user m = u \<and> ms_session m = i"

definition entry :: "message \<Rightarrow> (string \<times> int) \<times> bool" where
  "entry m = ((ms_content m, ms_ts m), ms_isUser m)"

lemma row_entry_row_of:
  "row_entry (row_of m) = (if 0 < ms_user m \<and> ms_user m \<le> INT_MAX
     then Some (ms_user m, ms_session m, ms_content m, ms_ts m, ms_isUser m) else None)"
  by (auto simp: row_entry_def row_of_def message_row_def)

lemma stored_messages_rows:
  "\<forall>r\<in>set (map row_of ms). row_entry r \<noteq> None \<Longrightarrow>
     stored_messages (map row_of ms) u i = map entry (filter (in_conversation u i) ms)"
  by (induction ms) (auto simp: row_entry_row_of in_conversation_def entry_def split: if_splits)

lemma entry_rows: "map entry (concat (map exchange_rows xs)) = concat (map exchange_messages xs)"
  by (induction xs) (simp_all add: exchange_rows_def exchange_messages_def entry_def)

lemma sorted_mset_unique:
  fixes f :: "'a \<Rightarrow> int"
  assumes "mset xs = mset ys" and "sorted (map f xs)" and "sorted_wrt (<) (map f ys)"
  shows "xs = ys"
proof -
  have d: "distinct (map f ys)" and s: "sorted (map f ys)"
    using assms(3) by (simp_all add: strict_sorted_iff)
  have "mset (map f xs) = mset (map f ys)" using assms(1) by simp
  then have "distinct (map f xs)" using d by (metis mset_eq_imp_distinct_iff)
  moreover have eq: "set xs = set ys" using assms(1) by (metis set_mset_mset)
  moreover have "inj_on f (set xs \<union> set ys)" using d eq by (simp add: distinct_map)
  ultimately show ?thesis using assms(2) d s by (intro map_sorted_distinct_set_unique)
qed

text \<open>Valid rows can always be restored.\<close>

lemma restore_row_total: "row_entry r \<noteq> None \<Longrightarrow> \<exists>m'. restore_row r m = Some (Inr m')"
  by (auto simp: restore_row_def row_entry_def getInt_def getString_def bind_checked_def Let_def inner_new update_conv'
      split: option.splits sql_value.splits if_splits)

lemma restore_rows_total: "\<forall>r\<in>set rs. row_entry r \<noteq> None \<Longrightarrow> \<exists>m'. restore_rows rs m = Some (Inr m')"
proof (induction rs arbitrary: m)
  case (Cons r rs)
  then obtain m1 where "restore_row r m = Some (Inr m1)" using restore_row_total [of r m] by auto
  then show ?case using Cons by (simp add: bind_checked_def)
qed simp

lemma restore_total:
  assumes "db_lease db (ch_db w) = (None, d0)" and "db_query db history_query [] d0 = (Some rows, d1)"
    and "\<forall>r\<in>set rows. row_entry r \<noteq> None"
  shows "\<exists>w'. readDataFromMySQL db w = (Inr (), w')"
proof -
  obtain m where "restore_rows rows ((ch_maps w)\<lparr>cm_chats := [], cm_ids := []\<rparr>) = Some (Inr m)"
    using restore_rows_total [OF assms(3)] by blast
  then show ?thesis using assms(1,2) by (simp add: readDataFromMySQL_def consumeQuery_def conn_consumeQuery_def)
qed

text \<open>The rows that the deliveries of a conversation leave are those of its exchanges.\<close>

lemma conversation_rows:
  assumes rec: "recorded js u i h0 h bs xs" and strict: "sorted_wrt (<) (map snd (hp_messages h))"
    and e: "distinct e" "set e \<subseteq> rows_of_all (parsed js bodies)"
    and acked: "\<forall>b\<in>set bs. \<forall>x. parse_exchange js b = Inr x \<longrightarrow> set (exchange_rows x) \<subseteq> set e"
    and own: "\<forall>b\<in>set bodies. \<forall>x. parse_exchange js b = Inr x \<and> ex_user_id x = u \<and> ex_session_id x = i \<longrightarrow> b \<in> set bs"
  shows "mset (map entry (filter (in_conversation u i) e)) = mset (concat (map exchange_messages xs))"
proof -
  let ?rows = "concat (map exchange_rows xs)"
  have parse: "map (parse_exchange js) bs = map Inr xs" and ui: "\<forall>x\<in>set xs. ex_user_id x = u \<and> ex_session_id x = i"
    using rec by (simp_all add: recorded_def)
  have xs: "x \<in> set xs \<longleftrightarrow> (\<exists>b\<in>set bs. parse_exchange js b = Inr x)" for x
  proof -
    have "x \<in> set xs \<longleftrightarrow> Inr x \<in> set (map (parse_exchange js) bs)" unfolding parse by auto
    also have "\<dots> \<longleftrightarrow> (\<exists>b\<in>set bs. parse_exchange js b = Inr x)" by force
    finally show ?thesis .
  qed
  have "map snd (hp_messages h) = map snd (hp_messages h0) @ map ms_ts ?rows"
    using rec unfolding recorded_def entry_rows [symmetric] by (simp add: entry_def comp_def)
  with strict have "distinct (map ms_ts ?rows)" by (simp add: strict_sorted_iff)
  then have "distinct ?rows" by (simp add: distinct_map)
  moreover have "set (filter (in_conversation u i) e) = set ?rows"
  proof (intro equalityI subsetI)
    fix m assume m: "m \<in> set (filter (in_conversation u i) e)"
    then obtain b x where "b \<in> set bodies" "parse_exchange js b = Inr x" "m \<in> set (exchange_rows x)"
      using e(2) by (auto simp: rows_of_all_def parsed_def)
    moreover from this m have "ex_user_id x = u" "ex_session_id x = i"
      by (auto simp: exchange_rows_def in_conversation_def)
    ultimately have "x \<in> set xs" using own xs by blast
    with \<open>m \<in> set (exchange_rows x)\<close> show "m \<in> set ?rows" by auto
  next
    fix m assume "m \<in> set ?rows"
    then obtain x where "x \<in> set xs" "m \<in> set (exchange_rows x)" by auto
    moreover from this xs acked have "m \<in> set e" by blast
    ultimately show "m \<in> set (filter (in_conversation u i) e)"
      using ui by (auto simp: exchange_rows_def in_conversation_def)
  qed
  ultimately have "mset (filter (in_conversation u i) e) = mset ?rows"
    using e(1) by (metis distinct_filter set_eq_iff_mset_eq_distinct)
  then show ?thesis unfolding entry_rows [symmetric] mset_map by simp
qed

lemma conversation_restored:
  assumes rec: "recorded js u i h0 h bs xs" and strict: "sorted_wrt (<) (map snd (hp_messages h))"
    and h0: "length (hp_messages h0) = length (hp_roles h0)"
      "mset (map entry (filter (in_conversation u i) t)) = mset (transcript_of h0)"
    and e: "t' = t @ e" "distinct e" "set e \<subseteq> rows_of_all (parsed js bodies)"
    and acked: "\<forall>b\<in>set bs. \<forall>x. parse_exchange js b = Inr x \<longrightarrow> set (exchange_rows x) \<subseteq> set e"
    and own: "\<forall>b\<in>set bodies. \<forall>x. parse_exchange js b = Inr x \<and> ex_user_id x = u \<and> ex_session_id x = i \<longrightarrow> b \<in> set bs"
    and ms: "mset ms = mset t'" "sorted_wrt ts_then_id ms"
  shows "map entry (filter (in_conversation u i) ms) = transcript_of h"
proof -
  let ?f = "filter (in_conversation u i)"
  have tr: "transcript_of h = transcript_of h0 @ concat (map exchange_messages xs)"
    using rec h0(1) by (auto simp: recorded_def transcript_of_def zip_map_fst_snd)
  have "sorted (map ms_ts (?f ms))"
    unfolding sorted_map by (rule sorted_wrt_mono_rel [OF _ sorted_wrt_filter [OF ms(2)]]) (auto simp: ts_then_id_def)
  then have sorted: "sorted (map (snd \<circ> fst) (map entry (?f ms)))" by (simp add: entry_def comp_def)
  have "mset (map entry (?f ms)) = mset (map entry (?f t)) + mset (map entry (?f e))"
    using arg_cong [OF ms(1), of "\<lambda>m. image_mset entry (filter_mset (in_conversation u i) m)"]
    by (simp add: e(1) flip: mset_filter)
  also have "\<dots> = mset (transcript_of h)"
    unfolding conversation_rows [OF rec strict e(2,3) acked own] h0(2) by (simp add: tr)
  finally have eq: "mset (map entry (?f ms)) = mset (transcript_of h)" .
  have "map (snd \<circ> fst) (transcript_of h) = map snd (hp_messages h)"
    using rec h0(1) by (simp add: transcript_of_def recorded_def flip: map_map)
  then show ?thesis using sorted_mset_unique [OF eq sorted] strict by simp
qed

lemma parsed_valid: "m \<in> rows_of_all (parsed js bodies) \<Longrightarrow> 0 < ms_user m \<and> ms_user m \<le> INT_MAX"
  by (auto simp: rows_of_all_def parsed_def exchange_rows_def fields_valid_def dest!: parse_exchange_valid)

text \<open>
  C8. Conversations survive a restart. Take a conversation as it was read from the table, or a new one, and any turns on
  it, plain or streamed, successful or not. Let the queue deliver bodies to the consumer in any order and any number of times, among
  them each that the conversation published, acknowledged at least once, and any of other conversations. Then, once the database answers, the
  restoration of the history succeeds and gives the conversation exactly the messages it has in memory, in the same order with the
  same roles.
\<close>

theorem history_survives_restart:
  assumes "message_table db tab" and "conversation_run js u i h0 s bs"
    and h0: "sorted_wrt (<) (map snd (hp_messages h0))" "length (hp_messages h0) = length (hp_roles h0)"
      "mset (map entry (filter (in_conversation u i) (tab d))) = mset (transcript_of h0)"
    and valid: "\<forall>m\<in>set (tab d). 0 < ms_user m \<and> ms_user m \<le> INT_MAX"
    and dels: "deliveries js db bodies d = (ans, d')" and acked: "\<forall>b\<in>set bs. (b, Disp_Ack) \<in> set ans"
    and own: "\<forall>b\<in>set bodies. \<forall>x. parse_exchange js b = Inr x \<and> ex_user_id x = u \<and> ex_session_id x = i \<longrightarrow> b \<in> set bs"
    and ids: "ids_unique (parsed js bodies) (tab d)" and maps: "maps_ok (ch_maps w)"
    and answers: "db_lease db d' = (None, d0)" "db_query db history_query [] d0 = (Some rows, d1)"
  shows "\<exists>w'. readDataFromMySQL db (w\<lparr>ch_db := d'\<rparr>) = (Inr (), w') \<and>
    stored_in (ch_maps w') u i = transcript_of (as_helper s)"
proof -
  from run_recorded [OF assms(2)] obtain xs where rec: "recorded js u i h0 (as_helper s) bs xs" by blast
  then have strict: "sorted_wrt (<) (map snd (hp_messages (as_helper s)))" using h0(1) unfolding recorded_def by blast
  from deliveries_table [OF assms(1) ids dels order_refl, of "[]"] obtain e where e: "tab d' = tab d @ e" "distinct e"
      "set e \<subseteq> rows_of_all (parsed js bodies)"
      "\<And>b x. (b, Disp_Ack) \<in> set ans \<Longrightarrow> parse_exchange js b = Inr x \<Longrightarrow> set (exchange_rows x) \<subseteq> set e" by auto
  from assms(1) answers obtain ms where ms: "mset ms = mset (tab d')" "sorted_wrt ts_then_id ms" "rows = map row_of ms"
    unfolding message_table_def by metis
  have "set ms = set (tab d) \<union> set e" using arg_cong [OF ms(1), of set_mset] by (simp add: e(1))
  then have rows: "\<forall>r\<in>set (map row_of ms). row_entry r \<noteq> None"
    using valid e(3) parsed_valid by (fastforce simp: row_entry_row_of)
  obtain w' where w': "readDataFromMySQL db (w\<lparr>ch_db := d'\<rparr>) = (Inr (), w')"
    using restore_total [of db "w\<lparr>ch_db := d'\<rparr>" d0 rows d1] answers rows unfolding ms(3) by auto
  have "maps_ok (ch_maps (w\<lparr>ch_db := d'\<rparr>))" using maps by simp
  from restore_snapshot [OF this w'] answers
  have "stored_in (ch_maps w') u i = stored_messages (map row_of ms) u i" unfolding ms(3) by fastforce
  also have "\<dots> = map entry (filter (in_conversation u i) ms)" by (rule stored_messages_rows [OF rows])
  also have "\<dots> = transcript_of (as_helper s)"
    using conversation_restored [OF rec strict h0(2,3) e(1-3) _ own ms(1,2)] acked e(4) by blast
  finally show ?thesis using w' by blast
qed

section \<open>An instance\<close>

text \<open>A database that is just the table; it answers the query when the rows are in order already.\<close>

definition text_int :: "string \<Rightarrow> int" where
  "text_int s = (if s \<noteq> [] \<and> hd s = CHR ''-'' then - int (decimal (tl s)) else int (decimal s))"

fun row_of_args :: "string list \<Rightarrow> message list" where
  "row_of_args (mid # uid # name # sid # isUser # content # ts # rest) =
     \<lparr>ms_id = Some mid, ms_user = text_int uid, ms_session = sid, ms_isUser = (isUser = ''1''), ms_content = content,
      ms_ts = text_int ts\<rparr> # row_of_args rest"
| "row_of_args _ = []"

definition table_db :: "message list db_ops" where
  "table_db = \<lparr>db_lease = (\<lambda>d. (None, d)),
     db_query = (\<lambda>sql args d. (if sorted_wrt ts_then_id d then Some (map row_of d) else None, d)),
     db_update = (\<lambda>sql args d. (Some 2, insert_rows (row_of_args args) d))\<rparr>"

lemma text_int_to_string: "text_int (to_string_int i) = i"
proof (cases "i < 0")
  case False
  obtain c s where "to_string (nat i) = c # s" "is_digit c"
    using to_string_digits [of "nat i"] to_string_nonempty [of "nat i"] by (cases "to_string (nat i)") auto
  then have "hd (to_string (nat i)) \<noteq> CHR ''-''" by (auto simp: is_digit_def)
  with False show ?thesis by (simp add: text_int_def to_string_int_def)
qed (simp add: text_int_def to_string_int_def)

lemma table_db_update:
  "db_update table_db (fst (persist x)) (map bindParam (snd (persist x))) d = (Some 2, insert_rows (exchange_rows x) d)"
proof -
  have "to_string_int 1 = ''1''" "to_string_int 0 = ''0''" by code_simp+
  then have "row_of_args (map bindParam (snd (persist x))) = exchange_rows x"
    by (simp add: persist_def Let_def exchange_rows_def text_int_to_string)
  then show ?thesis by (simp add: table_db_def)
qed

lemma table_db_ok: "message_table table_db id"
  unfolding message_table_def table_db_update by (auto simp: table_db_def split: if_splits)

text \<open>One turn, delivered twice.\<close>

definition turn_exchange :: chat_exchange where
  "turn_exchange = \<lparr>ex_message_id = replicate 32 CHR ''0'', ex_user_id = 7, ex_username = ''u'', ex_session_id = ''s'',
     ex_question = ''q'', ex_answer = ''A'', ex_ts = 1000\<rparr>"

abbreviation turn_json :: "jval json_lib" where "turn_json \<equiv> table_json [(''body'', sample_turn)]"

lemma turn_parse: "parse_exchange turn_json b = Inr x \<longleftrightarrow> b = ''body'' \<and> x = turn_exchange"
proof (cases "b = ''body''")
  case True
  then show ?thesis using sample_parse by (auto simp: turn_exchange_def)
next
  case False
  then show ?thesis by (simp add: parse_exchange_def table_json_def)
qed

lemma turn_run: "\<exists>s :: (jval, nat) ai_state. conversation_run turn_json 7 ''s'' new_helper s [''body''] \<and> length (hp_messages (as_helper s)) = 2"
proof -
  obtain s' where c: "chat sample_services 7 ''u'' ''s'' ''q'' ''5'' sample_state = (Some (Inr ''A''), s')"
    using sample_chat by blast
  have js: "sv_json sample_services = turn_json" by (simp add: sample_services_def)
  have "committed sample_services 7 ''u'' ''s'' ''q'' ''A'' sample_state s'"
    using chat_cases [OF sample_services_ok c] by blast
  then have "published (as_mq sample_state) (as_mq s') [''body''] \<and> length (hp_messages (as_helper s')) = 2"
    by (auto simp: committed_def published_def js turn_parse sample_state_def new_helper_def)
  moreover have "conversation_run turn_json 7 ''s'' new_helper sample_state []"
    unfolding sample_state_def by (rule none)
  ultimately have "conversation_run turn_json 7 ''s'' new_helper s' ([] @ [''body''])" "length (hp_messages (as_helper s')) = 2"
    using plain [OF _ sample_services_ok js c] by blast+
  then show ?thesis by auto
qed

lemma turn_delivered:
  "deliveries turn_json table_db [''body'', ''body''] [] =
     ([(''body'', Disp_Ack), (''body'', Disp_Ack)], exchange_rows turn_exchange)"
proof -
  have p: "parse_exchange turn_json ''body'' = Inr turn_exchange" by (simp add: turn_parse)
  have "executeMysql turn_json table_db ''body'' d = (Disp_Ack, insert_rows (exchange_rows turn_exchange) d)" for d
    using table_db_update [of turn_exchange d]
    by (auto simp: executeMysql_def p executeUpdate_def conn_executeUpdate_def table_db_def split: prod.splits)
  then show ?thesis by (simp add: insert_rows_def insert_row_def exchange_rows_def)
qed

theorem history_survives_restart_witness:
  "\<exists>s w' :: (nat, jval, nat, message list) chat_server. conversation_run turn_json 7 ''s'' new_helper (s :: (jval, nat) ai_state) [''body''] \<and>
     readDataFromMySQL table_db (sample_chat_server (exchange_rows turn_exchange)) = (Inr (), w') \<and>
     stored_in (ch_maps w') 7 ''s'' = transcript_of (as_helper s)"
proof -
  obtain s :: "(jval, nat) ai_state" where s: "conversation_run turn_json 7 ''s'' new_helper s [''body'']" using turn_run by blast
  have X: "parsed turn_json [''body'', ''body''] = {turn_exchange}" by (auto simp: parsed_def turn_parse)
  have ids: "ids_unique (parsed turn_json [''body'', ''body'']) (id [])" by (simp add: X ids_unique_def)
  have own: "\<forall>b\<in>set [''body'', ''body'']. \<forall>x. parse_exchange turn_json b = Inr x \<and> ex_user_id x = 7 \<and> ex_session_id x = ''s'' \<longrightarrow>
      b \<in> set [''body'']" by simp
  have ans: "db_lease table_db (exchange_rows turn_exchange) = (None, exchange_rows turn_exchange)"
    "db_query table_db history_query [] (exchange_rows turn_exchange) =
       (Some (map row_of (exchange_rows turn_exchange)), exchange_rows turn_exchange)"
    by (simp_all add: table_db_def exchange_rows_def ts_then_id_def)
  have maps: "maps_ok (ch_maps (sample_chat_server []))" by (simp add: sample_chat_server_def maps_ok_empty)
  have w: "(sample_chat_server [])\<lparr>ch_db := exchange_rows turn_exchange\<rparr> = sample_chat_server (exchange_rows turn_exchange)"
    by (simp add: sample_chat_server_def)
  from history_survives_restart [OF table_db_ok s _ _ _ _ turn_delivered _ own ids maps ans] s show ?thesis
    by (auto simp: new_helper_def transcript_of_def w)
qed

end
