(* ===== verification/Chat_Login.thy ===== *)
theory Chat_Login
  imports Chat_Security
begin

text \<open>
  From a login to the requests after it: the session that \<^verbatim>\<open>ChatLoginHandler\<close> marks as logged in is in the store under the identifier
  the client has, and the start of every protected handler finds it there. This follows a session through
  \<^verbatim>\<open>SessionManager::getSession\<close>, \<^verbatim>\<open>Session::setValue\<close> and \<^verbatim>\<open>MemorySessionStorage\<close>.
\<close>

section \<open>A stored session\<close>

definition stored :: "nat \<Rightarrow> string \<Rightarrow> 'r session_state \<Rightarrow> bool" where
  "stored a sid s \<longleftrightarrow> map_of (st_sessions s) sid = Some a \<and> ses_id (obj s a) = sid"

lemma clean_loop_tick: "snd (clean_loop clk s t m) = t + length m"
  by (induction clk s t m rule: clean_loop.induct) (simp_all add: Let_def split_beta)

lemma cleanExpired_tick: "st_tick s \<le> st_tick (cleanExpired clk s)"
  using clean_loop_tick [of clk s "st_tick s" "st_sessions s"] by (simp add: cleanExpired_def split_beta)

lemma insert_bounded_True:
  "insert_bounded clk a s = (True, s') \<Longrightarrow>
     map_of (st_sessions s') (ses_id (obj s a)) = Some a \<and> st_heap s' = st_heap s \<and> st_tick s \<le> st_tick s'"
  by (auto simp: insert_bounded_def Let_def update_conv' cleanExpired_tick split: if_splits)

lemma admit_True:
  assumes "admit clk (Some a) s = (Inr True, s')"
  shows "map_of (st_sessions s') (ses_id (obj s a)) = Some a \<and> st_heap s' = st_heap s \<and> st_tick s \<le> st_tick s'"
proof -
  let ?i = "ses_id (obj s a)"
  from assms consider "map_of (st_sessions s) ?i = Some a" "s' = s" | "insert_bounded clk a s = (True, s')"
    | "insert_bounded clk a (remove_session ?i (tick s)) = (True, s')"
    by (auto simp: admit_def split: option.splits prod.splits if_splits)
  then show ?thesis
  proof cases
    case 3
    have "st_tick (remove_session ?i (tick s)) = Suc (st_tick s)" by (simp add: remove_session_def)
    with insert_bounded_True [OF 3] show ?thesis by simp
  qed (auto dest: insert_bounded_True)
qed

lemma obj_heap: "st_heap s' a = st_heap s a \<Longrightarrow> obj s' a = obj s a"
  by (simp add: obj_def)

text \<open>What \<^verbatim>\<open>getSession\<close> returns is in the store and lives as long as sessions live.\<close>

lemma getSession_stored:
  assumes ok: "storage_ok s" and clock: "mono clk" and hex: "\<forall>g. fst (draw g) < 16"
    and age: "\<forall>b x. st_heap s b = Some x \<longrightarrow> age \<le> ses_maxAge x" "age \<le> m"
    and run: "getSession memory_ops draw clk m req resp s = (Done a, resp', s')"
  shows "\<exists>sid. sid \<noteq> [] \<and> stored a sid s' \<and> clk (st_tick s) + seconds age \<le> ses_expiry (obj s' a) \<and>
    (sid = getSessionIdFromCookie req \<and> resp' = resp \<or> resp' = setSessionCookie sid resp)"
proof -
  let ?i = "getSessionIdFromCookie req"
  obtain found s1 where f: "(if ?i = [] then (None, s) else sop_loadAndRefresh memory_ops clk ?i s) = (found, s1)"
    by (cases "if ?i = [] then (None, s) else sop_loadAndRefresh memory_ops clk ?i s")
  show ?thesis
  proof (cases found)
    case (Some b)
    with f have i: "?i \<noteq> []" and l: "loadAndRefresh clk ?i s = (Some b, s1)" by (auto split: if_splits)
    with run f Some have r: "b = a" "resp' = resp" "s' = setManager a True s1" by (auto simp: getSession_def Let_def)
    have m: "map_of (st_sessions s) ?i = Some a"
      and s1: "s1 = put_obj a ((obj s a)\<lparr>ses_expiry := clk (st_tick s) + seconds (ses_maxAge (obj s a))\<rparr>) (tick s)"
      using l r(1) by (auto simp: loadAndRefresh_def Let_def split: option.splits if_splits)
    from storage_ok_obj [OF ok m] obtain x where x: "st_heap s a = Some x" "ses_id x = ?i" by (auto simp: obj_def)
    then have "stored a ?i s'" "clk (st_tick s) + seconds age \<le> ses_expiry (obj s' a)"
      using m age(1) by (auto simp: stored_def r(3) s1 setManager_def obj_def)
    with i r(2) show ?thesis by blast
  next
    case None
    have t1: "st_tick s \<le> st_tick s1"
      using f None by (auto simp: loadAndRefresh_def Let_def remove_session_def split: if_splits option.splits)
    obtain sid g where gen: "generateSessionId draw s1 = (sid, s1\<lparr>st_rng := g\<rparr>)"
      by (cases "draw_digits draw 32 (st_rng s1)") (simp add: generateSessionId_def)
    have sid: "sid \<noteq> []" using generateSessionId_hex [of draw s1] hex gen by auto
    let ?x = "\<lparr>ses_id = sid, ses_data = [], ses_expiry = clk (st_tick s1) + seconds m, ses_maxAge = m, ses_bound = True\<rparr>"
    obtain s3 where mk: "make_session clk sid True m (s1\<lparr>st_rng := g\<rparr>) = (st_next s1, s3)"
      and h3: "st_heap s3 = (st_heap s1)(st_next s1 \<mapsto> ?x)"
      by (simp add: make_session_def Let_def refresh_def setManager_def)
    from run f None gen mk have ad: "admit clk (Some a) s3 = (Inr True, s')" "a = st_next s1" "resp' = setSessionCookie (ses_id (obj s' a)) resp"
      by (auto simp: getSession_def Let_def split: prod.splits sum.splits bool.splits)
    have x3: "obj s3 a = ?x" using h3 ad(2) by (simp add: obj_def)
    from admit_True [OF ad(1)] have a': "map_of (st_sessions s') sid = Some a" "st_heap s' = st_heap s3" using x3 by auto
    have x': "obj s' a = ?x" using obj_heap [of s' a s3] a'(2) x3 by simp
    have "clk (st_tick s) \<le> clk (st_tick s1)" using clock t1 by (rule monoD)
    with age(2) sid a'(1) x' ad(3) show ?thesis by (auto simp: stored_def)
  qed
qed

lemma setValue_stored:
  assumes "stored a sid s" "clk (st_tick s) < ses_expiry (obj s a)"
  shows "stored a sid (setValue memory_ops clk a k v s)"
    and "ses_expiry (obj (setValue memory_ops clk a k v s) a) = ses_expiry (obj s a)"
  using assms by (auto simp: stored_def setValue_def Let_def updateExisting_def)

lemma setValue_tick: "st_tick s \<le> st_tick (setValue memory_ops clk a k v s)"
  by (auto simp: setValue_def Let_def updateExisting_def remove_session_def)

section \<open>A request that has a stored session\<close>

lemma getSession_finds:
  assumes "stored a sid s" "sid \<noteq> []" "clk (st_tick s) < ses_expiry (obj s a)" "getSessionIdFromCookie req = sid"
  shows "\<exists>s'. getSession memory_ops draw clk m req resp s = (Done a, resp, s') \<and> (\<forall>k. getValue a k s' = getValue a k s)"
  using assms by (simp add: getSession_def loadAndRefresh_def stored_def Let_def setManager_def getValue_def)

lemma logged_in_serves:
  assumes "stored a sid (ch_sessions w)" "sid \<noteq> []" "ap_clk app (st_tick (ch_sessions w)) < ses_expiry (obj (ch_sessions w) a)"
    and "session_of a username i (ch_sessions w)" "- 2147483648 \<le> i" "i \<le> 2147483647" "getSessionIdFromCookie req = sid"
  shows "\<exists>s. logged_in app req work resp w = work i username resp (w\<lparr>ch_sessions := s\<rparr>)"
proof -
  have "\<exists>s. getSession memory_ops (ap_dist app) (ap_clk app) sessionMaxAge req resp (ch_sessions w) = (Done a, resp, s) \<and>
      (\<forall>k. getValue a k s = getValue a k (ch_sessions w))"
    by (rule getSession_finds) (use assms in auto)
  then obtain s where
    s: "getSession memory_ops (ap_dist app) (ap_clk app) sessionMaxAge req resp (ch_sessions w) = (Done a, resp, s)"
      "\<forall>k. getValue a k s = getValue a k (ch_sessions w)" by blast
  from assms(4) s(2) have v: "getValue a ''isLoggedIn'' s = ''true''" "getValue a ''userId'' s = to_string_int i"
    "getValue a ''username'' s = username" by (simp_all add: session_of_def)
  show ?thesis
    by (intro exI [of _ s])
      (simp add: logged_in_def act_bind_def app_getSession_def s(1) app_getValue_def act_get_def v act_result_def
        stoi_to_string [OF assms(5,6)])
qed

section \<open>The login\<close>

lemma login_accepted:
  assumes run: "ChatLoginHandler app req resp w = (Done (), resp', w')" and good: "resp_statusCode resp' = 200"
  obtains parsed username password i d where "js_parse (ap_json app) (req_content req) = Some parsed"
    "field_string (ap_json app) parsed ''username'' = Inr username" "field_string (ap_json app) parsed ''password'' = Inr password"
    "credentials_ok app username password (ch_db w) i" "login_success app req username i resp (w\<lparr>ch_db := d\<rparr>) = (Done (), resp', w')"
proof (cases "json_request req")
  case False
  with run good show thesis
    by (auto simp: ChatLoginHandler_def bad_request_def act_response_def answer_with_def resp_setBody_def
        resp_setContentLength_def setContentType_def resp_addHeader_def setCloseConnection_def setStatusLine_def)
next
  case True
  obtain oc1 resp1 w1 where l: "login_attempt app req resp w = (oc1, resp1, w1)" by (metis prod_cases3)
  have res: "w' = w1 \<and> oc1 = Done () \<and> resp' = resp1"
    using run good l True fail_400_result
    by (cases oc1) (fastforce simp: ChatLoginHandler_def catch_std_def split: thrown.splits)+
  from l show thesis
  proof (cases rule: login_attempt_cases)
    case refused
    from login_failure_result [OF this] res good show ?thesis by auto
  next
    case (accepted parsed username password i d)
    with res that [OF accepted(1-3) queryUserId_credentials [OF accepted(4,5)]] show ?thesis by blast
  qed (use res in auto)
qed

lemma answer_keeps_cookie:
  "response_ok resp \<Longrightarrow> map_of (resp_headers (answer_with v st msg cl ct body (setSessionCookie sid resp))) ''Set-Cookie'' =
     Some (''sessionId='' @ sid @ ''; Path=/; HttpOnly'')"
  by (simp add: answer_with_def setSessionCookie_def resp_setBody_def resp_setContentLength_def setContentType_def
      setCloseConnection_def setStatusLine_def resp_addHeader_def response_ok_def map_of_smap_put smap_ok_put)

text \<open>The values the login sets stay in the store unless the session expires before the login is over.\<close>

lemma login_success_stored:
  assumes ok: "storage_ok (ch_sessions w)" and clock: "mono (ap_clk app)" and hex: "\<forall>g. fst (ap_dist app g) < 16"
    and age: "\<forall>b x. st_heap (ch_sessions w) b = Some x \<longrightarrow> age \<le> ses_maxAge x" "age \<le> sessionMaxAge" and resp: "response_ok resp"
    and run: "login_success app req username i resp w = (Done (), resp', w')"
    and fast: "ap_clk app (st_tick (ch_sessions w')) < ap_clk app (st_tick (ch_sessions w)) + seconds age"
  shows "\<exists>a sid. sid \<noteq> [] \<and> stored a sid (ch_sessions w') \<and> session_of a username i (ch_sessions w') \<and>
    ap_clk app (st_tick (ch_sessions w')) < ses_expiry (obj (ch_sessions w') a) \<and>
    (sid = getSessionIdFromCookie req \<or>
     map_of (resp_headers resp') ''Set-Cookie'' = Some (''sessionId='' @ sid @ ''; Path=/; HttpOnly''))"
proof -
  let ?clk = "ap_clk app"
  obtain oc resp1 s1 where g: "getSession memory_ops (ap_dist app) ?clk sessionMaxAge req resp (ch_sessions w) = (oc, resp1, s1)"
    by (metis prod_cases3)
  with run obtain a where oc: "oc = Done a" by (cases oc) (auto simp: login_success_def act_bind_def app_getSession_def)
  from getSession_stored [OF ok clock hex age g [unfolded oc]] obtain sid where sid: "sid \<noteq> []" "stored a sid s1"
    "?clk (st_tick (ch_sessions w)) + seconds age \<le> ses_expiry (obj s1 a)"
    "sid = getSessionIdFromCookie req \<and> resp1 = resp \<or> resp1 = setSessionCookie sid resp" by blast
  define s2 where "s2 = setValue memory_ops ?clk a ''userId'' (to_string_int i) s1"
  define s3 where "s3 = setValue memory_ops ?clk a ''username'' username s2"
  define s4 where "s4 = setValue memory_ops ?clk a ''isLoggedIn'' ''true'' s3"
  have w': "ch_sessions w' = s4" and r': "\<exists>body. resp' = answer_with (req_version req) k200Ok ''OK'' False ''application/json'' body resp1"
    using run g oc by (auto simp: s2_def s3_def s4_def login_success_def act_bind_def app_getSession_def app_setValue_def
        act_state_def dump4_def act_result_def act_response_def split: sum.splits)
  have "st_tick s1 \<le> st_tick s2" "st_tick s2 \<le> st_tick s3" "st_tick s3 \<le> st_tick s4"
    unfolding s2_def s3_def s4_def by (rule setValue_tick)+
  then have t: "st_tick s1 \<le> st_tick s4" "st_tick s2 \<le> st_tick s4" "st_tick s3 \<le> st_tick s4" by linarith+
  have e: "?clk n < ses_expiry (obj s1 a)" if "n \<le> st_tick s4" for n
    using monoD [OF clock that] fast sid(3) unfolding w' by linarith
  have 2: "stored a sid s2" "ses_expiry (obj s2 a) = ses_expiry (obj s1 a)"
    using setValue_stored [OF sid(2), of ?clk] e [OF t(1)] unfolding s2_def by auto
  have 3: "stored a sid s3" "ses_expiry (obj s3 a) = ses_expiry (obj s1 a)"
    using setValue_stored [OF 2(1), of ?clk] e [OF t(2)] 2(2) unfolding s3_def by auto
  have 4: "stored a sid s4" "ses_expiry (obj s4 a) = ses_expiry (obj s1 a)"
    using setValue_stored [OF 3(1), of ?clk] e [OF t(3)] 3(2) unfolding s4_def by auto
  have "session_of a username i s4" by (simp add: session_of_def s2_def s3_def s4_def getValue_setValue)
  moreover have "sid = getSessionIdFromCookie req \<or>
      map_of (resp_headers resp') ''Set-Cookie'' = Some (''sessionId='' @ sid @ ''; Path=/; HttpOnly'')"
    using sid(4) r' answer_keeps_cookie [OF resp] by auto
  ultimately show ?thesis using sid(1) 4 e [OF order_refl] unfolding w' by (intro exI [of _ a] exI [of _ sid]) auto
qed

section \<open>Property\<close>

text \<open>
  C7. A login lasts. When a login is answered with status 200, the client holds an identifier (the one it sent, or the one in
  the cookie of the answer), and every request that brings that identifier back passes the check at the start of the protected
  handlers and is handled for the account whose password was verified. The clock may not pass the shortest lifetime of a session
  during the login, and account numbers fit an \<^verbatim>\<open>int\<close>.
\<close>

theorem login_then_served:
  fixes work :: "int \<Rightarrow> string \<Rightarrow> (unit, ('r, 'j, 'kv, 'd) chat_server) act"
  assumes ok: "storage_ok (ch_sessions w)" and clock: "mono (ap_clk app)" and hex: "\<forall>g. fst (ap_dist app g) < 16"
    and age: "\<forall>b x. st_heap (ch_sessions w) b = Some x \<longrightarrow> age \<le> ses_maxAge x" "age \<le> sessionMaxAge" and resp: "response_ok resp"
    and run: "ChatLoginHandler app req resp w = (Done (), resp', w')" and good: "resp_statusCode resp' = 200"
    and fast: "ap_clk app (st_tick (ch_sessions w')) < ap_clk app (st_tick (ch_sessions w)) + seconds age"
    and ids: "\<And>username password i. credentials_ok app username password (ch_db w) i \<Longrightarrow> - 2147483648 \<le> i \<and> i \<le> 2147483647"
  shows "\<exists>parsed username password i sid. js_parse (ap_json app) (req_content req) = Some parsed \<and>
    field_string (ap_json app) parsed ''username'' = Inr username \<and> field_string (ap_json app) parsed ''password'' = Inr password \<and>
    credentials_ok app username password (ch_db w) i \<and> sid \<noteq> [] \<and>
    (sid = getSessionIdFromCookie req \<or>
     map_of (resp_headers resp') ''Set-Cookie'' = Some (''sessionId='' @ sid @ ''; Path=/; HttpOnly'')) \<and>
    (\<forall>req2 resp2. getSessionIdFromCookie req2 = sid \<longrightarrow>
       (\<exists>s. logged_in app req2 work resp2 w' = work i username resp2 (w'\<lparr>ch_sessions := s\<rparr>)))"
proof -
  obtain parsed username password i d where l: "js_parse (ap_json app) (req_content req) = Some parsed"
    "field_string (ap_json app) parsed ''username'' = Inr username" "field_string (ap_json app) parsed ''password'' = Inr password"
    "credentials_ok app username password (ch_db w) i" "login_success app req username i resp (w\<lparr>ch_db := d\<rparr>) = (Done (), resp', w')"
    by (rule login_accepted [OF run good])
  from login_success_stored [OF _ clock hex _ age(2) resp l(5)] ok age(1) fast obtain a sid where a: "sid \<noteq> []"
    "stored a sid (ch_sessions w')" "session_of a username i (ch_sessions w')"
    "ap_clk app (st_tick (ch_sessions w')) < ses_expiry (obj (ch_sessions w') a)"
    "sid = getSessionIdFromCookie req \<or>
     map_of (resp_headers resp') ''Set-Cookie'' = Some (''sessionId='' @ sid @ ''; Path=/; HttpOnly'')" by auto
  have "\<forall>req2 resp2. getSessionIdFromCookie req2 = sid \<longrightarrow>
      (\<exists>s. logged_in app req2 work resp2 w' = work i username resp2 (w'\<lparr>ch_sessions := s\<rparr>))"
    using logged_in_serves [OF a(2,1,4,3)] ids [OF l(4)] by blast
  with l(1-4) a(1,5) show ?thesis by blast
qed

text \<open>The client that knows the password of an account.\<close>

lemma setValue_tick_le: "st_tick (setValue memory_ops clk a k v s) \<le> Suc (st_tick s)"
  by (auto simp: setValue_def Let_def updateExisting_def remove_session_def)

lemma login_success_tick:
  assumes run: "login_success app req username i resp w = (Done (), resp', w')"
    and g: "getSession memory_ops (ap_dist app) (ap_clk app) sessionMaxAge req resp (ch_sessions w) = (Done a, resp1, s1)"
  shows "st_tick (ch_sessions w') \<le> st_tick s1 + 3"
proof -
  let ?set = "setValue memory_ops (ap_clk app) a"
  let ?s2 = "?set ''userId'' (to_string_int i) s1"
  have w': "ch_sessions w' = ?set ''isLoggedIn'' ''true'' (?set ''username'' username ?s2)"
    using run g by (auto simp: login_success_def act_bind_def app_getSession_def app_setValue_def
        act_state_def dump4_def act_result_def act_response_def split: sum.splits)
  show ?thesis
    unfolding w' using setValue_tick_le [of "ap_clk app" a "''userId''" "to_string_int i" s1]
      setValue_tick_le [of "ap_clk app" a "''username''" username ?s2]
      setValue_tick_le [of "ap_clk app" a "''isLoggedIn''" "''true''" "?set ''username'' username ?s2"] by linarith
qed

theorem login_then_served_witness:
  "\<exists>resp' w' sid. ChatLoginHandler sample_app login_request (new_response False) (sample_chat_server False) = (Done (), resp', w') \<and>
     sid \<noteq> [] \<and> (\<forall>req2 resp2. getSessionIdFromCookie req2 = sid \<longrightarrow>
       (\<exists>s. logged_in sample_app req2 (\<lambda>i n r w. (if i = 7 \<and> n = ''ann'' then Done () else Crashed, r, w)) resp2 w' =
         (Done (), resp2, w'\<lparr>ch_sessions := s\<rparr>)))"
proof -
  let ?w = "sample_chat_server False"
  obtain resp' w' where r: "ChatLoginHandler sample_app login_request (new_response False) ?w = (Done (), resp', w')"
    "resp_statusCode resp' = 200" using sample_login by blast
  have full: "ch_sessions (?w\<lparr>ch_db := d\<rparr>) = full_storage" "ch_sessions ?w = full_storage" for d by (simp_all add: sample_chat_server_def)
  have ok: "storage_ok (ch_sessions ?w)" by (simp add: full full_storage_ok)
  have clk: "mono (ap_clk sample_app)" "\<forall>g. fst (ap_dist sample_app g) < 16"
    by (simp_all add: sample_app_def sample_clock_mono sample_dist_def)
  have age: "\<forall>b x. st_heap (ch_sessions ?w) b = Some x \<longrightarrow> 60 \<le> ses_maxAge x" "60 \<le> sessionMaxAge"
    by (simp_all add: full full_storage_def sessionMaxAge_def)
  have c: "getSessionIdFromCookie login_request = ''x''" by code_simp
  have g: "\<exists>s. getSession memory_ops (ap_dist sample_app) (ap_clk sample_app) sessionMaxAge login_request (new_response False) full_storage =
      (Done 0, new_response False, s) \<and> st_tick s = 1"
    by (simp add: getSession_def c loadAndRefresh_def Let_def full_storage_def sample_storage_def obj_def sample_clock_def
        setManager_def sample_app_def)
  have "st_tick (ch_sessions w') \<le> 4"
  proof (rule login_accepted [OF r])
    fix username i d assume "login_success sample_app login_request username i (new_response False) (?w\<lparr>ch_db := d\<rparr>) = (Done (), resp', w')"
    with g login_success_tick [OF this, unfolded full(1)] show ?thesis by fastforce
  qed
  then have fast: "ap_clk sample_app (st_tick (ch_sessions w')) < ap_clk sample_app (st_tick (ch_sessions ?w)) + seconds 60"
    by (simp add: full full_storage_def sample_storage_def sample_app_def sample_clock_def)
  have i: "credentials_ok sample_app u p d i \<Longrightarrow> i = 7" for u p d i
    by (auto simp: credentials_ok_def consumeQuery_def conn_consumeQuery_def account_of_def getInt_def getString_def
        sample_app_def account_db_def split: if_splits)
  have u: "js_parse (ap_json sample_app) (req_content login_request) = Some q \<Longrightarrow>
      field_string (ap_json sample_app) q ''username'' = Inr n \<Longrightarrow> n = ''ann''" for q n
    by (auto simp: field_string_def sample_app_def login_json_def table_json_def login_request_def)
  from login_then_served [OF ok clk age response_ok_new r fast, of "\<lambda>i n r w. (if i = 7 \<and> n = ''ann'' then Done () else Crashed, r, w)"] i u
  obtain sid where "sid \<noteq> []" "\<forall>req2 resp2. getSessionIdFromCookie req2 = sid \<longrightarrow>
      (\<exists>s. logged_in sample_app req2 (\<lambda>i n r w. (if i = 7 \<and> n = ''ann'' then Done () else Crashed, r, w)) resp2 w' =
        (Done (), resp2, w'\<lparr>ch_sessions := s\<rparr>))" by fastforce
  with r(1) show ?thesis by blast
qed

end
