(* ===== verification/MQ_Channels.thy ===== *)
theory MQ_Channels
  imports MQ_Manager
begin

text \<open>
  The descriptors of \<^verbatim>\<open>AIApps/ChatServer/src/AIUtil/MQManager.cpp\<close>: \<^verbatim>\<open>monitor\<close>, \<^verbatim>\<open>retireFd\<close>, the callbacks of a watched descriptor,
  and connecting, disconnecting and stopping with their effect on what is watched. The handler of \<open>MQ_Manager\<close> is a
  component of the state, and every run here is a run there. AMQP-CPP calls \<^verbatim>\<open>monitor\<close> at any time, for
  any connection, also from within the constructor of a connection.

  The theorem shows that readiness of a descriptor is only ever passed to the connection that asked for it, and that a handler
  that is stopped or has lost its connection watches nothing.
\<close>

section \<open>State\<close>

text \<open>A \<^verbatim>\<open>muduo::net::Channel\<close>: the interest that is set, and the connection it was created for.\<close>

record mq_channel =
  mc_reading :: bool
  mc_writing :: bool
  mc_owner :: nat

text \<open>Connections are numbered; \<open>io_conn\<close> is the object \<^verbatim>\<open>connection_\<close> points to.\<close>

record mq_io =
  io_handler :: mq_handler
  io_conn :: "nat option"
  io_constructing :: bool
  io_channels :: "(int, mq_channel) smap"

text \<open>The flags of AMQP-CPP: readable, writable, and whether any other bit is set.\<close>

type_synonym amqp_flags = "bool \<times> bool \<times> bool"

definition new_io :: "string \<Rightarrow> mq_io" where
  "new_io queue = \<lparr>io_handler = new_handler queue, io_conn = None, io_constructing = False, io_channels = []\<rparr>"

section \<open>Operations\<close>

definition retireFd :: "int \<Rightarrow> mq_io \<Rightarrow> mq_io" where
  "retireFd fd io =
     (case map_of (io_channels io) fd of
        None \<Rightarrow> io
      | Some _ \<Rightarrow> io\<lparr>io_channels := smap_del fd (io_channels io)\<rparr>)"

fun monitor :: "nat \<Rightarrow> int \<Rightarrow> amqp_flags \<Rightarrow> mq_io \<Rightarrow> mq_io" where
  "monitor connection fd (readable, writable, other) io =
     (if fd < 0 \<or> mq_shuttingDown (io_handler io) then io
      else if \<not> io_constructing io \<and> io_conn io \<noteq> Some connection then io
      else if \<not> readable \<and> \<not> writable \<and> \<not> other then retireFd fd io
      else io\<lparr>io_channels := smap_put fd
                \<lparr>mc_reading = readable, mc_writing = writable,
                 mc_owner = (case map_of (io_channels io) fd of Some c \<Rightarrow> mc_owner c | None \<Rightarrow> connection)\<rparr>
                (io_channels io)\<rparr>)"

text \<open>The loop that retires the first descriptor until none is left.\<close>

function retire_all :: "mq_io \<Rightarrow> mq_io" where
  "retire_all io =
     (case io_channels io of
        [] \<Rightarrow> io
      | (fd, _) # _ \<Rightarrow> retire_all (retireFd fd io))"
  by pat_completeness auto
termination
  by (relation "measure (\<lambda>io. length (io_channels io))")
    (auto simp: retireFd_def smap_del_def less_Suc_eq_le split: option.splits)

declare retire_all.simps [simp del]

text \<open>
  \<^verbatim>\<open>connect\<close>: the constructor of connection number \<open>connection\<close> makes the given calls of \<^verbatim>\<open>monitor\<close> and
  succeeds or throws.
\<close>

definition io_connect :: "nat \<Rightarrow> (int \<times> amqp_flags) list \<Rightarrow> bool \<Rightarrow> mq_io \<Rightarrow> mq_io" where
  "io_connect connection calls constructs io =
     (let io1 = io\<lparr>io_handler := (io_handler io)\<lparr>mq_recovering := False\<rparr>, io_constructing := True\<rparr>;
          io2 = fold (\<lambda>(fd, flags). monitor connection fd flags) calls io1
      in io2\<lparr>io_conn := (if constructs then Some connection else io_conn io2), io_constructing := False,
             io_handler := mq_connect constructs (io_handler io2)\<rparr>)"

definition io_disconnect :: "mq_io \<Rightarrow> mq_io" where
  "io_disconnect io =
     (let io1 = retire_all io in io1\<lparr>io_handler := disconnect (io_handler io1), io_conn := None\<rparr>)"

definition io_stop :: "mq_io \<Rightarrow> mq_io" where
  "io_stop io =
     (let io1 = retire_all io in io1\<lparr>io_handler := mq_stop (io_handler io1), io_conn := None\<rparr>)"

text \<open>The task \<^verbatim>\<open>connectionFailed\<close> leaves on the loop, and the timer of \<^verbatim>\<open>scheduleReconnect\<close>.\<close>

definition io_recover :: "mq_io \<Rightarrow> mq_io" where
  "io_recover io =
     (if \<not> mq_alive (io_handler io) then io
      else let io1 = io_disconnect io in io1\<lparr>io_handler := scheduleReconnect (io_handler io1)\<rparr>)"

definition io_reconnect :: "nat \<Rightarrow> (int \<times> amqp_flags) list \<Rightarrow> bool \<Rightarrow> mq_io \<Rightarrow> mq_io" where
  "io_reconnect connection calls constructs io =
     (let h = io_handler io
      in if \<not> mq_alive h then io
         else io_connect connection calls constructs
                (io\<lparr>io_handler := h\<lparr>mq_reconnectScheduled := False, mq_delay := min 60 (mq_delay h * 2)\<rparr>\<rparr>))"

text \<open>The connection whose \<^verbatim>\<open>process\<close> the read and write callbacks of a descriptor call, if any.\<close>

definition processes :: "mq_io \<Rightarrow> nat option" where
  "processes io =
     (if mq_alive (io_handler io) \<and> \<not> mq_recovering (io_handler io) then io_conn io else None)"

definition env_string :: "(string \<Rightarrow> string option) \<Rightarrow> string \<Rightarrow> string \<Rightarrow> string" where
  "env_string env key fallback = (case env key of None \<Rightarrow> fallback | Some value \<Rightarrow> value)"

definition amqp_address :: "(string \<Rightarrow> string option) \<Rightarrow> string" where
  "amqp_address env =
     ''amqp://'' @ env_string env ''RABBITMQ_USER'' ''guest'' @ '':'' @ env_string env ''RABBITMQ_PASS'' ''guest'' @ ''@'' @
     env_string env ''RABBITMQ_HOST'' ''localhost'' @ '':'' @ env_string env ''RABBITMQ_PORT'' ''5672'' @ ''/''"

section \<open>Runs\<close>

text \<open>
  Callbacks that neither connect nor disconnect are steps of the handler; the others have their effect on the descriptors too.
\<close>

inductive io_step ::
  "(string \<Rightarrow> int option) \<Rightarrow> (string \<Rightarrow> int \<Rightarrow> string option) \<Rightarrow> mq_io \<Rightarrow> mq_io \<Rightarrow> bool"
  for job_attempt job_bump where
  io_call: "io_step job_attempt job_bump io (monitor connection fd flags io)"
| io_quiet: "mq_step job_attempt job_bump (io_handler io) h \<Longrightarrow> mq_generation h = mq_generation (io_handler io) \<Longrightarrow>
    mq_connection h = mq_connection (io_handler io) \<Longrightarrow> io_step job_attempt job_bump io (io\<lparr>io_handler := h\<rparr>)"
| io_recovery: "mq_tasks (io_handler io) = Task_recover # ts \<Longrightarrow>
    io_step job_attempt job_bump io (io_recover (io\<lparr>io_handler := (io_handler io)\<lparr>mq_tasks := ts\<rparr>\<rparr>))"
| io_timer: "mq_timers (io_handler io) = ts1 @ Timer_reconnect d # ts2 \<Longrightarrow>
    io_step job_attempt job_bump io
      (io_reconnect connection calls constructs (io\<lparr>io_handler := (io_handler io)\<lparr>mq_timers := ts1 @ ts2\<rparr>\<rparr>))"
| io_stopping: "io_step job_attempt job_bump io (io_stop io)"

inductive io_reachable ::
  "(string \<Rightarrow> int option) \<Rightarrow> (string \<Rightarrow> int \<Rightarrow> string option) \<Rightarrow> mq_io \<Rightarrow> bool"
  for job_attempt job_bump where
  io_init: "io_reachable job_attempt job_bump (io_connect connection calls constructs (new_io queue))"
| io_next: "io_reachable job_attempt job_bump io \<Longrightarrow> io_step job_attempt job_bump io io' \<Longrightarrow>
    io_reachable job_attempt job_bump io'"

section \<open>Every run is a run of the handler\<close>

lemma monitor_handler [simp]:
  "io_handler (monitor connection fd flags io) = io_handler io" "io_conn (monitor connection fd flags io) = io_conn io"
  "io_constructing (monitor connection fd flags io) = io_constructing io"
  by (cases flags; simp add: retireFd_def split: option.splits)+

declare monitor.simps [simp del]

lemma monitors_handler [simp]:
  "io_handler (fold (\<lambda>(fd, flags). monitor connection fd flags) calls io) = io_handler io"
  "io_conn (fold (\<lambda>(fd, flags). monitor connection fd flags) calls io) = io_conn io"
  "io_constructing (fold (\<lambda>(fd, flags). monitor connection fd flags) calls io) = io_constructing io"
  by (induction calls arbitrary: io) (simp_all add: case_prod_beta)

lemma retire_all_result: "retire_all io = io\<lparr>io_channels := []\<rparr>"
proof (induction io rule: retire_all.induct)
  case (1 io)
  show ?case
  proof (cases "io_channels io")
    case Nil
    then show ?thesis by (simp add: retire_all.simps)
  next
    case (Cons e rest)
    obtain fd c where e: "e = (fd, c)" by fastforce
    have "retire_all io = retire_all (retireFd fd io)" by (simp add: retire_all.simps [of io] Cons e)
    also have "\<dots> = (retireFd fd io)\<lparr>io_channels := []\<rparr>" using 1 Cons e by simp
    finally show ?thesis by (simp add: retireFd_def Cons e)
  qed
qed

lemma mq_connect_recovering: "mq_connect constructs (h\<lparr>mq_recovering := False\<rparr>) = mq_connect constructs h"
  by (simp add: mq_connect_def)

lemma io_connect_handler [simp]: "io_handler (io_connect connection calls constructs io) = mq_connect constructs (io_handler io)"
  by (simp add: io_connect_def Let_def mq_connect_recovering)

lemma io_step_handler:
  "io_step job_attempt job_bump io io' \<Longrightarrow>
     io_handler io' = io_handler io \<or> mq_step job_attempt job_bump (io_handler io) (io_handler io')"
proof (induction rule: io_step.induct)
  case (io_recovery io ts)
  have "run_task job_attempt job_bump (\<lambda>_. True) Task_recover ((io_handler io)\<lparr>mq_tasks := ts\<rparr>) =
      io_handler (io_recover (io\<lparr>io_handler := (io_handler io)\<lparr>mq_tasks := ts\<rparr>\<rparr>))"
    by (simp add: run_task_def io_recover_def io_disconnect_def Let_def retire_all_result)
  then show ?case using mq_task [OF io_recovery, of job_attempt job_bump "\<lambda>_. True"] by simp
next
  case (io_timer io ts1 d ts2 connection calls constructs)
  have "fire_timer constructs (Timer_reconnect d) ((io_handler io)\<lparr>mq_timers := ts1 @ ts2\<rparr>) =
      io_handler (io_reconnect connection calls constructs (io\<lparr>io_handler := (io_handler io)\<lparr>mq_timers := ts1 @ ts2\<rparr>\<rparr>))"
    by (simp add: fire_timer_def io_reconnect_def Let_def)
  then show ?case using mq_timer [OF io_timer, of job_attempt job_bump constructs] by simp
next
  case (io_stopping io)
  then show ?case using mq_stopping by (simp add: io_stop_def Let_def retire_all_result)
qed (simp_all add: mq_step.intros)

lemma io_reachable_handler: "io_reachable job_attempt job_bump io \<Longrightarrow> mq_reachable job_attempt job_bump (io_handler io)"
proof (induction rule: io_reachable.induct)
  case (io_init connection calls constructs queue)
  then show ?case by (simp add: new_io_def mq_init)
next
  case (io_next io io')
  from io_step_handler [OF io_next(2)] io_next(3) show ?case using mq_next by metis
qed

section \<open>The phases of recovery\<close>

definition recoveries :: "mq_handler \<Rightarrow> nat" where
  "recoveries h = length (filter (\<lambda>t. t = Task_recover) (mq_tasks h))"

definition reconnects :: "mq_handler \<Rightarrow> nat" where
  "reconnects h = length (filter (\<lambda>t. \<exists>d. t = Timer_reconnect d) (mq_timers h))"

text \<open>
  A live handler has a connection and nothing scheduled, or one recovery on the loop, or, with no connection and nothing watched,
  one timer.
\<close>

definition mq_phase :: "mq_handler \<Rightarrow> bool \<Rightarrow> bool" where
  "mq_phase h unwatched \<longleftrightarrow> mq_shuttingDown h = (\<not> mq_alive h) \<and>
     (mq_alive h \<longrightarrow>
        (if mq_recovering h
         then recoveries h = 1 \<and> reconnects h = 0 \<and> \<not> mq_reconnectScheduled h \<or>
              recoveries h = 0 \<and> reconnects h = 1 \<and> mq_reconnectScheduled h \<and> \<not> mq_connection h \<and> unwatched
         else recoveries h = 0 \<and> reconnects h = 0 \<and> \<not> mq_reconnectScheduled h \<and> mq_connection h))"

definition same_phase :: "mq_handler \<Rightarrow> mq_handler \<Rightarrow> bool" where
  "same_phase h h' \<longleftrightarrow> mq_alive h' = mq_alive h \<and> mq_shuttingDown h' = mq_shuttingDown h \<and>
     mq_recovering h' = mq_recovering h \<and> mq_reconnectScheduled h' = mq_reconnectScheduled h \<and>
     mq_connection h' = mq_connection h \<and> recoveries h' = recoveries h \<and> reconnects h' = reconnects h"

lemma same_phase_phase: "same_phase h h' \<Longrightarrow> mq_phase h' e = mq_phase h e"
  by (simp add: same_phase_def mq_phase_def)

lemma phase_same: "mq_phase h e \<Longrightarrow> same_phase h h' \<Longrightarrow> mq_phase h' e \<and> mq_alive h' = mq_alive h"
  using same_phase_phase [of h h' e] by (simp add: same_phase_def)

lemma phase_failed: "mq_phase h e \<Longrightarrow> mq_phase (connectionFailed h) e"
  by (auto simp: mq_phase_def connectionFailed_def recoveries_def reconnects_def)

lemma failed_alive [simp]: "mq_alive (connectionFailed h) = mq_alive h"
  by (simp add: connectionFailed_def)

lemma drain_alive: "mq_alive (drainPending accepts h) = mq_alive h"
  by (induction accepts h rule: drainPending.induct) (subst drainPending.simps, auto split: list.splits)

lemma phase_drain: "mq_phase h e \<Longrightarrow> mq_phase (drainPending accepts h) e"
proof (induction accepts h rule: drainPending.induct)
  case (1 accepts h)
  show ?case
  proof (cases "\<not> mq_producerReady h \<or> mq_recovering h \<or> \<not> mq_producer h \<or> mq_pending h = []")
    case False
    then obtain item rest where p: "mq_pending h = item # rest" by (cases "mq_pending h") auto
    let ?h = "h\<lparr>mq_actions := mq_actions h @ [Act_publish (pub_queue item) (pub_body item)],
      mq_inflight := smap_put (mq_nextTag h) item (mq_inflight h), mq_nextTag := mq_nextTag h + 1, mq_pending := rest\<rparr>"
    have "mq_phase ?h e" using 1(2) same_phase_phase [of h ?h e] by (simp add: same_phase_def recoveries_def reconnects_def)
    then show ?thesis using 1 p False phase_failed by (subst drainPending.simps) auto
  qed (use 1(2) in \<open>subst drainPending.simps, auto split: list.splits\<close>)
qed

lemma confirmed_same: "same_phase h (confirmed c ok h)"
  by (auto simp: confirmed_def same_phase_def recoveries_def reconnects_def split: option.splits)

lemma confirm_loop_same: "same_phase h (confirm_loop tag multiple m h)"
proof (induction tag multiple m h rule: confirm_loop.induct)
  case (2 tag multiple k item rest h)
  let ?h = "h\<lparr>mq_inflight := smap_del k (mq_inflight h), mq_outstanding := mq_outstanding h - 1\<rparr>"
  have "same_phase h ?h" by (simp add: same_phase_def recoveries_def reconnects_def)
  with confirmed_same [of ?h "pub_completion item" True] 2 show ?case by (auto simp: same_phase_def)
qed (simp add: same_phase_def)

lemma publish_same: "same_phase h (snd (schedulePublish q b c h))"
  by (simp add: schedulePublish_def same_phase_def recoveries_def reconnects_def)

lemma task_phase:
  assumes "mq_phase h e" and "mq_tasks h = t # ts" and "t \<noteq> Task_recover \<or> \<not> mq_alive h"
  shows "mq_phase (run_task ja jb accepts t (h\<lparr>mq_tasks := ts\<rparr>)) e \<and>
    mq_alive (run_task ja jb accepts t (h\<lparr>mq_tasks := ts\<rparr>)) = mq_alive h"
proof (cases "mq_alive h")
  case False
  then show ?thesis using assms(1) by (simp add: run_task_def mq_phase_def)
next
  case True
  let ?h = "h\<lparr>mq_tasks := ts\<rparr>"
  have h: "mq_phase ?h e"
    using assms True same_phase_phase [of h ?h e] by (simp add: same_phase_def recoveries_def reconnects_def)
  show ?thesis
  proof (cases t)
    case (Task_push p)
    have "mq_phase (?h\<lparr>mq_pending := mq_pending ?h @ [p]\<rparr>) e"
      using h same_phase_phase [of ?h "?h\<lparr>mq_pending := mq_pending ?h @ [p]\<rparr>" e]
      by (simp add: same_phase_def recoveries_def reconnects_def)
    with True show ?thesis using phase_drain by (simp add: run_task_def Task_push drain_alive)
  next
    case (Task_complete g tag r b)
    have "same_phase ?h (completeDelivery ja jb g tag r b ?h)"
      by (auto simp: completeDelivery_def same_phase_def recoveries_def reconnects_def split: prod.splits)
    from phase_same [OF h this] True show ?thesis by (simp add: run_task_def Task_complete)
  qed (use assms True in simp)
qed

lemma timer_phase:
  assumes "mq_phase h e" and "mq_timers h = ts1 @ t # ts2"
    and "mq_connection (fire_timer constructs t (h\<lparr>mq_timers := ts1 @ ts2\<rparr>)) = mq_connection h"
  shows "mq_phase (fire_timer constructs t (h\<lparr>mq_timers := ts1 @ ts2\<rparr>)) e \<and>
    mq_alive (fire_timer constructs t (h\<lparr>mq_timers := ts1 @ ts2\<rparr>)) = mq_alive h"
proof (cases "mq_alive h")
  case False
  then show ?thesis using assms(1) by (simp add: fire_timer_def mq_phase_def)
next
  case True
  let ?h = "h\<lparr>mq_timers := ts1 @ ts2\<rparr>"
  show ?thesis
  proof (cases t)
    case (Timer_reconnect d)
    then show ?thesis
      using assms True
      by (auto simp: fire_timer_def mq_phase_def mq_connect_def connectionFailed_def recoveries_def reconnects_def Let_def
          split: if_splits)
  next
    case (Timer_republish d g tag q b)
    have h: "mq_phase ?h e"
      using assms(1,2) same_phase_phase [of h ?h e] by (simp add: same_phase_def recoveries_def reconnects_def Timer_republish)
    obtain ok h' where p: "schedulePublish q b (Some (g, tag)) ?h = (ok, h')" by fastforce
    have "same_phase ?h h'" using publish_same [of ?h q b "Some (g, tag)"] p by simp
    moreover have "same_phase h' (confirmed (Some (g, tag)) False h')" by (rule confirmed_same)
    ultimately show ?thesis
      using h True p same_phase_phase [of ?h h' e] same_phase_phase [of h' "confirmed (Some (g, tag)) False h'" e]
      by (cases ok) (auto simp: fire_timer_def Timer_republish same_phase_def)
  qed
qed

lemma quiet_phase:
  assumes "mq_step ja jb h h'" and "mq_generation h' = mq_generation h" and "mq_connection h' = mq_connection h"
    and "mq_phase h e"
  shows "mq_phase h' e \<and> mq_alive h' = mq_alive h"
  using assms
proof (induction rule: mq_step.induct)
  case (mq_admit h queue body)
  from phase_same [OF mq_admit(3) publish_same] show ?case .
next
  case (mq_task h t ts accepts)
  have "t \<noteq> Task_recover \<or> \<not> mq_alive h"
    using mq_task.prems(1) by (auto simp: run_task_def scheduleReconnect_def disconnect_def split: if_splits)
  with task_phase [OF mq_task.prems(3) mq_task.hyps] show ?case by blast
next
  case (mq_timer h ts1 t ts2 constructs)
  from timer_phase [OF mq_timer.prems(3) mq_timer.hyps mq_timer.prems(2)] show ?case .
next
  case (mq_confirm h accepts tag multiple accepted)
  from phase_same [OF mq_confirm.prems(3) confirm_loop_same] phase_failed [OF mq_confirm.prems(3)] mq_confirm.prems(3)
  show ?case by (simp add: confirm_def drain_alive phase_drain)
next
  case (mq_ready h accepts)
  have "mq_phase (h\<lparr>mq_producerReady := True\<rparr>) e"
    using mq_ready.prems(3) same_phase_phase [of h "h\<lparr>mq_producerReady := True\<rparr>" e]
    by (simp add: same_phase_def recoveries_def reconnects_def)
  then show ?case using phase_drain by (simp add: producer_confirms_def drain_alive)
next
  case (mq_stopping h)
  then show ?case by (simp add: mq_stop_def disconnect_def)
next
  case (mq_writable h accepts)
  then show ?case using phase_drain by (simp add: drain_alive)
next
  case (mq_lost h)
  then show ?case using phase_failed by simp
next
  case (mq_up h)
  then show ?case using same_phase_phase [of h "onConnected h" e]
    by (simp add: onConnected_def same_phase_def recoveries_def reconnects_def)
next
  case (mq_deliver h handler body tag)
  then show ?case using same_phase_phase [of h "onConsumerMessage handler body tag h" e]
    by (auto simp: onConsumerMessage_def answer_delivery_def same_phase_def recoveries_def reconnects_def
        split: option.splits sum.splits)
next
  case (mq_answer h generation tag result body)
  then show ?case using same_phase_phase [of h "answer_delivery generation tag result body h" e]
    by (simp add: answer_delivery_def same_phase_def recoveries_def reconnects_def)
qed

section \<open>What is watched\<close>

definition owned :: "nat \<Rightarrow> (int, mq_channel) smap \<Rightarrow> bool" where
  "owned k m \<longleftrightarrow> smap_ok m \<and> (\<forall>e\<in>set m. 0 \<le> fst e \<and> mc_owner (snd e) = k)"

definition io_ok :: "mq_io \<Rightarrow> bool" where
  "io_ok io \<longleftrightarrow> mq_phase (io_handler io) (io_channels io = []) \<and> \<not> io_constructing io \<and>
     mq_connection (io_handler io) = (io_conn io \<noteq> None) \<and> (\<exists>k. owned k (io_channels io) \<and> io_conn io \<in> {None, Some k}) \<and>
     (\<not> mq_alive (io_handler io) \<longrightarrow> io_channels io = [])"

lemma set_smap_put_subset: "set (smap_put k v m) \<subseteq> insert (k, v) (set m)"
  by (induction k v m rule: smap_put.induct) auto

lemma monitor_owned:
  assumes "owned k (io_channels io)"
  shows "owned k (io_channels (monitor k fd flags io))"
proof -
  obtain r w x where f: "flags = (r, w, x)" by (metis prod_cases3)
  have own: "map_of (io_channels io) fd = Some c \<Longrightarrow> mc_owner c = k" for c
    using assms by (force simp: owned_def dest: map_of_SomeD)
  have "owned k (smap_put fd \<lparr>mc_reading = r, mc_writing = w,
      mc_owner = (case map_of (io_channels io) fd of Some c \<Rightarrow> mc_owner c | None \<Rightarrow> k)\<rparr> (io_channels io))" if "0 \<le> fd"
    using assms that own set_smap_put_subset by (fastforce simp: owned_def smap_ok_put split: option.splits)
  moreover have "owned k (smap_del fd (io_channels io))"
    using assms smap_ok_del [of "io_channels io" fd] by (simp add: owned_def) (simp add: smap_del_def)
  ultimately show ?thesis
    using assms by (auto simp: f monitor.simps retireFd_def split: option.splits)
qed

lemma monitors_owned:
  "owned k (io_channels io) \<Longrightarrow> owned k (io_channels (fold (\<lambda>(fd, flags). monitor k fd flags) calls io))"
  by (induction calls arbitrary: io) (auto simp: monitor_owned)

lemma mq_connect_phase:
  assumes "mq_alive h" and "\<not> mq_shuttingDown h" and "recoveries h = 0" "reconnects h = 0" and "\<not> mq_reconnectScheduled h"
  shows "mq_phase (mq_connect constructs h) e"
  using assms
  by (cases constructs) (simp_all add: mq_phase_def mq_connect_def connectionFailed_def recoveries_def reconnects_def Let_def)

lemma io_connect_ok:
  assumes "io_channels io = []" and "io_conn io = None" and "\<not> mq_connection (io_handler io)" and "mq_alive (io_handler io)"
    and "\<not> mq_shuttingDown (io_handler io)" and "recoveries (io_handler io) = 0" "reconnects (io_handler io) = 0"
    and "\<not> mq_reconnectScheduled (io_handler io)"
  shows "io_ok (io_connect connection calls constructs io)"
proof -
  let ?io = "io_connect connection calls constructs io"
  have "owned connection (io_channels (fold (\<lambda>(fd, flags). monitor connection fd flags) calls
      (io\<lparr>io_handler := (io_handler io)\<lparr>mq_recovering := False\<rparr>, io_constructing := True\<rparr>)))"
    by (rule monitors_owned) (simp add: assms(1) owned_def)
  then have "owned connection (io_channels ?io)" by (simp add: io_connect_def Let_def)
  moreover have "io_conn ?io = (if constructs then Some connection else None)" "\<not> io_constructing ?io"
    using assms(2) by (simp_all add: io_connect_def Let_def)
  moreover have "mq_connection (io_handler ?io) = constructs" "mq_alive (io_handler ?io)"
    using assms(3,4) by (simp_all add: mq_connect_def connectionFailed_def Let_def)
  moreover have "mq_phase (io_handler ?io) x" for x using assms(4-8) by (simp add: mq_connect_phase)
  ultimately show ?thesis by (auto simp: io_ok_def)
qed

lemma io_recover_ok:
  assumes "io_ok io" and "mq_tasks (io_handler io) = Task_recover # ts"
  shows "io_ok (io_recover (io\<lparr>io_handler := (io_handler io)\<lparr>mq_tasks := ts\<rparr>\<rparr>))"
proof (cases "mq_alive (io_handler io)")
  case False
  with assms(1) show ?thesis by (auto simp: io_recover_def io_ok_def mq_phase_def)
next
  case True
  let ?h = "io_handler io"
  have "recoveries ?h = Suc (recoveries (?h\<lparr>mq_tasks := ts\<rparr>))" using assms(2) by (simp add: recoveries_def)
  then have ph: "mq_recovering ?h" "recoveries (?h\<lparr>mq_tasks := ts\<rparr>) = 0" "reconnects ?h = 0" "\<not> mq_reconnectScheduled ?h"
    "\<not> mq_shuttingDown ?h"
    using assms(1) True by (auto simp: io_ok_def mq_phase_def split: if_splits)
  let ?io = "io_recover (io\<lparr>io_handler := ?h\<lparr>mq_tasks := ts\<rparr>\<rparr>)"
  have r: "io_channels ?io = []" "io_conn ?io = None" "io_constructing ?io = io_constructing io"
    "io_handler ?io = scheduleReconnect (disconnect (?h\<lparr>mq_tasks := ts\<rparr>))"
    using True by (simp_all add: io_recover_def io_disconnect_def Let_def retire_all_result)
  have "mq_phase (scheduleReconnect (disconnect (?h\<lparr>mq_tasks := ts\<rparr>))) True"
    using ph True by (simp add: mq_phase_def scheduleReconnect_def disconnect_def recoveries_def reconnects_def)
  moreover have "\<not> mq_connection (scheduleReconnect (disconnect (?h\<lparr>mq_tasks := ts\<rparr>)))"
    by (simp add: scheduleReconnect_def disconnect_def)
  ultimately show ?thesis using assms(1) by (simp add: io_ok_def r owned_def)
qed

lemma io_reconnect_ok:
  assumes "io_ok io" and "mq_timers (io_handler io) = ts1 @ Timer_reconnect d # ts2"
  shows "io_ok (io_reconnect connection calls constructs (io\<lparr>io_handler := (io_handler io)\<lparr>mq_timers := ts1 @ ts2\<rparr>\<rparr>))"
proof (cases "mq_alive (io_handler io)")
  case False
  with assms(1) show ?thesis by (auto simp: io_reconnect_def io_ok_def mq_phase_def)
next
  case True
  let ?h = "io_handler io"
  have "reconnects ?h = Suc (reconnects (?h\<lparr>mq_timers := ts1 @ ts2\<rparr>))" using assms(2) by (simp add: reconnects_def)
  then have ph: "recoveries ?h = 0" "reconnects (?h\<lparr>mq_timers := ts1 @ ts2\<rparr>) = 0" "\<not> mq_connection ?h" "io_channels io = []"
    "\<not> mq_shuttingDown ?h"
    using assms(1) True by (auto simp: io_ok_def mq_phase_def split: if_splits)
  then have "io_conn io = None" using assms(1) by (simp add: io_ok_def)
  with ph True show ?thesis
    unfolding io_reconnect_def Let_def
    by (simp add: io_connect_ok recoveries_def reconnects_def)
qed

lemma io_stop_ok: "io_ok io \<Longrightarrow> io_ok (io_stop io)"
  by (simp add: io_ok_def io_stop_def Let_def retire_all_result mq_phase_def mq_stop_def disconnect_def owned_def)

lemma io_call_ok:
  assumes "io_ok io"
  shows "io_ok (monitor connection fd flags io)"
proof (cases "monitor connection fd flags io = io")
  case False
  then have c: "io_conn io = Some connection" "mq_alive (io_handler io)"
    using assms by (cases flags; auto simp: monitor.simps io_ok_def mq_phase_def split: if_splits)+
  then have "owned connection (io_channels io)" "mq_connection (io_handler io)" using assms by (auto simp: io_ok_def)
  with monitor_owned [of connection io fd flags] assms c show ?thesis
    by (auto simp: io_ok_def mq_phase_def)
qed (use assms in simp)

lemma io_quiet_ok:
  assumes "io_ok io" and "mq_step ja jb (io_handler io) h" "mq_generation h = mq_generation (io_handler io)"
    and "mq_connection h = mq_connection (io_handler io)"
  shows "io_ok (io\<lparr>io_handler := h\<rparr>)"
  using assms(1,4) quiet_phase [OF assms(2-4), of "io_channels io = []"] by (simp add: io_ok_def)

lemma io_step_ok: "io_step ja jb io io' \<Longrightarrow> io_ok io \<Longrightarrow> io_ok io'"
  by (induction rule: io_step.induct) (simp_all add: io_call_ok io_quiet_ok io_recover_ok io_reconnect_ok io_stop_ok)

lemma io_reachable_ok: "io_reachable ja jb io \<Longrightarrow> io_ok io"
proof (induction rule: io_reachable.induct)
  case (io_init connection calls constructs queue)
  then show ?case by (intro io_connect_ok) (simp_all add: new_io_def new_handler_def recoveries_def reconnects_def)
qed (rule io_step_ok)

section \<open>Property\<close>

text \<open>
  C29. Descriptors follow their connection. In every run of the broker client, however AMQP-CPP calls \<^verbatim>\<open>monitor\<close> (also for connections
  that are gone, and from within a constructor that then throws), when the readiness of a watched descriptor is passed to a
  connection, that connection is the one that asked for it to be watched; a stopped handler, and a live one
  that is waiting to reconnect, watch nothing; a live handler has a connection, a recovery on the loop or exactly
  one reconnection timer; and the handler's part of the run is a run of the handler.
\<close>

theorem descriptors_follow_connection:
  assumes "io_reachable job_attempt job_bump io"
  shows "(\<forall>fd c k. map_of (io_channels io) fd = Some c \<and> processes io = Some k \<longrightarrow> 0 \<le> fd \<and> mc_owner c = k) \<and>
    (\<not> mq_alive (io_handler io) \<or> mq_reconnectScheduled (io_handler io) \<longrightarrow> io_channels io = []) \<and>
    (mq_alive (io_handler io) \<longrightarrow>
       recoveries (io_handler io) + reconnects (io_handler io) = (if mq_recovering (io_handler io) then 1 else 0)) \<and>
    mq_reachable job_attempt job_bump (io_handler io)"
proof -
  have ok: "io_ok io" by (rule io_reachable_ok [OF assms])
  then obtain k where k: "owned k (io_channels io)" "io_conn io \<in> {None, Some k}" by (auto simp: io_ok_def)
  have "0 \<le> fd \<and> mc_owner c = j" if "map_of (io_channels io) fd = Some c" "processes io = Some j" for fd c j
    using that k by (fastforce simp: owned_def processes_def dest: map_of_SomeD split: if_splits)
  then show ?thesis
    using ok io_reachable_handler [OF assms] by (auto simp: io_ok_def mq_phase_def split: if_splits)
qed

theorem descriptors_follow_connection_witness:
  "\<exists>io. io_reachable (\<lambda>_. None) (\<lambda>_ _. None) io \<and> io_channels io = [(5, \<lparr>mc_reading = True, mc_writing = False, mc_owner = 1\<rparr>)] \<and>
     processes io = Some 1 \<and> mq_reachable (\<lambda>_. None) (\<lambda>_ _. None) (io_handler io)"
proof -
  let ?io = "monitor 2 6 (True, False, False) (io_connect 1 [(5, (True, True, False)), (5, (True, False, False))] True (new_io ''q''))"
  have r: "io_reachable (\<lambda>_. None) (\<lambda>_ _. None) ?io" by (rule io_next [OF io_init io_call])
  have "io_channels ?io = [(5, \<lparr>mc_reading = True, mc_writing = False, mc_owner = 1\<rparr>)]" "processes ?io = Some 1"
    by (simp_all add: io_connect_def monitor.simps new_io_def new_handler_def mq_connect_def processes_def Let_def)
  with r descriptors_follow_connection [OF r] show ?thesis by blast
qed

end
