(* ===== verification/MQ_Setup.thy ===== *)
theory MQ_Setup
  imports MQ_Manager
begin

text \<open>
  How a connection to the broker is made ready: \<^verbatim>\<open>onConnected\<close>, \<^verbatim>\<open>setupProducer\<close> and \<^verbatim>\<open>startConsumer\<close> of
  \<^verbatim>\<open>AIApps/ChatServer/src/AIUtil/MQManager.cpp\<close> with their nested callbacks. Each channel has a stage, the callback it is waiting for, and
  a log of what was requested on it; the next success runs that callback, an error is \<^verbatim>\<open>connectionFailed\<close>, and a disconnection
  drops both channels. The rest of the handler is as in \<open>MQ_Manager\<close>, and every run here is a run there.

  The theorem shows that nothing is published on a connection before both queues are declared on it and confirmations are
  on, that publications only go to these two queues, and that deliveries are only taken one at a time.
\<close>

section \<open>State and callbacks\<close>

datatype setup_request = Req_declare string | Req_confirmSelect | Req_qos nat | Req_consume string

datatype producer_stage = P_none | P_opening | P_declaring | P_declaring_dead | P_confirming | P_ready

datatype consumer_stage = C_none | C_opening | C_declaring | C_consuming

record mq_setup =
  su_handler :: mq_handler
  su_producer :: producer_stage
  su_consumer :: consumer_stage
  su_producer_log :: "setup_request list"
  su_consumer_log :: "setup_request list"

definition setupProducer :: "mq_setup \<Rightarrow> mq_setup" where
  "setupProducer s =
     s\<lparr>su_handler := (su_handler s)\<lparr>mq_producer := True\<rparr>, su_producer := P_opening, su_producer_log := []\<rparr>"

definition startConsumer :: "mq_setup \<Rightarrow> mq_setup" where
  "startConsumer s =
     s\<lparr>su_handler := (su_handler s)\<lparr>mq_consumer := True\<rparr>, su_consumer := C_opening, su_consumer_log := []\<rparr>"

definition setup_onConnected :: "mq_setup \<Rightarrow> mq_setup" where
  "setup_onConnected s = startConsumer (setupProducer (s\<lparr>su_handler := (su_handler s)\<lparr>mq_delay := 5\<rparr>\<rparr>))"

text \<open>The success the producer channel is waiting for: opened, queue declared, dead-letter queue declared, confirmations on.\<close>

definition producer_success :: "(publication \<Rightarrow> bool) \<Rightarrow> mq_setup \<Rightarrow> mq_setup" where
  "producer_success accepts s =
     (let q = mq_queueName (su_handler s); l = su_producer_log s
      in case su_producer s of
           P_opening \<Rightarrow> s\<lparr>su_producer := P_declaring, su_producer_log := l @ [Req_declare q]\<rparr>
         | P_declaring \<Rightarrow> s\<lparr>su_producer := P_declaring_dead, su_producer_log := l @ [Req_declare (q @ ''.dead'')]\<rparr>
         | P_declaring_dead \<Rightarrow> s\<lparr>su_producer := P_confirming, su_producer_log := l @ [Req_confirmSelect]\<rparr>
         | P_confirming \<Rightarrow> s\<lparr>su_producer := P_ready, su_handler := producer_confirms accepts (su_handler s)\<rparr>
         | _ \<Rightarrow> s)"

definition consumer_success :: "mq_setup \<Rightarrow> mq_setup" where
  "consumer_success s =
     (let q = mq_queueName (su_handler s); l = su_consumer_log s
      in case su_consumer s of
           C_opening \<Rightarrow> s\<lparr>su_consumer := C_declaring, su_consumer_log := l @ [Req_declare q]\<rparr>
         | C_declaring \<Rightarrow> s\<lparr>su_consumer := C_consuming, su_consumer_log := l @ [Req_qos 1, Req_consume q]\<rparr>
         | _ \<Rightarrow> s)"

text \<open>A step of the handler; with its connection the channels go.\<close>

definition settle :: "mq_handler \<Rightarrow> mq_setup \<Rightarrow> mq_setup" where
  "settle h s =
     (if mq_generation h = mq_generation (su_handler s) then s\<lparr>su_handler := h\<rparr>
      else \<lparr>su_handler = h, su_producer = P_none, su_consumer = C_none, su_producer_log = [], su_consumer_log = []\<rparr>)"

section \<open>Runs\<close>

text \<open>The steps that do not depend on the channels; the application publishes to the queue the handler was started for.\<close>

inductive quiet_step ::
  "(string \<Rightarrow> int option) \<Rightarrow> (string \<Rightarrow> int \<Rightarrow> string option) \<Rightarrow> mq_handler \<Rightarrow> mq_handler \<Rightarrow> bool"
  for job_attempt job_bump where
  quiet_admit: "quiet_step job_attempt job_bump h (snd (schedulePublish (mq_queueName h) body None h))"
| quiet_task: "mq_tasks h = t # ts \<Longrightarrow>
    quiet_step job_attempt job_bump h (run_task job_attempt job_bump accepts t (h\<lparr>mq_tasks := ts\<rparr>))"
| quiet_timer: "mq_timers h = ts1 @ t # ts2 \<Longrightarrow>
    quiet_step job_attempt job_bump h (fire_timer constructs t (h\<lparr>mq_timers := ts1 @ ts2\<rparr>))"
| quiet_lost: "mq_alive h \<Longrightarrow> quiet_step job_attempt job_bump h (connectionFailed h)"
| quiet_writable: "mq_alive h \<Longrightarrow> quiet_step job_attempt job_bump h (drainPending accepts h)"
| quiet_answer: "quiet_step job_attempt job_bump h (answer_delivery generation tag result body h)"
| quiet_stop: "quiet_step job_attempt job_bump h (mq_stop h)"

inductive setup_step ::
  "(string \<Rightarrow> int option) \<Rightarrow> (string \<Rightarrow> int \<Rightarrow> string option) \<Rightarrow> mq_setup \<Rightarrow> mq_setup \<Rightarrow> bool"
  for job_attempt job_bump where
  setup_quiet: "quiet_step job_attempt job_bump (su_handler s) h \<Longrightarrow> setup_step job_attempt job_bump s (settle h s)"
| setup_up: "mq_alive (su_handler s) \<Longrightarrow> mq_connection (su_handler s) \<Longrightarrow> su_producer s = P_none \<Longrightarrow>
    setup_step job_attempt job_bump s (setup_onConnected s)"
| setup_producer: "mq_alive (su_handler s) \<Longrightarrow> setup_step job_attempt job_bump s (producer_success accepts s)"
| setup_consumer: "mq_alive (su_handler s) \<Longrightarrow> setup_step job_attempt job_bump s (consumer_success s)"
| setup_confirm: "mq_alive (su_handler s) \<Longrightarrow> su_producer s \<in> {P_confirming, P_ready} \<Longrightarrow>
    setup_step job_attempt job_bump s (settle (confirm accepts tag multiple accepted (su_handler s)) s)"
| setup_deliver: "mq_alive (su_handler s) \<Longrightarrow> su_consumer s = C_consuming \<Longrightarrow>
    setup_step job_attempt job_bump s (settle (onConsumerMessage handler body tag (su_handler s)) s)"

definition new_setup :: "bool \<Rightarrow> string \<Rightarrow> mq_setup" where
  "new_setup constructs queue =
     \<lparr>su_handler = mq_connect constructs (new_handler queue), su_producer = P_none, su_consumer = C_none,
      su_producer_log = [], su_consumer_log = []\<rparr>"

inductive setup_reachable ::
  "(string \<Rightarrow> int option) \<Rightarrow> (string \<Rightarrow> int \<Rightarrow> string option) \<Rightarrow> mq_setup \<Rightarrow> bool"
  for job_attempt job_bump where
  setup_init: "setup_reachable job_attempt job_bump (new_setup constructs queue)"
| setup_next: "setup_reachable job_attempt job_bump s \<Longrightarrow> setup_step job_attempt job_bump s s' \<Longrightarrow>
    setup_reachable job_attempt job_bump s'"

section \<open>Destinations\<close>

definition destinations :: "mq_handler \<Rightarrow> string set" where
  "destinations h = {mq_queueName h, mq_queueName h @ ''.dead''}"

fun targets :: "mq_timer list \<Rightarrow> string list" where
  "targets [] = []"
| "targets (Timer_republish d g t target b # ts) = target # targets ts"
| "targets (_ # ts) = targets ts"

lemma targets_append [simp]: "targets (ts @ us) = targets ts @ targets us"
  by (induction ts rule: targets.induct) auto

definition routed :: "mq_handler \<Rightarrow> bool" where
  "routed h \<longleftrightarrow> pub_queue ` set (backlog h) \<subseteq> destinations h \<and> set (targets (mq_timers h)) \<subseteq> destinations h"

text \<open>What a step publishes, it publishes to one of the two queues and while the producer is ready.\<close>

definition published :: "bool \<Rightarrow> mq_handler \<Rightarrow> mq_handler \<Rightarrow> bool" where
  "published ready h h' \<longleftrightarrow> (\<exists>new. mq_actions h' = mq_actions h @ new \<and>
     (\<forall>q b. Act_publish q b \<in> set new \<longrightarrow> ready \<and> q \<in> destinations h))"

lemma published_refl: "mq_actions h' = mq_actions h \<Longrightarrow> published r h h'"
  by (simp add: published_def)

lemma drain_same:
  "mq_queueName (drainPending accepts h) = mq_queueName h" "mq_timers (drainPending accepts h) = mq_timers h"
  "mq_generation (drainPending accepts h) = mq_generation h" "mq_producer (drainPending accepts h) = mq_producer h"
  "mq_consumer (drainPending accepts h) = mq_consumer h" "mq_producerReady (drainPending accepts h) \<Longrightarrow> mq_producerReady h"
proof -
  have "mq_queueName (drainPending accepts h) = mq_queueName h \<and> mq_timers (drainPending accepts h) = mq_timers h \<and>
    mq_generation (drainPending accepts h) = mq_generation h \<and> mq_producer (drainPending accepts h) = mq_producer h \<and>
    mq_consumer (drainPending accepts h) = mq_consumer h \<and> (mq_producerReady (drainPending accepts h) \<longrightarrow> mq_producerReady h)"
    by (induction accepts h rule: drainPending.induct)
      (subst (1 2 3 4 5 6) drainPending.simps, auto simp: connectionFailed_def split: list.splits)
  then show "mq_queueName (drainPending accepts h) = mq_queueName h" "mq_timers (drainPending accepts h) = mq_timers h"
    "mq_generation (drainPending accepts h) = mq_generation h" "mq_producer (drainPending accepts h) = mq_producer h"
    "mq_consumer (drainPending accepts h) = mq_consumer h" "mq_producerReady (drainPending accepts h) \<Longrightarrow> mq_producerReady h"
    by auto
qed

lemma drain_published:
  "pub_queue ` set (mq_pending h) \<subseteq> destinations h \<Longrightarrow> published (mq_producerReady h) h (drainPending accepts h)"
proof (induction accepts h rule: drainPending.induct)
  case (1 accepts h)
  show ?case
  proof (cases "mq_producerReady h \<and> \<not> mq_recovering h \<and> mq_producer h \<and> mq_pending h \<noteq> [] \<and>
      length (mq_inflight h) < MaxInflight \<and> accepts (hd (mq_pending h))")
    case True
    obtain item rest where p: "mq_pending h = item # rest" using True by (cases "mq_pending h") auto
    let ?h = "h\<lparr>mq_actions := mq_actions h @ [Act_publish (pub_queue item) (pub_body item)],
      mq_inflight := smap_put (mq_nextTag h) item (mq_inflight h), mq_nextTag := mq_nextTag h + 1, mq_pending := rest\<rparr>"
    have step: "drainPending accepts h = drainPending accepts ?h" using True p by (subst drainPending.simps) simp
    have "published (mq_producerReady ?h) ?h (drainPending accepts ?h)"
      using True p 1(2) by (intro 1(1)) (auto simp: destinations_def)
    then obtain new where "mq_actions (drainPending accepts ?h) = mq_actions ?h @ new"
      "\<forall>q b. Act_publish q b \<in> set new \<longrightarrow> mq_producerReady h \<and> q \<in> destinations h"
      by (auto simp: published_def destinations_def)
    with True p 1(2) show ?thesis unfolding step published_def
      by (intro exI [of _ "Act_publish (pub_queue item) (pub_body item) # new"]) auto
  next
    case False
    then have "mq_actions (drainPending accepts h) = mq_actions h"
      by (subst drainPending.simps) (auto simp: connectionFailed_def split: list.split)
    then show ?thesis by (rule published_refl)
  qed
qed

text \<open>What holds of every step that does not depend on the channels.\<close>

definition kept :: "mq_handler \<Rightarrow> mq_handler \<Rightarrow> bool" where
  "kept h h' \<longleftrightarrow> routed h' \<and> mq_queueName h' = mq_queueName h \<and> published (mq_producerReady h) h h' \<and>
     (if mq_generation h' = mq_generation h
      then mq_producer h' = mq_producer h \<and> mq_consumer h' = mq_consumer h \<and> (mq_producerReady h' \<longrightarrow> mq_producerReady h)
      else \<not> mq_producerReady h')"

lemma destinations_cong: "mq_queueName h' = mq_queueName h \<Longrightarrow> destinations h' = destinations h"
  by (simp add: destinations_def)

lemma routed_sub:
  assumes "routed h" "mq_queueName h' = mq_queueName h" "set (backlog h') \<subseteq> set (backlog h)"
    "set (targets (mq_timers h')) \<subseteq> set (targets (mq_timers h)) \<union> destinations h"
  shows "routed h'"
proof -
  have d: "destinations h' = destinations h" using assms(2) by (rule destinations_cong)
  have "pub_queue ` set (backlog h') \<subseteq> pub_queue ` set (backlog h)" using assms(3) by (rule image_mono)
  then show ?thesis using assms(1,4) unfolding routed_def d by auto
qed

lemma drain_kept:
  assumes "smap_ok (mq_inflight h)" "\<forall>k\<in>fst ` set (mq_inflight h). k < mq_nextTag h" "routed h"
  shows "kept h (drainPending accepts h)"
proof -
  note b = drainPending_backlog [OF assms(1,2), of accepts]
  have "routed (drainPending accepts h)" by (rule routed_sub [OF assms(3)]) (simp_all add: b drain_same)
  moreover have "pub_queue ` set (mq_pending h) \<subseteq> destinations h" using assms(3) by (auto simp: routed_def backlog_def)
  ultimately show ?thesis using drain_published [of h accepts] drain_same [of accepts h] by (simp add: kept_def)
qed

lemma failed_kept: "routed h \<Longrightarrow> kept h (connectionFailed h)"
  by (auto simp: kept_def connectionFailed_def routed_def backlog_def destinations_def published_def)

lemma schedule_kept: "routed h \<Longrightarrow> q \<in> destinations h \<Longrightarrow> kept h (snd (schedulePublish q body c h))"
  by (auto simp: kept_def schedulePublish_def routed_def backlog_def destinations_def published_def)

lemma confirmed_kept: "routed h \<Longrightarrow> kept h (confirmed c ok h)"
  by (auto simp: kept_def confirmed_def routed_def backlog_def destinations_def published_def split: option.splits)

lemma kept_trans_same:
  assumes "kept h' h''" "mq_queueName h' = mq_queueName h" "mq_actions h' = mq_actions h" "mq_generation h' = mq_generation h"
    "mq_producer h' = mq_producer h" "mq_consumer h' = mq_consumer h" "mq_producerReady h' = mq_producerReady h"
  shows "kept h h''"
  using assms by (auto simp: kept_def published_def destinations_def)

lemma republication_target:
  "fst (snd (republication ja jb q r b)) \<in> {q, q @ ''.dead''}"
  by (auto simp: republication_def Let_def split: option.splits)

lemma complete_kept:
  assumes "routed h"
  shows "kept h (completeDelivery ja jb g t r b h)"
proof -
  obtain d tgt b' where rp: "republication ja jb (mq_queueName h) r b = (d, tgt, b')" by (metis prod_cases3)
  then have "tgt \<in> destinations h" using republication_target [of ja jb "mq_queueName h" r b] by (simp add: destinations_def)
  with assms show ?thesis
    by (auto simp: completeDelivery_def rp kept_def routed_def backlog_def destinations_def published_def)
qed

lemma run_task_kept:
  assumes ok: "mq_ok h" and r: "routed h" and t: "mq_tasks h = t # ts"
  shows "kept h (run_task ja jb accepts t (h\<lparr>mq_tasks := ts\<rparr>))"
proof -
  have "set (pushes ts) \<subseteq> set (pushes (mq_tasks h))" unfolding t by (cases t) auto
  then have r0: "routed (h\<lparr>mq_tasks := ts\<rparr>)" by (intro routed_sub [OF r]) (auto simp: backlog_def)
  show ?thesis
  proof (cases "mq_alive h")
    case False
    with r0 show ?thesis by (simp add: run_task_def kept_def published_def)
  next
    case True
    show ?thesis
    proof (cases t)
      case Task_recover
      let ?h = "scheduleReconnect (disconnect (h\<lparr>mq_tasks := ts\<rparr>))"
      have e: "run_task ja jb accepts t (h\<lparr>mq_tasks := ts\<rparr>) = ?h" using True Task_recover by (simp add: run_task_def)
      have "mq_queueName ?h = mq_queueName h" "mq_generation ?h = Suc (mq_generation h)" "mq_actions ?h = mq_actions h"
        "\<not> mq_producerReady ?h" "targets (mq_timers ?h) = targets (mq_timers h)"
        by (simp_all add: scheduleReconnect_def disconnect_def)
      moreover from this have "routed ?h"
        using run_task_backlog [OF ok t True, of ja jb accepts] unfolding e by (intro routed_sub [OF r]) simp_all
      ultimately show ?thesis unfolding e by (simp add: kept_def published_def)
    next
      case (Task_push item)
      let ?h = "h\<lparr>mq_tasks := ts, mq_pending := mq_pending h @ [item]\<rparr>"
      have "routed ?h" by (rule routed_sub [OF r]) (use t Task_push in \<open>auto simp: backlog_def\<close>)
      then have k: "kept ?h (drainPending accepts ?h)" using mq_ok_inflight [OF ok] by (intro drain_kept) simp_all
      have "run_task ja jb accepts t (h\<lparr>mq_tasks := ts\<rparr>) = drainPending accepts ?h"
        using True Task_push by (simp add: run_task_def)
      with kept_trans_same [OF k, of h] show ?thesis by simp
    next
      case (Task_complete g tag res b)
      let ?h = "h\<lparr>mq_tasks := ts\<rparr>"
      have "run_task ja jb accepts t ?h = completeDelivery ja jb g tag res b ?h"
        using True Task_complete by (simp add: run_task_def)
      with kept_trans_same [OF complete_kept [OF r0, of ja jb g tag res b], of h] show ?thesis by simp
    qed
  qed
qed

lemma fire_timer_kept:
  assumes r: "routed h" and t: "mq_timers h = ts1 @ t # ts2"
  shows "kept h (fire_timer constructs t (h\<lparr>mq_timers := ts1 @ ts2\<rparr>))"
proof -
  let ?h = "h\<lparr>mq_timers := ts1 @ ts2\<rparr>"
  have "set (targets (ts1 @ ts2)) \<subseteq> set (targets (mq_timers h))" unfolding t by (cases t) auto
  then have r0: "routed ?h" by (intro routed_sub [OF r]) (auto simp: backlog_def)
  have "kept ?h (fire_timer constructs t ?h)"
  proof (cases t)
    case (Timer_reconnect d)
    with r0 show ?thesis
      by (auto simp: fire_timer_def mq_connect_def connectionFailed_def kept_def routed_def backlog_def destinations_def
          published_def Let_def)
  next
    case (Timer_republish d g tag target body)
    then have "target \<in> destinations ?h" using r t by (auto simp: routed_def destinations_def)
    note s = schedule_kept [OF r0 this, of body "Some (g, tag)"]
    have refl: "kept ?h ?h" using r0 by (simp add: kept_def published_def)
    show ?thesis
    proof (cases "mq_alive h \<and> g = mq_generation h \<and> \<not> fst (schedulePublish target body (Some (g, tag)) ?h)")
      case True
      then have "schedulePublish target body (Some (g, tag)) ?h = (False, ?h)" by (auto simp: schedulePublish_def split: if_splits)
      with True Timer_republish confirmed_kept [OF r0] show ?thesis by (simp add: fire_timer_def)
    next
      case False
      with s refl Timer_republish show ?thesis by (auto simp: fire_timer_def split_beta split: bool.split)
    qed
  qed
  then show ?thesis by (rule kept_trans_same) simp_all
qed

lemma quiet_kept:
  assumes "quiet_step ja jb h h'" "mq_ok h" "routed h"
  shows "kept h h'"
  using assms
proof (induction rule: quiet_step.induct)
  case (quiet_admit h body)
  then show ?case by (intro schedule_kept) (simp_all add: destinations_def)
next
  case (quiet_task h t ts accepts)
  then show ?case by (intro run_task_kept)
next
  case (quiet_timer h ts1 t ts2 constructs)
  then show ?case by (intro fire_timer_kept)
next
  case (quiet_lost h)
  then show ?case by (intro failed_kept)
next
  case (quiet_writable h accepts)
  then show ?case using mq_ok_inflight by (intro drain_kept) auto
next
  case (quiet_answer h generation tag result body)
  then show ?case by (auto simp: answer_delivery_def kept_def routed_def backlog_def destinations_def published_def)
next
  case (quiet_stop h)
  have "routed (mq_stop h)"
  proof (rule routed_sub [OF quiet_stop(2)])
    let ?f = "\<lambda>t. case t of Timer_reconnect _ \<Rightarrow> False | Timer_republish _ _ _ _ _ \<Rightarrow> True"
    have "targets (filter ?f ts) = targets ts" for ts by (induction ts rule: targets.induct) auto
    then show "set (targets (mq_timers (mq_stop h))) \<subseteq> set (targets (mq_timers h)) \<union> destinations h"
      by (simp add: mq_stop_def disconnect_def)
    show "set (backlog (mq_stop h)) \<subseteq> set (backlog h)" by (simp add: mq_stop_def backlog_disconnect) (simp add: backlog_def)
  qed (simp add: mq_stop_def disconnect_def)
  then show ?case by (simp add: kept_def mq_stop_def disconnect_def published_def)
qed

section \<open>Every run is a run of the handler\<close>

fun producer_requests :: "producer_stage \<Rightarrow> string \<Rightarrow> setup_request list" where
  "producer_requests P_none q = []"
| "producer_requests P_opening q = []"
| "producer_requests P_declaring q = [Req_declare q]"
| "producer_requests P_declaring_dead q = [Req_declare q, Req_declare (q @ ''.dead'')]"
| "producer_requests _ q = [Req_declare q, Req_declare (q @ ''.dead''), Req_confirmSelect]"

fun consumer_requests :: "consumer_stage \<Rightarrow> string \<Rightarrow> setup_request list" where
  "consumer_requests C_declaring q = [Req_declare q]"
| "consumer_requests C_consuming q = [Req_declare q, Req_qos 1, Req_consume q]"
| "consumer_requests _ q = []"

definition setup_ok :: "mq_setup \<Rightarrow> bool" where
  "setup_ok s \<longleftrightarrow> mq_ok (su_handler s) \<and> routed (su_handler s) \<and>
     su_producer_log s = producer_requests (su_producer s) (mq_queueName (su_handler s)) \<and>
     su_consumer_log s = consumer_requests (su_consumer s) (mq_queueName (su_handler s)) \<and>
     (su_producer s \<noteq> P_none \<longrightarrow> mq_producer (su_handler s)) \<and> (su_consumer s \<noteq> C_none \<longrightarrow> mq_consumer (su_handler s)) \<and>
     (mq_producerReady (su_handler s) \<longrightarrow> su_producer s = P_ready)"

lemma settle_handler [simp]: "su_handler (settle h s) = h"
  by (simp add: settle_def)

lemma quiet_is_step: "quiet_step ja jb h h' \<Longrightarrow> mq_step ja jb h h'"
  by (induction rule: quiet_step.induct) (auto intro: mq_step.intros)

lemma onConnected_handler [simp]: "su_handler (setup_onConnected s) = onConnected (su_handler s)"
  by (simp add: setup_onConnected_def startConsumer_def setupProducer_def onConnected_def)

lemma setup_step_handler:
  "setup_step ja jb s s' \<Longrightarrow> setup_ok s \<Longrightarrow> su_handler s' = su_handler s \<or> mq_step ja jb (su_handler s) (su_handler s')"
proof (induction rule: setup_step.induct)
  case (setup_quiet s h)
  then show ?case using quiet_is_step by simp
next
  case (setup_producer s accepts)
  then show ?case using mq_ready [of "su_handler s" ja jb accepts]
    by (cases "su_producer s") (auto simp: producer_success_def setup_ok_def)
next
  case (setup_consumer s)
  then show ?case by (cases "su_consumer s") (auto simp: consumer_success_def)
qed (auto simp: setup_ok_def intro: mq_step.intros)

lemma settle_ok:
  assumes "setup_ok s" "mq_ok h" "kept (su_handler s) h"
  shows "setup_ok (settle h s)"
  using assms by (auto simp: setup_ok_def settle_def kept_def)

lemma confirm_kept:
  assumes "mq_ok h" "routed h"
  shows "kept h (confirm accepts tag multiple accepted h)"
proof (cases "mq_recovering h \<or> mq_shuttingDown h \<or> \<not> accepted")
  case True
  with failed_kept [OF assms(2)] assms(2) show ?thesis by (auto simp: confirm_def kept_def published_def)
next
  case False
  let ?h = "confirm_loop tag multiple (mq_inflight h) h"
  have ok: "mq_ok ?h" by (rule confirm_loop_ok [OF assms(1)])
  have q: "mq_queueName ?h = mq_queueName h" "mq_timers ?h = mq_timers h" "mq_generation ?h = mq_generation h"
    "mq_producer ?h = mq_producer h" "mq_consumer ?h = mq_consumer h" "mq_producerReady ?h = mq_producerReady h"
    by (simp_all add: confirm_loop_eq)
  have "set (backlog ?h) \<subseteq> set (backlog h)" by (auto simp: confirm_loop_eq backlog_def)
  then have "routed ?h" by (intro routed_sub [OF assms(2)]) (simp_all add: q)
  then have k: "kept ?h (drainPending accepts ?h)" using mq_ok_inflight [OF ok] by (intro drain_kept) simp_all
  have "\<exists>as. mq_actions ?h = mq_actions h @ as \<and> (\<forall>q b. Act_publish q b \<notin> set as)"
    by (auto simp: confirm_loop_eq acks_def split: option.splits)
  then have "kept h (drainPending accepts ?h)"
    using k by (fastforce simp: kept_def published_def destinations_def q)
  with False show ?thesis by (simp add: confirm_def)
qed

lemma setup_init_ok: "setup_ok (new_setup constructs queue)"
proof -
  have "mq_ok (mq_connect constructs (new_handler queue))" by (rule mq_reachable_ok [OF mq_init [of "\<lambda>_. None" "\<lambda>_ _. None"]])
  then show ?thesis
    by (simp add: setup_ok_def new_setup_def) (simp add: routed_def backlog_def mq_connect_def connectionFailed_def new_handler_def Let_def)
qed

lemma deliver_kept: "routed h \<Longrightarrow> kept h (onConsumerMessage handler body tag h)"
  by (auto simp: onConsumerMessage_def answer_delivery_def kept_def routed_def backlog_def destinations_def published_def
      split: option.splits sum.splits)

lemma producer_confirms_effect:
  assumes "mq_ok h" "routed h"
  shows "routed (producer_confirms accepts h) \<and> mq_queueName (producer_confirms accepts h) = mq_queueName h \<and>
    mq_generation (producer_confirms accepts h) = mq_generation h \<and> mq_producer (producer_confirms accepts h) = mq_producer h \<and>
    mq_consumer (producer_confirms accepts h) = mq_consumer h \<and> published True h (producer_confirms accepts h)"
proof -
  let ?h = "h\<lparr>mq_producerReady := True\<rparr>"
  have "routed ?h" by (rule routed_sub [OF assms(2)]) (simp_all add: backlog_def)
  then have "kept ?h (drainPending accepts ?h)" using mq_ok_inflight [OF assms(1)] by (intro drain_kept) simp_all
  then show ?thesis using drain_same [of accepts ?h] by (simp add: kept_def producer_confirms_def published_def destinations_def)
qed

lemma setup_step_ok:
  assumes step: "setup_step ja jb s s'" and ok: "setup_ok s"
  shows "setup_ok s'"
proof -
  have h: "mq_ok (su_handler s')"
    using setup_step_handler [OF step ok] ok mq_step_ok unfolding setup_ok_def by metis
  have r: "mq_ok (su_handler s)" "routed (su_handler s)" using ok by (simp_all add: setup_ok_def)
  from step h show ?thesis
  proof cases
    case (setup_quiet h')
    with h quiet_kept [OF setup_quiet(2) r] show ?thesis by (simp add: settle_ok [OF ok])
  next
    case setup_up
    with ok h show ?thesis
      by (auto simp: setup_ok_def) (auto simp: setup_onConnected_def startConsumer_def setupProducer_def onConnected_def routed_def
          backlog_def destinations_def)
  next
    case (setup_producer accepts)
    with ok h producer_confirms_effect [OF r, of accepts] show ?thesis
      by (cases "su_producer s") (auto simp: setup_ok_def producer_success_def Let_def)
  next
    case setup_consumer
    with ok h show ?thesis by (cases "su_consumer s") (auto simp: setup_ok_def consumer_success_def Let_def)
  next
    case (setup_confirm accepts tag multiple accepted)
    with h confirm_kept [OF r] show ?thesis by (simp add: settle_ok [OF ok])
  next
    case (setup_deliver handler body tag)
    with h deliver_kept [OF r(2)] show ?thesis by (simp add: settle_ok [OF ok])
  qed
qed

lemma setup_reachable_ok: "setup_reachable ja jb s \<Longrightarrow> setup_ok s \<and> mq_reachable ja jb (su_handler s)"
proof (induction rule: setup_reachable.induct)
  case (setup_init constructs queue)
  then show ?case using setup_init_ok mq_init by (simp add: new_setup_def)
next
  case (setup_next s s')
  then show ?case using setup_step_ok setup_step_handler mq_next by metis
qed

lemma setup_step_published:
  assumes step: "setup_step ja jb s s'" and ok: "setup_ok s"
  shows "published (su_producer s \<in> {P_confirming, P_ready}) (su_handler s) (su_handler s')"
proof -
  have r: "mq_ok (su_handler s)" "routed (su_handler s)" "mq_producerReady (su_handler s) \<Longrightarrow> su_producer s = P_ready"
    using ok by (simp_all add: setup_ok_def)
  have k: "published (su_producer s \<in> {P_confirming, P_ready}) (su_handler s) h" if "kept (su_handler s) h" for h
    using that r(3) by (auto simp: kept_def published_def)
  from step show ?thesis
  proof cases
    case (setup_quiet h)
    with k quiet_kept [OF setup_quiet(2) r(1,2)] show ?thesis by simp
  next
    case setup_up
    then show ?thesis by (simp add: published_def onConnected_def)
  next
    case (setup_producer accepts)
    with producer_confirms_effect [OF r(1,2), of accepts] show ?thesis
      by (cases "su_producer s") (auto simp: producer_success_def Let_def published_def)
  next
    case setup_consumer
    then show ?thesis by (cases "su_consumer s") (auto simp: consumer_success_def Let_def published_def)
  next
    case (setup_confirm accepts tag multiple accepted)
    with k confirm_kept [OF r(1,2)] show ?thesis by simp
  next
    case (setup_deliver handler body tag)
    with k deliver_kept [OF r(2)] show ?thesis by simp
  qed
qed

section \<open>Property\<close>

text \<open>
  C30. Nothing is published before its destination exists. In every run of the broker client in which the application publishes to
  the queue the handler was started for, whatever a step publishes goes to that queue or its dead-letter queue, and on the channel
  it is sent on both queues were declared and confirmations turned on before; a consumer that receives deliveries has limited them to one
  at a time before it asked for them; and the handler's part of the run is a run of the handler.
\<close>

theorem setup_before_use:
  assumes "setup_reachable job_attempt job_bump s" and "setup_step job_attempt job_bump s s'"
    and "q = mq_queueName (su_handler s)"
  shows "(\<exists>new. mq_actions (su_handler s') = mq_actions (su_handler s) @ new \<and>
      (\<forall>target body. Act_publish target body \<in> set new \<longrightarrow> target \<in> {q, q @ ''.dead''} \<and>
         su_producer_log s = [Req_declare q, Req_declare (q @ ''.dead''), Req_confirmSelect])) \<and>
    (su_consumer s = C_consuming \<longrightarrow> su_consumer_log s = [Req_declare q, Req_qos 1, Req_consume q]) \<and>
    mq_reachable job_attempt job_bump (su_handler s)"
proof -
  from setup_reachable_ok [OF assms(1)] have ok: "setup_ok s" "mq_reachable job_attempt job_bump (su_handler s)" by auto
  from setup_step_published [OF assms(2) ok(1)] obtain new where new: "mq_actions (su_handler s') = mq_actions (su_handler s) @ new"
    "\<forall>t b. Act_publish t b \<in> set new \<longrightarrow> su_producer s \<in> {P_confirming, P_ready} \<and> t \<in> destinations (su_handler s)"
    by (auto simp: published_def)
  moreover have "su_producer s \<in> {P_confirming, P_ready} \<longrightarrow>
      su_producer_log s = [Req_declare q, Req_declare (q @ ''.dead''), Req_confirmSelect]"
    using ok(1) assms(3) by (auto simp: setup_ok_def)
  ultimately show ?thesis using ok assms(3) by (auto simp: setup_ok_def destinations_def)
qed

text \<open>A message admitted while the connection is being made ready is sent when confirmations are on.\<close>

definition setup_events :: "mq_setup \<Rightarrow> mq_setup" where
  "setup_events s = (producer_success (\<lambda>_. True) ^^ 3) (setup_onConnected s)"

definition waiting_setup :: mq_setup where
  "waiting_setup =
     (let s1 = new_setup True ''q'';
          s2 = settle (snd (schedulePublish ''q'' ''m'' None (su_handler s1))) s1;
          s3 = settle (run_task (\<lambda>_. None) (\<lambda>_ _. None) (\<lambda>_. True) (hd (mq_tasks (su_handler s2))) ((su_handler s2)\<lparr>mq_tasks := []\<rparr>)) s2
      in setup_events s3)"

lemma drain_idle: "\<not> mq_producerReady h \<Longrightarrow> drainPending accepts h = h"
  by (subst drainPending.simps) simp

lemma waiting_setup_reachable: "setup_reachable (\<lambda>_. None) (\<lambda>_ _. None) waiting_setup"
proof -
  let ?R = "setup_reachable (\<lambda>_. None) (\<lambda>_ _. None)"
  define s1 where "s1 = new_setup True ''q''"
  define s2 where "s2 = settle (snd (schedulePublish ''q'' ''m'' None (su_handler s1))) s1"
  define s3 where "s3 = settle (run_task (\<lambda>_. None) (\<lambda>_ _. None) (\<lambda>_. True) (hd (mq_tasks (su_handler s2))) ((su_handler s2)\<lparr>mq_tasks := []\<rparr>)) s2"
  define s4 where "s4 = setup_onConnected s3"
  have 1: "?R s1" unfolding s1_def by (rule setup_init)
  have q: "mq_queueName (su_handler s1) = ''q''" by (simp add: s1_def new_setup_def mq_connect_def new_handler_def)
  have 2: "?R s2" unfolding s2_def
    by (rule setup_next [OF 1 setup_quiet]) (use quiet_admit [of "\<lambda>_. None" "\<lambda>_ _. None" "su_handler s1" "''m''"] q in simp)
  have t: "mq_tasks (su_handler s2) = [hd (mq_tasks (su_handler s2))]" "mq_alive (su_handler s3)" "mq_connection (su_handler s3)"
    "su_producer s3 = P_none" unfolding s1_def s2_def s3_def
    by (simp_all add: new_setup_def mq_connect_def new_handler_def schedulePublish_def MaxPending_def settle_def run_task_def drain_idle)
  have 3: "?R s3" unfolding s3_def by (rule setup_next [OF 2 setup_quiet]) (rule quiet_task [OF t(1)])
  have 4: "?R s4" unfolding s4_def by (rule setup_next [OF 3 setup_up]) (use t in simp_all)
  have p: "?R (producer_success (\<lambda>_. True) s)" if "?R s" "mq_alive (su_handler s)" for s
    by (rule setup_next [OF that(1) setup_producer [OF that(2)]])
  have a: "mq_alive (su_handler s4)" "mq_alive (su_handler (producer_success (\<lambda>_. True) s4))"
    "mq_alive (su_handler (producer_success (\<lambda>_. True) (producer_success (\<lambda>_. True) s4)))"
    using t(2) by (simp_all add: s4_def setup_onConnected_def setupProducer_def startConsumer_def producer_success_def)
  have "?R (producer_success (\<lambda>_. True) (producer_success (\<lambda>_. True) (producer_success (\<lambda>_. True) s4)))"
    by (intro p 4 a)
  then show ?thesis
    by (simp add: waiting_setup_def setup_events_def Let_def s1_def s2_def s3_def s4_def numeral_3_eq_3)
qed

theorem setup_before_use_witness:
  "mq_actions (su_handler waiting_setup) = [] \<and>
   mq_actions (su_handler (producer_success (\<lambda>_. True) waiting_setup)) = [Act_publish ''q'' ''m''] \<and>
   su_producer_log waiting_setup = [Req_declare ''q'', Req_declare ''q.dead'', Req_confirmSelect]"
proof -
  have a: "mq_alive (su_handler waiting_setup)" "mq_queueName (su_handler waiting_setup) = ''q''"
    "mq_actions (su_handler waiting_setup) = []"
    "mq_actions (su_handler (producer_success (\<lambda>_. True) waiting_setup)) = [Act_publish ''q'' ''m'']" by code_simp+
  from setup_before_use [OF waiting_setup_reachable setup_producer [OF a(1)], of "''q''" "\<lambda>_. True"] a show ?thesis by auto
qed

end
