(* ===== verification/Db_Pool.thy ===== *)
theory Db_Pool
  imports Cpp_Prelude "HOL-Library.Multiset"
begin

text \<open>
  \<^verbatim>\<open>HttpServer/include/utils/db/DbConnectionPool.h\<close> and \<^verbatim>\<open>HttpServer/src/utils/db/DbConnectionPool.cpp\<close>: the pool of
  database connections. A connection is its handle, a number drawn from the counter \<open>pool_next\<close>; what
  the database answers (whether connecting, \<^verbatim>\<open>ping\<close> and \<^verbatim>\<open>reconnect\<close> succeed) is an argument.

  The critical sections of \<^verbatim>\<open>init\<close>, \<^verbatim>\<open>getConnection\<close>, the deleter of a lease and the destructor are functions
  on the shared state; the step relation interleaves the critical sections of any number of borrowers.
\<close>

section \<open>The shared state\<close>

record pool_state =
  pool_host :: string
  pool_user :: string
  pool_password :: string
  pool_database :: string
  pool_idle :: "nat list"
  pool_target :: nat
  pool_allocated :: nat
  pool_initialized :: bool
  pool_stopping :: bool
  pool_next :: nat

definition new_pool :: pool_state where
  "new_pool = \<lparr>pool_host = [], pool_user = [], pool_password = [], pool_database = [], pool_idle = [],
     pool_target = 0, pool_allocated = 0, pool_initialized = False, pool_stopping = False, pool_next = 0\<rparr>"

text \<open>\<^verbatim>\<open>createConnection\<close>: a new handle, or the exception of the connector.\<close>

definition createConnection :: "bool \<Rightarrow> pool_state \<Rightarrow> nat result \<times> pool_state" where
  "createConnection connects s =
     (if connects then (return (pool_next s), s\<lparr>pool_next := Suc (pool_next s)\<rparr>)
      else (throw (Db_exception ''Database connection failed''), s))"

fun create_loop :: "bool list \<Rightarrow> nat list \<Rightarrow> pool_state \<Rightarrow> nat list result \<times> pool_state" where
  "create_loop [] ready s = (return ready, s)"
| "create_loop (b # bs) ready s =
     (case createConnection b s of
        (Inl e, s') \<Rightarrow> (Inl e, s')
      | (Inr c, s') \<Rightarrow> create_loop bs (ready @ [c]) s')"

text \<open>\<^verbatim>\<open>init\<close>: \<open>connects\<close> says which of the attempts to connect succeed.\<close>

definition pool_init ::
  "string \<Rightarrow> string \<Rightarrow> string \<Rightarrow> string \<Rightarrow> nat \<Rightarrow> (nat \<Rightarrow> bool) \<Rightarrow> pool_state \<Rightarrow> unit result \<times> pool_state" where
  "pool_init host user password database poolSize connects s =
     (if pool_initialized s then (return (), s)
      else if pool_stopping s \<or> poolSize = 0
      then (throw (Db_exception ''Invalid connection pool initialization''), s)
      else let s1 = s\<lparr>pool_host := host, pool_user := user, pool_password := password,
                      pool_database := database\<rparr>
           in case create_loop (map connects [0..<poolSize]) [] s1 of
                (Inl e, s2) \<Rightarrow> (Inl e, s2)
              | (Inr ready, s2) \<Rightarrow>
                  (return (), s2\<lparr>pool_idle := ready, pool_target := poolSize, pool_allocated := poolSize,
                                 pool_initialized := True\<rparr>))"

section \<open>Borrowing\<close>

text \<open>The predicate the borrower waits for, and the critical section once it holds.\<close>

definition pool_ready :: "pool_state \<Rightarrow> bool" where
  "pool_ready s \<longleftrightarrow> pool_stopping s \<or> pool_idle s \<noteq> [] \<or> pool_allocated s < pool_target s"

definition pool_available :: "pool_state \<Rightarrow> bool" where
  "pool_available s \<longleftrightarrow> pool_initialized s \<and> \<not> pool_stopping s"

definition pool_take :: "pool_state \<Rightarrow> nat option \<times> pool_state" where
  "pool_take s =
     (case pool_idle s of
        c # cs \<Rightarrow> (Some c, s\<lparr>pool_idle := cs\<rparr>)
      | [] \<Rightarrow> (None, s\<lparr>pool_allocated := pool_allocated s + 1\<rparr>))"

text \<open>What the database answers during one check-out.\<close>

record db_answers =
  db_connects :: bool
  db_ping :: bool
  db_reconnects :: bool
  db_ping_again :: bool
  db_connects_again :: bool
  db_ping_replacement :: bool

definition check_connection :: "db_answers \<Rightarrow> nat option \<Rightarrow> pool_state \<Rightarrow> nat result \<times> pool_state" where
  "check_connection db conn s =
     (case (case conn of Some c \<Rightarrow> (return c, s) | None \<Rightarrow> createConnection (db_connects db) s) of
        (Inl e, s1) \<Rightarrow> (Inl e, s1)
      | (Inr c, s1) \<Rightarrow>
          (if db_ping db then (return c, s1)
           else if db_reconnects db \<and> db_ping_again db then (return c, s1)
           else case createConnection (db_connects_again db) s1 of
                  (Inl e, s2) \<Rightarrow> (Inl e, s2)
                | (Inr c2, s2) \<Rightarrow>
                    (if db_ping_replacement db then (return c2, s2)
                     else (throw (Db_exception ''Replacement connection is unavailable''), s2))))"

definition pool_forget :: "pool_state \<Rightarrow> pool_state" where
  "pool_forget s = s\<lparr>pool_allocated := pool_allocated s - 1\<rparr>"

text \<open>\<^verbatim>\<open>getConnection\<close> as one borrower runs it when nobody interferes; \<open>wait\<close> is what happens while it waits.\<close>

definition getConnection ::
  "(pool_state \<Rightarrow> pool_state) \<Rightarrow> db_answers \<Rightarrow> pool_state \<Rightarrow> nat result \<times> pool_state" where
  "getConnection wait db s =
     (if \<not> pool_available s then (throw (Db_exception ''Connection pool is unavailable''), s)
      else let s1 = wait s
           in if \<not> pool_ready s1
              then (throw (Db_exception ''Connection pool exhausted: timeout after 30s''), s1)
              else if pool_stopping s1
              then (throw (Db_exception ''Connection pool is stopping''), s1)
              else let (conn, s2) = pool_take s1
                   in case check_connection db conn s2 of
                        (Inl e, s3) \<Rightarrow> (Inl e, pool_forget s3)
                      | (Inr c, s3) \<Rightarrow> (return c, s3))"

text \<open>The deleter of a lease, and the destructor of the pool.\<close>

definition pool_return :: "nat \<Rightarrow> pool_state \<Rightarrow> pool_state" where
  "pool_return c s =
     (if pool_stopping s then s\<lparr>pool_allocated := pool_allocated s - 1\<rparr>
      else s\<lparr>pool_idle := pool_idle s @ [c]\<rparr>)"

definition pool_destroy :: "pool_state \<Rightarrow> pool_state" where
  "pool_destroy s =
     s\<lparr>pool_stopping := True, pool_allocated := pool_allocated s - length (pool_idle s), pool_idle := []\<rparr>"

section \<open>Borrowers\<close>

text \<open>
  The borrowers of a run: how many wait, what those hold who are checking a connection outside the lock
  (\<open>None\<close> is a reserved slot), and the leases handed out.
\<close>

record pool_system =
  sys_pool :: pool_state
  sys_waiting :: nat
  sys_checking :: "nat option multiset"
  sys_leased :: "nat multiset"

definition new_system :: pool_system where
  "new_system = \<lparr>sys_pool = new_pool, sys_waiting = 0, sys_checking = {#}, sys_leased = {#}\<rparr>"

inductive pool_step :: "pool_system \<Rightarrow> pool_system \<Rightarrow> bool" where
  pstep_init: "pool_init h u p d n connects (sys_pool y) = (r, s) \<Longrightarrow> pool_step y (y\<lparr>sys_pool := s\<rparr>)"
| pstep_enter: "pool_available (sys_pool y) \<Longrightarrow> pool_step y (y\<lparr>sys_waiting := sys_waiting y + 1\<rparr>)"
| pstep_timeout: "sys_waiting y > 0 \<Longrightarrow> \<not> pool_ready (sys_pool y) \<or> pool_stopping (sys_pool y) \<Longrightarrow>
    pool_step y (y\<lparr>sys_waiting := sys_waiting y - 1\<rparr>)"
| pstep_take: "sys_waiting y > 0 \<Longrightarrow> pool_ready (sys_pool y) \<Longrightarrow> \<not> pool_stopping (sys_pool y) \<Longrightarrow>
    pool_take (sys_pool y) = (conn, s) \<Longrightarrow>
    pool_step y (y\<lparr>sys_pool := s, sys_waiting := sys_waiting y - 1,
                   sys_checking := add_mset conn (sys_checking y)\<rparr>)"
| pstep_lease: "conn \<in># sys_checking y \<Longrightarrow> check_connection db conn (sys_pool y) = (Inr c, s) \<Longrightarrow>
    pool_step y (y\<lparr>sys_pool := s, sys_checking := sys_checking y - {#conn#},
                   sys_leased := add_mset c (sys_leased y)\<rparr>)"
| pstep_fail: "conn \<in># sys_checking y \<Longrightarrow> check_connection db conn (sys_pool y) = (Inl e, s) \<Longrightarrow>
    pool_step y (y\<lparr>sys_pool := pool_forget s, sys_checking := sys_checking y - {#conn#}\<rparr>)"
| pstep_return: "c \<in># sys_leased y \<Longrightarrow>
    pool_step y (y\<lparr>sys_pool := pool_return c (sys_pool y), sys_leased := sys_leased y - {#c#}\<rparr>)"
| pstep_destroy: "pool_step y (y\<lparr>sys_pool := pool_destroy (sys_pool y)\<rparr>)"

inductive pool_reachable :: "pool_system \<Rightarrow> bool" where
  preach_init: "pool_reachable new_system"
| preach_step: "pool_reachable y \<Longrightarrow> pool_step y y' \<Longrightarrow> pool_reachable y'"

section \<open>Invariant\<close>

text \<open>Every connection known to anybody: idle, being checked, or leased.\<close>

definition held :: "nat option multiset \<Rightarrow> nat multiset" where
  "held cs = image_mset the (filter_mset (\<lambda>c. c \<noteq> None) cs)"

definition known :: "pool_system \<Rightarrow> nat multiset" where
  "known y = mset (pool_idle (sys_pool y)) + held (sys_checking y) + sys_leased y"

definition pool_ok :: "pool_system \<Rightarrow> bool" where
  "pool_ok y \<longleftrightarrow>
     pool_allocated (sys_pool y) =
       length (pool_idle (sys_pool y)) + size (sys_checking y) + size (sys_leased y) \<and>
     pool_allocated (sys_pool y) \<le> pool_target (sys_pool y) \<and>
     (\<not> pool_initialized (sys_pool y) \<longrightarrow> pool_target (sys_pool y) = 0) \<and>
     (\<forall>c. count (known y) c \<le> 1 \<and> (c \<in># known y \<longrightarrow> c < pool_next (sys_pool y)))"

lemma held_simps [simp]:
  "held {#} = {#}"
  "held (add_mset (Some c) cs) = add_mset c (held cs)"
  "held (add_mset None cs) = held cs"
  by (simp_all add: held_def)

lemma held_remove: "conn \<in># cs \<Longrightarrow> held cs = held (cs - {#conn#}) + (case conn of None \<Rightarrow> {#} | Some c \<Rightarrow> {#c#})"
  by (cases conn) (auto simp: held_def dest!: multi_member_split)

lemma size_remove: "c \<in># cs \<Longrightarrow> size cs = Suc (size (cs - {#c#}))"
  by (metis insert_DiffM size_add_mset)

text \<open>A fresh connection is known to nobody.\<close>

lemma fresh_unknown: "pool_ok y \<Longrightarrow> count (known y) (pool_next (sys_pool y)) = 0"
  by (auto simp: pool_ok_def not_in_iff [symmetric])

lemma create_loop_Inr:
  "create_loop bs ready s = (Inr r, s') \<Longrightarrow>
     r = ready @ [pool_next s..<pool_next s + length bs] \<and> s' = s\<lparr>pool_next := pool_next s + length bs\<rparr>"
proof (induction bs arbitrary: ready s)
  case (Cons b bs)
  have u: "[n..<Suc (n + l)] = n # [Suc n..<Suc (n + l)]" for n l
    by (simp add: upt_conv_Cons del: upt_Suc)
  from Cons.prems have b by (auto simp: createConnection_def split: if_splits)
  with Cons.prems Cons.IH [of "ready @ [pool_next s]" "s\<lparr>pool_next := Suc (pool_next s)\<rparr>"]
  show ?case by (simp add: createConnection_def u del: upt_Suc)
qed simp

lemma create_loop_Inl:
  "create_loop bs ready s = (Inl e, s') \<Longrightarrow> \<exists>n\<ge>pool_next s. s' = s\<lparr>pool_next := n\<rparr>"
proof (induction bs arbitrary: ready s)
  case (Cons b bs)
  show ?case
  proof (cases b)
    case True
    with Cons.prems Cons.IH [of "ready @ [pool_next s]" "s\<lparr>pool_next := Suc (pool_next s)\<rparr>"]
    show ?thesis by (auto simp: createConnection_def intro: Suc_leD)
  next
    case False
    with Cons.prems show ?thesis by (auto simp: createConnection_def intro!: exI [of _ "pool_next s"])
  qed
qed simp

text \<open>A check-out hands back the connection it was given or a fresh one, and touches only the counter.\<close>

lemma check_connection_state:
  assumes "check_connection db conn s = (r, s')"
  shows "\<exists>n\<ge>pool_next s. s' = s\<lparr>pool_next := n\<rparr> \<and>
    (\<forall>c. r = Inr c \<longrightarrow> conn = Some c \<or> (pool_next s \<le> c \<and> c < n))"
  using assms
  by (cases conn)
    (auto simp: check_connection_def createConnection_def split: if_splits
      intro: exI [of _ "pool_next s"] exI [of _ "Suc (pool_next s)"] exI [of _ "Suc (Suc (pool_next s))"])

section \<open>Every step keeps the invariant\<close>

lemma pool_init_ok:
  assumes ok: "pool_ok y" and i: "pool_init h u p d n connects (sys_pool y) = (r, s)"
  shows "pool_ok (y\<lparr>sys_pool := s\<rparr>)"
proof (cases "pool_initialized (sys_pool y) \<or> pool_stopping (sys_pool y) \<or> n = 0")
  case True
  with i have "s = sys_pool y" by (auto simp: pool_init_def split: if_splits)
  with ok show ?thesis by simp
next
  case False
  let ?s = "(sys_pool y)\<lparr>pool_host := h, pool_user := u, pool_password := p, pool_database := d\<rparr>"
  from False ok have none: "pool_idle (sys_pool y) = []" "sys_checking y = {#}" "sys_leased y = {#}"
    by (auto simp: pool_ok_def)
  obtain r1 s1 where c: "create_loop (map connects [0..<n]) [] ?s = (r1, s1)"
    by (cases "create_loop (map connects [0..<n]) [] ?s")
  show ?thesis
  proof (cases r1)
    case (Inl e)
    from create_loop_Inl [OF c [unfolded Inl]] obtain k where "s1 = ?s\<lparr>pool_next := k\<rparr>" by auto
    with False i c Inl have "s = ?s\<lparr>pool_next := k\<rparr>" by (auto simp: pool_init_def)
    with ok none show ?thesis by (simp add: pool_ok_def known_def)
  next
    case (Inr ready)
    from create_loop_Inr [OF c [unfolded Inr]]
    have "ready = [pool_next (sys_pool y)..<pool_next (sys_pool y) + n]"
      "s1 = ?s\<lparr>pool_next := pool_next (sys_pool y) + n\<rparr>" by auto
    with False i c Inr have s: "s = ?s\<lparr>pool_next := pool_next (sys_pool y) + n,
        pool_idle := [pool_next (sys_pool y)..<pool_next (sys_pool y) + n], pool_target := n,
        pool_allocated := n, pool_initialized := True\<rparr>"
      by (auto simp: pool_init_def)
    have "count (mset [a..<b]) c \<le> 1" for a b c :: nat
      by (simp add: count_mset_set')
    with none show ?thesis by (auto simp: pool_ok_def known_def s)
  qed
qed

lemma known_sub:
  assumes "pool_ok y" and "K \<subseteq># known y" and "pool_next (sys_pool y) \<le> n"
  shows "count K c \<le> 1 \<and> (c \<in># K \<longrightarrow> c < n)"
proof -
  have "count K c \<le> count (known y) c" using assms(2) by (rule mset_subset_eq_count)
  moreover have "count (known y) c \<le> 1" using assms(1) by (simp add: pool_ok_def)
  moreover have "c < n" if "c \<in># K"
    using assms mset_subset_eqD [OF assms(2) that] by (auto simp: pool_ok_def)
  ultimately show ?thesis by simp
qed

lemma pool_take_ok:
  assumes "pool_ok y" and "pool_ready (sys_pool y)" and "\<not> pool_stopping (sys_pool y)"
    and "pool_take (sys_pool y) = (conn, s)"
  shows "pool_ok (y\<lparr>sys_pool := s, sys_waiting := w, sys_checking := add_mset conn (sys_checking y)\<rparr>)"
proof (cases "pool_idle (sys_pool y)")
  case Nil
  with assms have "pool_allocated (sys_pool y) < pool_target (sys_pool y)"
    "s = (sys_pool y)\<lparr>pool_allocated := pool_allocated (sys_pool y) + 1\<rparr>" "conn = None"
    by (auto simp: pool_ready_def pool_take_def)
  with Nil assms(1) show ?thesis by (simp add: pool_ok_def known_def)
next
  case (Cons c cs)
  with assms(4) have "s = (sys_pool y)\<lparr>pool_idle := cs\<rparr>" "conn = Some c"
    by (auto simp: pool_take_def)
  with Cons assms(1) show ?thesis by (simp add: pool_ok_def known_def)
qed

lemma pool_lease_ok:
  assumes ok: "pool_ok y" and c: "conn \<in># sys_checking y"
    and check: "check_connection db conn (sys_pool y) = (Inr c, s)"
  shows "pool_ok (y\<lparr>sys_pool := s, sys_checking := sys_checking y - {#conn#},
                    sys_leased := add_mset c (sys_leased y)\<rparr>)" (is "pool_ok ?y")
proof -
  from check_connection_state [OF check] obtain n where n: "n \<ge> pool_next (sys_pool y)"
    "s = (sys_pool y)\<lparr>pool_next := n\<rparr>" "conn = Some c \<or> (pool_next (sys_pool y) \<le> c \<and> c < n)" by auto
  let ?K = "mset (pool_idle (sys_pool y)) + held (sys_checking y - {#conn#}) + sys_leased y"
  have new: "known ?y = add_mset c ?K" by (simp add: known_def n(2))
  have old: "known y = ?K + (case conn of None \<Rightarrow> {#} | Some c \<Rightarrow> {#c#})"
    by (simp add: known_def held_remove [OF c])
  have "count (known ?y) d \<le> 1 \<and> (d \<in># known ?y \<longrightarrow> d < n)" for d
  proof (cases "conn = Some c")
    case True
    then have "known ?y = known y" unfolding new old by simp
    with known_sub [OF ok _ n(1), of "known y"] show ?thesis by simp
  next
    case False
    with n(3) ok have "c \<notin># known y" "c < n" by (auto simp: pool_ok_def)
    moreover have "?K \<subseteq># known y" by (simp add: old)
    ultimately show ?thesis
      using known_sub [OF ok _ n(1), of ?K d] by (auto simp: new old not_in_iff)
  qed
  moreover have "size (sys_checking y) = Suc (size (sys_checking y - {#conn#}))"
    by (rule size_remove [OF c])
  ultimately show ?thesis using ok n(2) by (simp add: pool_ok_def)
qed

lemma pool_fail_ok:
  assumes ok: "pool_ok y" and c: "conn \<in># sys_checking y"
    and check: "check_connection db conn (sys_pool y) = (Inl e, s)"
  shows "pool_ok (y\<lparr>sys_pool := pool_forget s, sys_checking := sys_checking y - {#conn#}\<rparr>)"
    (is "pool_ok ?y")
proof -
  from check_connection_state [OF check] obtain n where n: "n \<ge> pool_next (sys_pool y)"
    "s = (sys_pool y)\<lparr>pool_next := n\<rparr>" by auto
  have "known ?y \<subseteq># known y" by (simp add: known_def n(2) pool_forget_def held_remove [OF c])
  from known_sub [OF ok this n(1)] ok n(2) size_remove [OF c] show ?thesis
    by (auto simp: pool_ok_def pool_forget_def)
qed

lemma pool_return_ok:
  assumes ok: "pool_ok y" and c: "c \<in># sys_leased y"
  shows "pool_ok (y\<lparr>sys_pool := pool_return c (sys_pool y), sys_leased := sys_leased y - {#c#}\<rparr>)"
    (is "pool_ok ?y")
proof -
  obtain L where L: "sys_leased y = add_mset c L" using c by (metis insert_DiffM)
  then have "known ?y \<subseteq># known y" by (simp add: known_def pool_return_def)
  from known_sub [OF ok this order_refl] ok L show ?thesis
    by (auto simp: pool_ok_def pool_return_def)
qed

lemma pool_destroy_ok:
  assumes ok: "pool_ok y"
  shows "pool_ok (y\<lparr>sys_pool := pool_destroy (sys_pool y)\<rparr>)" (is "pool_ok ?y")
proof -
  have "known ?y \<subseteq># known y" by (simp add: known_def pool_destroy_def)
  from known_sub [OF ok this order_refl] ok show ?thesis by (auto simp: pool_ok_def pool_destroy_def)
qed

lemma pool_step_ok: "pool_step y y' \<Longrightarrow> pool_ok y \<Longrightarrow> pool_ok y'"
proof (induction rule: pool_step.induct)
  case (pstep_enter y)
  then show ?case by (simp add: pool_ok_def known_def)
next
  case (pstep_timeout y)
  then show ?case by (simp add: pool_ok_def known_def)
qed (auto intro: pool_init_ok pool_take_ok pool_lease_ok pool_fail_ok pool_return_ok pool_destroy_ok)

lemma pool_reachable_ok: "pool_reachable y \<Longrightarrow> pool_ok y"
proof (induction rule: pool_reachable.induct)
  case preach_init
  show ?case by (simp add: pool_ok_def new_system_def new_pool_def known_def)
qed (rule pool_step_ok)

section \<open>Properties\<close>

text \<open>
  C31. The pool keeps its books. In every interleaving of borrowers, returns, failures and
  shutdown, the allocation counter equals idle plus reserved or checked-out plus leased connections, it never
  exceeds the configured size (so it never wraps below zero either: every decrement is matched by a holder), and
  no connection is known twice: nobody shares a lease, and a leased connection is not idle.
\<close>

theorem pool_accounting:
  assumes "pool_reachable y"
  shows "pool_allocated (sys_pool y) =
      length (pool_idle (sys_pool y)) + size (sys_checking y) + size (sys_leased y) \<and>
    pool_allocated (sys_pool y) \<le> pool_target (sys_pool y) \<and>
    (\<forall>c. count (mset (pool_idle (sys_pool y)) + held (sys_checking y) + sys_leased y) c \<le> 1)"
  using pool_reachable_ok [OF assms] by (simp add: pool_ok_def known_def)

definition pool_of_one :: pool_system where
  "pool_of_one = new_system\<lparr>sys_pool :=
     snd (pool_init ''h'' ''u'' ''p'' ''d'' 1 (\<lambda>i. True) new_pool)\<rparr>"

lemma pool_of_one_reachable: "pool_reachable pool_of_one"
proof -
  have "pool_init ''h'' ''u'' ''p'' ''d'' 1 (\<lambda>i. True) (sys_pool new_system) =
      (fst (pool_init ''h'' ''u'' ''p'' ''d'' 1 (\<lambda>i. True) new_pool),
       snd (pool_init ''h'' ''u'' ''p'' ''d'' 1 (\<lambda>i. True) new_pool))"
    by (simp add: new_system_def)
  from preach_step [OF preach_init pstep_init [OF this]] show ?thesis unfolding pool_of_one_def .
qed

theorem pool_accounting_witness:
  "pool_allocated (sys_pool pool_of_one) = 1 \<and>
   pool_allocated (sys_pool pool_of_one) \<le> pool_target (sys_pool pool_of_one)"
proof -
  have "pool_allocated (sys_pool pool_of_one) = 1" by code_simp
  with pool_accounting [OF pool_of_one_reachable] show ?thesis by blast
qed

text \<open>
  No slot is lost: in every reachable state of a running pool, as long as fewer borrowers than the pool's
  size hold or check a connection, the condition a borrower waits for is true, so it does not have to
  wait; this includes the situation after failed health checks.
\<close>

theorem pool_slot_available:
  assumes "pool_reachable y"
    and "size (sys_checking y) + size (sys_leased y) < pool_target (sys_pool y)"
  shows "pool_ready (sys_pool y)"
proof -
  have "pool_allocated (sys_pool y) =
      length (pool_idle (sys_pool y)) + size (sys_checking y) + size (sys_leased y)"
    using pool_reachable_ok [OF assms(1)] by (simp add: pool_ok_def)
  with assms(2) show ?thesis by (cases "pool_idle (sys_pool y)") (auto simp: pool_ready_def)
qed

theorem pool_slot_available_witness: "pool_ready (sys_pool pool_of_one)"
  by (rule pool_slot_available [OF pool_of_one_reachable])
    (simp add: pool_of_one_def new_system_def pool_init_def new_pool_def createConnection_def)

text \<open>
  A connection that \<^verbatim>\<open>getConnection\<close> hands out has answered a \<^verbatim>\<open>ping\<close> in this very call, directly, after a
  reconnect or as a replacement; when none did, the exception is passed on and the slot is given back.
\<close>

theorem getConnection_checked:
  assumes "pool_ready s" and "pool_available s" and "getConnection (\<lambda>s. s) db s = (r, s')"
  shows "(case r of
      Inr c \<Rightarrow> db_ping db \<or> db_reconnects db \<and> db_ping_again db \<or>
        db_connects_again db \<and> db_ping_replacement db
    | Inl e \<Rightarrow> \<not> db_ping db \<or> pool_idle s = [] \<and> \<not> db_connects db) \<and>
    (isl r \<longrightarrow> pool_idle s' = tl (pool_idle s) \<and>
       pool_allocated s' = (if pool_idle s = [] then pool_allocated s else pool_allocated s - 1))"
  using assms
  by (cases "pool_idle s")
    (auto simp: getConnection_def pool_available_def pool_take_def check_connection_def
      createConnection_def pool_forget_def Let_def split: if_splits)

definition db_down :: db_answers where
  "db_down = \<lparr>db_connects = False, db_ping = False, db_reconnects = False, db_ping_again = False,
     db_connects_again = False, db_ping_replacement = False\<rparr>"

theorem getConnection_checked_witness:
  "isl (fst (getConnection (\<lambda>s. s) db_down (sys_pool pool_of_one))) \<and>
   pool_allocated (snd (getConnection (\<lambda>s. s) db_down (sys_pool pool_of_one))) = 0"
proof -
  obtain r s' where g: "getConnection (\<lambda>s. s) db_down (sys_pool pool_of_one) = (r, s')"
    by (cases "getConnection (\<lambda>s. s) db_down (sys_pool pool_of_one)")
  have p: "pool_ready (sys_pool pool_of_one)" "pool_available (sys_pool pool_of_one)"
    "\<not> db_ping db_down" "\<not> db_reconnects db_down" "\<not> db_connects_again db_down"
    "pool_idle (sys_pool pool_of_one) \<noteq> []" "pool_allocated (sys_pool pool_of_one) = 1"
    by code_simp+
  from getConnection_checked [OF p(1,2) g] p(3-) g show ?thesis by (cases r) auto
qed

end
