(* ===== verification/Db_Connection.thy ===== *)
theory Db_Connection
  imports Cpp_Prelude
begin

text \<open>
  \<^verbatim>\<open>HttpServer/src/utils/db/DbConnection.cpp\<close>: one connection to the database, how it is opened, checked, reopened
  and cleaned up. MySQL Connector/C++ is a parameter: each of its calls gives a result or \<open>None\<close>, an \<^verbatim>\<open>sql::SQLException\<close>,
  and changes the state \<open>'w\<close> of the outside. Queries and updates on a connection are in \<open>Chat_Server\<close>.

  The theorems show that reopening is all or nothing, and that the clean-up, which the
  destructor runs, ends every open transaction.
\<close>

section \<open>The connector\<close>

datatype connect_option = Opt_text string | Opt_int int | Opt_bool bool

text \<open>\<open>cn_connect\<close> may also return a null pointer; handles are numbers.\<close>

record 'w connector =
  cn_connect :: "(string \<times> connect_option) list \<Rightarrow> 'w \<Rightarrow> nat option option \<times> 'w"
  cn_execute :: "nat \<Rightarrow> string \<Rightarrow> 'w \<Rightarrow> unit option \<times> 'w"
  cn_has_row :: "nat \<Rightarrow> string \<Rightarrow> 'w \<Rightarrow> bool option \<times> 'w"
  cn_getAutoCommit :: "nat \<Rightarrow> 'w \<Rightarrow> bool option \<times> 'w"
  cn_rollback :: "nat \<Rightarrow> 'w \<Rightarrow> unit option \<times> 'w"
  cn_setAutoCommit :: "nat \<Rightarrow> bool \<Rightarrow> 'w \<Rightarrow> unit option \<times> 'w"

record db_connection =
  dc_conn :: "nat option"
  dc_host :: string
  dc_user :: string
  dc_password :: string
  dc_database :: string

section \<open>Operations\<close>

definition connect_options :: "db_connection \<Rightarrow> (string \<times> connect_option) list" where
  "connect_options c =
     [(''hostName'', Opt_text (dc_host c)), (''userName'', Opt_text (dc_user c)), (''password'', Opt_text (dc_password c)),
      (''schema'', Opt_text (dc_database c)), (''OPT_CONNECT_TIMEOUT'', Opt_int 10), (''OPT_READ_TIMEOUT'', Opt_int 10),
      (''OPT_WRITE_TIMEOUT'', Opt_int 10), (''OPT_RECONNECT'', Opt_bool False), (''CLIENT_MULTI_STATEMENTS'', Opt_bool False)]"

definition reconnect :: "'w connector \<Rightarrow> db_connection \<Rightarrow> 'w \<Rightarrow> unit result \<times> db_connection \<times> 'w" where
  "reconnect cn c w =
     (let failed = throw (Db_exception ''Database connection failed'')
      in case cn_connect cn (connect_options c) w of
           (None, w1) \<Rightarrow> (failed, c, w1)
         | (Some None, w1) \<Rightarrow> (failed, c, w1)
         | (Some (Some replacement), w1) \<Rightarrow>
             (case cn_execute cn replacement ''SET NAMES utf8mb4'' w1 of
                (None, w2) \<Rightarrow> (failed, c, w2)
              | (Some _, w2) \<Rightarrow> (return (), c\<lparr>dc_conn := Some replacement\<rparr>, w2)))"

definition DbConnection ::
  "'w connector \<Rightarrow> string \<Rightarrow> string \<Rightarrow> string \<Rightarrow> string \<Rightarrow> 'w \<Rightarrow> db_connection result \<times> 'w" where
  "DbConnection cn host user password database w =
     (case reconnect cn \<lparr>dc_conn = None, dc_host = host, dc_user = user, dc_password = password, dc_database = database\<rparr> w of
        (Inl e, _, w1) \<Rightarrow> (Inl e, w1)
      | (Inr _, c, w1) \<Rightarrow> (return c, w1))"

definition ping :: "'w connector \<Rightarrow> db_connection \<Rightarrow> 'w \<Rightarrow> bool \<times> 'w" where
  "ping cn c w =
     (case dc_conn c of
        None \<Rightarrow> (False, w)
      | Some conn \<Rightarrow>
          (case cn_has_row cn conn ''SELECT 1'' w of
             (None, w1) \<Rightarrow> (False, w1)
           | (Some has, w1) \<Rightarrow> (has, w1)))"

definition isValid :: "'w connector \<Rightarrow> db_connection \<Rightarrow> 'w \<Rightarrow> bool \<times> 'w" where
  "isValid cn c w = ping cn c w"

text \<open>\<open>None\<close> as the result is an \<^verbatim>\<open>sql::SQLException\<close> that leaves the function.\<close>

definition db_cleanup :: "'w connector \<Rightarrow> db_connection \<Rightarrow> 'w \<Rightarrow> unit option \<times> 'w" where
  "db_cleanup cn c w =
     (case dc_conn c of
        None \<Rightarrow> (Some (), w)
      | Some conn \<Rightarrow>
          (case cn_getAutoCommit cn conn w of
             (None, w1) \<Rightarrow> (None, w1)
           | (Some True, w1) \<Rightarrow> (Some (), w1)
           | (Some False, w1) \<Rightarrow>
               (case cn_rollback cn conn w1 of
                  (None, w2) \<Rightarrow> (None, w2)
                | (Some _, w2) \<Rightarrow> cn_setAutoCommit cn conn True w2)))"

definition destroy_connection :: "'w connector \<Rightarrow> db_connection \<Rightarrow> 'w \<Rightarrow> 'w" where
  "destroy_connection cn c w = snd (db_cleanup cn c w)"

section \<open>Properties\<close>

text \<open>
  Opening a connection is all or nothing: either the new connection is in place, opened with the stored credentials and with its
  character set, or the old one is, and the exception says nothing about the credentials. The connector's own reconnection
  and multiple statements are always off.
\<close>

theorem reconnect_all_or_nothing:
  assumes "reconnect cn c w = (r, c', w')"
  shows "(r = Inr () \<longrightarrow> (\<exists>n w1. cn_connect cn (connect_options c) w = (Some (Some n), w1) \<and>
       cn_execute cn n ''SET NAMES utf8mb4'' w1 = (Some (), w') \<and> c' = c\<lparr>dc_conn := Some n\<rparr>)) \<and>
    (r \<noteq> Inr () \<longrightarrow> c' = c \<and> r = Inl (Db_exception ''Database connection failed'')) \<and>
    map_of (connect_options c) ''OPT_RECONNECT'' = Some (Opt_bool False) \<and>
    map_of (connect_options c) ''CLIENT_MULTI_STATEMENTS'' = Some (Opt_bool False)"
  using assms by (auto simp: reconnect_def Let_def connect_options_def split: prod.splits option.splits)

text \<open>A connector whose state is the open transaction, if any: what it takes for a clean-up to end every transaction.\<close>

definition transactional :: "'w connector \<Rightarrow> (nat \<Rightarrow> 'w \<Rightarrow> bool) \<Rightarrow> bool" where
  "transactional cn in_transaction \<longleftrightarrow>
     (\<forall>n w b w'. cn_getAutoCommit cn n w = (Some b, w') \<longrightarrow> in_transaction n w' = in_transaction n w \<and> (b \<longrightarrow> \<not> in_transaction n w)) \<and>
     (\<forall>n w w'. cn_rollback cn n w = (Some (), w') \<longrightarrow> \<not> in_transaction n w') \<and>
     (\<forall>n w w'. cn_setAutoCommit cn n True w = (Some (), w') \<longrightarrow> \<not> in_transaction n w \<longrightarrow> \<not> in_transaction n w')"

theorem cleanup_ends_transactions:
  assumes "transactional cn in_transaction" and "db_cleanup cn c w = (Some (), w')" and "dc_conn c = Some n"
  shows "\<not> in_transaction n w'"
  using assms unfolding transactional_def db_cleanup_def
  by (auto split: prod.splits option.splits bool.splits)

end
