(* ===== verification/Db_Access.thy ===== *)
theory Db_Access
  imports Db_Pool Db_Connection
begin

text \<open>
  \<^verbatim>\<open>HttpServer/src/utils/db/DbConnectionPool.cpp\<close> on the connections of \<^verbatim>\<open>HttpServer/src/utils/db/DbConnection.cpp\<close>: the pool of \<open>Db_Pool\<close>, where
  the database's answers are arguments, put together with the objects of \<open>Db_Connection\<close>, which ask it.
  The locale \<open>connection_provider\<close> is what the pool needs of its connections; it is interpreted on \<^verbatim>\<open>DbConnection\<close>.
  The theorems say that the composition refines the pool of \<open>Db_Pool\<close>, that exactly the connections
  the pool knows exist, and that a leased connection has just answered.
\<close>

section \<open>What the pool calls\<close>

text \<open>
  Creating a connection with the pool's credentials, \<^verbatim>\<open>ping\<close>, \<^verbatim>\<open>reconnect\<close>, and dropping the last pointer to a connection, on
  a state \<open>'h\<close> that holds the connections.
\<close>

record 'h connection_ops =
  co_create :: "pool_state \<Rightarrow> 'h \<Rightarrow> nat result \<times> pool_state \<times> 'h"
  co_ping :: "nat \<Rightarrow> 'h \<Rightarrow> bool \<times> 'h"
  co_reconnect :: "nat \<Rightarrow> 'h \<Rightarrow> unit result \<times> 'h"
  co_drop :: "nat \<Rightarrow> 'h \<Rightarrow> 'h"

text \<open>The two checks of a connection that is there: \<^verbatim>\<open>ping\<close>, and once more after \<^verbatim>\<open>reconnect\<close>.\<close>

definition usable :: "'h connection_ops \<Rightarrow> nat \<Rightarrow> 'h \<Rightarrow> bool \<times> 'h" where
  "usable co c h =
     (case co_ping co c h of
        (True, h1) \<Rightarrow> (True, h1)
      | (False, h1) \<Rightarrow>
          (case co_reconnect co c h1 of
             (Inl e, h2) \<Rightarrow> (False, h2)
           | (Inr _, h2) \<Rightarrow> co_ping co c h2))"

text \<open>
  The part of \<^verbatim>\<open>getConnection\<close> outside the lock. A replacement drops the connection it replaces; an exception drops the
  connection at hand.
\<close>

definition replace_connection ::
  "'h connection_ops \<Rightarrow> nat \<Rightarrow> pool_state \<Rightarrow> 'h \<Rightarrow> nat result \<times> pool_state \<times> 'h" where
  "replace_connection co c s h =
     (case co_create co s h of
        (Inl e, s1, h1) \<Rightarrow> (Inl e, s1, co_drop co c h1)
      | (Inr c1, s1, h1) \<Rightarrow>
          (case co_ping co c1 (co_drop co c h1) of
             (True, h2) \<Rightarrow> (return c1, s1, h2)
           | (False, h2) \<Rightarrow> (throw (Db_exception ''Replacement connection is unavailable''), s1, co_drop co c1 h2)))"

definition checkout ::
  "'h connection_ops \<Rightarrow> nat option \<Rightarrow> pool_state \<Rightarrow> 'h \<Rightarrow> nat result \<times> pool_state \<times> 'h" where
  "checkout co conn s h =
     (case (case conn of Some c \<Rightarrow> (return c, s, h) | None \<Rightarrow> co_create co s h) of
        (Inl e, s1, h1) \<Rightarrow> (Inl e, s1, h1)
      | (Inr c, s1, h1) \<Rightarrow>
          (case usable co c h1 of
             (True, h2) \<Rightarrow> (return c, s1, h2)
           | (False, h2) \<Rightarrow> replace_connection co c s1 h2))"

text \<open>\<^verbatim>\<open>init\<close>: a connection that cannot be created takes those before it with it.\<close>

fun create_objects ::
  "'h connection_ops \<Rightarrow> nat \<Rightarrow> nat list \<Rightarrow> pool_state \<Rightarrow> 'h \<Rightarrow> nat list result \<times> pool_state \<times> 'h" where
  "create_objects co 0 ready s h = (return ready, s, h)"
| "create_objects co (Suc n) ready s h =
     (case co_create co s h of
        (Inl e, s1, h1) \<Rightarrow> (Inl e, s1, fold (co_drop co) ready h1)
      | (Inr c, s1, h1) \<Rightarrow> create_objects co n (ready @ [c]) s1 h1)"

definition init_objects ::
  "'h connection_ops \<Rightarrow> string \<Rightarrow> string \<Rightarrow> string \<Rightarrow> string \<Rightarrow> nat \<Rightarrow> pool_state \<Rightarrow> 'h \<Rightarrow> unit result \<times> pool_state \<times> 'h" where
  "init_objects co host user password database poolSize s h =
     (if pool_initialized s then (return (), s, h)
      else if pool_stopping s \<or> poolSize = 0
      then (throw (Db_exception ''Invalid connection pool initialization''), s, h)
      else let s1 = s\<lparr>pool_host := host, pool_user := user, pool_password := password, pool_database := database\<rparr>
           in case create_objects co poolSize [] s1 h of
                (Inl e, s2, h2) \<Rightarrow> (Inl e, s2, h2)
              | (Inr ready, s2, h2) \<Rightarrow>
                  (return (), s2\<lparr>pool_idle := ready, pool_target := poolSize, pool_allocated := poolSize,
                                 pool_initialized := True\<rparr>, h2))"

text \<open>The deleter of a lease drops the connection when the pool is stopping; the destructor drops the idle ones.\<close>

definition return_object :: "'h connection_ops \<Rightarrow> nat \<Rightarrow> pool_state \<Rightarrow> 'h \<Rightarrow> pool_state \<times> 'h" where
  "return_object co c s h = (pool_return c s, if pool_stopping s then co_drop co c h else h)"

definition destroy_pool :: "'h connection_ops \<Rightarrow> pool_state \<Rightarrow> 'h \<Rightarrow> pool_state \<times> 'h" where
  "destroy_pool co s h = (pool_destroy s, fold (co_drop co) (pool_idle s) h)"

section \<open>The pool at work\<close>

record 'h db_system =
  ds_system :: pool_system
  ds_objects :: 'h

abbreviation ds_pool :: "'h db_system \<Rightarrow> pool_state" where
  "ds_pool y \<equiv> sys_pool (ds_system y)"

definition update_pool :: "pool_state \<Rightarrow> 'h \<Rightarrow> (pool_system \<Rightarrow> pool_system) \<Rightarrow> 'h db_system \<Rightarrow> 'h db_system" where
  "update_pool s h g y = \<lparr>ds_system = g ((ds_system y)\<lparr>sys_pool := s\<rparr>), ds_objects = h\<rparr>"

text \<open>\<open>outside\<close> is what the connections' state does on its own.\<close>

inductive db_step :: "'h connection_ops \<Rightarrow> ('h \<Rightarrow> 'h \<Rightarrow> bool) \<Rightarrow> 'h db_system \<Rightarrow> 'h db_system \<Rightarrow> bool"
  for co outside where
  dstep_init: "init_objects co h u p d n (ds_pool y) (ds_objects y) = (r, s, o') \<Longrightarrow>
    db_step co outside y (update_pool s o' id y)"
| dstep_enter: "pool_available (ds_pool y) \<Longrightarrow>
    db_step co outside y (y\<lparr>ds_system := (ds_system y)\<lparr>sys_waiting := sys_waiting (ds_system y) + 1\<rparr>\<rparr>)"
| dstep_timeout: "sys_waiting (ds_system y) > 0 \<Longrightarrow> \<not> pool_ready (ds_pool y) \<or> pool_stopping (ds_pool y) \<Longrightarrow>
    db_step co outside y (y\<lparr>ds_system := (ds_system y)\<lparr>sys_waiting := sys_waiting (ds_system y) - 1\<rparr>\<rparr>)"
| dstep_take: "sys_waiting (ds_system y) > 0 \<Longrightarrow> pool_ready (ds_pool y) \<Longrightarrow> \<not> pool_stopping (ds_pool y) \<Longrightarrow>
    pool_take (ds_pool y) = (conn, s) \<Longrightarrow>
    db_step co outside y (update_pool s (ds_objects y)
      (\<lambda>z. z\<lparr>sys_waiting := sys_waiting z - 1, sys_checking := add_mset conn (sys_checking z)\<rparr>) y)"
| dstep_lease: "conn \<in># sys_checking (ds_system y) \<Longrightarrow>
    checkout co conn (ds_pool y) (ds_objects y) = (Inr c, s, o') \<Longrightarrow>
    db_step co outside y (update_pool s o'
      (\<lambda>z. z\<lparr>sys_checking := sys_checking z - {#conn#}, sys_leased := add_mset c (sys_leased z)\<rparr>) y)"
| dstep_fail: "conn \<in># sys_checking (ds_system y) \<Longrightarrow>
    checkout co conn (ds_pool y) (ds_objects y) = (Inl e, s, o') \<Longrightarrow>
    db_step co outside y (update_pool (pool_forget s) o' (\<lambda>z. z\<lparr>sys_checking := sys_checking z - {#conn#}\<rparr>) y)"
| dstep_return: "c \<in># sys_leased (ds_system y) \<Longrightarrow> return_object co c (ds_pool y) (ds_objects y) = (s, o') \<Longrightarrow>
    db_step co outside y (update_pool s o' (\<lambda>z. z\<lparr>sys_leased := sys_leased z - {#c#}\<rparr>) y)"
| dstep_destroy: "destroy_pool co (ds_pool y) (ds_objects y) = (s, o') \<Longrightarrow> db_step co outside y (update_pool s o' id y)"
| dstep_outside: "outside (ds_objects y) o' \<Longrightarrow> db_step co outside y (y\<lparr>ds_objects := o'\<rparr>)"

inductive db_reachable :: "'h connection_ops \<Rightarrow> ('h \<Rightarrow> 'h \<Rightarrow> bool) \<Rightarrow> 'h \<Rightarrow> 'h db_system \<Rightarrow> bool"
  for co outside h0 where
  dreach_init: "db_reachable co outside h0 \<lparr>ds_system = new_system, ds_objects = h0\<rparr>"
| dreach_step: "db_reachable co outside h0 y \<Longrightarrow> db_step co outside y y' \<Longrightarrow> db_reachable co outside h0 y'"

section \<open>The contract of the connections\<close>

text \<open>
  \<open>live\<close> are the connections that exist; \<open>fine\<close> says that each of them is open, with the given credentials.
\<close>

definition credentials :: "pool_state \<Rightarrow> string \<times> string \<times> string \<times> string" where
  "credentials s = (pool_host s, pool_user s, pool_password s, pool_database s)"

text \<open>The replacement in \<open>check_connection\<close>, with the database's two answers.\<close>

definition replaced :: "bool \<Rightarrow> bool \<Rightarrow> pool_state \<Rightarrow> nat result \<times> pool_state" where
  "replaced connects answers s =
     (case createConnection connects s of
        (Inl e, s1) \<Rightarrow> (Inl e, s1)
      | (Inr c, s1) \<Rightarrow>
          (if answers then return c else throw (Db_exception ''Replacement connection is unavailable''), s1))"

definition first_connection :: "bool \<Rightarrow> nat option \<Rightarrow> pool_state \<Rightarrow> nat result \<times> pool_state" where
  "first_connection connects conn s = (case conn of Some c \<Rightarrow> (return c, s) | None \<Rightarrow> createConnection connects s)"

lemma check_connection_answers:
  "\<exists>db. check_connection db conn s =
     (case first_connection b conn s of
        (Inl e, s1) \<Rightarrow> (Inl e, s1)
      | (Inr c, s1) \<Rightarrow> if q then (return c, s1) else replaced b2 p s1)"
  unfolding check_connection_def first_connection_def replaced_def
  by (rule exI [of _ "\<lparr>db_connects = b, db_ping = q, db_reconnects = False, db_ping_again = False,
        db_connects_again = b2, db_ping_replacement = p\<rparr>"])
    (cases conn; cases b; cases b2; simp add: createConnection_def)

text \<open>The connections somebody knows, without the one a borrower gives up.\<close>

lemma known_minus:
  assumes "pool_ok y" and "known y = add_mset c K"
  shows "set_mset K = set_mset (known y) - {c}"
proof -
  have "count K c = 0" using assms by (auto simp: pool_ok_def dest!: spec [of _ c])
  with assms(2) show ?thesis by (auto simp: not_in_iff)
qed

lemma known_uninitialized:
  assumes "pool_ok y" and "\<not> pool_initialized (sys_pool y)"
  shows "known y = {#}"
proof -
  from assms have "pool_idle (sys_pool y) = []" "sys_checking y = {#}" "sys_leased y = {#}" by (auto simp: pool_ok_def)
  then show ?thesis by (simp add: known_def)
qed

lemma known_idle:
  assumes "pool_ok y"
  shows "set (pool_idle (sys_pool y)) \<inter> set_mset (held (sys_checking y) + sys_leased y) = {}"
proof -
  let ?R = "held (sys_checking y) + sys_leased y"
  have "c \<notin># ?R" if "c \<in> set (pool_idle (sys_pool y))" for c
  proof -
    have "count (known y) c \<le> 1" using assms by (simp add: pool_ok_def)
    moreover have "count (known y) c = count (mset (pool_idle (sys_pool y))) c + count ?R c" by (simp add: known_def)
    moreover have "count (mset (pool_idle (sys_pool y))) c > 0" using that by simp
    ultimately have "count ?R c = 0" by linarith
    then show ?thesis by (simp only: not_in_iff)
  qed
  then show ?thesis by blast
qed

lemma known_without_checked:
  assumes "pool_ok y" and "conn \<in># sys_checking y"
  shows "set_mset (mset (pool_idle (sys_pool y)) + held (sys_checking y - {#conn#}) + sys_leased y) =
      set_mset (known y) - set_option conn"
    and "set_option conn \<subseteq> set_mset (known y)"
proof -
  let ?K = "mset (pool_idle (sys_pool y)) + held (sys_checking y - {#conn#}) + sys_leased y"
  have k: "known y = ?K + (case conn of None \<Rightarrow> {#} | Some c \<Rightarrow> {#c#})"
    by (simp add: known_def held_remove [OF assms(2)])
  show "set_mset ?K = set_mset (known y) - set_option conn"
  proof (cases conn)
    case None
    with k show ?thesis by simp
  next
    case (Some c)
    with k have "known y = add_mset c ?K" by simp
    from known_minus [OF assms(1) this] Some show ?thesis by simp
  qed
  from k show "set_option conn \<subseteq> set_mset (known y)" by (cases conn) auto
qed

locale connection_provider =
  fixes co :: "'h connection_ops" and outside :: "'h \<Rightarrow> 'h \<Rightarrow> bool"
    and live :: "'h \<Rightarrow> nat set" and fine :: "string \<times> string \<times> string \<times> string \<Rightarrow> 'h \<Rightarrow> bool"
  assumes create_done: "co_create co s h = (Inr c, s', h') \<Longrightarrow> c = pool_next s \<and>
      s' = s\<lparr>pool_next := Suc (pool_next s)\<rparr> \<and> live h' = insert c (live h)"
    and create_failed: "co_create co s h = (Inl e, s', h') \<Longrightarrow>
      e = Db_exception ''Database connection failed'' \<and> s' = s \<and> live h' = live h"
    and create_fine: "co_create co s h = (r, s', h') \<Longrightarrow> fine (credentials s) h \<Longrightarrow> fine (credentials s) h'"
    and ping_law: "co_ping co c h = (b, h') \<Longrightarrow> live h' = live h \<and> (fine k h \<longrightarrow> fine k h')"
    and reconnect_law: "co_reconnect co c h = (u, h') \<Longrightarrow> live h' = live h \<and> (fine k h \<longrightarrow> fine k h')"
    and drop_live: "live (co_drop co c h) = live h - {c}"
    and drop_fine: "fine k h \<Longrightarrow> fine k (co_drop co c h)"
    and outside_law: "outside h h' \<Longrightarrow> live h' = live h \<and> (fine k h \<longrightarrow> fine k h')"
    and fine_none: "live h = {} \<Longrightarrow> fine k h"
begin

lemma create_refines: "co_create co s h = (r, s', h') \<Longrightarrow> \<exists>b. createConnection b s = (r, s')"
  by (cases r) (auto simp: createConnection_def dest!: create_done create_failed)

lemma usable_law: "usable co c h = (b, h') \<Longrightarrow> live h' = live h \<and> (fine k h \<longrightarrow> fine k h')"
proof -
  assume u: "usable co c h = (b, h')"
  obtain b1 h1 where p: "co_ping co c h = (b1, h1)" by fastforce
  obtain r h2 where q: "co_reconnect co c h1 = (r, h2)" by fastforce
  obtain b3 h3 where p3: "co_ping co c h2 = (b3, h3)" by fastforce
  from u p q p3 ping_law [OF p, of k] reconnect_law [OF q, of k] ping_law [OF p3, of k] show ?thesis
    by (auto simp: usable_def split: bool.splits sum.splits)
qed

lemma usable_answers: "usable co c h = (True, h') \<Longrightarrow> \<exists>h0. co_ping co c h0 = (True, h')"
  by (auto simp: usable_def split: prod.splits bool.splits sum.splits)

lemma replace_law:
  assumes "replace_connection co c s h = (r, s', h')" and "c \<in> live h" and "pool_next s \<notin> live h"
  shows "(\<exists>b p. replaced b p s = (r, s')) \<and>
    live h' = live h - {c} \<union> (case r of Inr c' \<Rightarrow> {c'} | Inl e \<Rightarrow> {}) \<and>
    (fine (credentials s) h \<longrightarrow> fine (credentials s) h') \<and> (\<forall>c'. r = Inr c' \<longrightarrow> (\<exists>h0. co_ping co c' h0 = (True, h')))"
proof -
  obtain r1 s1 h1 where o: "co_create co s h = (r1, s1, h1)" by (metis prod_cases3)
  show ?thesis
  proof (cases r1)
    case (Inl e)
    with assms(1) o have "r = Inl e" "s' = s1" "h' = co_drop co c h1" by (auto simp: replace_connection_def)
    moreover have "replaced False False s = (Inl e, s1)"
      using create_failed [OF o [unfolded Inl]] by (simp add: replaced_def createConnection_def)
    ultimately show ?thesis
      using create_failed [OF o [unfolded Inl]] create_fine [OF o] drop_fine by (auto simp: drop_live)
  next
    case (Inr c1)
    obtain b h2 where p: "co_ping co c1 (co_drop co c h1) = (b, h2)" by fastforce
    note c1 = create_done [OF o [unfolded Inr]]
    have f: "fine (credentials s) h2" if "fine (credentials s) h"
      using create_fine [OF o that] drop_fine ping_law [OF p] by blast
    have l: "live h2 = insert c1 (live h - {c})" using c1 assms(2,3) ping_law [OF p] by (auto simp: drop_live)
    have n: "replaced True b s = (r, s')"
      using assms(1) o Inr p c1 by (cases b) (auto simp: replace_connection_def replaced_def createConnection_def)
    show ?thesis
    proof (cases b)
      case True
      with assms(1) o Inr p have "r = Inr c1" "h' = h2" by (auto simp: replace_connection_def)
      with n f l p True show ?thesis by auto
    next
      case False
      with assms(1) o Inr p have "isl r" "h' = co_drop co c1 h2" by (auto simp: replace_connection_def)
      with n f l c1 assms(3) drop_fine show ?thesis by (cases r) (auto simp: drop_live)
    qed
  qed
qed

text \<open>A check-out answers as the pool's own one for some answers of the database, and exchanges at most the connection it was given.\<close>

lemma checkout_law:
  assumes "checkout co conn s h = (r, s', h')" and "set_option conn \<subseteq> live h" and "\<forall>c\<in>live h. c < pool_next s"
  shows "(\<exists>db. check_connection db conn s = (r, s')) \<and>
    live h' = live h - set_option conn \<union> (case r of Inr c' \<Rightarrow> {c'} | Inl e \<Rightarrow> {}) \<and>
    (fine (credentials s) h \<longrightarrow> fine (credentials s) h') \<and> (\<forall>c'. r = Inr c' \<longrightarrow> (\<exists>h0. co_ping co c' h0 = (True, h')))"
proof -
  obtain r1 s1 h1 where first: "(case conn of Some c \<Rightarrow> (return c, s, h) | None \<Rightarrow> co_create co s h) = (r1, s1, h1)"
    by (metis prod_cases3)
  obtain b where b: "first_connection b conn s = (r1, s1)"
  proof (cases conn)
    case None
    with first create_refines [of s h r1 s1 h1] that show ?thesis by (auto simp: first_connection_def)
  qed (use first that in \<open>auto simp: first_connection_def\<close>)
  have f1: "fine (credentials s) h \<longrightarrow> fine (credentials s) h1"
    using first create_fine by (cases conn) auto
  show ?thesis
  proof (cases r1)
    case (Inl e)
    then have n: "conn = None" and o: "co_create co s h = (Inl e, s1, h1)" using first by (auto split: option.splits)
    from assms(1) first Inl have "r = Inl e" "s' = s1" "h' = h1" by (auto simp: checkout_def)
    moreover have "\<exists>db. check_connection db conn s = (Inl e, s1)"
      using check_connection_answers [where conn = conn and s = s and b = b and q = True] b Inl by simp
    ultimately show ?thesis using n f1 create_failed [OF o] by auto
  next
    case (Inr c)
    have new: "Suc (pool_next s) \<notin> live h" "pool_next s \<notin> live h" using assms(3) by fastforce+
    have c: "live h1 = live h - set_option conn \<union> {c}" "pool_next s1 \<notin> live h1" "credentials s1 = credentials s"
      "c \<notin> live h - set_option conn"
      using first assms(2) new by (auto simp: Inr credentials_def dest!: create_done split: option.splits)
    obtain ok h2 where u: "usable co c h1 = (ok, h2)" by fastforce
    note u' = usable_law [OF u, of "credentials s"]
    show ?thesis
    proof (cases ok)
      case True
      with assms(1) first Inr u have "r = Inr c" "s' = s1" "h' = h2" by (auto simp: checkout_def)
      moreover have "\<exists>db. check_connection db conn s = (Inr c, s1)"
        using check_connection_answers [where conn = conn and s = s and b = b and q = True] b Inr by simp
      ultimately show ?thesis using c f1 u' usable_answers u True by auto
    next
      case False
      with assms(1) first Inr u have rep: "replace_connection co c s1 h2 = (r, s', h')" by (auto simp: checkout_def)
      have "c \<in> live h2" "pool_next s1 \<notin> live h2" using c u' by auto
      note rl = replace_law [OF rep this, unfolded c(3)]
      then obtain b2 p where "replaced b2 p s1 = (r, s')" by blast
      with check_connection_answers [where conn = conn and s = s and b = b and q = False and ?b2.0 = b2 and p = p] b Inr
      have "\<exists>db. check_connection db conn s = (r, s')" by simp
      moreover have "live h2 - {c} = live h - set_option conn"
        using c(1,4) u' by auto
      ultimately show ?thesis using rl f1 u' by auto
    qed
  qed
qed

text \<open>Starting.\<close>

lemma drop_all:
  "live (fold (co_drop co) cs h) = live h - set cs" "fine k h \<Longrightarrow> fine k (fold (co_drop co) cs h)"
  by (induction cs arbitrary: h) (auto simp: drop_live drop_fine)

lemma create_objects_law:
  "create_objects co n ready s h = (r, s', h') \<Longrightarrow> live h = set ready \<Longrightarrow> \<forall>c\<in>set ready. c < pool_next s \<Longrightarrow> fine (credentials s) h \<Longrightarrow>
     (\<exists>bs. length bs = n \<and> create_loop bs ready s = (r, s')) \<and> credentials s' = credentials s \<and> fine (credentials s) h' \<and>
     live h' = (case r of Inr cs \<Rightarrow> set cs | Inl e \<Rightarrow> {})"
proof (induction n arbitrary: ready s h)
  case 0
  then show ?case by auto
next
  case (Suc n)
  obtain r1 s1 h1 where o: "co_create co s h = (r1, s1, h1)" by (metis prod_cases3)
  show ?case
  proof (cases r1)
    case (Inl e)
    from Suc.prems(1) o Inl have r: "r = Inl e" "s' = s1" "h' = fold (co_drop co) ready h1" by auto
    note failed = create_failed [OF o [unfolded Inl]]
    then have "length (False # replicate n True) = Suc n \<and> create_loop (False # replicate n True) ready s = (r, s')"
      by (simp add: r createConnection_def)
    then have "\<exists>bs. length bs = Suc n \<and> create_loop bs ready s = (r, s')" by blast
    with failed drop_all create_fine [OF o] Suc.prems(2,4) show ?thesis by (auto simp: r)
  next
    case (Inr c)
    note c = create_done [OF o [unfolded Inr]]
    with Suc.prems o Inr have "create_objects co n (ready @ [c]) s1 h1 = (r, s', h')" "live h1 = set (ready @ [c])"
      "\<forall>d\<in>set (ready @ [c]). d < pool_next s1" "fine (credentials s1) h1" "credentials s1 = credentials s"
      using create_fine [OF o] by (auto simp: credentials_def)
    from Suc.IH [OF this(1-4)] this(5) obtain bs where
      "length bs = n" "create_loop bs (ready @ [c]) s1 = (r, s')" and rest: "credentials s' = credentials s" "fine (credentials s) h'"
        "live h' = (case r of Inr cs \<Rightarrow> set cs | Inl e \<Rightarrow> {})" by metis
    then have "length (True # bs) = Suc n \<and> create_loop (True # bs) ready s = (r, s')" using c by (simp add: createConnection_def)
    with rest show ?thesis by blast
  qed
qed

lemma init_objects_law:
  assumes "init_objects co host user password database n s h = (r, s', h')"
    and "\<not> pool_initialized s \<longrightarrow> live h = {}" and "fine (credentials s) h" and "live h = set (pool_idle s) \<union> K"
  shows "(\<exists>connects. pool_init host user password database n connects s = (r, s')) \<and> fine (credentials s') h' \<and>
    live h' = set (pool_idle s') \<union> K"
proof (cases "pool_initialized s \<or> pool_stopping s \<or> n = 0")
  case True
  with assms show ?thesis by (auto simp: init_objects_def pool_init_def split: if_splits)
next
  case False
  let ?s = "s\<lparr>pool_host := host, pool_user := user, pool_password := password, pool_database := database\<rparr>"
  obtain r1 s1 h1 where o: "create_objects co n [] ?s h = (r1, s1, h1)" by (metis prod_cases3)
  from False assms have none: "live h = set []" "K = {}" "pool_idle s = []" by auto
  from create_objects_law [OF o none(1) _ fine_none] none obtain bs where bs: "length bs = n" "create_loop bs [] ?s = (r1, s1)"
    and l: "fine (credentials ?s) h1" "credentials s1 = credentials ?s" "live h1 = (case r1 of Inr cs \<Rightarrow> set cs | Inl e \<Rightarrow> {})" by auto
  have m: "map ((!) bs) [0..<n] = bs" using bs(1) map_nth by blast
  have i: "pool_init host user password database n ((!) bs) s = (r, s')"
    using False assms(1) o bs(2) by (cases r1) (auto simp: init_objects_def pool_init_def Let_def m)
  have "h' = h1" "credentials s' = credentials s1" using False assms(1) o
    by (auto simp: init_objects_def Let_def credentials_def split: sum.splits)
  moreover have "live h1 = set (pool_idle s')"
  proof (cases r1)
    case (Inl e)
    with create_loop_Inl [of bs "[]" ?s e s1] bs(2) have "pool_idle s1 = []" using none(3) by auto
    with Inl False assms(1) o l(3) show ?thesis by (auto simp: init_objects_def Let_def)
  next
    case (Inr cs)
    with False assms(1) o have "s1\<lparr>pool_idle := cs, pool_target := n, pool_allocated := n, pool_initialized := True\<rparr> = s'"
      by (simp add: init_objects_def)
    then have "pool_idle s' = cs" by (metis pool_state.select_convs(5) pool_state.surjective pool_state.update_convs(5-8))
    with l(3) Inr show ?thesis by simp
  qed
  ultimately have "fine (credentials s') h'" "live h' = set (pool_idle s') \<union> K" using l none(2) by simp_all
  with i show ?thesis by blast
qed

text \<open>The steps.\<close>

lemma check_step_law:
  assumes ok: "pool_ok (ds_system y)" and live: "live (ds_objects y) = set_mset (known (ds_system y))"
    and f: "fine (credentials (ds_pool y)) (ds_objects y)" and c: "conn \<in># sys_checking (ds_system y)"
    and r: "checkout co conn (ds_pool y) (ds_objects y) = (r, s, h)"
  shows "\<exists>db. check_connection db conn (ds_pool y) = (r, s)"
    and "live h = set_mset (mset (pool_idle s) + held (sys_checking (ds_system y) - {#conn#}) + sys_leased (ds_system y)) \<union>
      (case r of Inr c' \<Rightarrow> {c'} | Inl e \<Rightarrow> {})"
    and "fine (credentials s) h"
proof -
  note kn = known_without_checked [OF ok c]
  have sub: "set_option conn \<subseteq> live (ds_objects y)" using kn(2) live by simp
  have lt: "\<forall>c\<in>live (ds_objects y). c < pool_next (ds_pool y)" using ok live by (auto simp: pool_ok_def)
  note law = checkout_law [OF r sub lt]
  then show ex: "\<exists>db. check_connection db conn (ds_pool y) = (r, s)" by blast
  then obtain n where s: "s = (ds_pool y)\<lparr>pool_next := n\<rparr>" using check_connection_state by blast
  then have "pool_idle s = pool_idle (ds_pool y)" "credentials s = credentials (ds_pool y)" by (simp_all add: credentials_def)
  with law kn(1) live f show "live h = set_mset (mset (pool_idle s) + held (sys_checking (ds_system y) - {#conn#}) + sys_leased (ds_system y)) \<union>
      (case r of Inr c' \<Rightarrow> {c'} | Inl e \<Rightarrow> {})"
    and "fine (credentials s) h" by simp_all
qed

lemma db_step_law:
  assumes "db_step co outside y y'" and ok: "pool_ok (ds_system y)"
    and live: "live (ds_objects y) = set_mset (known (ds_system y))" and f: "fine (credentials (ds_pool y)) (ds_objects y)"
  shows "(pool_step (ds_system y) (ds_system y') \<or> ds_system y' = ds_system y) \<and>
    live (ds_objects y') = set_mset (known (ds_system y')) \<and> fine (credentials (ds_pool y')) (ds_objects y')"
  using assms(1)
proof cases
  case (dstep_init h u p d n r s o')
  let ?K = "set_mset (held (sys_checking (ds_system y)) + sys_leased (ds_system y))"
  have "\<not> pool_initialized (ds_pool y) \<longrightarrow> live (ds_objects y) = {}"
    using known_uninitialized [OF ok] live by simp
  moreover have "live (ds_objects y) = set (pool_idle (ds_pool y)) \<union> ?K" by (auto simp: live known_def)
  ultimately have law: "\<exists>connects. pool_init h u p d n connects (ds_pool y) = (r, s)" "fine (credentials s) o'"
    "live o' = set (pool_idle s) \<union> ?K"
    using init_objects_law [OF dstep_init(2) _ f] by blast+
  then obtain connects where "pool_init h u p d n connects (ds_pool y) = (r, s)" by blast
  from pstep_init [OF this] law show ?thesis by (auto simp: dstep_init(1) update_pool_def known_def)
next
  case dstep_enter
  with pstep_enter [of "ds_system y"] live f show ?thesis by (simp add: known_def)
next
  case dstep_timeout
  with pstep_timeout [of "ds_system y"] live f show ?thesis by (simp add: known_def)
next
  case (dstep_take conn s)
  have "known (ds_system y') = known (ds_system y)" "credentials s = credentials (ds_pool y)"
    using dstep_take(5) by (auto simp: dstep_take(1) update_pool_def known_def pool_take_def credentials_def split: list.splits)
  with pstep_take [OF dstep_take(2-5)] live f show ?thesis by (simp add: dstep_take(1) update_pool_def)
next
  case (dstep_lease conn c s o')
  note law = check_step_law [OF ok live f dstep_lease(2,3)]
  from law(1) obtain db where "check_connection db conn (ds_pool y) = (Inr c, s)" by blast
  from pstep_lease [OF dstep_lease(2) this] law(2,3) show ?thesis by (simp add: dstep_lease(1) update_pool_def known_def)
next
  case (dstep_fail conn e s o')
  note law = check_step_law [OF ok live f dstep_fail(2,3)]
  from law(1) obtain db where "check_connection db conn (ds_pool y) = (Inl e, s)" by blast
  from pstep_fail [OF dstep_fail(2) this] law(2,3) show ?thesis
    by (simp add: dstep_fail(1) update_pool_def known_def pool_forget_def credentials_def)
next
  case (dstep_return c s o')
  let ?y = "(ds_system y)\<lparr>sys_leased := sys_leased (ds_system y) - {#c#}\<rparr>"
  have k: "known (ds_system y) = add_mset c (known ?y)" using dstep_return(2) by (simp add: known_def)
  have s: "s = pool_return c (ds_pool y)" "o' = (if pool_stopping (ds_pool y) then co_drop co c (ds_objects y) else ds_objects y)"
    using dstep_return(3) by (auto simp: return_object_def)
  from pstep_return [OF dstep_return(2)] live f known_minus [OF ok k] drop_fine k show ?thesis
    by (auto simp: dstep_return(1) update_pool_def known_def s pool_return_def credentials_def drop_live)
next
  case (dstep_destroy s o')
  have s: "s = pool_destroy (ds_pool y)" "o' = fold (co_drop co) (pool_idle (ds_pool y)) (ds_objects y)"
    using dstep_destroy(2) by (auto simp: destroy_pool_def)
  from pstep_destroy [of "ds_system y"] live f drop_all known_idle [OF ok] show ?thesis
    by (auto simp: dstep_destroy(1) update_pool_def known_def s pool_destroy_def credentials_def)
next
  case (dstep_outside o')
  with outside_law live f show ?thesis by simp
qed

lemma db_reachable_law:
  assumes "db_reachable co outside h0 y" and "live h0 = {}"
  shows "pool_reachable (ds_system y) \<and> live (ds_objects y) = set_mset (known (ds_system y)) \<and>
    fine (credentials (ds_pool y)) (ds_objects y)"
  using assms(1)
proof (induction rule: db_reachable.induct)
  case dreach_init
  then show ?case using assms(2) fine_none by (simp add: preach_init) (simp add: new_system_def new_pool_def known_def)
next
  case (dreach_step y y')
  then show ?case using db_step_law [OF dreach_step(2)] pool_reachable_ok preach_step by metis
qed

end

section \<open>The pool on DbConnection\<close>

text \<open>The connection objects and the state of the outside. Dropping the last pointer runs the destructor.\<close>

record 'w conn_heap =
  dh_objects :: "nat \<rightharpoonup> db_connection"
  dh_world :: 'w

definition create_object ::
  "'w connector \<Rightarrow> pool_state \<Rightarrow> 'w conn_heap \<Rightarrow> nat result \<times> pool_state \<times> 'w conn_heap" where
  "create_object cn s h =
     (case DbConnection cn (pool_host s) (pool_user s) (pool_password s) (pool_database s) (dh_world h) of
        (Inl e, w) \<Rightarrow> (Inl e, s, h\<lparr>dh_world := w\<rparr>)
      | (Inr d, w) \<Rightarrow>
          (return (pool_next s), s\<lparr>pool_next := Suc (pool_next s)\<rparr>,
           h\<lparr>dh_objects := (dh_objects h)(pool_next s \<mapsto> d), dh_world := w\<rparr>))"

definition ping_object :: "'w connector \<Rightarrow> nat \<Rightarrow> 'w conn_heap \<Rightarrow> bool \<times> 'w conn_heap" where
  "ping_object cn c h =
     (case dh_objects h c of
        None \<Rightarrow> (False, h)
      | Some d \<Rightarrow> (case ping cn d (dh_world h) of (b, w) \<Rightarrow> (b, h\<lparr>dh_world := w\<rparr>)))"

definition reconnect_object :: "'w connector \<Rightarrow> nat \<Rightarrow> 'w conn_heap \<Rightarrow> unit result \<times> 'w conn_heap" where
  "reconnect_object cn c h =
     (case dh_objects h c of
        None \<Rightarrow> (throw (Db_exception ''Database connection failed''), h)
      | Some d \<Rightarrow>
          (case reconnect cn d (dh_world h) of
             (r, d1, w) \<Rightarrow> (r, h\<lparr>dh_objects := (dh_objects h)(c \<mapsto> d1), dh_world := w\<rparr>)))"

definition drop_object :: "'w connector \<Rightarrow> nat \<Rightarrow> 'w conn_heap \<Rightarrow> 'w conn_heap" where
  "drop_object cn c h =
     (case dh_objects h c of
        None \<Rightarrow> h
      | Some d \<Rightarrow> h\<lparr>dh_objects := (dh_objects h)(c := None), dh_world := destroy_connection cn d (dh_world h)\<rparr>)"

definition DbConnection_ops :: "'w connector \<Rightarrow> 'w conn_heap connection_ops" where
  "DbConnection_ops cn =
     \<lparr>co_create = create_object cn, co_ping = ping_object cn, co_reconnect = reconnect_object cn,
      co_drop = drop_object cn\<rparr>"

definition open_with :: "string \<times> string \<times> string \<times> string \<Rightarrow> 'w conn_heap \<Rightarrow> bool" where
  "open_with k h \<longleftrightarrow> (\<forall>c d. dh_objects h c = Some d \<longrightarrow>
     dc_conn d \<noteq> None \<and> (dc_host d, dc_user d, dc_password d, dc_database d) = k)"

lemma reconnect_failed: "reconnect cn d w = (Inl e, d1, w1) \<Longrightarrow> e = Db_exception ''Database connection failed''"
  by (auto simp: reconnect_def Let_def split: prod.splits option.splits)

lemma reconnect_fields:
  "reconnect cn d w = (r, d1, w1) \<Longrightarrow>
     (dc_host d1, dc_user d1, dc_password d1, dc_database d1) = (dc_host d, dc_user d, dc_password d, dc_database d) \<and>
     (dc_conn d1 = None \<longrightarrow> r \<noteq> return () \<and> dc_conn d = None)"
  by (auto simp: reconnect_def Let_def split: prod.splits option.splits)

lemma DbConnection_result:
  assumes "DbConnection cn h u p n w = (r, w1)"
  shows "r = Inl e \<Longrightarrow> e = Db_exception ''Database connection failed''"
    and "r = Inr d \<Longrightarrow> dc_conn d \<noteq> None \<and> (dc_host d, dc_user d, dc_password d, dc_database d) = (h, u, p, n)"
  using assms
  by (auto simp: DbConnection_def dest: reconnect_failed split: prod.splits sum.splits)
    (auto dest!: reconnect_fields)

interpretation mysql: connection_provider "DbConnection_ops cn" "\<lambda>h h'. dh_objects h' = dh_objects h"
  "\<lambda>h. dom (dh_objects h)" open_with for cn
proof (unfold_locales, goal_cases)
  case (1 s h c s' h')
  then show ?case by (auto simp: DbConnection_ops_def create_object_def split: prod.splits sum.splits)
next
  case (2 s h e s' h')
  then show ?case
    by (auto simp: DbConnection_ops_def create_object_def dest: DbConnection_result(1) split: prod.splits sum.splits)
next
  case (3 s h r s' h')
  then show ?case
    by (auto simp: DbConnection_ops_def create_object_def open_with_def credentials_def dest: DbConnection_result(2)
        split: prod.splits sum.splits if_splits)
next
  case (4 c h b h' k)
  then show ?case by (auto simp: DbConnection_ops_def ping_object_def open_with_def split: option.splits prod.splits)
next
  case (5 c h u h' k)
  show ?case
  proof (cases "dh_objects h c")
    case (Some d)
    obtain r d1 w where q: "reconnect cn d (dh_world h) = (r, d1, w)" by (metis prod_cases3)
    with 5 Some have h': "h' = h\<lparr>dh_objects := (dh_objects h)(c \<mapsto> d1), dh_world := w\<rparr>"
      by (simp add: DbConnection_ops_def reconnect_object_def)
    have "open_with k h'" if k: "open_with k h"
    proof -
      have "dc_conn d \<noteq> None" "(dc_host d, dc_user d, dc_password d, dc_database d) = k"
        using k Some unfolding open_with_def by blast+
      with k reconnect_fields [OF q] show ?thesis unfolding open_with_def h' by auto
    qed
    with Some show ?thesis by (auto simp: h')
  qed (use 5 in \<open>simp add: DbConnection_ops_def reconnect_object_def\<close>)
next
  case (6 c h)
  then show ?case by (auto simp: DbConnection_ops_def drop_object_def split: option.splits)
next
  case (7 k h c)
  then show ?case by (auto simp: DbConnection_ops_def drop_object_def open_with_def split: option.splits)
qed (auto simp: open_with_def)

section \<open>Properties\<close>

lemma ping_object_answers:
  assumes "ping_object cn c h0 = (True, h)"
  shows "\<exists>d n w. dh_objects h c = Some d \<and> dc_conn d = Some n \<and> cn_has_row cn n ''SELECT 1'' w = (Some True, dh_world h)"
proof -
  from assms obtain d w where d: "dh_objects h0 c = Some d" "ping cn d (dh_world h0) = (True, w)" "h = h0\<lparr>dh_world := w\<rparr>"
    by (auto simp: ping_object_def split: option.splits prod.splits)
  then obtain n where n: "dc_conn d = Some n" by (auto simp: ping_def split: option.splits)
  with d(2) have "cn_has_row cn n ''SELECT 1'' (dh_world h0) = (Some True, w)"
    by (auto simp: ping_def split: prod.splits option.splits)
  with n d show ?thesis by auto
qed

text \<open>
  C32. The pool put on real connections refines the pool of critical sections. In every interleaving of start-up, borrowers, failures,
  returns, shutdown and outside events, whatever the database answers, the accounting is that of a run of the
  pool alone; the connection objects that exist are exactly those that are idle, checked or leased, so none leaks and none is destroyed
  while somebody has it; every one is open, with the credentials the pool was given; and a connection handed out has just
  answered \<^verbatim>\<open>SELECT 1\<close>, as the last thing that happened on it.
\<close>

theorem pool_on_connections:
  assumes y: "db_reachable (DbConnection_ops cn) (\<lambda>h h'. dh_objects h' = dh_objects h) \<lparr>dh_objects = Map.empty, dh_world = w0\<rparr> y"
  shows "pool_reachable (ds_system y) \<and>
    dom (dh_objects (ds_objects y)) = set_mset (mset (pool_idle (ds_pool y)) + held (sys_checking (ds_system y)) + sys_leased (ds_system y)) \<and>
    (\<forall>c d. dh_objects (ds_objects y) c = Some d \<longrightarrow> dc_conn d \<noteq> None \<and> dc_host d = pool_host (ds_pool y) \<and>
       dc_user d = pool_user (ds_pool y) \<and> dc_password d = pool_password (ds_pool y) \<and> dc_database d = pool_database (ds_pool y)) \<and>
    (\<forall>conn c s h. conn \<in># sys_checking (ds_system y) \<and>
       checkout (DbConnection_ops cn) conn (ds_pool y) (ds_objects y) = (Inr c, s, h) \<longrightarrow>
       (\<exists>d n w. dh_objects h c = Some d \<and> dc_conn d = Some n \<and> cn_has_row cn n ''SELECT 1'' w = (Some True, dh_world h)))"
proof -
  have law: "pool_reachable (ds_system y)" "dom (dh_objects (ds_objects y)) = set_mset (known (ds_system y))"
    "open_with (credentials (ds_pool y)) (ds_objects y)"
    using mysql.db_reachable_law [OF y] by simp_all
  have answered: "\<exists>d n w. dh_objects h c = Some d \<and> dc_conn d = Some n \<and> cn_has_row cn n ''SELECT 1'' w = (Some True, dh_world h)"
    if c: "conn \<in># sys_checking (ds_system y)" and r: "checkout (DbConnection_ops cn) conn (ds_pool y) (ds_objects y) = (Inr c, s, h)"
    for conn c s h
  proof -
    note ok = pool_reachable_ok [OF law(1)]
    have "set_option conn \<subseteq> dom (dh_objects (ds_objects y))" using known_without_checked(2) [OF ok c] law(2) by simp
    moreover have "\<forall>c\<in>dom (dh_objects (ds_objects y)). c < pool_next (ds_pool y)" using ok by (simp add: law(2) pool_ok_def)
    ultimately obtain h0 where "ping_object cn c h0 = (True, h)"
      using mysql.checkout_law [OF r] by (auto simp: DbConnection_ops_def)
    then show ?thesis by (rule ping_object_answers)
  qed
  from law answered show ?thesis unfolding known_def open_with_def credentials_def by auto
qed

definition willing_connector :: "unit connector" where
  "willing_connector = \<lparr>cn_connect = (\<lambda>_ w. (Some (Some 5), w)), cn_execute = (\<lambda>_ _ w. (Some (), w)),
     cn_has_row = (\<lambda>_ _ w. (Some True, w)), cn_getAutoCommit = (\<lambda>_ w. (Some True, w)),
     cn_rollback = (\<lambda>_ w. (Some (), w)), cn_setAutoCommit = (\<lambda>_ _ w. (Some (), w))\<rparr>"

definition started_pool :: "unit conn_heap db_system" where
  "started_pool =
     (let y = \<lparr>ds_system = new_system, ds_objects = \<lparr>dh_objects = Map.empty, dh_world = ()\<rparr>\<rparr>
      in case init_objects (DbConnection_ops willing_connector) ''h'' ''u'' ''p'' ''d'' 2 (ds_pool y) (ds_objects y) of
           (_, s, h) \<Rightarrow> update_pool s h id y)"

theorem pool_on_connections_witness:
  "pool_reachable (ds_system started_pool) \<and> pool_idle (ds_pool started_pool) = [0, 1] \<and>
   dom (dh_objects (ds_objects started_pool)) = {0, 1} \<and>
   dc_host (the (dh_objects (ds_objects started_pool) 0)) = ''h''"
proof -
  let ?y = "\<lparr>ds_system = new_system, ds_objects = \<lparr>dh_objects = Map.empty, dh_world = ()\<rparr>\<rparr>"
  obtain r s h where i: "init_objects (DbConnection_ops willing_connector) ''h'' ''u'' ''p'' ''d'' 2 (ds_pool ?y) (ds_objects ?y) = (r, s, h)"
    by (metis prod_cases3)
  have st: "started_pool = update_pool s h id ?y" unfolding started_pool_def Let_def i by simp
  have y: "db_reachable (DbConnection_ops willing_connector) (\<lambda>h h'. dh_objects h' = dh_objects h)
      \<lparr>dh_objects = Map.empty, dh_world = ()\<rparr> started_pool"
    unfolding st by (rule dreach_step [OF dreach_init dstep_init [OF i]])
  have "pool_idle (ds_pool started_pool) = [0, 1]" "pool_host (ds_pool started_pool) = ''h''"
    "sys_checking (ds_system started_pool) = {#}" "sys_leased (ds_system started_pool) = {#}"
    using i by (auto simp: st update_pool_def new_system_def new_pool_def init_objects_def DbConnection_ops_def create_object_def
        DbConnection_def reconnect_def willing_connector_def numeral_2_eq_2)
  with pool_on_connections [OF y] have r: "pool_reachable (ds_system started_pool)" "dom (dh_objects (ds_objects started_pool)) = {0, 1}"
    and c: "\<And>c d. dh_objects (ds_objects started_pool) c = Some d \<Longrightarrow> dc_host d = ''h''" by auto
  from r(2) obtain d where "dh_objects (ds_objects started_pool) 0 = Some d" by blast
  with c r \<open>pool_idle (ds_pool started_pool) = [0, 1]\<close> show ?thesis by simp
qed

end
