(* ===== verification/Session_Id.thy ===== *)
theory Session_Id
  imports Cpp_Prelude "HOL-Library.Word"
begin

text \<open>
  \<^verbatim>\<open>AIApps/ChatServer/src/AIUtil/AISessionIdGenerator.cpp\<close> and its header: identifiers made of the system clock and the generator
  of the C library, which is a parameter. Nothing in the server calls it any more (conversations get
  their identifiers from \<^verbatim>\<open>secureId\<close>, theory \<open>Chat_Exchange\<close>); the theorem shows how little of an identifier is random.
\<close>

unbundle bit_operations_syntax

record 'g libc_rand =
  lr_srand :: "32 word \<Rightarrow> 'g \<Rightarrow> 'g"
  lr_rand :: "'g \<Rightarrow> nat \<times> 'g"

definition AISessionIdGenerator :: "'g libc_rand \<Rightarrow> 64 word \<Rightarrow> 'g \<Rightarrow> 'g" where
  "AISessionIdGenerator lr time g = lr_srand lr (ucast time) g"

definition generate_id :: "'g libc_rand \<Rightarrow> 64 word \<Rightarrow> 'g \<Rightarrow> string \<times> 'g" where
  "generate_id lr now g =
     (case lr_rand lr g of
        (r, g1) \<Rightarrow>
          let randVal = of_nat (r mod 100000) :: 64 word; rawId = now XOR randVal
          in (to_string_int (sint rawId), g1))"

lemma to_string_int_inject: "to_string_int i = to_string_int j \<longleftrightarrow> i = j"
proof -
  have minus: "to_string n \<noteq> CHR ''-'' # s" for n s
    using to_string_digits [of n] by (auto simp: is_digit_def)
  then have "CHR ''-'' # s \<noteq> to_string n" for n s by metis
  with minus show ?thesis by (auto simp: to_string_int_def to_string_inject)
qed

lemma unat_small: "r < 2 ^ 17 \<Longrightarrow> unat (of_nat r :: 64 word) = r"
  by (simp add: unat_of_nat)

lemma high_bits_kept:
  assumes "r < 2 ^ 17"
  shows "drop_bit 17 (now XOR of_nat r :: 64 word) = drop_bit 17 now"
proof -
  have "unat (drop_bit 17 (of_nat r :: 64 word)) = drop_bit 17 (unat (of_nat r :: 64 word))"
    by (simp only: unat_drop_bit_eq)
  also have "\<dots> = 0" unfolding unat_small [OF assms] using assms by (simp add: drop_bit_eq_div)
  finally have "drop_bit 17 (of_nat r :: 64 word) = 0" by (simp only: unat_eq_0)
  then show ?thesis by (simp add: drop_bit_xor)
qed

text \<open>
  An identifier is the clock with at most its low 17 bits changed. At one reading of the clock two
  identifiers are equal exactly when the generator's values are equal modulo 100000, so at most 100000 of them differ.
\<close>

theorem generate_id_near_clock:
  assumes "lr_rand lr g = (r, g1)" and "lr_rand lr g' = (r', g1')"
  shows "(\<exists>rawId. fst (generate_id lr now g) = to_string_int (sint rawId) \<and> drop_bit 17 rawId = drop_bit 17 now) \<and>
    (fst (generate_id lr now g) = fst (generate_id lr now g') \<longleftrightarrow> r mod 100000 = r' mod 100000)"
proof -
  have lt: "x mod 100000 < 2 ^ 17" for x :: nat
    by (rule order.strict_trans [OF mod_less_divisor]) simp_all
  have inj: "(of_nat (x mod 100000) :: 64 word) = of_nat (y mod 100000) \<longleftrightarrow> x mod 100000 = y mod 100000" for x y :: nat
    using unat_small [OF lt [of x]] unat_small [OF lt [of y]] by metis
  have cancel: "now XOR (now XOR a) = a" for a :: "64 word" by (simp flip: xor.assoc)
  have x: "now XOR a = now XOR b \<longleftrightarrow> a = b" for a b :: "64 word"
    using arg_cong [of "now XOR a" "now XOR b" "\<lambda>z. now XOR z"] unfolding cancel by blast
  have si: "sint a = sint b \<longleftrightarrow> a = b" for a b :: "64 word" by (auto intro: signed_word_eqI)
  from high_bits_kept [OF lt, of now r] assms show ?thesis
    by (auto simp: generate_id_def Let_def to_string_int_inject si x inj)
qed

end
