(* ===== verification/Spec2Isabelle.thy ===== *)
theory Spec2Isabelle
  imports Chat_Wire Chat_Persistence Chat_Login MQ_Channels MQ_Setup Db_Access Session_Id
begin

text \<open>
  \<^bold>\<open>A chat service in C++: its HTTP framework and its application.\<close>

  The repository has two parts. \<^verbatim>\<open>HttpServer/\<close> is a framework on top of muduo: an incremental request parser, responses, a
  router, middlewares, sessions, TLS, password hashing and a pool of database connections. \<^verbatim>\<open>AIApps/ChatServer/\<close> is the
  application: accounts, conversations with language models (remote providers or a local one), a queue through
  which finished exchanges reach the database, speech, and recognition of uploaded images.

  A request travels through \<^verbatim>\<open>HttpServer::onMessage\<close>, which feeds the bytes of a connection to \<^verbatim>\<open>HttpContext::parseRequest\<close>, calls
  \<^verbatim>\<open>onRequest\<close> for each complete request, which runs the middlewares before, \<^verbatim>\<open>Router::route\<close>, the handler and the middlewares
  after, and serialises the response. A handler finds the session of the request (\<^verbatim>\<open>SessionManager::getSession\<close>), the conversation in
  the maps of \<^verbatim>\<open>ChatServer\<close>, and lets \<^verbatim>\<open>AIHelper\<close> ask a model; the exchange is published with \<^verbatim>\<open>MQManager\<close>, and the consumer
  in \<^verbatim>\<open>main.cpp\<close> writes what the broker delivers to MySQL, from where \<^verbatim>\<open>readDataFromMySQL\<close> restores it at the next start.

  \<^bold>\<open>Theories and sources.\<close> Definitions keep the names of the functions they translate; a name that is taken has a prefix or
  suffix (\<open>resp_setBody\<close>, \<open>mq_connect\<close>). Each theory says in its first block what it models.

  \<^item> \<open>Cpp_Prelude\<close>: exceptions and results, \<^verbatim>\<open>std::string\<close>, decimal numbers, \<^verbatim>\<open>std::map\<close> and \<^verbatim>\<open>std::unordered_map\<close> (locale \<open>keyed_map\<close>, two
    interpretations). \<open>Cpp_Double\<close>: rounding of \<^verbatim>\<open>double\<close>. \<open>Json_Lib\<close>: the interface of the JSON library.
  \<^item> \<open>Http_Request\<close>, \<open>Http_Context\<close>, \<open>Http_Stages\<close>, \<open>Http_Response\<close>, \<open>Middleware\<close>, \<open>Router\<close>, \<open>Http_Server\<close>, \<open>Ssl\<close>, \<open>Http_Connections\<close>: the files of the same names under
    \<^verbatim>\<open>HttpServer/\<close>, the last one \<^verbatim>\<open>HttpServer::start\<close>, the event loop over any number of connections. The parser is total on what the server gives it and independent of how bytes are cut into messages; so are
    the answers of the server; a finished request obeys the framing rules, and a serialised response has exactly one framing;
    dispatch refines its specification; handlers only see well-typed requests; no client can stop the event loop (only a handler that itself
    crashes can) or disturb another connection; with TLS enabled nothing is served. The locale \<open>served_state\<close> carries an invariant of an application from its
    callback to the event loop.
  \<^item> \<open>Session\<close>, \<open>Password_Util\<close>, \<open>Db_Pool\<close>, \<open>Db_Connection\<close>, \<open>Db_Access\<close>: \<^verbatim>\<open>HttpServer/src/session\<close> and \<^verbatim>\<open>HttpServer/src/utils\<close>. Interleavings are sequences of critical
    sections (setting a session value is two of them); the invariants (capacity of the session store, accounting of connections) hold in every reachable state. The locale
    \<open>session_backend\<close> is what the session manager needs of a storage and of what is stored in it, interpreted on the one in memory; \<open>connection_provider\<close>
    is what the pool needs of connections, interpreted on \<^verbatim>\<open>DbConnection\<close>, and the composition refines the pool alone.
  \<^item> \<open>AI_Strategy\<close>, \<open>AI_Stream\<close>, \<open>AI_Config\<close>, \<open>Gemma_Pool\<close>, \<open>Chat_Exchange\<close>, \<open>MQ_Manager\<close>, \<open>MQ_Channels\<close>, \<open>MQ_Setup\<close>, \<open>AI_Helper\<close>: \<^verbatim>\<open>AIApps/ChatServer/src/AIUtil\<close>. A turn of a
    conversation is committed with exactly one queue message or changes nothing; the queue client gives up a message only when the broker
    confirms it, acknowledges a delivery only when its work is done or its replacement confirmed, keeps
    its bounds, always recovers and publishes only where its queues are declared; the local model answers in the context of exactly the supplied
    history, as the content of its cache shows.
  \<^item> \<open>Base64\<close>, \<open>Image_Resource\<close>, \<open>Image_Predict\<close>, \<open>Image_Upload\<close>, \<open>Speech\<close>: uploads and speech. The encoder counts in 32 bits and inverts below $2^{32}$ bytes; the header check reads only inside its vector, nothing
    is decoded beyond the budgets (a decoder that breaks down outside of them makes no difference), and a prediction is the first largest output with a confidence of at most one.
  \<^item> \<open>Chat_Server\<close>, \<open>Chat_Handlers\<close>, \<open>Chat_Security\<close>, \<open>Chat_Login\<close>, \<open>Chat_Persistence\<close>, \<open>Chat_App\<close>, \<open>Chat_Net\<close>, \<open>Chat_Wire\<close>: \<^verbatim>\<open>ChatServer.cpp\<close>, \<^verbatim>\<open>handlers/*.cpp\<close>, \<^verbatim>\<open>main.cpp\<close> and what holds of the whole:
    clients that are not logged in are refused on every route that needs a login, image uploads included, users are separated, a login needs the password and then lasts, the state
    is well formed in every state the service reaches (\<open>service_reachable\<close> interleaves requests, streaming threads and events), and
    a conversation survives a restart. \<open>Chat_Net\<close> is the whole program on the network: bytes on any number of connections lead only to
    states the machine of whole requests has; \<open>Chat_Wire\<close> shows that an answer goes to the connection that asked. \<open>Session_Id\<close>: the unused generator of identifiers.

  \<^bold>\<open>How the code is represented.\<close> State is passed explicitly; objects that several places point to (sessions, conversations) live in a heap
  from addresses to records. An exception is a value of \<open>cpp_exn\<close> or, for handlers, of \<open>outcome\<close>; undefined behaviour (a null
  pointer, a read outside an array, the constant \<^verbatim>\<open>operator[]\<close> of a missing JSON key) is \<open>None\<close> or \<open>Crashed\<close>, so that its absence can be
  proved. A detached thread is a job in the state that may run at any time. Integers are words where the code depends on
  their width, and unbounded with the bounds written out elsewhere. A mutex makes an operation one step.

  \<^bold>\<open>Loops.\<close> Structural recursion and \<^theory_text>\<open>function\<close> with a measure, where the code terminates for every argument. \<open>parseRequest\<close>, \<open>serve_loop\<close>, the
  loop of the Base64 encoder, the recursion of the TLS callbacks, the loop that flushes a BIO and the one that inserts line breaks are partial functions whose value \<open>None\<close> is a
  loop that does not end; the theorems show that they return where the code relies on it. Loops the source bounds count as it does (sixty polls
  of the speech service, the attempts to reach the database at start-up); no other bound or fuel was chosen.

  \<^bold>\<open>Parameters.\<close> muduo (\<open>findCRLF\<close>, connections, clock), AMQP-CPP, OpenSSL, nlohmann::json, libcurl, gemma.cpp, the MySQL connector, OpenCV,
  ONNX Runtime, \<^verbatim>\<open>std::exp\<close>, \<^verbatim>\<open>std::regex\<close> beyond path patterns, files, environment, clocks and random numbers are arguments. What is relied on of them is
  stated in \<open>muduo_buffer\<close>, \<open>json_ok\<close>, \<open>services_ok\<close>, \<open>engine_ok\<close>, \<open>engine_content\<close>, \<open>pbkdf2_ok\<close>, \<open>vision_ok\<close>, \<open>message_table\<close>, and the hypotheses on memory BIOs in \<open>Ssl\<close>; each theorem
  with such a hypothesis has a witness with a concrete instance.

  muduo's event loop appears as the steps of \<open>net_step\<close>: it calls the callbacks \<^verbatim>\<open>initialize\<close> sets, one event after the other, with the bytes of
  a connection appended to its input buffer. The server has four such loops; the model takes a callback as one step, as it does a
  critical section, so it says nothing about two handlers that run at once beyond what their locks give. The admission of a queue message
  (the compare-and-exchange on the counter and the task it then puts on the loop) is one step too; between the two the counter of the code is
  ahead by the messages being admitted.

  \<^bold>\<open>Not modelled.\<close> \<^verbatim>\<open>Middleware::setNext\<close>, which nothing calls; log output other than the request log; the text of exceptions thrown by libraries;
  exceptions for exhausted memory; sockets and the listening port below muduo's callbacks; tests, examples, pages, the SQL schema and
  deployment files.
\<close>

end
